(* ===== verification/OC_Prelude.thy ===== *)
theory OC_Prelude
  imports Main "HOL-Library.Word" "HOL-Library.Monad_Syntax"
begin

text \<open>
  Shared vocabulary of the development: the C integer types, memory regions with
  checked access, and the generic lemmas on lists, words and buffers that the component
  theories rest on.

  Pointers are positions in a region. A read outside its region is \<open>None\<close>; a write
  through a possibly null pointer goes to a \<open>cbuf\<close>, which remembers an access past
  the end as \<open>Overrun\<close>. Undefined behaviour of the C code is thus a value of the model.
\<close>

unbundle bit_operations_syntax

named_theorems buf_simps \<open>rewriting writes to memory regions into one splice\<close>
named_theorems byte_simps \<open>reading back bytes of machine integers\<close>

section \<open>Machine integers\<close>

type_synonym u8 = "8 word"
type_synonym u16 = "16 word"
type_synonym u32 = "32 word"
type_synonym u64 = "64 word"
type_synonym bytes = "u8 list"

lemma unat_u8_less [simp]: "unat (x :: u8) < 256"
  by (rule order_less_le_trans [OF unsigned_less]) simp

lemma unat_u16_less [simp]: "unat (x :: u16) < 65536"
  by (rule order_less_le_trans [OF unsigned_less]) simp

lemma unat_u32_less [simp]: "unat (x :: u32) < 4294967296"
  by (rule order_less_le_trans [OF unsigned_less]) simp

lemma unat_of_nat_u8: "unat (of_nat n :: u8) = n mod 256"
  by (simp add: unat_of_nat take_bit_eq_mod)

lemma unat_of_nat_u16: "unat (of_nat n :: u16) = n mod 65536"
  by (simp add: unat_of_nat take_bit_eq_mod)

lemma unat_of_nat_u32: "unat (of_nat n :: u32) = n mod 4294967296"
  by (simp add: unat_of_nat take_bit_eq_mod)

lemma u8_less_iff: "(a :: u8) < b \<longleftrightarrow> unat a < unat b"
  by (simp add: word_less_nat_alt)

lemma unat_u32_diff: "(b :: u32) \<le> a \<Longrightarrow> unat (a - b) = unat a - unat b"
  by (simp add: unat_sub word_le_nat_alt)

lemma take_bit_self_iff: "take_bit k x = x \<longleftrightarrow> unat x < 2 ^ k" for x :: "'a :: len word"
proof -
  have "take_bit k x = x \<longleftrightarrow> unat (take_bit k x) = unat x"
    by (metis unsigned_word_eqI)
  also have "unat (take_bit k x) = take_bit k (unat x)"
    by (rule unsigned_take_bit_eq)
  finally show ?thesis by (simp add: take_bit_nat_eq_self_iff)
qed

lemma unat_byte_of_u32: "unat (ucast (drop_bit k (v :: u32)) :: u8) = unat v div 2 ^ k mod 256"
proof -
  have "unat (ucast w :: u8) = unat w mod 256" for w :: u32
    using unat_of_nat_u8 [of "unat w"] by simp
  then show ?thesis by (metis drop_bit_eq_div unat_drop_bit_eq)
qed

lemma unat_low_byte_u32: "unat (ucast (v :: u32) :: u8) = unat v mod 256"
  using unat_byte_of_u32 [of 0 v] by simp

lemma base256_split:
  "n = 256 * (n div 256) + n mod 256"
  "n div 256 = 256 * (n div 65536) + n div 256 mod 256"
  "n div 65536 = 256 * (n div 16777216) + n div 65536 mod 256" for n :: nat
  using mult_div_mod_eq [of 256 "n div 256"] mult_div_mod_eq [of 256 "n div 65536"]
  by (simp_all add: div_mult2_eq [symmetric])

lemma base256_sum:
  "16777216 * (n div 16777216) + 65536 * (n div 65536 mod 256) + 256 * (n div 256 mod 256) + n mod 256 = n"
  "65536 * (n div 65536) + 256 * (n div 256 mod 256) + n mod 256 = n" for n :: nat
  using base256_split [of n] by linarith+

section \<open>Checked reads\<close>

definition rd :: "'a list \<Rightarrow> nat \<Rightarrow> 'a option" where
  "rd mem i = (if i < length mem then Some (mem ! i) else None)"

definition rd_slice :: "'a list \<Rightarrow> nat \<Rightarrow> nat \<Rightarrow> 'a list option" where
  "rd_slice mem i n = (if i + n \<le> length mem then Some (take n (drop i mem)) else None)"

lemma rd_Some_iff: "rd mem i = Some x \<longleftrightarrow> i < length mem \<and> mem ! i = x"
  by (simp add: rd_def)

lemma rd_None_iff [simp]: "rd mem i = None \<longleftrightarrow> length mem \<le> i"
  by (auto simp: rd_def)

lemma rd_slice_Some_iff:
  "rd_slice mem i n = Some xs \<longleftrightarrow> i + n \<le> length mem \<and> xs = take n (drop i mem)"
  by (auto simp: rd_slice_def)

lemma rd_slice_None_iff [simp]: "rd_slice mem i n = None \<longleftrightarrow> length mem < i + n"
  by (auto simp: rd_slice_def)

lemma rd_from_drop: "drop i mem = x # rest \<Longrightarrow> rd mem i = Some x"
  by (auto simp: rd_def) (metis drop_all list.simps(3) not_le nth_via_drop)+

lemma rd_slice_from_drop:
  "drop i mem = xs @ rest \<Longrightarrow> i \<le> length mem \<Longrightarrow> rd_slice mem i (length xs) = Some xs"
  by (auto simp: rd_slice_def dest: arg_cong [where f = length])

lemma drop_Suc_from_drop: "drop i mem = x # rest \<Longrightarrow> drop (Suc i) mem = rest"
  by (metis drop_Suc list.sel(3) tl_drop)

lemma drop_add_from_drop: "drop i mem = xs @ rest \<Longrightarrow> drop (i + length xs) mem = rest"
  by (metis append_eq_conv_conj add.commute drop_drop)

lemma length_from_drop: "drop i mem = xs \<Longrightarrow> xs \<noteq> [] \<Longrightarrow> length mem = i + length xs"
  by (metis add_diff_inverse_nat drop_all length_drop linorder_not_le nat_less_le)

section \<open>Writes\<close>

text \<open>
  \<open>splice i xs mem\<close> overwrites the cells from \<open>i\<close> on; \<open>wr_mem\<close> is one store and
  \<open>wr_mem_bytes\<close> a \<open>memcpy\<close> into a region, both checked.
\<close>

definition splice :: "nat \<Rightarrow> 'a list \<Rightarrow> 'a list \<Rightarrow> 'a list" where
  "splice i xs mem = take i mem @ xs @ drop (i + length xs) mem"

definition wr_mem :: "'a list \<Rightarrow> nat \<Rightarrow> 'a \<Rightarrow> 'a list option" where
  "wr_mem mem i v = (if i < length mem then Some (mem[i := v]) else None)"

definition wr_mem_bytes :: "'a list \<Rightarrow> nat \<Rightarrow> 'a list \<Rightarrow> 'a list option" where
  "wr_mem_bytes mem i xs = (if i + length xs \<le> length mem then Some (splice i xs mem) else None)"

lemma length_splice [simp]: "i + length xs \<le> length mem \<Longrightarrow> length (splice i xs mem) = length mem"
  by (simp add: splice_def)

lemma splice_Nil [simp]: "splice i [] mem = mem"
  by (simp add: splice_def)

lemma list_update_splice: "i < length mem \<Longrightarrow> mem[i := v] = splice i [v] mem"
  by (simp add: splice_def upd_conv_take_nth_drop)

lemma splice_splice:
  "i + length xs + length ys \<le> length mem \<Longrightarrow>
   splice (i + length xs) ys (splice i xs mem) = splice i (xs @ ys) mem"
  by (simp add: splice_def ac_simps)

lemma drop_splice: "i + length xs \<le> k \<Longrightarrow> i \<le> length mem \<Longrightarrow> drop k (splice i xs mem) = drop k mem"
  by (simp add: splice_def)

lemma take_splice: "k \<le> i \<Longrightarrow> i \<le> length mem \<Longrightarrow> take k (splice i xs mem) = take k mem"
  by (simp add: splice_def min_absorb1)

lemma slice_splice_self:
  "i + length xs \<le> length mem \<Longrightarrow> take (length xs) (drop i (splice i xs mem)) = xs"
  by (simp add: splice_def)

lemma nth_splice:
  "i + length xs \<le> length mem \<Longrightarrow> k < length mem \<Longrightarrow>
   splice i xs mem ! k = (if i \<le> k \<and> k < i + length xs then xs ! (k - i) else mem ! k)"
  by (auto simp: splice_def nth_append)

text \<open>
  A destination that may be null: the serialisers run once with a null buffer to size
  the output and once with the real one.
\<close>

datatype cbuf = NULL | Mem bytes | Overrun

fun wr :: "cbuf \<Rightarrow> nat \<Rightarrow> u8 \<Rightarrow> cbuf" where
  "wr NULL i v = NULL"
| "wr (Mem m) i v = (if i < length m then Mem (m[i := v]) else Overrun)"
| "wr Overrun i v = Overrun"

fun wr_bytes :: "cbuf \<Rightarrow> nat \<Rightarrow> bytes \<Rightarrow> cbuf" where
  "wr_bytes NULL i xs = NULL"
| "wr_bytes (Mem m) i xs =
     (if xs = [] then Mem m else if i + length xs \<le> length m then Mem (splice i xs m) else Overrun)"
| "wr_bytes Overrun i xs = Overrun"

lemma wr_eq_wr_bytes [buf_simps]: "wr b i v = wr_bytes b i [v]"
  by (cases b) (auto simp: list_update_splice)

lemma wr_bytes_wr_bytes [buf_simps]:
  "wr_bytes (wr_bytes b i xs) (i + length xs) ys = wr_bytes b i (xs @ ys)"
  by (cases b) (auto simp: splice_splice ac_simps)

lemma wr_bytes_append:
  "j = i + length xs \<Longrightarrow> wr_bytes (wr_bytes b i xs) j ys = wr_bytes b i (xs @ ys)"
  by (simp add: wr_bytes_wr_bytes)

lemma wr_bytes_Nil [simp]: "wr_bytes b i [] = b"
  by (cases b) auto

lemma wr_bytes_Mem_fits [simp]:
  "i + length xs \<le> length m \<Longrightarrow> wr_bytes (Mem m) i xs = Mem (splice i xs m)"
  by simp

section \<open>Big-endian integers\<close>

text \<open>The value of a big-endian byte sequence, the reading all option parsers share.\<close>

definition be_val :: "bytes \<Rightarrow> nat" where
  "be_val bs = foldl (\<lambda>v b. 256 * v + unat b) 0 bs"

lemma be_val_Nil [byte_simps]: "be_val [] = 0"
  by (simp add: be_val_def)

lemma be_val_snoc [byte_simps]: "be_val (bs @ [b]) = 256 * be_val bs + unat b"
  by (simp add: be_val_def)

lemma be_val_bound: "be_val bs < 256 ^ length bs"
proof (induction bs rule: rev_induct)
  case Nil
  then show ?case by (simp add: byte_simps)
next
  case (snoc b bs)
  have "256 * be_val bs + unat b < 256 * be_val bs + 256" by simp
  also have "\<dots> \<le> 256 * 256 ^ length bs" using snoc by simp
  finally show ?case by (simp add: byte_simps)
qed

end
