(* ===== verification/Coap_Packet.thy ===== *)
theory Coap_Packet
  imports OC_Prelude
begin

text \<open>
  The parsed CoAP message (\<open>coap_packet_t\<close>, messaging/coap/coap.h), its option bitmap and
  the field accessors of messaging/coap/coap.c.

  The configuration is that of port/linux/oc_config.h: \<open>OC_BLOCK_WISE\<close>, \<open>OC_TCP\<close>,
  \<open>OC_CLIENT\<close>, \<open>OC_SERVER\<close>. The struct members that only code under \<open>#if 0\<close> touches
  (proxy and host URIs, If-Match, If-None-Match, Location-Path) are left out.

  A \<open>char\<close> pointer of a packet is \<open>Null\<close>, an offset into the received message, or the
  memory object of the caller's string from the pointer on (terminator included).
\<close>

section \<open>Constants (constants.h, conf.h, coap\_signal.h, oc\_endpoint.h)\<close>

abbreviation (input) "COAP_HEADER_LEN \<equiv> 4 :: nat"
abbreviation (input) "COAP_TOKEN_LEN \<equiv> 8 :: nat"
abbreviation (input) "COAP_ETAG_LEN \<equiv> 8 :: nat"
abbreviation (input) "COAP_PAYLOAD_MARKER_LEN \<equiv> 1 :: nat"
abbreviation (input) "COAP_TCP_DEFAULT_HEADER_LEN \<equiv> 2 :: nat"

definition COAP_MAX_HEADER_SIZE :: nat where
  "COAP_MAX_HEADER_SIZE = 4 + COAP_TOKEN_LEN + 3 + COAP_ETAG_LEN + 4 + 4 + 80"

text \<open>\<open>OC_BLOCK_WISE_SET_MTU\<close> is 700, so the macro selects the block size from 589.\<close>

definition block_size_of :: "nat \<Rightarrow> nat" where
  "block_size_of m =
     (if m < 32 then 16 else if m < 64 then 32 else if m < 128 then 64 else if m < 256 then 128
      else if m < 512 then 256 else if m < 1024 then 512 else if m < 2048 then 1024 else 2048)"

definition OC_BLOCK_SIZE :: nat where
  "OC_BLOCK_SIZE = block_size_of (700 - COAP_MAX_HEADER_SIZE)"

lemma COAP_MAX_HEADER_SIZE_val: "COAP_MAX_HEADER_SIZE = 111"
  by (simp add: COAP_MAX_HEADER_SIZE_def)

lemma OC_BLOCK_SIZE_val: "OC_BLOCK_SIZE = 512"
  by (simp add: OC_BLOCK_SIZE_def block_size_of_def COAP_MAX_HEADER_SIZE_def)

type_synonym coap_status = u8

abbreviation (input) "COAP_NO_ERROR \<equiv> 0 :: coap_status"
abbreviation (input) "BAD_REQUEST_4_00 \<equiv> 128 :: coap_status"
abbreviation (input) "BAD_OPTION_4_02 \<equiv> 130 :: coap_status"
abbreviation (input) "NOT_ACCEPTABLE_4_06 \<equiv> 134 :: coap_status"
abbreviation (input) "UNSUPPORTED_MEDIA_TYPE_4_15 \<equiv> 143 :: coap_status"

abbreviation (input) "CSM_7_01 \<equiv> 225 :: u8"
abbreviation (input) "PING_7_02 \<equiv> 226 :: u8"
abbreviation (input) "PONG_7_03 \<equiv> 227 :: u8"
abbreviation (input) "RELEASE_7_04 \<equiv> 228 :: u8"
abbreviation (input) "ABORT_7_05 \<equiv> 229 :: u8"

abbreviation (input) "COAP_OPTION_ETAG \<equiv> 4 :: u32"
abbreviation (input) "COAP_OPTION_OBSERVE \<equiv> 6 :: u32"
abbreviation (input) "COAP_OPTION_URI_PORT \<equiv> 7 :: u32"
abbreviation (input) "COAP_OPTION_URI_PATH \<equiv> 11 :: u32"
abbreviation (input) "COAP_OPTION_CONTENT_FORMAT \<equiv> 12 :: u32"
abbreviation (input) "COAP_OPTION_MAX_AGE \<equiv> 14 :: u32"
abbreviation (input) "COAP_OPTION_URI_QUERY \<equiv> 15 :: u32"
abbreviation (input) "COAP_OPTION_ACCEPT \<equiv> 17 :: u32"
abbreviation (input) "COAP_OPTION_LOCATION_QUERY \<equiv> 20 :: u32"
abbreviation (input) "COAP_OPTION_BLOCK2 \<equiv> 23 :: u32"
abbreviation (input) "COAP_OPTION_BLOCK1 \<equiv> 27 :: u32"
abbreviation (input) "COAP_OPTION_SIZE2 \<equiv> 28 :: u32"
abbreviation (input) "COAP_OPTION_SIZE1 \<equiv> 60 :: u32"
abbreviation (input) "OCF_OPTION_ACCEPT_CONTENT_FORMAT_VER \<equiv> 2049 :: u32"
abbreviation (input) "OCF_OPTION_CONTENT_FORMAT_VER \<equiv> 2053 :: u32"

abbreviation (input) "COAP_SIGNAL_OPTION_MAX_MSG_SIZE \<equiv> 2 :: u32"
abbreviation (input) "COAP_SIGNAL_OPTION_BLOCKWISE_TRANSFER \<equiv> 4 :: u32"
abbreviation (input) "COAP_SIGNAL_OPTION_CUSTODY \<equiv> 2 :: u32"
abbreviation (input) "COAP_SIGNAL_OPTION_ALT_ADDR \<equiv> 2 :: u32"
abbreviation (input) "COAP_SIGNAL_OPTION_HOLD_OFF \<equiv> 4 :: u32"
abbreviation (input) "COAP_SIGNAL_OPTION_BAD_CSM \<equiv> 2 :: u32"

abbreviation (input) "APPLICATION_CBOR \<equiv> 60 :: u16"
abbreviation (input) "APPLICATION_VND_OCF_CBOR \<equiv> 10000 :: u16"
abbreviation (input) "OCF_VER_1_0_0 \<equiv> 2048 :: u16"
abbreviation (input) "OIC_VER_1_1_0 \<equiv> 2112 :: u16"

abbreviation (input) "slash \<equiv> 0x2F :: u8"
abbreviation (input) "ampersand \<equiv> 0x26 :: u8"
abbreviation (input) "question_mark \<equiv> 0x3F :: u8"

section \<open>The packet\<close>

datatype coap_transport_type = COAP_TRANSPORT_UDP | COAP_TRANSPORT_TCP

datatype coap_message_type = COAP_TYPE_CON | COAP_TYPE_NON | COAP_TYPE_ACK | COAP_TYPE_RST

primrec type_code :: "coap_message_type \<Rightarrow> u8" where
  "type_code COAP_TYPE_CON = 0"
| "type_code COAP_TYPE_NON = 1"
| "type_code COAP_TYPE_ACK = 2"
| "type_code COAP_TYPE_RST = 3"

definition type_of_code :: "u8 \<Rightarrow> coap_message_type" where
  "type_of_code c = (if c = 0 then COAP_TYPE_CON else if c = 1 then COAP_TYPE_NON
     else if c = 2 then COAP_TYPE_ACK else COAP_TYPE_RST)"

datatype cptr = Null | Buf nat | Obj bytes

record coap_packet =
  transport_type :: coap_transport_type
  version :: u8
  type :: coap_message_type
  code :: u8
  mid :: u16
  token_len :: u8
  token :: bytes
  options :: bytes
  content_format :: u16
  max_age :: u32
  etag_len :: u8
  etag :: bytes
  uri_port :: u16
  location_query_len :: nat
  location_query :: cptr
  uri_path_len :: nat
  uri_path :: cptr
  observe :: u32
  accept :: u16
  block2_num :: u32
  block2_more :: u8
  block2_size :: u16
  block2_offset :: u32
  block1_num :: u32
  block1_more :: u8
  block1_size :: u16
  block1_offset :: u32
  size2 :: u32
  size1 :: u32
  uri_query_len :: nat
  uri_query :: cptr
  max_msg_size :: u32
  blockwise_transfer :: u8
  custody :: u8
  alt_addr :: cptr
  alt_addr_len :: nat
  hold_off :: u32
  bad_csm_opt :: u16
  payload_len :: u32
  payload :: cptr

text \<open>\<open>memset(coap_pkt, 0, sizeof(coap_packet_t))\<close>: every member zero.\<close>

definition zero_packet :: coap_packet where
  "zero_packet =
     \<lparr>transport_type = COAP_TRANSPORT_UDP, version = 0, type = COAP_TYPE_CON, code = 0, mid = 0,
      token_len = 0, token = replicate COAP_TOKEN_LEN 0, options = replicate 8 0,
      content_format = 0, max_age = 0, etag_len = 0, etag = replicate COAP_ETAG_LEN 0,
      uri_port = 0, location_query_len = 0, location_query = Null, uri_path_len = 0,
      uri_path = Null, observe = 0, accept = 0, block2_num = 0, block2_more = 0,
      block2_size = 0, block2_offset = 0, block1_num = 0, block1_more = 0, block1_size = 0,
      block1_offset = 0, size2 = 0, size1 = 0, uri_query_len = 0, uri_query = Null,
      max_msg_size = 0, blockwise_transfer = 0, custody = 0, alt_addr = Null,
      alt_addr_len = 0, hold_off = 0, bad_csm_opt = 0, payload_len = 0, payload = Null\<rparr>"

section \<open>The option bitmap\<close>

definition set_option_bit :: "bytes \<Rightarrow> u32 \<Rightarrow> bytes" where
  "set_option_bit bm opt =
     bm[unat opt div 8 := (bm ! (unat opt div 8)) OR push_bit (unat opt mod 8) 1]"

definition is_option_bit :: "bytes \<Rightarrow> u32 \<Rightarrow> bool" where
  "is_option_bit bm opt \<longleftrightarrow>
     (bm ! (unat opt div 8)) AND push_bit (unat opt mod 8) 1 \<noteq> (0 :: u8)"

definition SET_OPTION :: "coap_packet \<Rightarrow> u32 \<Rightarrow> coap_packet" where
  "SET_OPTION pkt opt = pkt\<lparr>options := set_option_bit (options pkt) opt\<rparr>"

definition IS_OPTION :: "coap_packet \<Rightarrow> u32 \<Rightarrow> bool" where
  "IS_OPTION pkt opt \<longleftrightarrow> is_option_bit (options pkt) opt"

lemma and_push_bit_one_u8: "n < 8 \<Longrightarrow> ((x :: u8) AND push_bit n 1 \<noteq> 0) \<longleftrightarrow> bit x n"
proof -
  assume "n < 8"
  have "(x AND push_bit n 1 \<noteq> 0) \<longleftrightarrow> (\<exists>k < 8. bit (x AND push_bit n 1) k)"
    by (auto simp: bit_eq_iff dest: bit_imp_le_length)
  also have "\<dots> \<longleftrightarrow> bit x n"
    using \<open>n < 8\<close> by (auto simp: bit_and_iff bit_push_bit_iff bit_1_iff bit_exp_iff)
  finally show ?thesis .
qed

lemma is_option_bit_iff: "is_option_bit bm opt \<longleftrightarrow> bit (bm ! (unat opt div 8)) (unat opt mod 8)"
  using and_push_bit_one_u8 [of "unat opt mod 8"] by (simp add: is_option_bit_def)

lemma length_set_option_bit [simp]: "length (set_option_bit bm opt) = length bm"
  by (simp add: set_option_bit_def)

lemma is_option_set_option_bit:
  assumes "unat opt div 8 < length bm"
  shows "is_option_bit (set_option_bit bm opt) opt' \<longleftrightarrow> opt' = opt \<or> is_option_bit bm opt'"
proof -
  have "unat opt' = unat opt \<longleftrightarrow> unat opt' div 8 = unat opt div 8 \<and> unat opt' mod 8 = unat opt mod 8"
    by (metis div_mult_mod_eq)
  then show ?thesis using assms
    by (cases "unat opt' div 8 = unat opt div 8")
      (auto simp: is_option_bit_iff set_option_bit_def bit_or_iff bit_push_bit_iff bit_1_iff bit_exp_iff
        unsigned_word_eqI)
qed

lemma options_SET_OPTION [simp]: "options (SET_OPTION pkt opt) = set_option_bit (options pkt) opt"
  by (simp add: SET_OPTION_def)

lemma no_option_zero_packet [simp]: "unat opt < 64 \<Longrightarrow> \<not> is_option_bit (options zero_packet) opt"
proof -
  assume "unat opt < 64"
  then have "unat opt div 8 < 8" by auto
  then have "replicate 8 (0 :: u8) ! (unat opt div 8) = 0" by (rule nth_replicate)
  then show ?thesis by (simp add: is_option_bit_iff zero_packet_def)
qed

section \<open>C strings\<close>

text \<open>\<open>strlen\<close> of a memory object: \<open>None\<close> when it holds no terminator.\<close>

fun strlen :: "bytes \<Rightarrow> nat option" where
  "strlen [] = None"
| "strlen (c # cs) = (if c = 0 then Some 0 else map_option Suc (strlen cs))"

text \<open>\<open>while (p[0] == ch) ++p;\<close>, reading \<open>p[0]\<close> each time.\<close>

fun skip_char :: "u8 \<Rightarrow> bytes \<Rightarrow> bytes option" where
  "skip_char ch [] = None"
| "skip_char ch (c # cs) = (if c = ch then skip_char ch cs else Some (c # cs))"

lemma strlen_append_NUL: "0 \<notin> set cs \<Longrightarrow> strlen (cs @ 0 # rest) = Some (length cs)"
  by (induction cs) auto

lemma strlen_SomeD:
  "strlen cs = Some n \<Longrightarrow> n < length cs \<and> cs ! n = 0 \<and> 0 \<notin> set (take n cs)"
  by (induction cs arbitrary: n) (auto split: if_splits)

lemma skip_char_SomeD:
  "skip_char ch cs = Some ds \<Longrightarrow> \<exists>k. cs = replicate k ch @ ds \<and> ds \<noteq> [] \<and> hd ds \<noteq> ch"
proof (induction cs)
  case (Cons c cs)
  show ?case
  proof (cases "c = ch")
    case True
    with Cons obtain k where "cs = replicate k ch @ ds" "ds \<noteq> []" "hd ds \<noteq> ch" by auto
    with True have "c # cs = replicate (Suc k) ch @ ds" by simp
    with \<open>ds \<noteq> []\<close> \<open>hd ds \<noteq> ch\<close> show ?thesis by blast
  next
    case False
    with Cons.prems have "c # cs = replicate 0 ch @ ds" "ds \<noteq> []" "hd ds \<noteq> ch" by auto
    then show ?thesis by blast
  qed
qed simp

section \<open>Accessors\<close>

text \<open>
  A setter returns the packet and the C return value; a getter returns the return value
  and, when it is stored, the out parameter.
\<close>

definition coap_set_status_code :: "coap_packet \<Rightarrow> u32 \<Rightarrow> coap_packet \<times> int" where
  "coap_set_status_code pkt c = (if c \<le> 0xFF then (pkt\<lparr>code := ucast c\<rparr>, 1) else (pkt, 0))"

definition coap_set_token :: "coap_packet \<Rightarrow> bytes \<Rightarrow> nat \<Rightarrow> (coap_packet \<times> int) option" where
  "coap_set_token pkt tok len = do {
     let n = min COAP_TOKEN_LEN len;
     bs \<leftarrow> rd_slice tok 0 n;
     Some (pkt\<lparr>token_len := of_nat n, token := splice 0 bs (token pkt)\<rparr>, int n)
   }"

definition coap_get_header_content_format :: "coap_packet \<Rightarrow> int \<times> u32 option" where
  "coap_get_header_content_format pkt =
     (if \<not> IS_OPTION pkt COAP_OPTION_CONTENT_FORMAT then (0, None)
      else (1, Some (ucast (content_format pkt))))"

definition coap_set_header_content_format :: "coap_packet \<Rightarrow> u32 \<Rightarrow> coap_packet \<times> int" where
  "coap_set_header_content_format pkt fmt =
     (SET_OPTION (pkt\<lparr>content_format := ucast fmt\<rparr>) COAP_OPTION_CONTENT_FORMAT, 1)"

definition coap_get_header_accept :: "coap_packet \<Rightarrow> int \<times> u32 option" where
  "coap_get_header_accept pkt =
     (if \<not> IS_OPTION pkt COAP_OPTION_ACCEPT then (0, None) else (1, Some (ucast (accept pkt))))"

definition coap_set_header_accept :: "coap_packet \<Rightarrow> u32 \<Rightarrow> coap_packet \<times> int" where
  "coap_set_header_accept pkt acc =
     (SET_OPTION (pkt\<lparr>accept := ucast acc\<rparr>) COAP_OPTION_ACCEPT, 1)"

definition coap_set_header_max_age :: "coap_packet \<Rightarrow> u32 \<Rightarrow> coap_packet \<times> int" where
  "coap_set_header_max_age pkt age =
     (SET_OPTION (pkt\<lparr>max_age := age\<rparr>) COAP_OPTION_MAX_AGE, 1)"

definition coap_get_header_etag :: "coap_packet \<Rightarrow> int \<times> bytes option" where
  "coap_get_header_etag pkt =
     (if \<not> IS_OPTION pkt COAP_OPTION_ETAG then (0, None)
      else (int (unat (etag_len pkt)), Some (etag pkt)))"

definition coap_set_header_etag :: "coap_packet \<Rightarrow> bytes \<Rightarrow> nat \<Rightarrow> (coap_packet \<times> int) option" where
  "coap_set_header_etag pkt tag len = do {
     let n = min COAP_ETAG_LEN len;
     bs \<leftarrow> rd_slice tag 0 n;
     Some (SET_OPTION (pkt\<lparr>etag_len := of_nat n, etag := splice 0 bs (etag pkt)\<rparr>) COAP_OPTION_ETAG,
           int n)
   }"

definition coap_get_header_uri_path :: "coap_packet \<Rightarrow> nat \<times> cptr option" where
  "coap_get_header_uri_path pkt =
     (if \<not> IS_OPTION pkt COAP_OPTION_URI_PATH then (0, None)
      else (uri_path_len pkt, Some (uri_path pkt)))"

text \<open>The loop decrements the caller's \<open>path_len\<close>, a \<open>size_t\<close> that may wrap.\<close>

fun strip_slashes :: "bytes \<Rightarrow> u64 \<Rightarrow> (bytes \<times> u64) option" where
  "strip_slashes [] len = None"
| "strip_slashes (c # cs) len =
     (if c = slash then strip_slashes cs (len - 1) else Some (c # cs, len))"

definition coap_set_header_uri_path :: "coap_packet \<Rightarrow> bytes \<Rightarrow> u64 \<Rightarrow> (coap_packet \<times> nat) option" where
  "coap_set_header_uri_path pkt path path_len = do {
     (p, len) \<leftarrow> strip_slashes path path_len;
     Some (SET_OPTION (pkt\<lparr>uri_path := Obj p, uri_path_len := unat len\<rparr>) COAP_OPTION_URI_PATH,
           unat len)
   }"

definition coap_get_header_uri_query :: "coap_packet \<Rightarrow> nat \<times> cptr option" where
  "coap_get_header_uri_query pkt =
     (if \<not> IS_OPTION pkt COAP_OPTION_URI_QUERY then (0, None)
      else (uri_query_len pkt, Some (uri_query pkt)))"

definition coap_set_header_uri_query :: "coap_packet \<Rightarrow> bytes \<Rightarrow> (coap_packet \<times> nat) option" where
  "coap_set_header_uri_query pkt query = do {
     q \<leftarrow> skip_char question_mark query;
     n \<leftarrow> strlen q;
     Some (SET_OPTION (pkt\<lparr>uri_query := Obj q, uri_query_len := n\<rparr>) COAP_OPTION_URI_QUERY, n)
   }"

definition coap_set_header_location_query :: "coap_packet \<Rightarrow> bytes \<Rightarrow> (coap_packet \<times> nat) option" where
  "coap_set_header_location_query pkt query = do {
     q \<leftarrow> skip_char question_mark query;
     n \<leftarrow> strlen q;
     Some (SET_OPTION (pkt\<lparr>location_query := Obj q, location_query_len := n\<rparr>)
             COAP_OPTION_LOCATION_QUERY, n)
   }"

definition coap_get_header_observe :: "coap_packet \<Rightarrow> int \<times> u32 option" where
  "coap_get_header_observe pkt =
     (if \<not> IS_OPTION pkt COAP_OPTION_OBSERVE then (0, None) else (1, Some (observe pkt)))"

definition coap_set_header_observe :: "coap_packet \<Rightarrow> u32 \<Rightarrow> coap_packet \<times> int" where
  "coap_set_header_observe pkt obs =
     (SET_OPTION (pkt\<lparr>observe := obs\<rparr>) COAP_OPTION_OBSERVE, 1)"

definition coap_get_header_block2 :: "coap_packet \<Rightarrow> int \<times> (u32 \<times> u8 \<times> u16 \<times> u32) option" where
  "coap_get_header_block2 pkt =
     (if \<not> IS_OPTION pkt COAP_OPTION_BLOCK2 then (0, None)
      else (1, Some (block2_num pkt, block2_more pkt, block2_size pkt, block2_offset pkt)))"

definition coap_set_header_block2 ::
  "coap_packet \<Rightarrow> u32 \<Rightarrow> u8 \<Rightarrow> u16 \<Rightarrow> coap_packet \<times> int" where
  "coap_set_header_block2 pkt num mr sz =
     (if sz < 16 then (pkt, 0)
      else if sz > 2048 then (pkt, 0)
      else if num > 0x0FFFFF then (pkt, 0)
      else (SET_OPTION (pkt\<lparr>block2_num := num, block2_more := (if mr \<noteq> 0 then 1 else 0),
                             block2_size := sz\<rparr>) COAP_OPTION_BLOCK2, 1))"

definition coap_get_header_block1 :: "coap_packet \<Rightarrow> int \<times> (u32 \<times> u8 \<times> u16 \<times> u32) option" where
  "coap_get_header_block1 pkt =
     (if \<not> IS_OPTION pkt COAP_OPTION_BLOCK1 then (0, None)
      else (1, Some (block1_num pkt, block1_more pkt, block1_size pkt, block1_offset pkt)))"

definition coap_set_header_block1 ::
  "coap_packet \<Rightarrow> u32 \<Rightarrow> u8 \<Rightarrow> u16 \<Rightarrow> coap_packet \<times> int" where
  "coap_set_header_block1 pkt num mr sz =
     (if sz < 16 then (pkt, 0)
      else if sz > 2048 then (pkt, 0)
      else if num > 0x0FFFFF then (pkt, 0)
      else (SET_OPTION (pkt\<lparr>block1_num := num, block1_more := mr, block1_size := sz\<rparr>)
              COAP_OPTION_BLOCK1, 1))"

definition coap_get_header_size2 :: "coap_packet \<Rightarrow> int \<times> u32 option" where
  "coap_get_header_size2 pkt =
     (if \<not> IS_OPTION pkt COAP_OPTION_SIZE2 then (0, None) else (1, Some (size2 pkt)))"

definition coap_set_header_size2 :: "coap_packet \<Rightarrow> u32 \<Rightarrow> coap_packet \<times> int" where
  "coap_set_header_size2 pkt n = (SET_OPTION (pkt\<lparr>size2 := n\<rparr>) COAP_OPTION_SIZE2, 1)"

definition coap_get_header_size1 :: "coap_packet \<Rightarrow> int \<times> u32 option" where
  "coap_get_header_size1 pkt =
     (if \<not> IS_OPTION pkt COAP_OPTION_SIZE1 then (0, None) else (1, Some (size1 pkt)))"

definition coap_set_header_size1 :: "coap_packet \<Rightarrow> u32 \<Rightarrow> coap_packet \<times> int" where
  "coap_set_header_size1 pkt n = (SET_OPTION (pkt\<lparr>size1 := n\<rparr>) COAP_OPTION_SIZE1, 1)"

definition coap_get_payload :: "coap_packet \<Rightarrow> int \<times> cptr" where
  "coap_get_payload pkt =
     (if payload pkt \<noteq> Null then (int (unat (payload_len pkt)), payload pkt) else (0, Null))"

text \<open>
  TCP keeps the whole length (truncated to 32 bits by the member), UDP at most one block;
  \<open>(uint16_t)\<close> is the cast of the source, \<open>(unsigned)OC_BLOCK_SIZE\<close> fits it.
\<close>

definition coap_set_payload :: "coap_packet \<Rightarrow> cptr \<Rightarrow> nat \<Rightarrow> coap_packet \<times> int" where
  "coap_set_payload pkt pay len =
     (let n = (if transport_type pkt = COAP_TRANSPORT_TCP then of_nat len
               else ucast (of_nat (min OC_BLOCK_SIZE len) :: u16))
      in (pkt\<lparr>payload := pay, payload_len := n\<rparr>, int (unat n)))"

definition coap_udp_init_message :: "coap_message_type \<Rightarrow> u8 \<Rightarrow> u16 \<Rightarrow> coap_packet" where
  "coap_udp_init_message ty c m =
     zero_packet\<lparr>transport_type := COAP_TRANSPORT_UDP, type := ty, code := c, mid := m\<rparr>"

definition coap_tcp_init_message :: "u8 \<Rightarrow> coap_packet" where
  "coap_tcp_init_message c =
     zero_packet\<lparr>transport_type := COAP_TRANSPORT_TCP, type := COAP_TYPE_NON, code := c, mid := 0\<rparr>"

text \<open>The message id counter: \<open>current_mid\<close> is the whole state; ids wrap at 16 bits.\<close>

definition coap_init_connection :: "u32 \<Rightarrow> u16" where
  "coap_init_connection random_value = ucast random_value"

definition coap_get_mid :: "u16 \<Rightarrow> u16 \<times> u16" where
  "coap_get_mid current_mid = (current_mid + 1, current_mid + 1)"

definition coap_check_signal_message :: "coap_packet \<Rightarrow> bool" where
  "coap_check_signal_message pkt \<longleftrightarrow>
     code pkt = CSM_7_01 \<or> code pkt = PING_7_02 \<or> code pkt = PONG_7_03 \<or>
     code pkt = RELEASE_7_04 \<or> code pkt = ABORT_7_05"

end
