(* ===== verification/Coap_Serialize.thy ===== *)
theory Coap_Serialize
  imports Coap_Packet
begin

text \<open>
  The CoAP serialiser (messaging/coap/coap.c). Every writer takes a destination that may
  be null, as in the source, where a first pass with \<open>NULL\<close> sizes the options.

  The reference side is a pure encoding of an option list (\<open>enc_opts\<close>); the lemmas show
  that each C routine writes exactly that encoding and returns its length, whatever the
  destination is.
\<close>

section \<open>Local helpers\<close>

text \<open>\<open>coap_log_2\<close>: the do-while loop shifts until the value is zero.\<close>

function log_2_loop :: "u16 \<Rightarrow> u16 \<Rightarrow> u16" where
  "log_2_loop value result =
     (let value = drop_bit 1 value; result = result + 1
      in if value \<noteq> 0 then log_2_loop value result else result)"
  by pat_completeness auto
termination
proof (relation "measure (\<lambda>(v, r). unat v)", simp)
  fix val result x xa :: u16
  assume "x = drop_bit 1 val" "x \<noteq> 0"
  then have "0 < unat x" by (simp add: unat_gt_0)
  moreover from \<open>x = drop_bit 1 val\<close> have "unat x = unat val div 2"
    by (simp add: drop_bit_eq_div unat_div)
  ultimately show "((x, xa), (val, result)) \<in> measure (\<lambda>(v, r). unat v)"
    by simp
qed

declare log_2_loop.simps [simp del]

definition coap_log_2 :: "u16 \<Rightarrow> u16" where
  "coap_log_2 value = log_2_loop value 0 - 1"

definition coap_option_nibble :: "nat \<Rightarrow> u8" where
  "coap_option_nibble value =
     (if value < 13 then of_nat value else if value \<le> 0xFF + 13 then 13 else 14)"

definition coap_set_option_header :: "u32 \<Rightarrow> nat \<Rightarrow> cbuf \<Rightarrow> nat \<Rightarrow> cbuf \<times> nat" where
  "coap_set_option_header delta len buf base =
     (let buf = wr buf base
                  (push_bit 4 (coap_option_nibble (unat delta)) OR coap_option_nibble len);
          (buf, written) =
            (if delta > 268 then
               (wr (wr buf (base + 1) (ucast (drop_bit 8 (delta - 269) AND 0xff)))
                  (base + 2) (ucast ((delta - 269) AND 0xff)), 2)
             else if delta > 12 then (wr buf (base + 1) (ucast (delta - 13)), 1)
             else (buf, 0));
          (buf, written) =
            (if len > 268 then
               (wr (wr buf (base + written + 1) (of_nat (drop_bit 8 (len - 269) AND 0xff)))
                  (base + written + 2) (of_nat ((len - 269) AND 0xff)), written + 2)
             else if len > 12 then (wr buf (base + written + 1) (of_nat (len - 13)), written + 1)
             else (buf, written))
      in (buf, written + 1))"

definition coap_serialize_int_option ::
  "u32 \<Rightarrow> u32 \<Rightarrow> cbuf \<Rightarrow> nat \<Rightarrow> u32 \<Rightarrow> cbuf \<times> nat" where
  "coap_serialize_int_option number current_number buf base value =
     (let i = 0;
          i = (if 0xFF000000 AND value \<noteq> 0 then i + 1 else i);
          i = (if 0xFFFF0000 AND value \<noteq> 0 then i + 1 else i);
          i = (if 0xFFFFFF00 AND value \<noteq> 0 then i + 1 else i);
          i = (if 0xFFFFFFFF AND value \<noteq> 0 then i + 1 else i);
          (buf, i) = coap_set_option_header (number - current_number) i buf base;
          (buf, i) = (if 0xFF000000 AND value \<noteq> 0
                      then (wr buf (base + i) (ucast (drop_bit 24 value)), i + 1) else (buf, i));
          (buf, i) = (if 0xFFFF0000 AND value \<noteq> 0
                      then (wr buf (base + i) (ucast (drop_bit 16 value)), i + 1) else (buf, i));
          (buf, i) = (if 0xFFFFFF00 AND value \<noteq> 0
                      then (wr buf (base + i) (ucast (drop_bit 8 value)), i + 1) else (buf, i));
          (buf, i) = (if 0xFFFFFFFF AND value \<noteq> 0
                      then (wr buf (base + i) (ucast value), i + 1) else (buf, i))
      in (buf, i))"

text \<open>
  The splitting loop of \<open>coap_serialize_array_option\<close>. \<open>array\<close> is the memory object the
  pointer leads to; \<open>j\<close> runs to \<open>length + 1\<close> inclusive and \<open>array[j]\<close> is read each time.
  \<open>None\<close> is a read past the object.
\<close>

function split_loop ::
  "u32 \<Rightarrow> u32 \<Rightarrow> cbuf \<Rightarrow> nat \<Rightarrow> bytes \<Rightarrow> nat \<Rightarrow> u8 \<Rightarrow> nat \<Rightarrow> nat \<Rightarrow> nat \<Rightarrow> (cbuf \<times> nat) option" where
  "split_loop number current_number buf base array len split_char j part_start i =
     (if len + 1 < j then Some (buf, i)
      else case rd array j of
        None \<Rightarrow> None
      | Some c \<Rightarrow>
          if c = split_char \<or> j = len then
            (let temp_length = j - part_start;
                 (buf, n) = coap_set_option_header (number - current_number) temp_length buf (base + i);
                 i = i + n;
                 buf = wr_bytes buf (base + i) (take temp_length (drop part_start array))
             in split_loop number number buf base array len split_char (j + 2) (j + 1)
                  (i + temp_length))
          else split_loop number current_number buf base array len split_char (j + 1) part_start i)"
  by pat_completeness auto
termination
  by (relation "measure (\<lambda>(number, cur, buf, base, array, len, ch, j, ps, i). len + 2 - j)") auto

declare split_loop.simps [simp del]

definition coap_serialize_array_option ::
  "u32 \<Rightarrow> u32 \<Rightarrow> cbuf \<Rightarrow> nat \<Rightarrow> bytes \<Rightarrow> nat \<Rightarrow> u8 \<Rightarrow> (cbuf \<times> nat) option" where
  "coap_serialize_array_option number current_number buf base array len split_char =
     (if split_char \<noteq> 0 then
        split_loop number current_number buf base array len split_char 0 0 0
      else
        (let (buf, i) = coap_set_option_header (number - current_number) len buf base
         in if buf = NULL then Some (buf, i + len)
            else do { bs \<leftarrow> rd_slice array 0 len; Some (wr_bytes buf (base + i) bs, i + len) }))"

section \<open>Serialising a packet's options\<close>

text \<open>
  The state of the macros: the buffer, \<open>option_length\<close> and \<open>current_number\<close>; \<open>option\<close> is
  always \<open>option_array + option_length\<close>. \<open>deref\<close> gives the memory behind a pointer of the
  packet, where \<open>mem\<close> is the message buffer that \<open>Buf\<close> offsets refer to.
\<close>

type_synonym ser_state = "cbuf \<times> nat \<times> u32"

fun deref :: "bytes \<Rightarrow> cptr \<Rightarrow> bytes" where
  "deref mem Null = []"
| "deref mem (Buf n) = drop n mem"
| "deref mem (Obj bs) = bs"

definition COAP_SERIALIZE_INT_OPTION ::
  "coap_packet \<Rightarrow> nat \<Rightarrow> u32 \<Rightarrow> u32 \<Rightarrow> ser_state \<Rightarrow> ser_state option" where
  "COAP_SERIALIZE_INT_OPTION pkt option_array number value = (\<lambda>(buf, len, cur).
     if IS_OPTION pkt number then
       (let (buf, n) = coap_serialize_int_option number cur buf (option_array + len) value
        in Some (buf, len + n, number))
     else Some (buf, len, cur))"

definition COAP_SERIALIZE_STRING_OPTION ::
  "coap_packet \<Rightarrow> nat \<Rightarrow> u32 \<Rightarrow> bytes \<Rightarrow> nat \<Rightarrow> u8 \<Rightarrow> ser_state \<Rightarrow> ser_state option" where
  "COAP_SERIALIZE_STRING_OPTION pkt option_array number array array_len splitter =
     (\<lambda>(buf, len, cur).
     if IS_OPTION pkt number then
       do {
         (buf, n) \<leftarrow> coap_serialize_array_option number cur buf (option_array + len) array
                      array_len splitter;
         Some (buf, len + n, number)
       }
     else Some (buf, len, cur))"

definition COAP_SERIALIZE_BYTE_OPTION ::
  "coap_packet \<Rightarrow> nat \<Rightarrow> u32 \<Rightarrow> bytes \<Rightarrow> nat \<Rightarrow> ser_state \<Rightarrow> ser_state option" where
  "COAP_SERIALIZE_BYTE_OPTION pkt option_array number array array_len =
     COAP_SERIALIZE_STRING_OPTION pkt option_array number array array_len 0"

definition block_value :: "u32 \<Rightarrow> u8 \<Rightarrow> u16 \<Rightarrow> u32" where
  "block_value num more_flag sz =
     (let block = push_bit 4 num;
          block = (if more_flag \<noteq> 0 then block OR 0x8 else block)
      in block OR (0xF AND ucast (coap_log_2 (sz div 16))))"

definition COAP_SERIALIZE_BLOCK_OPTION ::
  "coap_packet \<Rightarrow> nat \<Rightarrow> u32 \<Rightarrow> u32 \<Rightarrow> u8 \<Rightarrow> u16 \<Rightarrow> ser_state \<Rightarrow> ser_state option" where
  "COAP_SERIALIZE_BLOCK_OPTION pkt option_array number num more_flag sz =
     COAP_SERIALIZE_INT_OPTION pkt option_array number (block_value num more_flag sz)"

definition coap_serialize_signal_options ::
  "bytes \<Rightarrow> coap_packet \<Rightarrow> cbuf \<Rightarrow> nat \<Rightarrow> (cbuf \<times> nat) option" where
  "coap_serialize_signal_options mem pkt buf option_array =
     (if code pkt = CSM_7_01 then do {
        s \<leftarrow> COAP_SERIALIZE_INT_OPTION pkt option_array
               COAP_SIGNAL_OPTION_MAX_MSG_SIZE (max_msg_size pkt) (buf, 0, 0);
        s \<leftarrow> (if blockwise_transfer pkt \<noteq> 0 then
                COAP_SERIALIZE_INT_OPTION pkt option_array COAP_SIGNAL_OPTION_BLOCKWISE_TRANSFER
                  (ucast (blockwise_transfer pkt) - ucast (blockwise_transfer pkt)) s
              else Some s);
        Some (fst s, fst (snd s))
      }
      else if code pkt = PING_7_02 \<or> code pkt = PONG_7_03 then do {
        s \<leftarrow> (if custody pkt \<noteq> 0 then
                COAP_SERIALIZE_INT_OPTION pkt option_array COAP_SIGNAL_OPTION_CUSTODY
                  (ucast (custody pkt) - ucast (custody pkt)) (buf, 0, 0)
              else Some (buf, 0, 0));
        Some (fst s, fst (snd s))
      }
      else if code pkt = RELEASE_7_04 then do {
        s \<leftarrow> COAP_SERIALIZE_STRING_OPTION pkt option_array COAP_SIGNAL_OPTION_ALT_ADDR
               (deref mem (alt_addr pkt)) (alt_addr_len pkt) 0 (buf, 0, 0);
        s \<leftarrow> COAP_SERIALIZE_INT_OPTION pkt option_array COAP_SIGNAL_OPTION_HOLD_OFF (hold_off pkt) s;
        Some (fst s, fst (snd s))
      }
      else if code pkt = ABORT_7_05 then do {
        s \<leftarrow> COAP_SERIALIZE_INT_OPTION pkt option_array COAP_SIGNAL_OPTION_BAD_CSM
               (ucast (bad_csm_opt pkt)) (buf, 0, 0);
        Some (fst s, fst (snd s))
      }
      else Some (buf, 0))"

text \<open>The OCF version options that follow an Accept and a Content-Format option.\<close>

definition serialize_version_option ::
  "bool \<Rightarrow> u16 \<Rightarrow> u32 \<Rightarrow> nat \<Rightarrow> ser_state \<Rightarrow> ser_state option" where
  "serialize_version_option present fmt number option_array = (\<lambda>(buf, len, cur).
     if present then
       (let (buf, n) = coap_serialize_int_option number cur buf (option_array + len)
                         (if fmt = APPLICATION_CBOR then ucast OIC_VER_1_1_0 else ucast OCF_VER_1_0_0)
        in Some (buf, len + n, number))
     else Some (buf, len, cur))"

definition coap_serialize_options ::
  "bytes \<Rightarrow> coap_packet \<Rightarrow> cbuf \<Rightarrow> nat \<Rightarrow> (cbuf \<times> nat) option" where
  "coap_serialize_options mem pkt buf option_array =
     (if coap_check_signal_message pkt then coap_serialize_signal_options mem pkt buf option_array
      else do {
        s \<leftarrow> COAP_SERIALIZE_BYTE_OPTION pkt option_array COAP_OPTION_ETAG (etag pkt)
               (unat (etag_len pkt)) (buf, 0, 0);
        s \<leftarrow> COAP_SERIALIZE_INT_OPTION pkt option_array COAP_OPTION_OBSERVE (observe pkt) s;
        s \<leftarrow> COAP_SERIALIZE_INT_OPTION pkt option_array COAP_OPTION_URI_PORT
               (ucast (uri_port pkt)) s;
        s \<leftarrow> COAP_SERIALIZE_STRING_OPTION pkt option_array COAP_OPTION_URI_PATH
               (deref mem (uri_path pkt)) (uri_path_len pkt) slash s;
        s \<leftarrow> COAP_SERIALIZE_INT_OPTION pkt option_array COAP_OPTION_CONTENT_FORMAT
               (ucast (content_format pkt)) s;
        s \<leftarrow> COAP_SERIALIZE_STRING_OPTION pkt option_array COAP_OPTION_URI_QUERY
               (deref mem (uri_query pkt)) (uri_query_len pkt) ampersand s;
        s \<leftarrow> COAP_SERIALIZE_INT_OPTION pkt option_array COAP_OPTION_ACCEPT (ucast (accept pkt)) s;
        s \<leftarrow> COAP_SERIALIZE_BLOCK_OPTION pkt option_array COAP_OPTION_BLOCK2 (block2_num pkt)
               (block2_more pkt) (block2_size pkt) s;
        s \<leftarrow> COAP_SERIALIZE_BLOCK_OPTION pkt option_array COAP_OPTION_BLOCK1 (block1_num pkt)
               (block1_more pkt) (block1_size pkt) s;
        s \<leftarrow> COAP_SERIALIZE_INT_OPTION pkt option_array COAP_OPTION_SIZE2 (size2 pkt) s;
        s \<leftarrow> COAP_SERIALIZE_INT_OPTION pkt option_array COAP_OPTION_SIZE1 (size1 pkt) s;
        s \<leftarrow> serialize_version_option (IS_OPTION pkt COAP_OPTION_ACCEPT) (accept pkt)
               OCF_OPTION_ACCEPT_CONTENT_FORMAT_VER option_array s;
        s \<leftarrow> serialize_version_option (IS_OPTION pkt COAP_OPTION_CONTENT_FORMAT)
               (content_format pkt) OCF_OPTION_CONTENT_FORMAT_VER option_array s;
        Some (fst s, fst (snd s))
      })"

section \<open>Headers and whole messages\<close>

text \<open>The header routines write to \<open>coap_pkt->buffer\<close>; the buffer is passed and returned.\<close>

definition coap_udp_set_header_fields :: "coap_packet \<Rightarrow> cbuf \<Rightarrow> cbuf" where
  "coap_udp_set_header_fields pkt buf =
     (let b0 = 0;
          b0 = b0 OR (0xC0 AND push_bit 6 (version pkt));
          b0 = b0 OR (0x30 AND push_bit 4 (type_code (type pkt)));
          b0 = b0 OR (0x0F AND push_bit 0 (token_len pkt));
          buf = wr buf 0 b0;
          buf = wr buf 1 (code pkt);
          buf = wr buf 2 (ucast (drop_bit 8 (mid pkt)));
          buf = wr buf 3 (ucast (mid pkt))
      in buf)"

text \<open>
  \<open>coap_tcp_compute_message_length\<close> returns (\<open>num_extended_length_bytes\<close>, \<open>len\<close>,
  \<open>extended_len\<close>); the caller initialises the first to 0.
\<close>

definition coap_tcp_compute_message_length :: "coap_packet \<Rightarrow> nat \<Rightarrow> u8 \<times> u8 \<times> nat" where
  "coap_tcp_compute_message_length pkt option_length =
     (let total_length = option_length +
            (if payload_len pkt > 0 then COAP_PAYLOAD_MARKER_LEN + unat (payload_len pkt) else 0)
      in if total_length < 13 then (0, of_nat total_length, 0)
         else if total_length < 269 then (1, 13, total_length - 13)
         else if total_length < 65805 then (2, 14, total_length - 269)
         else (4, 15, total_length - 65805))"

fun write_ext_len :: "cbuf \<Rightarrow> nat \<Rightarrow> nat \<Rightarrow> nat \<Rightarrow> nat \<Rightarrow> cbuf" where
  "write_ext_len buf i n extended_len 0 = buf"
| "write_ext_len buf i n extended_len (Suc k) =
     write_ext_len (wr buf i (of_nat (drop_bit (8 * (n - i)) extended_len))) (Suc i) n extended_len k"

definition coap_tcp_set_header_fields ::
  "coap_packet \<Rightarrow> cbuf \<Rightarrow> u8 \<Rightarrow> u8 \<Rightarrow> nat \<Rightarrow> cbuf" where
  "coap_tcp_set_header_fields pkt buf num_extended_length_bytes len extended_len =
     (let b0 = 0;
          b0 = b0 OR (0xF0 AND push_bit 4 len);
          b0 = b0 OR (0x0F AND push_bit 0 (token_len pkt));
          n = unat num_extended_length_bytes;
          buf = wr buf 0 b0;
          buf = write_ext_len buf 1 n extended_len n
      in wr buf (1 + n) (code pkt))"

text \<open>
  \<open>coap_serialize_message\<close>: the result is the buffer and the returned length. The source
  keeps \<open>coap_pkt->buffer\<close> and sets \<open>version\<close> to 1. A return of 0 is the error return.
  \<open>mem\<close> is the memory \<open>Buf\<close> pointers of the packet refer to.
\<close>

definition coap_serialize_message :: "bytes \<Rightarrow> coap_packet \<Rightarrow> cbuf \<Rightarrow> (cbuf \<times> nat) option" where
  "coap_serialize_message mem pkt0 buf =
     (if buf = NULL then Some (buf, 0)
      else do {
        let pkt = pkt0\<lparr>version := 1\<rparr>;
        (nullbuf, option_length_calculation) \<leftarrow> coap_serialize_options mem pkt NULL 0;
        let header_length_calculation = option_length_calculation
              + (if payload_len pkt > 0 then COAP_PAYLOAD_MARKER_LEN else 0)
              + unat (token_len pkt);
        let (num_ext, len, ext) = coap_tcp_compute_message_length pkt option_length_calculation;
        let token_location =
              (if transport_type pkt = COAP_TRANSPORT_TCP
               then COAP_TCP_DEFAULT_HEADER_LEN + unat num_ext else COAP_HEADER_LEN);
        let header_length_calculation = header_length_calculation + token_location;
        if header_length_calculation > COAP_MAX_HEADER_SIZE then Some (buf, 0)
        else do {
          let buf = (if transport_type pkt = COAP_TRANSPORT_TCP
                     then coap_tcp_set_header_fields pkt buf num_ext len ext
                     else coap_udp_set_header_fields pkt buf);
          if code pkt = 0 then Some (buf, token_location)
          else do {
            tok \<leftarrow> rd_slice (token pkt) 0 (unat (token_len pkt));
            let buf = wr_bytes buf token_location tok;
            let opt = token_location + unat (token_len pkt);
            (buf, option_length) \<leftarrow> coap_serialize_options mem pkt buf opt;
            let opt = opt + option_length;
            if opt \<le> COAP_MAX_HEADER_SIZE then do {
              let (buf, opt) = (if payload_len pkt > 0 then (wr buf opt 0xFF, opt + 1)
                                else (buf, opt));
              pay \<leftarrow> rd_slice (deref mem (payload pkt)) 0 (unat (payload_len pkt));
              let buf = wr_bytes buf opt pay;
              Some (buf, opt + unat (payload_len pkt))
            }
            else Some (buf, 0)
          }
        }
      })"

section \<open>Reference encoding of an option list\<close>

definition opt_ext :: "nat \<Rightarrow> bytes" where
  "opt_ext v = (if v > 268 then [of_nat ((v - 269) div 256), of_nat (v - 269)]
     else if v > 12 then [of_nat (v - 13)] else [])"

definition opt_header :: "nat \<Rightarrow> nat \<Rightarrow> bytes" where
  "opt_header delta len =
     (push_bit 4 (coap_option_nibble delta) OR coap_option_nibble len) # opt_ext delta @ opt_ext len"

definition int_bytes :: "u32 \<Rightarrow> bytes" where
  "int_bytes v =
     (if 0xFF000000 AND v \<noteq> 0 then [ucast (drop_bit 24 v)] else []) @
     (if 0xFFFF0000 AND v \<noteq> 0 then [ucast (drop_bit 16 v)] else []) @
     (if 0xFFFFFF00 AND v \<noteq> 0 then [ucast (drop_bit 8 v)] else []) @
     (if 0xFFFFFFFF AND v \<noteq> 0 then [ucast v] else [])"

fun enc_opts :: "u32 \<Rightarrow> (u32 \<times> bytes) list \<Rightarrow> bytes" where
  "enc_opts cur [] = []"
| "enc_opts cur ((n, v) # opts) =
     opt_header (unat (n - cur)) (length v) @ v @ enc_opts n opts"

fun last_num :: "u32 \<Rightarrow> (u32 \<times> bytes) list \<Rightarrow> u32" where
  "last_num cur [] = cur"
| "last_num cur ((n, v) # opts) = last_num n opts"

lemma last_num_append [simp]: "last_num cur (as @ bs) = last_num (last_num cur as) bs"
  by (induction cur as rule: last_num.induct) auto

lemma enc_opts_append: "enc_opts cur (as @ bs) = enc_opts cur as @ enc_opts (last_num cur as) bs"
  by (induction cur as rule: last_num.induct) auto

section \<open>The routines write the reference encoding\<close>

lemma opt_ext_u32:
  "opt_ext (unat (delta :: u32)) =
     (if delta > 268 then [ucast (drop_bit 8 (delta - 269) AND 0xff), ucast ((delta - 269) AND 0xff)]
      else if delta > 12 then [ucast (delta - 13)] else [])"
proof -
  have low: "ucast (w AND 0xff) = (of_nat (unat w) :: u8)" for w :: u32
  proof -
    have "w AND 0xff = take_bit 8 w" by (simp add: take_bit_eq_mask mask_eq_exp_minus_1)
    then show ?thesis by (auto intro!: bit_word_eqI simp: bit_simps)
  qed
  have div8: "unat (drop_bit 8 w) = unat w div 256" for w :: u32
    by (simp add: drop_bit_eq_div unat_div)
  have conv: "ucast w = (of_nat (unat w) :: u8)" for w :: u32 by simp
  have sub: "unat (delta - 269) = unat delta - 269" if "268 < delta"
    using that by (subst unat_u32_diff) (auto simp: word_le_nat_alt word_less_nat_alt)
  have sub': "unat (delta - 13) = unat delta - 13" if "12 < delta"
    using that by (subst unat_u32_diff) (auto simp: word_le_nat_alt word_less_nat_alt)
  show ?thesis
  proof (cases "268 < delta")
    case True
    then show ?thesis
      unfolding opt_ext_def low div8 by (simp add: sub word_less_nat_alt)
  next
    case False
    then show ?thesis
      unfolding opt_ext_def conv by (simp add: sub' word_less_nat_alt del: of_nat_unat)
  qed
qed

lemma opt_ext_nat:
  "opt_ext len =
     (if len > 268 then [of_nat (drop_bit 8 (len - 269) AND 0xff), of_nat ((len - 269) AND 0xff)]
      else if len > 12 then [of_nat (len - 13)] else [])"
proof -
  have "(of_nat (k AND 0xff) :: u8) = of_nat k" for k :: nat
  proof -
    have "k AND 0xff = take_bit 8 k"
      by (simp add: take_bit_eq_mask mask_eq_exp_minus_1)
    then show ?thesis by (simp add: word_of_nat_eq_iff)
  qed
  then show ?thesis by (simp add: opt_ext_def drop_bit_eq_div)
qed

lemma coap_set_option_header_eq:
  "coap_set_option_header delta len buf base =
     (wr_bytes buf base (opt_header (unat delta) len), length (opt_header (unat delta) len))"
  by (auto simp: coap_set_option_header_def opt_header_def opt_ext_u32 opt_ext_nat [of len] Let_def
      buf_simps wr_bytes_append)

lemma coap_serialize_int_option_eq:
  "coap_serialize_int_option number cur buf base v =
     (wr_bytes buf base (enc_opts cur [(number, int_bytes v)]),
      length (enc_opts cur [(number, int_bytes v)]))"
  by (auto simp: coap_serialize_int_option_def coap_set_option_header_eq Let_def int_bytes_def
      buf_simps wr_bytes_append)

text \<open>
  The parts the splitting loop writes: after a splitter it takes the next character
  unseen, so an empty middle part is encoded as a part that starts with the splitter.
\<close>

fun segs :: "u8 \<Rightarrow> bytes \<Rightarrow> bytes \<Rightarrow> bytes list" where
  "segs ch acc [] = [acc]"
| "segs ch acc [c] = (if c = ch then [acc] else [acc @ [c]])"
| "segs ch acc (c # d # cs) =
     (if c = ch then acc # segs ch [d] cs else segs ch (acc @ [c]) (d # cs))"

lemma rd_at: "array = pre @ c # suf \<Longrightarrow> j = length pre \<Longrightarrow> rd array j = Some c"
  by (simp add: rd_def)

lemma split_loop_done: "len + 1 < j \<Longrightarrow> split_loop n cur buf base array len ch j ps i = Some (buf, i)"
  by (simp add: split_loop.simps)

lemma split_loop_miss:
  "j < len \<Longrightarrow> rd array j = Some c \<Longrightarrow> c \<noteq> ch \<Longrightarrow>
   split_loop n cur buf base array len ch j ps i =
   split_loop n cur buf base array len ch (j + 1) ps i"
  by (subst split_loop.simps) simp

lemma split_loop_hit:
  assumes "j \<le> len" and "rd array j = Some c" and "c = ch \<or> j = len"
    and "take (j - ps) (drop ps array) = acc" and "length acc = j - ps"
    and "bs = opt_header (unat (n - cur)) (length acc) @ acc"
  shows "split_loop n cur buf base array len ch j ps i =
     split_loop n n (wr_bytes buf (base + i) bs) base array len ch (j + 2) (j + 1) (i + length bs)"
  using assms
  by (subst split_loop.simps) (simp add: coap_set_option_header_eq Let_def wr_bytes_append ac_simps)

lemma split_loop_segs:
  assumes "array = pre @ acc @ rest @ t # tail" and "len = length (pre @ acc @ rest)"
    and "rest \<noteq> [] \<Longrightarrow> last rest \<noteq> ch"
  shows "split_loop number cur buf base array len ch (length (pre @ acc)) (length pre) i =
     (let bs = enc_opts cur (map (Pair number) (segs ch acc rest))
      in Some (wr_bytes buf (base + i) bs, i + length bs))"
  using assms
proof (induction ch acc rest arbitrary: pre cur buf i rule: segs.induct)
  case (1 ch acc)
  have "rd array (length (pre @ acc)) = Some t" using 1(1) by (intro rd_at [of _ "pre @ acc"]) auto
  with 1 show ?case
    by (subst split_loop_hit [of _ _ _ t _ _ acc]) (auto simp: split_loop_done)
next
  case (2 ch acc c)
  then have "c \<noteq> ch" by simp
  have "rd array (length (pre @ acc)) = Some c" using 2(1) by (intro rd_at [of _ "pre @ acc"]) auto
  moreover have "rd array (length (pre @ acc) + 1) = Some t"
    using 2(1) by (intro rd_at [of _ "pre @ acc @ [c]"]) auto
  ultimately show ?case using 2 \<open>c \<noteq> ch\<close>
    by (subst split_loop_miss, simp, simp, simp,
        subst split_loop_hit [of _ _ _ t _ _ "acc @ [c]"]) (auto simp: split_loop_done)
next
  case (3 ch acc c d cs)
  let ?j = "length (pre @ acc)"
  have rd: "rd array ?j = Some c" using 3(3) by (intro rd_at [of _ "pre @ acc"]) auto
  show ?case
  proof (cases "c = ch")
    case True
    let ?bs = "opt_header (unat (number - cur)) (length acc) @ acc"
    have "split_loop number cur buf base array len ch ?j (length pre) i =
       split_loop number number (wr_bytes buf (base + i) ?bs) base array len ch
             (length ((pre @ acc @ [c]) @ [d])) (length (pre @ acc @ [c])) (i + length ?bs)"
      using rd 3(3,4) True by (subst split_loop_hit [of _ _ _ c _ _ acc]) auto
    also have "\<dots> = (let bs = enc_opts cur (map (Pair number) (segs ch acc (c # d # cs)))
        in Some (wr_bytes buf (base + i) bs, i + length bs))"
      using 3(3-5) True
      by (subst 3(1)) (auto simp: Let_def wr_bytes_append split: if_splits)
    finally show ?thesis .
  next
    case False
    have "split_loop number cur buf base array len ch ?j (length pre) i =
       split_loop number cur buf base array len ch (length (pre @ (acc @ [c]))) (length pre) i"
      using rd 3(4) False by (subst split_loop_miss) auto
    also have "\<dots> = (let bs = enc_opts cur (map (Pair number) (segs ch acc (c # d # cs)))
        in Some (wr_bytes buf (base + i) bs, i + length bs))"
      using 3(3-5) False by (subst 3(2)) auto
    finally show ?thesis .
  qed
qed

lemma coap_serialize_array_option_split_eq:
  assumes "array = s @ t # tail" and "s \<noteq> [] \<Longrightarrow> last s \<noteq> ch" and "ch \<noteq> 0"
  shows "coap_serialize_array_option number cur buf base array (length s) ch =
     (let bs = enc_opts cur (map (Pair number) (segs ch [] s))
      in Some (wr_bytes buf base bs, length bs))"
  using split_loop_segs [of array "[]" "[]" s t tail "length s" ch number cur buf base 0] assms
  by (simp add: coap_serialize_array_option_def)

lemma coap_serialize_array_option_plain_eq:
  assumes "length s \<le> length array" and "s = take (length s) array"
  shows "coap_serialize_array_option number cur buf base array (length s) 0 =
     (let bs = enc_opts cur [(number, s)] in Some (wr_bytes buf base bs, length bs))"
  using assms
  by (cases buf) (auto simp: coap_serialize_array_option_def coap_set_option_header_eq Let_def
      rd_slice_def splice_splice ac_simps splice_def)

section \<open>The options of a packet\<close>

text \<open>
  \<open>packet_opts\<close> lists what \<open>coap_serialize_options\<close> is to encode, in ascending order of the
  option numbers; \<open>ser_ok\<close> says that the byte and string fields it reads are readable and
  that no string ends in its own splitter.
\<close>

definition opt_if :: "bool \<Rightarrow> 'a list \<Rightarrow> 'a list" where
  "opt_if b xs = (if b then xs else [])"

definition str_bytes :: "bytes \<Rightarrow> cptr \<Rightarrow> nat \<Rightarrow> bytes" where
  "str_bytes mem p n = take n (deref mem p)"

definition str_ok :: "bytes \<Rightarrow> cptr \<Rightarrow> nat \<Rightarrow> u8 \<Rightarrow> bool" where
  "str_ok mem p n ch \<longleftrightarrow>
     n < length (deref mem p) \<and> (n > 0 \<longrightarrow> deref mem p ! (n - 1) \<noteq> ch)"

definition signal_opts :: "bytes \<Rightarrow> coap_packet \<Rightarrow> (u32 \<times> bytes) list" where
  "signal_opts mem pkt =
     (if code pkt = CSM_7_01 then
        opt_if (IS_OPTION pkt 2) [(2, int_bytes (max_msg_size pkt))] @
        opt_if (blockwise_transfer pkt \<noteq> 0 \<and> IS_OPTION pkt 4) [(4, [])]
      else if code pkt = PING_7_02 \<or> code pkt = PONG_7_03 then
        opt_if (custody pkt \<noteq> 0 \<and> IS_OPTION pkt 2) [(2, [])]
      else if code pkt = RELEASE_7_04 then
        opt_if (IS_OPTION pkt 2) [(2, str_bytes mem (alt_addr pkt) (alt_addr_len pkt))] @
        opt_if (IS_OPTION pkt 4) [(4, int_bytes (hold_off pkt))]
      else if code pkt = ABORT_7_05 then
        opt_if (IS_OPTION pkt 2) [(2, int_bytes (ucast (bad_csm_opt pkt)))]
      else [])"

definition version_value :: "u16 \<Rightarrow> u32" where
  "version_value fmt = (if fmt = APPLICATION_CBOR then 2112 else 2048)"

definition packet_opts :: "bytes \<Rightarrow> coap_packet \<Rightarrow> (u32 \<times> bytes) list" where
  "packet_opts mem pkt =
     (if coap_check_signal_message pkt then signal_opts mem pkt else
        opt_if (IS_OPTION pkt 4) [(4, take (unat (etag_len pkt)) (etag pkt))] @
        opt_if (IS_OPTION pkt 6) [(6, int_bytes (observe pkt))] @
        opt_if (IS_OPTION pkt 7) [(7, int_bytes (ucast (uri_port pkt)))] @
        opt_if (IS_OPTION pkt 11)
          (map (Pair 11) (segs slash [] (str_bytes mem (uri_path pkt) (uri_path_len pkt)))) @
        opt_if (IS_OPTION pkt 12) [(12, int_bytes (ucast (content_format pkt)))] @
        opt_if (IS_OPTION pkt 15)
          (map (Pair 15) (segs ampersand [] (str_bytes mem (uri_query pkt) (uri_query_len pkt)))) @
        opt_if (IS_OPTION pkt 17) [(17, int_bytes (ucast (accept pkt)))] @
        opt_if (IS_OPTION pkt 23)
          [(23, int_bytes (block_value (block2_num pkt) (block2_more pkt) (block2_size pkt)))] @
        opt_if (IS_OPTION pkt 27)
          [(27, int_bytes (block_value (block1_num pkt) (block1_more pkt) (block1_size pkt)))] @
        opt_if (IS_OPTION pkt 28) [(28, int_bytes (size2 pkt))] @
        opt_if (IS_OPTION pkt 60) [(60, int_bytes (size1 pkt))] @
        opt_if (IS_OPTION pkt 17) [(2049, int_bytes (version_value (accept pkt)))] @
        opt_if (IS_OPTION pkt 12) [(2053, int_bytes (version_value (content_format pkt)))])"

definition ser_ok :: "bytes \<Rightarrow> coap_packet \<Rightarrow> bool" where
  "ser_ok mem pkt \<longleftrightarrow>
     (if coap_check_signal_message pkt then
        code pkt = RELEASE_7_04 \<longrightarrow> IS_OPTION pkt 2 \<longrightarrow>
          alt_addr_len pkt \<le> length (deref mem (alt_addr pkt))
      else
        (IS_OPTION pkt 4 \<longrightarrow> unat (etag_len pkt) \<le> length (etag pkt)) \<and>
        (IS_OPTION pkt 11 \<longrightarrow> str_ok mem (uri_path pkt) (uri_path_len pkt) slash) \<and>
        (IS_OPTION pkt 15 \<longrightarrow> str_ok mem (uri_query pkt) (uri_query_len pkt) ampersand))"

definition ser_at :: "cbuf \<Rightarrow> nat \<Rightarrow> (u32 \<times> bytes) list \<Rightarrow> ser_state" where
  "ser_at buf base opts =
     (wr_bytes buf base (enc_opts 0 opts), length (enc_opts 0 opts), last_num 0 opts)"

lemma ser_at_Nil: "(buf, 0, 0) = ser_at buf base []"
  by (simp add: ser_at_def)

named_theorems ser_macros \<open>each serialisation macro appends its option to the encoded list\<close>

lemma ser_at_snoc:
  "(wr_bytes (wr_bytes buf base (enc_opts 0 opts)) (base + length (enc_opts 0 opts))
      (enc_opts (last_num 0 opts) new),
    length (enc_opts 0 opts) + length (enc_opts (last_num 0 opts) new),
    last_num (last_num 0 opts) new) = ser_at buf base (opts @ new)"
  by (simp add: ser_at_def enc_opts_append buf_simps)

lemma ser_int_option [ser_macros]:
  "COAP_SERIALIZE_INT_OPTION pkt base n v (ser_at buf base opts) =
     Some (ser_at buf base (opts @ opt_if (IS_OPTION pkt n) [(n, int_bytes v)]))"
  using ser_at_snoc [of buf base opts "[(n, int_bytes v)]"]
  by (auto simp: COAP_SERIALIZE_INT_OPTION_def ser_at_def coap_serialize_int_option_eq opt_if_def)

lemma ser_block_option [ser_macros]:
  "COAP_SERIALIZE_BLOCK_OPTION pkt base n num m sz (ser_at buf base opts) =
     Some (ser_at buf base (opts @ opt_if (IS_OPTION pkt n) [(n, int_bytes (block_value num m sz))]))"
  by (simp add: COAP_SERIALIZE_BLOCK_OPTION_def ser_macros)

lemma ser_version_option [ser_macros]:
  "serialize_version_option b fmt n base (ser_at buf base opts) =
     Some (ser_at buf base (opts @ opt_if b [(n, int_bytes (version_value fmt))]))"
  using ser_at_snoc [of buf base opts "[(n, int_bytes (version_value fmt))]"]
  by (auto simp: serialize_version_option_def ser_at_def coap_serialize_int_option_eq opt_if_def
      version_value_def)

lemma ser_byte_option [ser_macros]:
  assumes "IS_OPTION pkt n \<longrightarrow> k \<le> length array"
  shows "COAP_SERIALIZE_STRING_OPTION pkt base n array k 0 (ser_at buf base opts) =
     Some (ser_at buf base (opts @ opt_if (IS_OPTION pkt n) [(n, take k array)]))"
  using assms ser_at_snoc [of buf base opts "[(n, take k array)]"]
    coap_serialize_array_option_plain_eq [of "take k array" array]
  by (auto simp: COAP_SERIALIZE_STRING_OPTION_def ser_at_def opt_if_def Let_def)

lemma last_num_map_Pair: "xs \<noteq> [] \<Longrightarrow> last_num cur (map (Pair n) xs) = n"
proof (induction xs arbitrary: cur)
  case (Cons x xs)
  then show ?case by (cases xs) auto
qed simp

lemma segs_nonempty [simp]: "segs ch acc s \<noteq> []"
  by (induction ch acc s rule: segs.induct) auto

lemma ser_split_option [ser_macros]:
  assumes ok: "IS_OPTION pkt n \<longrightarrow> str_ok mem p k ch" and "ch \<noteq> 0"
  shows "COAP_SERIALIZE_STRING_OPTION pkt base n (deref mem p) k ch (ser_at buf base opts) =
     Some (ser_at buf base
       (opts @ opt_if (IS_OPTION pkt n) (map (Pair n) (segs ch [] (str_bytes mem p k)))))"
proof (cases "IS_OPTION pkt n")
  case True
  define s where "s = str_bytes mem p k"
  from ok True have k: "k < length (deref mem p)" "k > 0 \<Longrightarrow> deref mem p ! (k - 1) \<noteq> ch"
    by (auto simp: str_ok_def)
  then have s: "deref mem p = s @ (deref mem p ! k) # drop (Suc k) (deref mem p)" "length s = k"
    by (auto simp: s_def str_bytes_def id_take_nth_drop [symmetric])
  have "s \<noteq> [] \<Longrightarrow> last s \<noteq> ch"
    using k by (auto simp: s_def str_bytes_def last_conv_nth)
  then show ?thesis
    using True s(2) \<open>ch \<noteq> 0\<close> ser_at_snoc [of buf base opts "map (Pair n) (segs ch [] s)"]
      coap_serialize_array_option_split_eq [OF s(1), of ch n "last_num 0 opts"]
    by (auto simp: COAP_SERIALIZE_STRING_OPTION_def ser_at_def opt_if_def Let_def
        last_num_map_Pair s_def [symmetric])
qed (simp add: COAP_SERIALIZE_STRING_OPTION_def ser_at_def opt_if_def)

lemma ser_at_result:
  "fst (ser_at buf base opts) = wr_bytes buf base (enc_opts 0 opts)"
  "fst (snd (ser_at buf base opts)) = length (enc_opts 0 opts)"
  by (simp_all add: ser_at_def)

lemma coap_serialize_signal_options_eq:
  assumes "code pkt = RELEASE_7_04 \<longrightarrow> IS_OPTION pkt 2 \<longrightarrow>
    alt_addr_len pkt \<le> length (deref mem (alt_addr pkt))"
  shows "coap_serialize_signal_options mem pkt buf base =
     (let bs = enc_opts 0 (signal_opts mem pkt) in Some (wr_bytes buf base bs, length bs))"
proof -
  have zero: "int_bytes 0 = []" by (simp add: int_bytes_def)
  have opt_if_conj: "opt_if (a \<and> b) xs = opt_if a (opt_if b xs)" for a b and xs :: "(u32 \<times> bytes) list"
    by (simp add: opt_if_def)
  have opt_if_simps: "opt_if True xs = xs" "opt_if False xs = []" for xs :: "(u32 \<times> bytes) list"
    by (simp_all add: opt_if_def)
  show ?thesis
    using assms unfolding coap_serialize_signal_options_def ser_at_Nil [of buf base]
    by (simp add: ser_macros signal_opts_def zero str_bytes_def ser_at_result Let_def
        opt_if_conj opt_if_simps)
qed

lemma coap_serialize_options_eq:
  assumes "ser_ok mem pkt"
  shows "coap_serialize_options mem pkt buf base =
     (let bs = enc_opts 0 (packet_opts mem pkt) in Some (wr_bytes buf base bs, length bs))"
proof (cases "coap_check_signal_message pkt")
  case True
  with assms show ?thesis
    by (simp add: coap_serialize_options_def coap_serialize_signal_options_eq ser_ok_def
        packet_opts_def)
next
  case False
  with assms show ?thesis
    unfolding coap_serialize_options_def ser_at_Nil [of buf base] COAP_SERIALIZE_BYTE_OPTION_def
    by (simp add: ser_macros ser_ok_def packet_opts_def ser_at_result Let_def)
qed

end
