(* ===== verification/Coap_Message.thy ===== *)
theory Coap_Message
  imports Coap_Serialize
begin

text \<open>
  What \<open>coap_serialize_message\<close> writes, as one byte string: header, token, options, payload
  marker and payload, over UDP and over TCP. The main lemma gives its result on every
  branch, the oversized header and the empty message included.
\<close>

definition udp_header :: "coap_packet \<Rightarrow> bytes" where
  "udp_header pkt =
     [0x40 OR push_bit 4 (type_code (type pkt)) OR (0x0F AND token_len pkt), code pkt,
      ucast (drop_bit 8 (mid pkt)), ucast (mid pkt)]"

text \<open>The big-endian extended length of a TCP header, in \<open>n\<close> bytes.\<close>

definition ext_bytes :: "nat \<Rightarrow> nat \<Rightarrow> bytes" where
  "ext_bytes n v = map (\<lambda>i. of_nat (v div 256 ^ (n - i))) [1..<n + 1]"

definition tcp_header :: "coap_packet \<Rightarrow> nat \<Rightarrow> bytes" where
  "tcp_header pkt option_length =
     (let (num_ext, len, ext) = coap_tcp_compute_message_length pkt option_length
      in (push_bit 4 len OR (0x0F AND token_len pkt)) # ext_bytes (unat num_ext) ext @ [code pkt])"

definition header_bytes :: "bytes \<Rightarrow> coap_packet \<Rightarrow> bytes" where
  "header_bytes mem pkt =
     (if transport_type pkt = COAP_TRANSPORT_TCP
      then tcp_header pkt (length (enc_opts 0 (packet_opts mem pkt))) else udp_header pkt)"

definition tail_bytes :: "bytes \<Rightarrow> coap_packet \<Rightarrow> bytes" where
  "tail_bytes mem pkt =
     (if payload_len pkt > 0 then 0xFF # take (unat (payload_len pkt)) (deref mem (payload pkt)) else [])"

definition msg_bytes :: "bytes \<Rightarrow> coap_packet \<Rightarrow> bytes" where
  "msg_bytes mem pkt =
     header_bytes mem pkt @ take (unat (token_len pkt)) (token pkt) @
     enc_opts 0 (packet_opts mem pkt) @ tail_bytes mem pkt"

definition msg_ok :: "bytes \<Rightarrow> coap_packet \<Rightarrow> bool" where
  "msg_ok mem pkt \<longleftrightarrow>
     ser_ok mem pkt \<and> unat (token_len pkt) \<le> length (token pkt) \<and>
     unat (payload_len pkt) \<le> length (deref mem (payload pkt))"

definition header_length :: "bytes \<Rightarrow> coap_packet \<Rightarrow> nat" where
  "header_length mem pkt =
     length (header_bytes mem pkt) + unat (token_len pkt) +
     length (enc_opts 0 (packet_opts mem pkt)) + (if payload_len pkt > 0 then 1 else 0)"

section \<open>Header fields\<close>

lemma and_shift_udp:
  "0xC0 AND push_bit 6 (1 :: u8) = 0x40"
  "0x30 AND push_bit 4 (type_code ty) = push_bit 4 (type_code ty)"
  by (simp, cases ty, simp_all)

lemma coap_udp_set_header_fields_eq:
  "version pkt = 1 \<Longrightarrow> coap_udp_set_header_fields pkt buf = wr_bytes buf 0 (udp_header pkt)"
  by (simp add: coap_udp_set_header_fields_def udp_header_def and_shift_udp buf_simps Let_def
      wr_bytes_append or.assoc)

lemma write_ext_len_eq:
  "i + k = n + 1 \<Longrightarrow>
   write_ext_len buf i n v k = wr_bytes buf i (map (\<lambda>j. of_nat (v div 256 ^ (n - j))) [i..<n + 1])"
proof (induction k arbitrary: i buf)
  case (Suc k)
  then have "[i..<n + 1] = i # [Suc i..<n + 1]" by (simp add: upt_rec)
  moreover have "drop_bit (8 * m) v = v div 256 ^ m" for m
    by (simp add: drop_bit_eq_div power_mult)
  ultimately show ?case using Suc by (simp add: buf_simps wr_bytes_append)
qed simp

lemma write_ext_len_1: "write_ext_len buf (Suc 0) n v n = wr_bytes buf (Suc 0) (ext_bytes n v)"
  using write_ext_len_eq [of 1 n n buf v] by (simp add: ext_bytes_def)

lemma and_shift_tcp: "unat (len :: u8) < 16 \<Longrightarrow> 0xF0 AND push_bit 4 len = push_bit 4 len"
proof -
  assume "unat len < 16"
  then have "len \<in> of_nat ` {0..<16}" by (auto intro!: image_eqI [of _ _ "unat len"])
  then have "len \<in> {0, 1, 2, 3, 4, 5, 6, 7, 8, 9, 10, 11, 12, 13, 14, 15}"
    by (simp add: atLeastLessThan_upt upt_rec)
  then show ?thesis by auto
qed

lemma compute_message_length_bounds:
  "coap_tcp_compute_message_length pkt n = (num_ext, len, ext) \<Longrightarrow>
   unat len < 16 \<and> unat num_ext \<in> {0, 1, 2, 4}"
proof -
  assume *: "coap_tcp_compute_message_length pkt n = (num_ext, len, ext)"
  define total where "total = n + (if payload_len pkt > 0 then 1 + unat (payload_len pkt) else 0)"
  have "unat (of_nat total :: u8) = total" if "total < 13" using that by (simp add: unat_of_nat_u8)
  with * show ?thesis
    unfolding coap_tcp_compute_message_length_def total_def [symmetric] Let_def
    by (auto split: if_splits)
qed

lemma length_ext_bytes [simp]: "length (ext_bytes n v) = n"
  by (simp add: ext_bytes_def)

lemma coap_tcp_set_header_fields_eq:
  assumes "coap_tcp_compute_message_length pkt n = (num_ext, len, ext)"
  shows "coap_tcp_set_header_fields pkt buf num_ext len ext = wr_bytes buf 0 (tcp_header pkt n)"
  using compute_message_length_bounds [OF assms] assms
  by (simp add: coap_tcp_set_header_fields_def tcp_header_def Let_def and_shift_tcp
      write_ext_len_1 buf_simps wr_bytes_append)

lemma length_tcp_header:
  "coap_tcp_compute_message_length pkt n = (num_ext, len, ext) \<Longrightarrow>
   length (tcp_header pkt n) = 2 + unat num_ext"
  by (simp add: tcp_header_def)

section \<open>The whole message\<close>

lemma packet_opts_version [simp]: "packet_opts mem (pkt\<lparr>version := v\<rparr>) = packet_opts mem pkt"
  by (simp add: packet_opts_def signal_opts_def IS_OPTION_def coap_check_signal_message_def)

lemma ser_ok_version [simp]: "ser_ok mem (pkt\<lparr>version := v\<rparr>) = ser_ok mem pkt"
  by (simp add: ser_ok_def IS_OPTION_def coap_check_signal_message_def)

lemma compute_version [simp]:
  "coap_tcp_compute_message_length (pkt\<lparr>version := v\<rparr>) n = coap_tcp_compute_message_length pkt n"
  by (simp add: coap_tcp_compute_message_length_def)

lemma headers_version [simp]:
  "tcp_header (pkt\<lparr>version := v\<rparr>) n = tcp_header pkt n"
  "udp_header (pkt\<lparr>version := v\<rparr>) = udp_header pkt"
  by (simp_all add: tcp_header_def udp_header_def)

lemma coap_serialize_message_eq:
  assumes ok: "msg_ok mem pkt" and buf: "buf \<noteq> NULL"
  shows "coap_serialize_message mem pkt buf =
     (if header_length mem pkt > COAP_MAX_HEADER_SIZE then Some (buf, 0)
      else if code pkt = 0
      then Some (wr_bytes buf 0 (header_bytes mem pkt), length (header_bytes mem pkt))
      else Some (wr_bytes buf 0 (msg_bytes mem pkt), length (msg_bytes mem pkt)))"
proof -
  obtain num_ext len ext where c:
    "coap_tcp_compute_message_length pkt (length (enc_opts 0 (packet_opts mem pkt))) =
       (num_ext, len, ext)"
    by (metis prod_cases3)
  have tkl: "rd_slice (token pkt) 0 (unat (token_len pkt)) =
      Some (take (unat (token_len pkt)) (token pkt))"
    using ok by (simp add: msg_ok_def rd_slice_def)
  have pay: "rd_slice (deref mem (payload pkt)) 0 (unat (payload_len pkt)) =
      Some (take (unat (payload_len pkt)) (deref mem (payload pkt)))"
    using ok by (simp add: msg_ok_def rd_slice_def)
  have opts: "coap_serialize_options mem (pkt\<lparr>version := 1\<rparr>) b i =
      (let bs = enc_opts 0 (packet_opts mem pkt) in Some (wr_bytes b i bs, length bs))" for b i
    using ok coap_serialize_options_eq [of mem "pkt\<lparr>version := 1\<rparr>" b i] by (simp add: msg_ok_def)
  have udp: "coap_udp_set_header_fields (pkt\<lparr>version := 1\<rparr>) b = wr_bytes b 0 (udp_header pkt)" for b
    by (simp add: coap_udp_set_header_fields_eq)
  have tcp: "coap_tcp_set_header_fields (pkt\<lparr>version := 1\<rparr>) b num_ext len ext =
      wr_bytes b 0 (tcp_header pkt (length (enc_opts 0 (packet_opts mem pkt))))" for b
    using coap_tcp_set_header_fields_eq [of "pkt\<lparr>version := 1\<rparr>"] c by simp
  have len_tok: "length (take (unat (token_len pkt)) (token pkt)) = unat (token_len pkt)"
    using ok by (simp add: msg_ok_def)
  have len_pay: "length (take (unat (payload_len pkt)) (deref mem (payload pkt))) =
      unat (payload_len pkt)"
    using ok by (simp add: msg_ok_def)
  have hdr: "(if transport_type pkt = COAP_TRANSPORT_TCP then 2 + unat num_ext else 4) =
      length (header_bytes mem pkt)"
    using c by (simp add: header_bytes_def length_tcp_header udp_header_def)
  have fields: "(if transport_type pkt = COAP_TRANSPORT_TCP
        then coap_tcp_set_header_fields (pkt\<lparr>version := 1\<rparr>) buf num_ext len ext
        else coap_udp_set_header_fields (pkt\<lparr>version := 1\<rparr>) buf) = wr_bytes buf 0 (header_bytes mem pkt)"
    by (simp add: udp tcp header_bytes_def)
  have sel: "transport_type (pkt\<lparr>version := 1\<rparr>) = transport_type pkt" "code (pkt\<lparr>version := 1\<rparr>) = code pkt"
    "token_len (pkt\<lparr>version := 1\<rparr>) = token_len pkt" "token (pkt\<lparr>version := 1\<rparr>) = token pkt"
    "payload (pkt\<lparr>version := 1\<rparr>) = payload pkt" "payload_len (pkt\<lparr>version := 1\<rparr>) = payload_len pkt"
    by simp_all
  have zero: "payload_len pkt = 0" if "\<not> 0 < payload_len pkt"
    using that by (metis word_gt_0)
  show ?thesis
    unfolding coap_serialize_message_def Let_def opts bind.bind_lunit prod.case compute_version c
      sel hdr fields tkl pay if_not_P [OF buf]
    using len_tok len_pay zero
    by (cases "0 < payload_len pkt")
      (simp_all add: header_length_def msg_bytes_def tail_bytes_def buf_simps wr_bytes_append)
qed

text \<open>With room for the longest header and the payload, a message is written inside the buffer.\<close>

lemma coap_serialize_total:
  assumes "msg_ok mem pkt" and "COAP_MAX_HEADER_SIZE + unat (payload_len pkt) \<le> length buf"
  shows "\<exists>buf' n. coap_serialize_message mem pkt (Mem buf) = Some (Mem buf', n) \<and>
     length buf' = length buf \<and> drop n buf' = drop n buf \<and>
     (n = 0 \<longleftrightarrow> header_length mem pkt > COAP_MAX_HEADER_SIZE)"
proof -
  have pos: "header_bytes mem pkt \<noteq> []"
    by (simp add: header_bytes_def udp_header_def tcp_header_def split: prod.split)
  then have pos': "0 < header_length mem pkt" by (simp add: header_length_def)
  have len: "length (header_bytes mem pkt) \<le> header_length mem pkt"
    "length (msg_bytes mem pkt) = header_length mem pkt + unat (payload_len pkt)"
    using assms(1) word_gt_0 [of "payload_len pkt"]
    by (auto simp: header_length_def msg_bytes_def tail_bytes_def msg_ok_def)
  show ?thesis
    using coap_serialize_message_eq [OF assms(1), of "Mem buf"] pos pos' len assms(2)
    by (auto simp: splice_def)
qed

end
