(* ===== verification/Coap_Parse.thy ===== *)
theory Coap_Parse
  imports Coap_Packet
begin

text \<open>
  The CoAP parser (messaging/coap/coap.c) over the buffer the message was received into.
  \<open>mem\<close> is the whole buffer, \<open>data_len\<close> the length of the message in it; pointers are
  offsets. The parser writes to the buffer in place: it joins Uri-Path and Uri-Query
  options and terminates the payload. \<open>None\<close> is an access outside the buffer.
\<close>

section \<open>Option values\<close>

fun parse_int_loop :: "bytes \<Rightarrow> u32 \<Rightarrow> u32" where
  "parse_int_loop [] var = var"
| "parse_int_loop (b # bs) var = parse_int_loop bs (push_bit 8 var OR ucast b)"

definition coap_parse_int_option :: "bytes \<Rightarrow> nat \<Rightarrow> nat \<Rightarrow> u32 option" where
  "coap_parse_int_option mem cur len = do {
     bs \<leftarrow> rd_slice mem cur len;
     Some (parse_int_loop bs 0)
   }"

text \<open>
  \<open>coap_merge_multi_option\<close>: append to what \<open>dst\<close> already holds, inside the receive buffer,
  or point to the option. A string outside the receive buffer cannot be extended in place.
\<close>

definition coap_merge_multi_option ::
  "bytes \<Rightarrow> cptr \<Rightarrow> nat \<Rightarrow> nat \<Rightarrow> nat \<Rightarrow> u8 \<Rightarrow> (bytes \<times> cptr \<times> nat) option" where
  "coap_merge_multi_option mem dst dst_len opt option_len separator =
     (if dst_len > 0 then
        (case dst of
           Buf d \<Rightarrow> do {
             mem \<leftarrow> wr_mem mem (d + dst_len) separator;
             bs \<leftarrow> rd_slice mem opt option_len;
             mem \<leftarrow> wr_mem_bytes mem (d + dst_len + 1) bs;
             Some (mem, dst, dst_len + 1 + option_len)
           }
         | _ \<Rightarrow> None)
      else Some (mem, Buf opt, option_len))"

text \<open>\<open>coap_parse_signal_options\<close>: the status it returns is ignored by its caller.\<close>

definition coap_parse_signal_options ::
  "coap_packet \<Rightarrow> bytes \<Rightarrow> u32 \<Rightarrow> nat \<Rightarrow> nat \<Rightarrow> (coap_status \<times> coap_packet) option" where
  "coap_parse_signal_options pkt mem option_number cur option_length =
     (if code pkt = CSM_7_01 then
        (if option_number = COAP_SIGNAL_OPTION_MAX_MSG_SIZE then do {
           v \<leftarrow> coap_parse_int_option mem cur option_length;
           Some (COAP_NO_ERROR, pkt\<lparr>max_msg_size := v\<rparr>)
         }
         else if option_number = COAP_SIGNAL_OPTION_BLOCKWISE_TRANSFER
         then Some (COAP_NO_ERROR, pkt\<lparr>blockwise_transfer := 1\<rparr>)
         else Some (COAP_NO_ERROR, pkt))
      else if code pkt = PING_7_02 \<or> code pkt = PONG_7_03 then
        (if option_number = COAP_SIGNAL_OPTION_CUSTODY
         then Some (COAP_NO_ERROR, pkt\<lparr>custody := 1\<rparr>) else Some (COAP_NO_ERROR, pkt))
      else if code pkt = RELEASE_7_04 then
        (if option_number = COAP_SIGNAL_OPTION_ALT_ADDR
         then Some (COAP_NO_ERROR, pkt\<lparr>alt_addr := Buf cur, alt_addr_len := option_length\<rparr>)
         else if option_number = COAP_SIGNAL_OPTION_HOLD_OFF then do {
           v \<leftarrow> coap_parse_int_option mem cur option_length;
           Some (COAP_NO_ERROR, pkt\<lparr>hold_off := v\<rparr>)
         }
         else Some (COAP_NO_ERROR, pkt))
      else if code pkt = ABORT_7_05 then
        (if option_number = COAP_SIGNAL_OPTION_BAD_CSM then do {
           v \<leftarrow> coap_parse_int_option mem cur option_length;
           Some (COAP_NO_ERROR, pkt\<lparr>bad_csm_opt := ucast v\<rparr>)
         }
         else Some (COAP_NO_ERROR, pkt))
      else Some (BAD_REQUEST_4_00, pkt))"

section \<open>The switch over option numbers\<close>

text \<open>
  \<open>parse_option_value\<close> is the switch of \<open>coap_parse_token_option\<close>: the status (anything but
  \<open>COAP_NO_ERROR\<close> is returned at once), the packet and the buffer.
\<close>

definition block_fields :: "u32 \<Rightarrow> u32 \<times> u8 \<times> u16 \<times> u32" where
  "block_fields v =
     (drop_bit 4 v, ucast (drop_bit 3 (v AND 0x08)), push_bit (unat (v AND 0x07)) 16,
      push_bit (unat (v AND 0x07)) (v AND NOT 0x0000000F))"

definition parse_option_value ::
  "coap_packet \<Rightarrow> bytes \<Rightarrow> u32 \<Rightarrow> nat \<Rightarrow> nat \<Rightarrow> (coap_status \<times> coap_packet \<times> bytes) option" where
  "parse_option_value pkt mem option_number cur option_length =
     (if option_number = COAP_OPTION_CONTENT_FORMAT then do {
        v \<leftarrow> coap_parse_int_option mem cur option_length;
        let cf = ucast v;
        Some (if cf \<noteq> APPLICATION_VND_OCF_CBOR \<and> cf \<noteq> APPLICATION_CBOR
              then UNSUPPORTED_MEDIA_TYPE_4_15 else COAP_NO_ERROR,
              pkt\<lparr>content_format := cf\<rparr>, mem)
      }
      else if option_number = COAP_OPTION_MAX_AGE then do {
        v \<leftarrow> coap_parse_int_option mem cur option_length;
        Some (COAP_NO_ERROR, pkt\<lparr>max_age := v\<rparr>, mem)
      }
      else if option_number = COAP_OPTION_ETAG then do {
        let n = min COAP_ETAG_LEN option_length;
        bs \<leftarrow> rd_slice mem cur n;
        Some (COAP_NO_ERROR, pkt\<lparr>etag_len := of_nat n, etag := splice 0 bs (etag pkt)\<rparr>, mem)
      }
      else if option_number = COAP_OPTION_ACCEPT then do {
        v \<leftarrow> coap_parse_int_option mem cur option_length;
        let acc = ucast v;
        Some (if acc \<noteq> APPLICATION_VND_OCF_CBOR \<and> acc \<noteq> APPLICATION_CBOR
              then NOT_ACCEPTABLE_4_06 else COAP_NO_ERROR,
              pkt\<lparr>accept := acc\<rparr>, mem)
      }
      else if option_number = COAP_OPTION_URI_PORT then do {
        v \<leftarrow> coap_parse_int_option mem cur option_length;
        Some (COAP_NO_ERROR, pkt\<lparr>uri_port := ucast v\<rparr>, mem)
      }
      else if option_number = COAP_OPTION_URI_PATH then do {
        (mem, p, n) \<leftarrow> coap_merge_multi_option mem (uri_path pkt) (uri_path_len pkt) cur
                        option_length slash;
        Some (COAP_NO_ERROR, pkt\<lparr>uri_path := p, uri_path_len := n\<rparr>, mem)
      }
      else if option_number = COAP_OPTION_URI_QUERY then do {
        (mem, p, n) \<leftarrow> coap_merge_multi_option mem (uri_query pkt) (uri_query_len pkt) cur
                        option_length ampersand;
        Some (COAP_NO_ERROR, pkt\<lparr>uri_query := p, uri_query_len := n\<rparr>, mem)
      }
      else if option_number = COAP_OPTION_OBSERVE then do {
        v \<leftarrow> coap_parse_int_option mem cur option_length;
        Some (COAP_NO_ERROR, pkt\<lparr>observe := v\<rparr>, mem)
      }
      else if option_number = COAP_OPTION_BLOCK2 then do {
        v \<leftarrow> coap_parse_int_option mem cur option_length;
        let (num, mr, sz, off) = block_fields v;
        Some (COAP_NO_ERROR, pkt\<lparr>block2_num := num, block2_more := mr, block2_size := sz,
                                  block2_offset := off\<rparr>, mem)
      }
      else if option_number = COAP_OPTION_BLOCK1 then do {
        v \<leftarrow> coap_parse_int_option mem cur option_length;
        let (num, mr, sz, off) = block_fields v;
        Some (COAP_NO_ERROR, pkt\<lparr>block1_num := num, block1_more := mr, block1_size := sz,
                                  block1_offset := off\<rparr>, mem)
      }
      else if option_number = COAP_OPTION_SIZE2 then do {
        v \<leftarrow> coap_parse_int_option mem cur option_length;
        Some (COAP_NO_ERROR, pkt\<lparr>size2 := v\<rparr>, mem)
      }
      else if option_number = COAP_OPTION_SIZE1 then do {
        v \<leftarrow> coap_parse_int_option mem cur option_length;
        Some (COAP_NO_ERROR, pkt\<lparr>size1 := v\<rparr>, mem)
      }
      else if option_number = OCF_OPTION_CONTENT_FORMAT_VER \<or>
              option_number = OCF_OPTION_ACCEPT_CONTENT_FORMAT_VER then do {
        v \<leftarrow> coap_parse_int_option mem cur option_length;
        let ver = ucast v;
        Some (if ver \<noteq> OCF_VER_1_0_0 \<and> ver \<noteq> OIC_VER_1_1_0
              then UNSUPPORTED_MEDIA_TYPE_4_15 else COAP_NO_ERROR, pkt, mem)
      }
      else Some (if option_number AND 1 \<noteq> 0 then BAD_OPTION_4_02 else COAP_NO_ERROR, pkt, mem))"

section \<open>The option loop\<close>

text \<open>The extended delta or length that follows an option's first byte.\<close>

definition read_ext :: "bytes \<Rightarrow> nat \<Rightarrow> nat \<Rightarrow> (nat \<times> nat) option" where
  "read_ext mem nibble cur =
     (if nibble = 13 then do {
        b \<leftarrow> rd mem cur;
        Some (nibble + unat b, cur + 1)
      }
      else if nibble = 14 then do {
        b1 \<leftarrow> rd mem cur;
        b2 \<leftarrow> rd mem (cur + 1);
        Some (nibble + 255 + unat b1 * 256 + unat b2, cur + 2)
      }
      else Some (nibble, cur))"

datatype parse_step =
    Return coap_status coap_packet bytes
  | Continue coap_packet bytes u32 nat

text \<open>One iteration of the while loop, entered when \<open>current_option < data + data_len\<close>.\<close>

definition parse_option ::
  "coap_packet \<Rightarrow> bytes \<Rightarrow> nat \<Rightarrow> u32 \<Rightarrow> nat \<Rightarrow> parse_step option" where
  "parse_option pkt mem data_len option_number cur = do {
     b \<leftarrow> rd mem cur;
     if b AND 0xF0 = 0xF0 then do {
       let pay = cur + 1;
       let n = data_len - pay;
       let n = (if transport_type pkt = COAP_TRANSPORT_UDP \<and> n > OC_BLOCK_SIZE
                then OC_BLOCK_SIZE else n);
       mem \<leftarrow> wr_mem mem (pay + n) 0;
       Some (Return COAP_NO_ERROR (pkt\<lparr>payload := Buf pay, payload_len := of_nat n\<rparr>) mem)
     }
     else do {
       (option_delta, cur) \<leftarrow> read_ext mem (unat (drop_bit 4 b)) (cur + 1);
       (option_length, cur) \<leftarrow> read_ext mem (unat (b AND 0x0F)) cur;
       let option_number = option_number + of_nat option_delta;
       let pkt = (if option_number \<le> COAP_OPTION_SIZE1 then SET_OPTION pkt option_number else pkt);
       if cur + option_length > data_len then Some (Return BAD_OPTION_4_02 pkt mem)
       else if coap_check_signal_message pkt then do {
         (ignored, pkt) \<leftarrow> coap_parse_signal_options pkt mem option_number cur option_length;
         Some (Continue pkt mem option_number (cur + option_length))
       }
       else do {
         (status, pkt, mem) \<leftarrow> parse_option_value pkt mem option_number cur option_length;
         if status \<noteq> COAP_NO_ERROR then Some (Return status pkt mem)
         else Some (Continue pkt mem option_number (cur + option_length))
       }
     }
   }"

lemma read_ext_mono: "read_ext mem nb cur = Some (v, cur') \<Longrightarrow> cur \<le> cur'"
  by (auto simp: read_ext_def bind_eq_Some_conv split: if_splits)

lemma parse_option_progress:
  "parse_option pkt mem data_len num cur = Some (Continue pkt' mem' num' cur') \<Longrightarrow> cur < cur'"
  by (fastforce simp: parse_option_def bind_eq_Some_conv Let_def split: if_splits prod.splits
      dest!: read_ext_mono)

function parse_options ::
  "coap_packet \<Rightarrow> bytes \<Rightarrow> nat \<Rightarrow> u32 \<Rightarrow> nat \<Rightarrow> (coap_status \<times> coap_packet \<times> bytes) option" where
  "parse_options pkt mem data_len option_number cur =
     (if cur < data_len then
        case parse_option pkt mem data_len option_number cur of
          None \<Rightarrow> None
        | Some (Return status pkt mem) \<Rightarrow> Some (status, pkt, mem)
        | Some (Continue pkt mem option_number cur) \<Rightarrow> parse_options pkt mem data_len option_number cur
      else Some (COAP_NO_ERROR, pkt, mem))"
  by pat_completeness auto
termination
  by (relation "measure (\<lambda>(pkt, mem, data_len, num, cur). data_len - cur)")
    (auto dest: parse_option_progress)

declare parse_options.simps [simp del]

definition coap_parse_token_option ::
  "coap_packet \<Rightarrow> bytes \<Rightarrow> nat \<Rightarrow> nat \<Rightarrow> (coap_status \<times> coap_packet \<times> bytes) option" where
  "coap_parse_token_option pkt mem data_len cur = do {
     tok \<leftarrow> rd_slice mem cur (unat (token_len pkt));
     let pkt = pkt\<lparr>token := splice 0 tok (token pkt), options := replicate 8 0\<rparr>;
     parse_options pkt mem data_len 0 (cur + unat (token_len pkt))
   }"

section \<open>UDP and TCP messages\<close>

definition coap_udp_parse_message ::
  "bytes \<Rightarrow> u16 \<Rightarrow> (coap_status \<times> coap_packet \<times> bytes) option" where
  "coap_udp_parse_message mem data_len = do {
     b0 \<leftarrow> rd mem 0; b1 \<leftarrow> rd mem 1; b2 \<leftarrow> rd mem 2; b3 \<leftarrow> rd mem 3;
     let pkt = zero_packet
       \<lparr>transport_type := COAP_TRANSPORT_UDP,
        version := drop_bit 6 (0xC0 AND b0),
        type := type_of_code (drop_bit 4 (0x30 AND b0)),
        token_len := drop_bit 0 (0x0F AND b0),
        code := b1,
        mid := push_bit 8 (ucast b2) OR ucast b3\<rparr>;
     if version pkt \<noteq> 1 then Some (BAD_REQUEST_4_00, pkt, mem)
     else if unat (token_len pkt) > COAP_TOKEN_LEN then Some (BAD_REQUEST_4_00, pkt, mem)
     else coap_parse_token_option pkt mem (unat data_len) COAP_HEADER_LEN
   }"

text \<open>
  \<open>coap_tcp_parse_message_length\<close>: the length field's value and the number of extended
  length bytes (the caller's variable starts at 0). \<open>or_ext\<close> is its for loop.
\<close>

fun or_ext :: "bytes \<Rightarrow> nat \<Rightarrow> nat \<Rightarrow> nat \<Rightarrow> nat \<Rightarrow> nat option" where
  "or_ext data i n acc 0 = Some acc"
| "or_ext data i n acc (Suc k) = do {
     b \<leftarrow> rd data i;
     or_ext data (Suc i) n (acc OR unat (push_bit (8 * (n - i)) (0x000000FF AND ucast b :: u32))) k
   }"

definition coap_tcp_parse_message_length :: "bytes \<Rightarrow> (nat \<times> u8) option" where
  "coap_tcp_parse_message_length data = do {
     b0 \<leftarrow> rd data 0;
     let tcp_len = drop_bit 4 (0xF0 AND b0);
     if tcp_len < 13 then Some (unat tcp_len, 0)
     else do {
       let n = push_bit (unat (tcp_len - 13)) 1;
       v \<leftarrow> or_ext data 1 (unat n) 0 (unat n);
       Some (if tcp_len = 13 then v + 13 else if tcp_len = 14 then v + 269
             else if tcp_len = 15 then v + 65805 else v, n)
     }
   }"

definition coap_tcp_get_packet_size :: "bytes \<Rightarrow> nat option" where
  "coap_tcp_get_packet_size data = do {
     (message_length, num_extended_length_bytes) \<leftarrow> coap_tcp_parse_message_length data;
     b0 \<leftarrow> rd data 0;
     Some (COAP_TCP_DEFAULT_HEADER_LEN + unat num_extended_length_bytes +
           unat (drop_bit 0 (0x0F AND b0)) + message_length)
   }"

definition coap_tcp_parse_message ::
  "bytes \<Rightarrow> u32 \<Rightarrow> (coap_status \<times> coap_packet \<times> bytes) option" where
  "coap_tcp_parse_message mem data_len = do {
     (message_length, num_extended_length_bytes) \<leftarrow> coap_tcp_parse_message_length mem;
     b0 \<leftarrow> rd mem 0;
     c \<leftarrow> rd mem (1 + unat num_extended_length_bytes);
     let pkt = zero_packet
       \<lparr>transport_type := COAP_TRANSPORT_TCP, type := COAP_TYPE_NON, mid := 0,
        token_len := drop_bit 0 (0x0F AND b0), code := c\<rparr>;
     if unat (token_len pkt) > COAP_TOKEN_LEN then Some (BAD_REQUEST_4_00, pkt, mem)
     else coap_parse_token_option pkt mem (unat data_len)
            (COAP_TCP_DEFAULT_HEADER_LEN + unat num_extended_length_bytes)
   }"

end
