(* ===== verification/Coap_Parse_Safe.thy ===== *)
theory Coap_Parse_Safe
  imports Coap_Parse
begin

text \<open>
  Memory safety of the parser. It accesses nothing outside a buffer with four spare bytes
  after the message (an option header at its end may announce four extension bytes), and
  it writes nothing but the message itself and one terminator after it. The joined
  strings stay behind the option being parsed; that is the loop invariant.
\<close>

definition str_in :: "cptr \<Rightarrow> nat \<Rightarrow> nat \<Rightarrow> bool" where
  "str_in p n cur \<longleftrightarrow> n = 0 \<or> (case p of Buf d \<Rightarrow> d + n \<le> cur | _ \<Rightarrow> False)"

definition parse_inv :: "coap_packet \<Rightarrow> nat \<Rightarrow> bool" where
  "parse_inv pkt cur \<longleftrightarrow>
     str_in (uri_path pkt) (uri_path_len pkt) cur \<and> str_in (uri_query pkt) (uri_query_len pkt) cur"

lemma str_in_mono: "str_in p n cur \<Longrightarrow> cur \<le> cur' \<Longrightarrow> str_in p n cur'"
  by (auto simp: str_in_def split: cptr.splits)

lemma parse_inv_mono: "parse_inv pkt cur \<Longrightarrow> cur \<le> cur' \<Longrightarrow> parse_inv pkt cur'"
  by (auto simp: parse_inv_def intro: str_in_mono)

lemma parse_inv_cong:
  "uri_path p = uri_path q \<Longrightarrow> uri_path_len p = uri_path_len q \<Longrightarrow> uri_query p = uri_query q \<Longrightarrow>
   uri_query_len p = uri_query_len q \<Longrightarrow> parse_inv p cur = parse_inv q cur"
  by (simp add: parse_inv_def)

lemma parse_inv_SET_OPTION [simp]: "parse_inv (SET_OPTION pkt n) cur = parse_inv pkt cur"
  by (simp add: parse_inv_def SET_OPTION_def)

lemma coap_parse_int_option_ok:
  "cur + len \<le> length mem \<Longrightarrow>
   coap_parse_int_option mem cur len = Some (parse_int_loop (take len (drop cur mem)) 0)"
  by (simp add: coap_parse_int_option_def rd_slice_def)

text \<open>Joining: the result is the old string, the separator and the option's value.\<close>

lemma coap_merge_multi_option_ok:
  assumes "str_in dst n k" and "k < cur" and "cur + len \<le> length mem"
  obtains mem' p n' where "coap_merge_multi_option mem dst n cur len sep = Some (mem', p, n')"
    and "length mem' = length mem" and "drop (cur + len) mem' = drop (cur + len) mem"
    and "str_in p n' (cur + len)"
    and "p = (if n = 0 then Buf cur else dst)"
    and "n' = (if n = 0 then len else n + 1 + len)"
    and "\<And>d. p = Buf d \<Longrightarrow> take n' (drop d mem') =
           (if n = 0 then [] else take n (drop d mem) @ [sep]) @ take len (drop cur mem)"
    and "\<And>a. n > 0 \<Longrightarrow> dst = Buf a \<Longrightarrow> take a mem' = take a mem"
    and "n = 0 \<Longrightarrow> mem' = mem"
proof (cases "n = 0")
  case True
  then show ?thesis
    using assms by (intro that [of mem "Buf cur" len])
      (auto simp: coap_merge_multi_option_def str_in_def)
next
  case False
  with assms(1) obtain d where d: "dst = Buf d" "d + n \<le> k"
    by (auto simp: str_in_def split: cptr.splits)
  let ?bs = "take len (drop cur mem)"
  let ?m1 = "splice (d + n) [sep] mem"
  let ?m2 = "splice (d + n + 1) ?bs ?m1"
  have bounds: "d + n < cur" "cur + len \<le> length mem" using d assms by auto
  have len: "length ?bs = len" using bounds by simp
  have l1: "length ?m1 = length mem" using bounds by simp
  have sl: "take len (drop cur ?m1) = ?bs" using bounds by (simp add: drop_splice)
  have m2: "?m2 = splice (d + n) (sep # ?bs) mem"
    using splice_splice [of "d + n" "[sep]" ?bs mem] bounds by simp
  have "coap_merge_multi_option mem dst n cur len sep = Some (?m2, dst, n + 1 + len)"
    using False d bounds l1 sl
    by (simp add: coap_merge_multi_option_def wr_mem_def rd_slice_def wr_mem_bytes_def
        list_update_splice)
  moreover have "length ?m2 = length mem" using m2 bounds by simp
  moreover have "drop (cur + len) ?m2 = drop (cur + len) mem"
    unfolding m2 using bounds by (intro drop_splice) auto
  moreover have "str_in dst (n + 1 + len) (cur + len)" using d bounds by (simp add: str_in_def)
  moreover have "take (n + 1 + len) (drop d ?m2) = take n (drop d mem) @ [sep] @ ?bs"
    unfolding m2 splice_def using bounds by (simp add: drop_take)
  moreover have "take d ?m2 = take d mem" unfolding m2 using bounds by (intro take_splice) auto
  ultimately show ?thesis using False d by (intro that [of ?m2 dst "n + 1 + len"]) auto
qed

section \<open>One option\<close>

lemma parse_option_value_other:
  assumes "cur + len \<le> length mem" and "num \<noteq> COAP_OPTION_URI_PATH" and "num \<noteq> COAP_OPTION_URI_QUERY"
  obtains st pkt' where "parse_option_value pkt mem num cur len = Some (st, pkt', mem)"
    and "uri_path pkt' = uri_path pkt" and "uri_path_len pkt' = uri_path_len pkt"
    and "uri_query pkt' = uri_query pkt" and "uri_query_len pkt' = uri_query_len pkt"
proof -
  have int: "coap_parse_int_option mem cur len = Some (parse_int_loop (take len (drop cur mem)) 0)"
    using assms by (simp add: coap_parse_int_option_ok)
  have tag: "rd_slice mem cur (min 8 len) = Some (take (min 8 len) (drop cur mem))"
    using assms by (simp add: rd_slice_def)
  obtain num' mr sz off where
    blk: "block_fields (parse_int_loop (take len (drop cur mem)) 0) = (num', mr, sz, off)"
    by (metis prod_cases4)
  define good where "good r \<longleftrightarrow> (\<exists>st pkt'. r = Some (st, pkt', mem) \<and>
      uri_path pkt' = uri_path pkt \<and> uri_path_len pkt' = uri_path_len pkt \<and>
      uri_query pkt' = uri_query pkt \<and> uri_query_len pkt' = uri_query_len pkt)"
    for r :: "(coap_status \<times> coap_packet \<times> bytes) option"
  have good_if: "good x \<Longrightarrow> good y \<Longrightarrow> good (if c then x else y)" for c x y by simp
  have good_Some: "uri_path pkt' = uri_path pkt \<Longrightarrow> uri_path_len pkt' = uri_path_len pkt \<Longrightarrow>
      uri_query pkt' = uri_query pkt \<Longrightarrow> uri_query_len pkt' = uri_query_len pkt \<Longrightarrow>
      good (Some (st, pkt', mem))" for st pkt'
    by (auto simp: good_def)
  have "good (parse_option_value pkt mem num cur len)"
    unfolding parse_option_value_def int tag Let_def bind.bind_lunit blk prod.case
      if_not_P [OF assms(2)] if_not_P [OF assms(3)]
    by (intro good_if good_Some) simp_all
  then show ?thesis using that by (auto simp: good_def)
qed

lemma parse_option_value_safe:
  assumes inv: "parse_inv pkt k" and "k < cur" and "cur + len \<le> length mem"
  shows "\<exists>st pkt' mem'. parse_option_value pkt mem num cur len = Some (st, pkt', mem') \<and>
     length mem' = length mem \<and> drop (cur + len) mem' = drop (cur + len) mem \<and>
     parse_inv pkt' (cur + len)"
proof -
  have inv': "parse_inv pkt (cur + len)" by (rule parse_inv_mono [OF inv]) (use assms in auto)
  consider (path) "num = COAP_OPTION_URI_PATH" | (query) "num = COAP_OPTION_URI_QUERY"
    | (other) "num \<noteq> COAP_OPTION_URI_PATH" "num \<noteq> COAP_OPTION_URI_QUERY" by blast
  then show ?thesis
  proof cases
    case path
    from inv have "str_in (uri_path pkt) (uri_path_len pkt) k" by (simp add: parse_inv_def)
    then obtain mem' p n' where
      "coap_merge_multi_option mem (uri_path pkt) (uri_path_len pkt) cur len slash = Some (mem', p, n')"
      "length mem' = length mem" "drop (cur + len) mem' = drop (cur + len) mem"
      "str_in p n' (cur + len)"
      by (rule coap_merge_multi_option_ok [OF _ assms(2,3)])
    with path inv' show ?thesis by (simp add: parse_option_value_def parse_inv_def)
  next
    case query
    from inv have "str_in (uri_query pkt) (uri_query_len pkt) k" by (simp add: parse_inv_def)
    then obtain mem' p n' where
      "coap_merge_multi_option mem (uri_query pkt) (uri_query_len pkt) cur len ampersand =
         Some (mem', p, n')"
      "length mem' = length mem" "drop (cur + len) mem' = drop (cur + len) mem"
      "str_in p n' (cur + len)"
      by (rule coap_merge_multi_option_ok [OF _ assms(2,3)])
    with query inv' show ?thesis by (simp add: parse_option_value_def parse_inv_def)
  next
    case other
    with assms(3) obtain st pkt' where "parse_option_value pkt mem num cur len = Some (st, pkt', mem)"
      "uri_path pkt' = uri_path pkt" "uri_path_len pkt' = uri_path_len pkt"
      "uri_query pkt' = uri_query pkt" "uri_query_len pkt' = uri_query_len pkt"
      by (rule parse_option_value_other)
    with inv' show ?thesis by (auto cong: parse_inv_cong)
  qed
qed

lemma coap_parse_signal_options_safe:
  assumes "cur + len \<le> length mem"
  shows "\<exists>st pkt'. coap_parse_signal_options pkt mem num cur len = Some (st, pkt') \<and>
     uri_path pkt' = uri_path pkt \<and> uri_path_len pkt' = uri_path_len pkt \<and>
     uri_query pkt' = uri_query pkt \<and> uri_query_len pkt' = uri_query_len pkt"
  using assms by (simp add: coap_parse_signal_options_def coap_parse_int_option_ok)

lemma read_ext_safe:
  "cur + 2 \<le> length mem \<Longrightarrow> \<exists>v cur'. read_ext mem nb cur = Some (v, cur') \<and> cur \<le> cur' \<and> cur' \<le> cur + 2"
  by (auto simp: read_ext_def rd_def)

definition step_safe :: "bytes \<Rightarrow> nat \<Rightarrow> nat \<Rightarrow> parse_step \<Rightarrow> bool" where
  "step_safe mem data_len cur r = (case r of
     Return st pkt' mem' \<Rightarrow>
       length mem' = length mem \<and> drop (data_len + 1) mem' = drop (data_len + 1) mem
   | Continue pkt' mem' num' cur' \<Rightarrow>
       cur < cur' \<and> cur' \<le> data_len \<and> length mem' = length mem \<and>
       drop (data_len + 1) mem' = drop (data_len + 1) mem \<and> parse_inv pkt' cur')"

lemma drop_le_cong: "drop i xs = drop i ys \<Longrightarrow> i \<le> j \<Longrightarrow> drop j xs = drop j ys"
  by (metis drop_drop le_add_diff_inverse2)

lemma parse_option_safe:
  assumes "cur < data_len" and "data_len + 4 \<le> length mem" and inv: "parse_inv pkt cur"
  shows "\<exists>r. parse_option pkt mem data_len num cur = Some r \<and> step_safe mem data_len cur r"
proof -
  define b where "b = mem ! cur"
  have rd: "rd mem cur = Some b" using assms by (simp add: rd_def b_def)
  show ?thesis
  proof (cases "b AND 0xF0 = 0xF0")
    case True
    define n where "n = (if transport_type pkt = COAP_TRANSPORT_UDP \<and> data_len - (cur + 1) > OC_BLOCK_SIZE
       then OC_BLOCK_SIZE else data_len - (cur + 1))"
    have n: "cur + 1 + n \<le> data_len" using assms by (auto simp: n_def)
    then have "wr_mem mem (cur + 1 + n) 0 = Some (splice (cur + 1 + n) [0] mem)"
      using assms by (simp add: wr_mem_def list_update_splice)
    moreover have "drop (data_len + 1) (splice (cur + 1 + n) [0] mem) = drop (data_len + 1) mem"
      using n assms by (intro drop_splice) auto
    ultimately show ?thesis using n assms
      unfolding parse_option_def Let_def rd bind.bind_lunit if_P [OF True] n_def [symmetric]
      by (simp add: step_safe_def)
  next
    case False
    obtain d c1 where d: "read_ext mem (unat (drop_bit 4 b)) (cur + 1) = Some (d, c1)"
      "cur + 1 \<le> c1" "c1 \<le> cur + 3"
      using read_ext_safe [of "cur + 1" mem] assms by fastforce
    obtain l c2 where l: "read_ext mem (unat (b AND 0x0F)) c1 = Some (l, c2)" "c1 \<le> c2"
      using read_ext_safe [of c1 mem] assms d by fastforce
    let ?num = "num + of_nat d"
    define p where "p = (if ?num \<le> COAP_OPTION_SIZE1 then SET_OPTION pkt ?num else pkt)"
    have inv_p: "parse_inv p cur" using inv by (simp add: p_def)
    have step: "parse_option pkt mem data_len num cur =
      (if c2 + l > data_len then Some (Return BAD_OPTION_4_02 p mem)
       else if coap_check_signal_message p then do {
         (ignored, p) \<leftarrow> coap_parse_signal_options p mem ?num c2 l;
         Some (Continue p mem ?num (c2 + l))
       }
       else do {
         (st, p, m) \<leftarrow> parse_option_value p mem ?num c2 l;
         if st \<noteq> COAP_NO_ERROR then Some (Return st p m)
         else Some (Continue p m ?num (c2 + l))
       })"
      using False rd d l by (simp add: parse_option_def p_def Let_def)
    consider (long) "c2 + l > data_len"
      | (signal) "c2 + l \<le> data_len" "coap_check_signal_message p"
      | (normal) "c2 + l \<le> data_len" "\<not> coap_check_signal_message p" by linarith
    then show ?thesis
    proof cases
      case long
      then show ?thesis by (simp add: step step_safe_def)
    next
      case signal
      then obtain st p' where s: "coap_parse_signal_options p mem ?num c2 l = Some (st, p')"
        "uri_path p' = uri_path p" "uri_path_len p' = uri_path_len p"
        "uri_query p' = uri_query p" "uri_query_len p' = uri_query_len p"
        using coap_parse_signal_options_safe [of c2 l mem p ?num] assms by auto
      then have "parse_inv p' (c2 + l)"
        using parse_inv_mono [OF inv_p, of "c2 + l"] d l by (simp cong: parse_inv_cong)
      with signal s d l show ?thesis by (simp add: step step_safe_def)
    next
      case normal
      then obtain st p' m' where s: "parse_option_value p mem ?num c2 l = Some (st, p', m')"
        "length m' = length mem" "drop (c2 + l) m' = drop (c2 + l) mem" "parse_inv p' (c2 + l)"
        using parse_option_value_safe [OF inv_p, of c2 l mem ?num] assms d l by auto
      have "drop (data_len + 1) m' = drop (data_len + 1) mem"
        using drop_le_cong [OF s(3)] normal by simp
      with normal s d l show ?thesis by (simp add: step step_safe_def)
    qed
  qed
qed

section \<open>The loop and the messages\<close>

definition parse_safe :: "bytes \<Rightarrow> nat \<Rightarrow> (coap_status \<times> coap_packet \<times> bytes) option \<Rightarrow> bool" where
  "parse_safe mem data_len r = (case r of None \<Rightarrow> False
     | Some (st, pkt, mem') \<Rightarrow>
         length mem' = length mem \<and> drop (data_len + 1) mem' = drop (data_len + 1) mem)"

lemma parse_options_safe:
  "data_len + 4 \<le> length mem \<Longrightarrow> parse_inv pkt cur \<Longrightarrow>
   parse_safe mem data_len (parse_options pkt mem data_len num cur)"
proof (induction pkt mem data_len num cur rule: parse_options.induct)
  case (1 pkt mem data_len num cur)
  show ?case
  proof (cases "cur < data_len")
    case True
    obtain r where r: "parse_option pkt mem data_len num cur = Some r" "step_safe mem data_len cur r"
      using parse_option_safe [OF True "1.prems"] by blast
    show ?thesis
    proof (cases r)
      case (Return st p m)
      with True r show ?thesis
        by (subst parse_options.simps) (simp add: parse_safe_def step_safe_def)
    next
      case (Continue p m n c)
      with r have m: "length m = length mem" "drop (data_len + 1) m = drop (data_len + 1) mem"
        "parse_inv p c" by (auto simp: step_safe_def)
      with "1.IH" [OF True r(1) Continue] "1.prems"
      have "parse_safe m data_len (parse_options p m data_len n c)" by simp
      with True r(1) Continue m show ?thesis
        by (subst parse_options.simps) (simp add: parse_safe_def split: option.splits prod.splits)
    qed
  next
    case False
    then show ?thesis by (subst parse_options.simps) (simp add: parse_safe_def)
  qed
qed

lemma coap_parse_token_option_safe:
  assumes "data_len + 4 \<le> length mem" and "cur + unat (token_len pkt) \<le> length mem"
    and "uri_path_len pkt = 0" and "uri_query_len pkt = 0"
  shows "parse_safe mem data_len (coap_parse_token_option pkt mem data_len cur)"
proof -
  let ?p = "pkt\<lparr>token := splice 0 (take (unat (token_len pkt)) (drop cur mem)) (token pkt),
                options := replicate 8 0\<rparr>"
  have "parse_inv ?p (cur + unat (token_len pkt))" using assms by (simp add: parse_inv_def str_in_def)
  with assms show ?thesis
    by (simp add: coap_parse_token_option_def rd_slice_def parse_options_safe)
qed

lemma zero_packet_strings [simp]: "uri_path_len zero_packet = 0" "uri_query_len zero_packet = 0"
  by (simp_all add: zero_packet_def)

lemma coap_udp_parse_message_safe:
  assumes "unat data_len + 4 \<le> length mem" and "12 \<le> length mem"
  shows "parse_safe mem (unat data_len) (coap_udp_parse_message mem data_len)"
proof -
  have ret: "parse_safe mem n (Some (st, p, mem))" for n st p by (simp add: parse_safe_def)
  show ?thesis using assms
    by (simp add: coap_udp_parse_message_def rd_def Let_def ret)
      (auto intro!: coap_parse_token_option_safe)
qed

lemma or_ext_safe: "i + k \<le> length data \<Longrightarrow> \<exists>v. or_ext data i n acc k = Some v"
  by (induction k arbitrary: i acc) (auto simp: rd_def)

lemma coap_tcp_parse_message_length_safe:
  assumes "5 \<le> length data"
  obtains v n where "coap_tcp_parse_message_length data = Some (v, n)" and "unat n \<le> 4"
proof -
  obtain b0 where b0: "rd data 0 = Some b0" using assms by (cases data) (auto simp: rd_def)
  define len where "len = drop_bit 4 (0xF0 AND b0)"
  show ?thesis
  proof (cases "len < 13")
    case True
    with b0 that [of _ 0] show ?thesis
      by (simp add: coap_tcp_parse_message_length_def len_def [symmetric] Let_def del: drop_bit_and)
  next
    case False
    define n where "n = (push_bit (unat (len - 13)) 1 :: u8)"
    have "unat len < 16"
    proof -
      have "unat len = unat (0xF0 AND b0) div 16" by (simp add: len_def drop_bit_eq_div unat_div)
      also have "\<dots> < 16" using unsigned_less [of "0xF0 AND b0"] by (simp add: less_mult_imp_div_less)
      finally show ?thesis .
    qed
    with False have "len \<in> {13, 14, 15}" by (auto simp: word_less_nat_alt word_unat_eq_iff)
    then have n: "unat n \<le> 4" by (auto simp: n_def)
    obtain v where "or_ext data 1 (unat n) 0 (unat n) = Some v"
      using or_ext_safe [of 1 "unat n" data] n assms by auto
    then have "\<exists>w. coap_tcp_parse_message_length data = Some (w, n)"
      unfolding coap_tcp_parse_message_length_def b0 bind.bind_lunit Let_def
        len_def [symmetric] n_def [symmetric] if_not_P [OF False] by simp
    with n that show ?thesis by blast
  qed
qed

lemma coap_tcp_parse_message_safe:
  assumes "unat data_len + 4 \<le> length mem" and "14 \<le> length mem"
  shows "parse_safe mem (unat data_len) (coap_tcp_parse_message mem data_len)"
proof -
  obtain v n where v: "coap_tcp_parse_message_length mem = Some (v, n)" "unat n \<le> 4"
    using coap_tcp_parse_message_length_safe [of mem] assms(2) by auto
  have ret: "parse_safe mem k (Some (st, p, mem))" for k st p by (simp add: parse_safe_def)
  show ?thesis using assms v
    by (simp add: coap_tcp_parse_message_def rd_def Let_def ret)
      (auto intro!: coap_parse_token_option_safe)
qed

section \<open>Properties\<close>





text \<open>Without those bytes the parser leaves the buffer: a five byte datagram whose last
  byte announces an extended option delta, in a buffer of five bytes, is read behind its end;
  one that ends in the payload marker is written behind its end.\<close>

theorem coap_udp_parse_needs_slack:
  "coap_udp_parse_message [0x40, 1, 0, 0, 0xD0] 5 = None \<and>
   coap_udp_parse_message [0x40, 1, 0, 0, 0xFF] 5 = None"
proof -
  have end_read: "parse_options p [0x40, 1, 0, 0, 0xD0] 5 0 4 = None" for p
    by (simp add: parse_options.simps parse_option_def rd_def read_ext_def)
  have end_write: "parse_options p [0x40, 1, 0, 0, 0xFF] 5 0 4 = None" for p
    by (simp add: parse_options.simps parse_option_def rd_def wr_mem_def Let_def)
  show ?thesis
    by (simp add: coap_udp_parse_message_def coap_parse_token_option_def rd_def rd_slice_def Let_def
        end_read end_write)
qed

end
