(* ===== verification/Coap_Codec.thy ===== *)
theory Coap_Codec
  imports Coap_Message Coap_Parse_Safe
begin

text \<open>
  The two sides of the codec against each other, piece by piece: option headers, integer
  values, block options, and the strings that are split on sending and joined on receipt.
\<close>

section \<open>Option headers\<close>

lemma nibble_le_14: "unat (coap_option_nibble v) \<le> 14"
  by (simp add: coap_option_nibble_def unat_of_nat_u8)

lemma drop_bit_nibbles:
  "unat (x :: u8) < 16 \<Longrightarrow> unat (y :: u8) < 16 \<Longrightarrow> drop_bit 4 (push_bit 4 x OR y) = x"
proof -
  assume "unat x < 16" "unat y < 16"
  then have x: "take_bit 4 x = x" and y: "take_bit 4 y = y"
    by (simp_all add: take_bit_self_iff)
  have "drop_bit 4 (push_bit 4 (take_bit 4 x) OR take_bit 4 y) = take_bit 4 x"
    by (rule bit_word_eqI) (auto simp: bit_simps)
  then show ?thesis by (simp add: x y)
qed

lemma and_0xF: "(w :: u8) AND 0x0F = take_bit 4 w"
  by (simp add: take_bit_eq_mask mask_eq_exp_minus_1)

lemma and_nibbles: "unat (y :: u8) < 16 \<Longrightarrow> (push_bit 4 x OR y) AND 0x0F = y"
proof -
  assume "unat y < 16"
  then have y: "take_bit 4 y = y" by (simp add: take_bit_self_iff)
  have "take_bit 4 (push_bit 4 x OR take_bit 4 y) = take_bit 4 y"
    by (rule bit_word_eqI) (auto simp: bit_simps)
  then show ?thesis by (simp add: y and_0xF)
qed

lemma marker_nibble: "(b :: u8) AND 0xF0 = 0xF0 \<Longrightarrow> unat (drop_bit 4 b) = 15"
proof -
  assume "b AND 0xF0 = 0xF0"
  then have "drop_bit 4 b AND drop_bit 4 0xF0 = drop_bit 4 0xF0" by (metis drop_bit_and)
  moreover have "drop_bit 4 (0xF0 :: u8) = 0x0F" by (simp add: drop_bit_eq_div)
  ultimately have "drop_bit 4 b AND 0x0F = 0x0F" by metis
  then have "take_bit 4 (drop_bit 4 b) = 0x0F" by (simp add: and_0xF)
  moreover have "take_bit 4 (drop_bit 4 b) = drop_bit 4 b" by (rule bit_word_eqI) (auto simp: bit_simps dest: bit_imp_le_length)
  ultimately show ?thesis by simp
qed

lemma read_ext_opt_ext:
  assumes "drop cur mem = opt_ext v @ rest" and "v \<le> 65804" and "cur \<le> length mem"
  shows "read_ext mem (unat (coap_option_nibble v)) cur = Some (v, cur + length (opt_ext v))"
proof -
  consider (small) "v < 13" | (mid) "13 \<le> v" "v \<le> 268" | (big) "268 < v" by linarith
  then show ?thesis
  proof cases
    case small
    then show ?thesis by (simp add: read_ext_def coap_option_nibble_def opt_ext_def unat_of_nat_u8)
  next
    case mid
    define b :: u8 where "b = of_nat (v - 13)"
    have "unat b = v - 13" unfolding b_def unat_of_nat_u8 using mid by simp
    moreover have "rd mem cur = Some b"
      using mid assms by (intro rd_from_drop) (simp add: opt_ext_def b_def)
    ultimately show ?thesis using mid
      by (simp add: read_ext_def coap_option_nibble_def opt_ext_def)
  next
    case big
    define b1 b2 :: u8 where b: "b1 = of_nat ((v - 269) div 256)" "b2 = of_nat (v - 269)"
    have d: "drop cur mem = b1 # b2 # rest" using assms big by (simp add: opt_ext_def b)
    then have "rd mem cur = Some b1" by (rule rd_from_drop)
    moreover have "rd mem (cur + 1) = Some b2"
      using drop_Suc_from_drop [OF d] by (simp add: rd_from_drop)
    moreover have "(v - 269) div 256 < 256" using assms(2) by auto
    then have "unat b1 = (v - 269) div 256" "unat b2 = (v - 269) mod 256"
      unfolding b unat_of_nat_u8 by simp_all
    then have "14 + 255 + unat b1 * 256 + unat b2 = v"
      using big div_mult_mod_eq [of "v - 269" 256] by linarith
    ultimately show ?thesis using big
      by (simp add: read_ext_def coap_option_nibble_def opt_ext_def)
  qed
qed

section \<open>Integer options\<close>

lemma shift_or_byte: "push_bit 8 (var :: u32) OR ucast (b :: u8) = 256 * var + ucast b"
proof -
  have "push_bit 8 var + ucast b = push_bit 8 var OR ucast b"
    by (rule disjunctive_add) (auto simp: bit_simps dest: bit_imp_le_length)
  then show ?thesis by (simp add: push_bit_eq_mult mult.commute)
qed

lemma parse_int_loop_be: "parse_int_loop bs 0 = of_nat (be_val bs)"
proof -
  have step: "push_bit 8 (of_nat v) OR ucast b = (of_nat (256 * v + unat b) :: u32)"
    for v and b :: u8
    by (simp add: shift_or_byte)
  have "parse_int_loop bs (of_nat v) = of_nat (foldl (\<lambda>v b. 256 * v + unat b) v bs)" for v
    by (induction bs arbitrary: v) (simp_all only: parse_int_loop.simps foldl.simps step)
  from this [of 0] show ?thesis by (simp add: be_val_def)
qed

lemma high_mask_iff:
  "(0xFF000000 AND (v :: u32) \<noteq> 0) \<longleftrightarrow> 2 ^ 24 \<le> unat v"
  "(0xFFFF0000 AND (v :: u32) \<noteq> 0) \<longleftrightarrow> 2 ^ 16 \<le> unat v"
  "(0xFFFFFF00 AND (v :: u32) \<noteq> 0) \<longleftrightarrow> 2 ^ 8 \<le> unat v"
  "(0xFFFFFFFF AND (v :: u32) \<noteq> 0) \<longleftrightarrow> 0 < unat v"
proof -
  have gen: "(NOT (mask k) AND v = 0) \<longleftrightarrow> unat v < 2 ^ k" for k
  proof -
    have "(NOT (mask k) AND v = 0) \<longleftrightarrow> take_bit k v = v"
      by (auto simp: bit_eq_iff bit_simps)
    also have "\<dots> \<longleftrightarrow> unat v < 2 ^ k"
      by (rule take_bit_self_iff)
    finally show ?thesis .
  qed
  have "NOT (mask 24) = (0xFF000000 :: u32)" "NOT (mask 16) = (0xFFFF0000 :: u32)"
    "NOT (mask 8) = (0xFFFFFF00 :: u32)" "NOT (mask 0) = (0xFFFFFFFF :: u32)"
    by (simp_all add: mask_eq_exp_minus_1)
  moreover have "0xFFFFFFFF AND v = v" by (metis \<open>NOT (mask 0) = 0xFFFFFFFF\<close> and.left_neutral bit.compl_zero mask_0)
  ultimately show
    "(0xFF000000 AND v \<noteq> 0) \<longleftrightarrow> 2 ^ 24 \<le> unat v" "(0xFFFF0000 AND v \<noteq> 0) \<longleftrightarrow> 2 ^ 16 \<le> unat v"
    "(0xFFFFFF00 AND v \<noteq> 0) \<longleftrightarrow> 2 ^ 8 \<le> unat v" "(0xFFFFFFFF AND v \<noteq> 0) \<longleftrightarrow> 0 < unat v"
    using gen [of 24] gen [of 16] gen [of 8] gen [of 0] by (simp_all add: not_less)
qed

lemma be_val_int_bytes: "be_val (int_bytes v) = unat v"
proof -
  have "unat v div 16777216 mod 256 = unat v div 16777216"
    by (rule mod_less) (simp add: div_less_iff_less_mult)
  then show ?thesis
    unfolding int_bytes_def high_mask_iff using base256_sum [of "unat v"]
    by (auto simp: be_val_def unat_byte_of_u32 [of 24 v] unat_byte_of_u32 [of 16 v]
        unat_byte_of_u32 [of 8 v] unat_low_byte_u32 [of v])
qed

lemma parse_int_bytes: "parse_int_loop (int_bytes v) 0 = v"
  by (simp add: parse_int_loop_be be_val_int_bytes)

lemma length_int_bytes: "length (int_bytes v) \<le> 4"
  by (simp add: int_bytes_def)

section \<open>Strings\<close>

definition join_part :: "u8 \<Rightarrow> bytes \<Rightarrow> bytes \<Rightarrow> bytes" where
  "join_part ch s v = (if s = [] then v else s @ ch # v)"

lemma join_segs_aux:
  assumes "rest \<noteq> [] \<Longrightarrow> last rest \<noteq> ch"
    and "s = [] \<Longrightarrow> acc = [] \<Longrightarrow> rest \<noteq> [] \<Longrightarrow> hd rest \<noteq> ch"
  shows "foldl (join_part ch) s (segs ch acc rest) = join_part ch s (acc @ rest)"
  using assms
proof (induction ch acc rest arbitrary: s rule: segs.induct)
  case (3 ch acc c d cs)
  show ?case
  proof (cases "c = ch")
    case True
    with 3 have "join_part ch s acc \<noteq> []" by (auto simp: join_part_def)
    with 3 True show ?thesis by (auto simp: join_part_def split: if_splits)
  next
    case False
    with 3 show ?thesis by simp
  qed
qed auto

lemma join_segs:
  assumes "s \<noteq> [] \<Longrightarrow> hd s \<noteq> ch \<and> last s \<noteq> ch"
  shows "foldl (join_part ch) [] (segs ch [] s) = s"
  using join_segs_aux [of s ch "[]" "[]"] assms by (simp add: join_part_def)

end
