(* ===== verification/Coap_Refine.thy ===== *)
theory Coap_Refine
  imports Coap_Codec
begin

text \<open>
  The parser refines an abstract reading of a message: a list of options (number, value)
  applied one after the other to a packet whose strings are byte strings, not positions in
  the receive buffer. \<open>abs_pkt\<close> is the abstraction; the in-place joining of strings is what
  the refinement has to justify.
\<close>

section \<open>The effect of one option\<close>

definition option_effect :: "coap_packet \<Rightarrow> u32 \<Rightarrow> bytes \<Rightarrow> coap_status \<times> coap_packet" where
  "option_effect p n v =
     (let i = parse_int_loop v 0 in
      if n = COAP_OPTION_CONTENT_FORMAT then
        (if ucast i \<noteq> APPLICATION_VND_OCF_CBOR \<and> ucast i \<noteq> APPLICATION_CBOR
         then UNSUPPORTED_MEDIA_TYPE_4_15 else COAP_NO_ERROR, p\<lparr>content_format := ucast i\<rparr>)
      else if n = COAP_OPTION_MAX_AGE then (COAP_NO_ERROR, p\<lparr>max_age := i\<rparr>)
      else if n = COAP_OPTION_ETAG then
        (COAP_NO_ERROR, p\<lparr>etag_len := of_nat (min 8 (length v)), etag := splice 0 (take 8 v) (etag p)\<rparr>)
      else if n = COAP_OPTION_ACCEPT then
        (if ucast i \<noteq> APPLICATION_VND_OCF_CBOR \<and> ucast i \<noteq> APPLICATION_CBOR
         then NOT_ACCEPTABLE_4_06 else COAP_NO_ERROR, p\<lparr>accept := ucast i\<rparr>)
      else if n = COAP_OPTION_URI_PORT then (COAP_NO_ERROR, p\<lparr>uri_port := ucast i\<rparr>)
      else if n = COAP_OPTION_URI_PATH then
        (let s = join_part slash (deref [] (uri_path p)) v
         in (COAP_NO_ERROR, p\<lparr>uri_path := Obj s, uri_path_len := length s\<rparr>))
      else if n = COAP_OPTION_URI_QUERY then
        (let s = join_part ampersand (deref [] (uri_query p)) v
         in (COAP_NO_ERROR, p\<lparr>uri_query := Obj s, uri_query_len := length s\<rparr>))
      else if n = COAP_OPTION_OBSERVE then (COAP_NO_ERROR, p\<lparr>observe := i\<rparr>)
      else if n = COAP_OPTION_BLOCK2 then
        (let (num, mr, sz, off) = block_fields i
         in (COAP_NO_ERROR, p\<lparr>block2_num := num, block2_more := mr, block2_size := sz,
                               block2_offset := off\<rparr>))
      else if n = COAP_OPTION_BLOCK1 then
        (let (num, mr, sz, off) = block_fields i
         in (COAP_NO_ERROR, p\<lparr>block1_num := num, block1_more := mr, block1_size := sz,
                               block1_offset := off\<rparr>))
      else if n = COAP_OPTION_SIZE2 then (COAP_NO_ERROR, p\<lparr>size2 := i\<rparr>)
      else if n = COAP_OPTION_SIZE1 then (COAP_NO_ERROR, p\<lparr>size1 := i\<rparr>)
      else if n = OCF_OPTION_CONTENT_FORMAT_VER \<or> n = OCF_OPTION_ACCEPT_CONTENT_FORMAT_VER then
        (if ucast i \<noteq> OCF_VER_1_0_0 \<and> ucast i \<noteq> OIC_VER_1_1_0
         then UNSUPPORTED_MEDIA_TYPE_4_15 else COAP_NO_ERROR, p)
      else (if n AND 1 \<noteq> 0 then BAD_OPTION_4_02 else COAP_NO_ERROR, p))"

definition mark_option :: "coap_packet \<Rightarrow> u32 \<Rightarrow> coap_packet" where
  "mark_option p n = (if n \<le> COAP_OPTION_SIZE1 then SET_OPTION p n else p)"

fun apply_opts :: "coap_packet \<Rightarrow> (u32 \<times> bytes) list \<Rightarrow> coap_status \<times> coap_packet" where
  "apply_opts p [] = (COAP_NO_ERROR, p)"
| "apply_opts p ((n, v) # opts) =
     (let (st, p') = option_effect (mark_option p n) n v
      in if st \<noteq> COAP_NO_ERROR then (st, p') else apply_opts p' opts)"

definition abs_pkt :: "bytes \<Rightarrow> coap_packet \<Rightarrow> coap_packet" where
  "abs_pkt mem pkt = pkt
     \<lparr>uri_path := Obj (str_bytes mem (uri_path pkt) (uri_path_len pkt)),
      uri_query := Obj (str_bytes mem (uri_query pkt) (uri_query_len pkt))\<rparr>"

section \<open>Options other than the joined strings\<close>

lemma parse_option_value_effect:
  assumes "cur + length v \<le> length mem" and v: "take (length v) (drop cur mem) = v"
    and "n \<noteq> COAP_OPTION_URI_PATH" and "n \<noteq> COAP_OPTION_URI_QUERY"
  shows "parse_option_value pkt mem n cur (length v) =
     Some (fst (option_effect pkt n v), snd (option_effect pkt n v), mem)"
proof -
  have int: "coap_parse_int_option mem cur (length v) = Some (parse_int_loop v 0)"
    using assms by (simp add: coap_parse_int_option_ok)
  have tag: "rd_slice mem cur (min 8 (length v)) = Some (take 8 v)"
  proof -
    have "take (min 8 (length v)) (drop cur mem) = take 8 (take (length v) (drop cur mem))" by simp
    also have "\<dots> = take 8 v" by (simp only: v)
    finally show ?thesis using assms(1) by (simp add: rd_slice_def)
  qed
  obtain num mr sz off where blk: "block_fields (parse_int_loop v 0) = (num, mr, sz, off)"
    by (metis prod_cases4)
  define rel where "rel r e \<longleftrightarrow> r = Some (fst e, snd e, mem)"
    for r :: "(coap_status \<times> coap_packet \<times> bytes) option" and e
  have rel_if: "rel a c \<Longrightarrow> rel b d \<Longrightarrow> rel (if x then a else b) (if x then c else d)" for a b c d x
    by simp
  have "rel (parse_option_value pkt mem n cur (length v)) (option_effect pkt n v)"
    unfolding parse_option_value_def option_effect_def int tag Let_def bind.bind_lunit blk prod.case
      if_not_P [OF assms(3)] if_not_P [OF assms(4)]
    by (intro rel_if) (simp_all add: rel_def)
  then show ?thesis by (simp add: rel_def)
qed

definition same_strings :: "coap_packet \<Rightarrow> coap_packet \<Rightarrow> bool" where
  "same_strings p q \<longleftrightarrow>
     uri_path p = uri_path q \<and> uri_path_len p = uri_path_len q \<and>
     uri_query p = uri_query q \<and> uri_query_len p = uri_query_len q"

lemma option_effect_other:
  assumes "n \<noteq> COAP_OPTION_URI_PATH" and "n \<noteq> COAP_OPTION_URI_QUERY"
  shows "same_strings (snd (option_effect p n v)) p \<and>
     option_effect (p\<lparr>uri_path := a, uri_query := b\<rparr>) n v =
       (fst (option_effect p n v), (snd (option_effect p n v))\<lparr>uri_path := a, uri_query := b\<rparr>)"
proof -
  obtain num mr sz off where blk: "block_fields (parse_int_loop v 0) = (num, mr, sz, off)"
    by (metis prod_cases4)
  define rel where "rel e f \<longleftrightarrow> same_strings (snd e) p \<and>
      f = (fst e, (snd e)\<lparr>uri_path := a, uri_query := b\<rparr>)"
    for e f :: "coap_status \<times> coap_packet"
  have rel_if: "rel w y \<Longrightarrow> rel x z \<Longrightarrow> rel (if c then w else x) (if c then y else z)" for c w x y z
    by simp
  have "rel (option_effect p n v) (option_effect (p\<lparr>uri_path := a, uri_query := b\<rparr>) n v)"
    unfolding option_effect_def Let_def blk prod.case if_not_P [OF assms(1)] if_not_P [OF assms(2)]
    by (intro rel_if) (simp_all add: rel_def same_strings_def)
  then show ?thesis by (simp add: rel_def)
qed

lemma code_option_effect [simp]: "code (snd (option_effect p n v)) = code p"
proof -
  obtain num mr sz off where blk: "block_fields (parse_int_loop v 0) = (num, mr, sz, off)"
    by (metis prod_cases4)
  have code_if: "code (snd x) = c \<Longrightarrow> code (snd y) = c \<Longrightarrow> code (snd (if b then x else y)) = c"
    for b c and x y :: "coap_status \<times> coap_packet" by simp
  show ?thesis
    unfolding option_effect_def Let_def blk prod.case by (intro code_if) simp_all
qed

lemma transport_option_effect [simp]:
  "transport_type (snd (option_effect p n v)) = transport_type p"
proof -
  obtain num mr sz off where blk: "block_fields (parse_int_loop v 0) = (num, mr, sz, off)"
    by (metis prod_cases4)
  have tr_if: "transport_type (snd x) = c \<Longrightarrow> transport_type (snd y) = c \<Longrightarrow>
    transport_type (snd (if b then x else y)) = c"
    for b c and x y :: "coap_status \<times> coap_packet" by simp
  show ?thesis
    unfolding option_effect_def Let_def blk prod.case by (intro tr_if) simp_all
qed

lemma mark_option_fields [simp]:
  "code (mark_option p n) = code p" "transport_type (mark_option p n) = transport_type p"
  "uri_path (mark_option p n) = uri_path p" "uri_path_len (mark_option p n) = uri_path_len p"
  "uri_query (mark_option p n) = uri_query p" "uri_query_len (mark_option p n) = uri_query_len p"
  by (simp_all add: mark_option_def SET_OPTION_def)

lemma abs_mark_option: "abs_pkt mem (mark_option p n) = mark_option (abs_pkt mem p) n"
  by (simp add: abs_pkt_def mark_option_def SET_OPTION_def)

lemma abs_pkt_fields [simp]:
  "code (abs_pkt mem p) = code p" "transport_type (abs_pkt mem p) = transport_type p"
  by (simp_all add: abs_pkt_def)

section \<open>The step\<close>

text \<open>
  The invariant of the refinement: the strings lie behind the current option, a query
  appears only after the path (option numbers ascend), and the path lies before the query.
\<close>

definition rt_inv :: "coap_packet \<Rightarrow> nat \<Rightarrow> u32 \<Rightarrow> bool" where
  "rt_inv pkt cur num \<longleftrightarrow>
     parse_inv pkt cur \<and> (num < COAP_OPTION_URI_QUERY \<longrightarrow> uri_query_len pkt = 0) \<and>
     (uri_query_len pkt > 0 \<longrightarrow>
        (case uri_query pkt of Buf q \<Rightarrow> str_in (uri_path pkt) (uri_path_len pkt) q | _ \<Rightarrow> True))"

lemma rt_inv_same_strings:
  "same_strings p q \<Longrightarrow> rt_inv q cur num \<Longrightarrow> cur \<le> cur' \<Longrightarrow> num \<le> num' \<Longrightarrow> rt_inv p cur' num'"
  by (auto simp: rt_inv_def same_strings_def parse_inv_def intro: str_in_mono split: cptr.splits)

lemma abs_pkt_same_strings:
  "same_strings p q \<Longrightarrow> abs_pkt mem p = p
     \<lparr>uri_path := Obj (str_bytes mem (uri_path q) (uri_path_len q)),
      uri_query := Obj (str_bytes mem (uri_query q) (uri_query_len q))\<rparr>"
  by (simp add: abs_pkt_def same_strings_def)

text \<open>What one option does to packet and buffer, as the refinement needs it.\<close>

definition step_refines ::
  "bytes \<Rightarrow> coap_packet \<Rightarrow> u32 \<Rightarrow> bytes \<Rightarrow> nat \<Rightarrow> coap_status \<Rightarrow> coap_packet \<Rightarrow> bytes \<Rightarrow> bool" where
  "step_refines mem pkt n v cur st pkt' mem' \<longleftrightarrow>
     option_effect (abs_pkt mem pkt) n v = (st, abs_pkt mem' pkt') \<and>
     length mem' = length mem \<and> drop cur mem' = drop cur mem \<and> rt_inv pkt' cur n"

lemma str_bytes_prefix_cong:
  "str_in p n k \<Longrightarrow> take k mem' = take k mem \<Longrightarrow> str_bytes mem' p n = str_bytes mem p n"
proof (cases "n = 0")
  case False
  assume "str_in p n k" and eq: "take k mem' = take k mem"
  with False obtain d where d: "p = Buf d" "d + n \<le> k" by (auto simp: str_in_def split: cptr.splits)
  have "take n (drop d m) = take n (drop d (take k m))" for m :: bytes
    using d(2) by (simp add: drop_take min_absorb1)
  then have "take n (drop d mem') = take n (drop d mem)" by (metis eq)
  with d show ?thesis by (simp add: str_bytes_def)
qed (simp add: str_bytes_def)

lemma str_bytes_empty_iff: "str_in p n k \<Longrightarrow> k \<le> length mem \<Longrightarrow> str_bytes mem p n = [] \<longleftrightarrow> n = 0"
  by (auto simp: str_in_def str_bytes_def split: cptr.splits)

lemma merge_refines:
  assumes "str_in dst n k" and "k < cur" and "cur + length v \<le> length mem"
    and v: "take (length v) (drop cur mem) = v"
  obtains mem' p n' where "coap_merge_multi_option mem dst n cur (length v) ch = Some (mem', p, n')"
    and "length mem' = length mem" and "drop (cur + length v) mem' = drop (cur + length v) mem"
    and "str_in p n' (cur + length v)"
    and "str_bytes mem' p n' = join_part ch (str_bytes mem dst n) v"
    and "n' = length (join_part ch (str_bytes mem dst n) v)"
    and "n = 0 \<longrightarrow> mem' = mem \<and> p = Buf cur"
    and "n > 0 \<longrightarrow> p = dst \<and> (\<forall>d. dst = Buf d \<longrightarrow> take d mem' = take d mem)"
proof -
  obtain mem' p n' where m: "coap_merge_multi_option mem dst n cur (length v) ch = Some (mem', p, n')"
    "length mem' = length mem" "drop (cur + length v) mem' = drop (cur + length v) mem"
    "str_in p n' (cur + length v)"
    and p: "p = (if n = 0 then Buf cur else dst)"
    and n': "n' = (if n = 0 then length v else n + 1 + length v)"
    and str: "\<And>d. p = Buf d \<Longrightarrow> take n' (drop d mem') =
       (if n = 0 then [] else take n (drop d mem) @ [ch]) @ take (length v) (drop cur mem)"
    and pre: "\<And>a. n > 0 \<Longrightarrow> dst = Buf a \<Longrightarrow> take a mem' = take a mem" and same: "n = 0 \<Longrightarrow> mem' = mem"
    by (rule coap_merge_multi_option_ok [OF assms(1-3), of ch]) blast
  have empty: "str_bytes mem dst n = [] \<longleftrightarrow> n = 0"
    using assms by (intro str_bytes_empty_iff [of _ _ k]) auto
  have sb: "str_bytes mem' p n' = join_part ch (str_bytes mem dst n) v"
  proof (cases "n = 0")
    case True
    then show ?thesis using str [of cur] p v by (simp add: str_bytes_def join_part_def)
  next
    case False
    with assms(1) obtain d where "dst = Buf d" by (auto simp: str_in_def split: cptr.splits)
    with False show ?thesis using str [of d] p v empty by (simp add: str_bytes_def join_part_def)
  qed
  have len: "length (str_bytes mem dst n) = n"
    using assms by (auto simp: str_in_def str_bytes_def split: cptr.splits)
  show ?thesis
    by (rule that [OF m sb]) (use n' len empty p pre same in \<open>auto simp: join_part_def\<close>)
qed

lemma parse_value_refines:
  assumes inv: "rt_inv pkt k num" and "num \<le> n" and "k < cur" and "cur + length v \<le> length mem"
    and v: "take (length v) (drop cur mem) = v"
  obtains st pkt' mem' where "parse_option_value pkt mem n cur (length v) = Some (st, pkt', mem')"
    and "step_refines mem pkt n v (cur + length v) st pkt' mem'"
proof -
  have path_in: "str_in (uri_path pkt) (uri_path_len pkt) k"
    and query_in: "str_in (uri_query pkt) (uri_query_len pkt) k"
    using inv by (simp_all add: rt_inv_def parse_inv_def)
  consider (path) "n = COAP_OPTION_URI_PATH" | (query) "n = COAP_OPTION_URI_QUERY"
    | (other) "n \<noteq> COAP_OPTION_URI_PATH" "n \<noteq> COAP_OPTION_URI_QUERY" by blast
  then show ?thesis
  proof cases
    case path
    obtain mem' p n' where m:
      "coap_merge_multi_option mem (uri_path pkt) (uri_path_len pkt) cur (length v) slash = Some (mem', p, n')"
      "length mem' = length mem" "drop (cur + length v) mem' = drop (cur + length v) mem"
      "str_in p n' (cur + length v)"
      "str_bytes mem' p n' = join_part slash (str_bytes mem (uri_path pkt) (uri_path_len pkt)) v"
      "n' = length (join_part slash (str_bytes mem (uri_path pkt) (uri_path_len pkt)) v)"
      by (rule merge_refines [OF path_in assms(3,4) v, of slash]) blast
    have "num < COAP_OPTION_URI_QUERY" using path \<open>num \<le> n\<close> by (simp add: word_le_nat_alt word_less_nat_alt)
    then have q0: "uri_query_len pkt = 0" using inv by (simp add: rt_inv_def)
    let ?p = "pkt\<lparr>uri_path := p, uri_path_len := n'\<rparr>"
    have "step_refines mem pkt n v (cur + length v) COAP_NO_ERROR ?p mem'"
      using path m q0
      by (simp add: step_refines_def option_effect_def abs_pkt_def Let_def rt_inv_def parse_inv_def
          str_in_def [of "uri_query pkt"] str_bytes_def [of _ "uri_query pkt"])
    moreover have "parse_option_value pkt mem n cur (length v) = Some (COAP_NO_ERROR, ?p, mem')"
      using path m(1) by (simp add: parse_option_value_def)
    ultimately show ?thesis using that by blast
  next
    case query
    obtain mem' p n' where m:
      "coap_merge_multi_option mem (uri_query pkt) (uri_query_len pkt) cur (length v) ampersand =
         Some (mem', p, n')"
      "length mem' = length mem" "drop (cur + length v) mem' = drop (cur + length v) mem"
      "str_in p n' (cur + length v)"
      "str_bytes mem' p n' = join_part ampersand (str_bytes mem (uri_query pkt) (uri_query_len pkt)) v"
      "n' = length (join_part ampersand (str_bytes mem (uri_query pkt) (uri_query_len pkt)) v)"
      "uri_query_len pkt = 0 \<longrightarrow> mem' = mem \<and> p = Buf cur"
      "uri_query_len pkt > 0 \<longrightarrow> p = uri_query pkt \<and> (\<forall>d. uri_query pkt = Buf d \<longrightarrow> take d mem' = take d mem)"
      by (rule merge_refines [OF query_in assms(3,4) v, of ampersand]) (rule that)
    have before: "\<exists>d. p = Buf d \<and> str_in (uri_path pkt) (uri_path_len pkt) d \<and> take d mem' = take d mem"
    proof (cases "uri_query_len pkt = 0")
      case True
      then show ?thesis using m(7) str_in_mono [OF path_in, of cur] assms(3) by simp
    next
      case False
      then obtain d where d: "uri_query pkt = Buf d"
        using query_in by (auto simp: str_in_def split: cptr.splits)
      with False inv have "str_in (uri_path pkt) (uri_path_len pkt) d" by (simp add: rt_inv_def)
      with False d m(8) show ?thesis by simp
    qed
    then have path_same: "str_bytes mem' (uri_path pkt) (uri_path_len pkt) =
        str_bytes mem (uri_path pkt) (uri_path_len pkt)"
      using str_bytes_prefix_cong by blast
    let ?p = "pkt\<lparr>uri_query := p, uri_query_len := n'\<rparr>"
    have "option_effect (abs_pkt mem pkt) n v = (COAP_NO_ERROR, abs_pkt mem' ?p)"
      using query path_same m(5,6) [symmetric] by (simp add: option_effect_def abs_pkt_def Let_def)
    moreover have "rt_inv ?p (cur + length v) n"
      using query before m(4) str_in_mono [OF path_in, of "cur + length v"] assms(3)
      by (auto simp: rt_inv_def parse_inv_def)
    ultimately have "step_refines mem pkt n v (cur + length v) COAP_NO_ERROR ?p mem'"
      using m(2,3) by (simp add: step_refines_def)
    moreover have "parse_option_value pkt mem n cur (length v) = Some (COAP_NO_ERROR, ?p, mem')"
      using query m(1) by (simp add: parse_option_value_def)
    ultimately show ?thesis using that by blast
  next
    case other
    let ?e = "option_effect pkt n v"
    have eff1: "same_strings (snd ?e) pkt"
      using option_effect_other [OF other, of pkt v] by (rule conjunct1)
    have eff2: "option_effect (abs_pkt mem pkt) n v = (fst ?e, abs_pkt mem (snd ?e))"
      unfolding abs_pkt_same_strings [OF eff1] abs_pkt_def [of mem pkt]
      using option_effect_other [OF other, of pkt v] by (rule conjunct2)
    have "rt_inv (snd ?e) (cur + length v) n"
      by (rule rt_inv_same_strings [OF eff1 inv]) (use assms(2,3) in auto)
    with eff2 have "step_refines mem pkt n v (cur + length v) (fst ?e) (snd ?e) mem"
      by (simp add: step_refines_def)
    with parse_option_value_effect [OF assms(4) v other] that show ?thesis by blast
  qed
qed

section \<open>One encoded option, and a list of them\<close>

fun ascending :: "u32 \<Rightarrow> (u32 \<times> bytes) list \<Rightarrow> bool" where
  "ascending num [] = True"
| "ascending num ((n, v) # opts) \<longleftrightarrow>
     num \<le> n \<and> unat (n - num) \<le> 65804 \<and> length v \<le> 65804 \<and> ascending n opts"

lemma opt_header_drop:
  assumes "drop cur mem = opt_header d l @ rest" and "d \<le> 65804" and "l \<le> 65804"
  obtains b c1 where "rd mem cur = Some b" and "b AND 0xF0 \<noteq> 0xF0"
    and "read_ext mem (unat (drop_bit 4 b)) (cur + 1) = Some (d, c1)"
    and "read_ext mem (unat (b AND 0x0F)) c1 = Some (l, cur + length (opt_header d l))"
    and "drop (cur + length (opt_header d l)) mem = rest"
proof -
  let ?b = "push_bit 4 (coap_option_nibble d) OR coap_option_nibble l"
  have nib: "unat (coap_option_nibble d) < 16" "unat (coap_option_nibble l) < 16"
    using nibble_le_14 [of d] nibble_le_14 [of l] by simp_all
  have hi: "drop_bit 4 ?b = coap_option_nibble d" by (rule drop_bit_nibbles [OF nib])
  have lo: "?b AND 0x0F = coap_option_nibble l" by (rule and_nibbles [OF nib(2)])
  have d0: "drop cur mem = ?b # opt_ext d @ opt_ext l @ rest"
    using assms(1) by (simp add: opt_header_def)
  have len: "length mem = cur + length (?b # opt_ext d @ opt_ext l @ rest)"
    by (rule length_from_drop [OF d0]) simp
  have d1: "drop (cur + 1) mem = opt_ext d @ opt_ext l @ rest"
    using drop_Suc_from_drop [OF d0] by simp
  have d2: "drop (cur + 1 + length (opt_ext d)) mem = opt_ext l @ rest"
    by (rule drop_add_from_drop [OF d1])
  have "?b AND 0xF0 \<noteq> 0xF0" using marker_nibble [of ?b] hi nibble_le_14 [of d] by auto
  moreover have "read_ext mem (unat (drop_bit 4 ?b)) (cur + 1) = Some (d, cur + 1 + length (opt_ext d))"
    unfolding hi by (rule read_ext_opt_ext [OF d1 assms(2)]) (use len in simp)
  moreover have "read_ext mem (unat (?b AND 0x0F)) (cur + 1 + length (opt_ext d)) =
      Some (l, cur + length (opt_header d l))"
    unfolding lo using read_ext_opt_ext [OF d2 assms(3)] len by (simp add: opt_header_def ac_simps)
  moreover have "drop (cur + length (opt_header d l)) mem = rest"
    using drop_add_from_drop [OF assms(1)] .
  ultimately show ?thesis using rd_from_drop [OF d0] that by blast
qed

lemma parse_option_refines:
  assumes enc: "drop cur mem = opt_header (unat (n - num)) (length v) @ v @ rest"
    and asc: "num \<le> n" "unat (n - num) \<le> 65804" "length v \<le> 65804"
    and fits: "cur + length (opt_header (unat (n - num)) (length v)) + length v \<le> data_len"
    and sig: "\<not> coap_check_signal_message pkt" and inv: "rt_inv pkt cur num"
  defines "cur' \<equiv> cur + length (opt_header (unat (n - num)) (length v)) + length v"
  obtains st pkt' mem' where "parse_option pkt mem data_len num cur =
       Some (if st \<noteq> COAP_NO_ERROR then Return st pkt' mem' else Continue pkt' mem' n cur')"
    and "step_refines mem (mark_option pkt n) n v cur' st pkt' mem'"
    and "drop cur' mem' = rest"
proof -
  let ?c = "cur + length (opt_header (unat (n - num)) (length v))"
  obtain b c1 where b: "rd mem cur = Some b" "b AND 0xF0 \<noteq> 0xF0"
    "read_ext mem (unat (drop_bit 4 b)) (cur + 1) = Some (unat (n - num), c1)"
    "read_ext mem (unat (b AND 0x0F)) c1 = Some (length v, ?c)" "drop ?c mem = v @ rest"
    by (rule opt_header_drop [OF enc asc(2,3)]) (use that in simp)
  have num: "num + of_nat (unat (n - num)) = n" by simp
  have cur: "cur < ?c" by (simp add: opt_header_def)
  have "length mem = cur + length (opt_header (unat (n - num)) (length v) @ v @ rest)"
    by (rule length_from_drop [OF enc]) (simp add: opt_header_def)
  then have len: "?c + length v \<le> length mem" by simp
  have inv': "rt_inv (mark_option pkt n) cur num"
    by (rule rt_inv_same_strings [OF _ inv]) (simp_all add: same_strings_def)
  obtain st pkt' mem' where pv: "parse_option_value (mark_option pkt n) mem n ?c (length v) = Some (st, pkt', mem')"
    "step_refines mem (mark_option pkt n) n v (?c + length v) st pkt' mem'"
    by (rule parse_value_refines [OF inv' asc(1) cur len]) (use b(5) in simp_all)
  have "\<not> coap_check_signal_message (mark_option pkt n)"
    using sig by (simp add: coap_check_signal_message_def)
  then have "parse_option pkt mem data_len num cur =
      Some (if st \<noteq> COAP_NO_ERROR then Return st pkt' mem' else Continue pkt' mem' n (?c + length v))"
    using b(1-4) num fits pv(1)
    by (simp add: parse_option_def Let_def mark_option_def [symmetric])
  moreover have "drop (?c + length v) mem' = rest"
    using pv(2) drop_add_from_drop [OF b(5)] by (simp add: step_refines_def)
  ultimately show ?thesis using that pv(2) unfolding cur'_def by blast
qed

text \<open>The whole option list: the parser reads what \<open>apply_opts\<close> computes, status included.\<close>

lemma coap_check_signal_abs [simp]:
  "coap_check_signal_message (abs_pkt mem pkt) = coap_check_signal_message pkt"
  by (simp add: coap_check_signal_message_def)

lemma step_refines_signal:
  assumes "step_refines mem (mark_option pkt n) n v cur st pkt' mem'"
  shows "coap_check_signal_message pkt' = coap_check_signal_message pkt"
proof -
  let ?e = "option_effect (abs_pkt mem (mark_option pkt n)) n v"
  have "snd ?e = abs_pkt mem' pkt'" using assms by (simp add: step_refines_def)
  then have "code pkt' = code (snd ?e)" "transport_type pkt' = transport_type (snd ?e)" by simp_all
  then show ?thesis by (simp add: coap_check_signal_message_def)
qed

lemma parse_options_refines:
  assumes "drop cur mem = enc_opts num opts @ rest" and "ascending num opts"
    and "cur + length (enc_opts num opts) \<le> data_len"
    and "\<not> coap_check_signal_message pkt" and "rt_inv pkt cur num"
  defines "cur' \<equiv> cur + length (enc_opts num opts)"
  shows "\<exists>st pkt' mem'. apply_opts (abs_pkt mem pkt) opts = (st, abs_pkt mem' pkt') \<and>
     length mem' = length mem \<and>
     (if st \<noteq> COAP_NO_ERROR
      then parse_options pkt mem data_len num cur = Some (st, pkt', mem')
      else parse_options pkt mem data_len num cur =
             parse_options pkt' mem' data_len (last_num num opts) cur' \<and>
           drop cur' mem' = rest \<and> rt_inv pkt' cur' (last_num num opts))"
  unfolding cur'_def using assms(1-5)
proof (induction opts arbitrary: num cur pkt mem)
  case Nil
  then show ?case
    by (intro exI [of _ COAP_NO_ERROR] exI [of _ pkt] exI [of _ mem]) simp
next
  case (Cons o1 opts)
  obtain n v where o1: "o1 = (n, v)" by fastforce
  let ?h = "opt_header (unat (n - num)) (length v)"
  let ?c = "cur + length ?h + length v"
  have enc: "drop cur mem = ?h @ v @ enc_opts n opts @ rest" using Cons.prems(1) o1 by simp
  have asc: "num \<le> n" "unat (n - num) \<le> 65804" "length v \<le> 65804" "ascending n opts"
    using Cons.prems(2) o1 by simp_all
  have fits: "?c \<le> data_len" "?c + length (enc_opts n opts) \<le> data_len" using Cons.prems(3) o1 by simp_all
  obtain st pkt1 mem1 where p1: "parse_option pkt mem data_len num cur =
       Some (if st \<noteq> COAP_NO_ERROR then Return st pkt1 mem1 else Continue pkt1 mem1 n ?c)"
    and s1: "step_refines mem (mark_option pkt n) n v ?c st pkt1 mem1"
    and d1: "drop ?c mem1 = enc_opts n opts @ rest"
    by (rule parse_option_refines [OF enc asc(1-3) fits(1) Cons.prems(4,5)])
  have e1: "option_effect (mark_option (abs_pkt mem pkt) n) n v = (st, abs_pkt mem1 pkt1)"
    and l1: "length mem1 = length mem" and i1: "rt_inv pkt1 ?c n"
    using s1 by (simp_all add: step_refines_def abs_mark_option)
  have cur: "cur < data_len" using fits(1) by (simp add: opt_header_def)
  show ?case
  proof (cases "st = COAP_NO_ERROR")
    case False
    with p1 e1 l1 cur o1 show ?thesis
      by (intro exI [of _ st] exI [of _ pkt1] exI [of _ mem1]) (simp add: parse_options.simps [of pkt])
  next
    case True
    have sig: "\<not> coap_check_signal_message pkt1" using Cons.prems(4) step_refines_signal [OF s1] by simp
    have go: "parse_options pkt mem data_len num cur = parse_options pkt1 mem1 data_len n ?c"
      using p1 True cur by (simp add: parse_options.simps [of pkt])
    have eqs: "cur + length (enc_opts num (o1 # opts)) = ?c + length (enc_opts n opts)"
      "last_num num (o1 # opts) = last_num n opts"
      "apply_opts (abs_pkt mem pkt) (o1 # opts) = apply_opts (abs_pkt mem1 pkt1) opts"
      using o1 e1 True by simp_all
    show ?thesis
      unfolding go eqs l1 [symmetric] by (rule Cons.IH [OF d1 asc(4) fits(2) sig i1])
  qed
qed

section \<open>The end of the options\<close>

lemma abs_pkt_prefix_cong:
  assumes "parse_inv pkt cur" and "take cur mem' = take cur mem"
  shows "abs_pkt mem' pkt = abs_pkt mem pkt"
  using assms str_bytes_prefix_cong [of _ _ cur mem' mem] by (simp add: abs_pkt_def parse_inv_def)

text \<open>
  The payload is everything behind the marker; over UDP more than \<open>OC_BLOCK_SIZE\<close> bytes of
  it are cut off. The byte behind it is set to 0.
\<close>

lemma parse_options_end:
  "parse_options pkt mem cur num cur = Some (COAP_NO_ERROR, pkt, mem)"
  by (simp add: parse_options.simps)

lemma parse_options_payload:
  assumes "drop cur mem = 0xFF # pay @ pad" and "pad \<noteq> []"
    and "data_len = cur + 1 + length pay" and "parse_inv pkt cur"
    and "transport_type pkt = COAP_TRANSPORT_UDP \<longrightarrow> length pay \<le> OC_BLOCK_SIZE"
  obtains mem' where "parse_options pkt mem data_len num cur =
       Some (COAP_NO_ERROR, pkt\<lparr>payload := Buf (cur + 1), payload_len := of_nat (length pay)\<rparr>, mem')"
    and "abs_pkt mem' pkt = abs_pkt mem pkt" and "take (length pay) (drop (cur + 1) mem') = pay"
    and "length mem' = length mem"
proof -
  have len: "length mem = cur + length (0xFF # pay @ pad)"
    by (rule length_from_drop [OF assms(1)]) simp
  have d1: "drop (cur + 1) mem = pay @ pad" using drop_Suc_from_drop [OF assms(1)] by simp
  let ?mem = "splice (cur + 1 + length pay) [0] mem"
  have w: "wr_mem mem (cur + 1 + length pay) 0 = Some ?mem"
    using len assms(2) by (cases pad) (simp_all add: wr_mem_def splice_def upd_conv_take_nth_drop)
  have "data_len - (cur + 1) = length pay" using assms(3) by simp
  then have "parse_option pkt mem data_len num cur = Some (Return COAP_NO_ERROR
      (pkt\<lparr>payload := Buf (cur + 1), payload_len := of_nat (length pay)\<rparr>) ?mem)"
    using rd_from_drop [OF assms(1)] w assms(5)
    by (auto simp: parse_option_def Let_def)
  moreover have "abs_pkt ?mem pkt = abs_pkt mem pkt"
    by (rule abs_pkt_prefix_cong [OF assms(4)]) (use len in \<open>simp add: splice_def\<close>)
  moreover have "take (length pay) (drop (cur + 1) ?mem) = pay"
    using len d1 by (simp add: splice_def drop_take)
  ultimately show ?thesis
    using that [of ?mem] len assms(2,3) by (cases pad) (simp_all add: parse_options.simps splice_def)
qed

section \<open>Properties\<close>

text \<open>C7: The in-place option parser refines the abstract reading of the option list: on the
  encoding of any option list with ascending numbers, known or unknown, it returns the status
  of \<open>apply_opts\<close> (the first option that is refused decides) and a packet that stands for
  its result, although path and query are joined inside the receive buffer.\<close>

theorem parse_options_refine_apply_opts:
  assumes "drop cur mem = enc_opts 0 opts" and "ascending 0 opts" and "cur \<le> length mem"
    and "\<not> coap_check_signal_message pkt" and "uri_path_len pkt = 0" and "uri_query_len pkt = 0"
  shows "\<exists>status pkt' mem'. parse_options pkt mem (length mem) 0 cur = Some (status, pkt', mem') \<and>
     apply_opts (abs_pkt mem pkt) opts = (status, abs_pkt mem' pkt')"
proof -
  let ?c = "cur + length (enc_opts 0 opts)"
  have len: "length mem = ?c" using assms(1,3) by (metis le_add_diff_inverse length_drop)
  have "rt_inv pkt cur 0" using assms(5,6) by (simp add: rt_inv_def parse_inv_def str_in_def)
  then obtain st pkt' mem' where r: "apply_opts (abs_pkt mem pkt) opts = (st, abs_pkt mem' pkt')"
    "if st \<noteq> COAP_NO_ERROR then parse_options pkt mem (length mem) 0 cur = Some (st, pkt', mem')
     else parse_options pkt mem (length mem) 0 cur =
       parse_options pkt' mem' (length mem) (last_num 0 opts) ?c"
    using parse_options_refines [of cur mem 0 opts "[]" "length mem" pkt] assms len
    by (auto split: if_splits)
  then show ?thesis unfolding len by (auto simp: parse_options_end split: if_splits)
qed

theorem parse_options_refine_apply_opts_witness:
  "\<exists>status pkt' mem'.
     parse_options zero_packet (enc_opts 0 [(11, [0x61]), (11, [0x62]), (13, [1])])
       (length (enc_opts 0 [(11, [0x61]), (11, [0x62]), (13, [1])])) 0 0 = Some (status, pkt', mem') \<and>
     apply_opts (abs_pkt (enc_opts 0 [(11, [0x61]), (11, [0x62]), (13, [1])]) zero_packet)
       [(11, [0x61]), (11, [0x62]), (13, [1])] = (status, abs_pkt mem' pkt')"
  by (rule parse_options_refine_apply_opts)
    (simp_all add: zero_packet_def coap_check_signal_message_def)

end
