(* ===== verification/Coap_View.thy ===== *)
theory Coap_View
  imports Coap_Refine
begin

text \<open>
  What a packet says, independent of where its strings lie: the header, the value of every
  option the serialiser writes, and the payload. Reading back the option list of a packet
  gives a packet with the same options.
\<close>

section \<open>Options as a map\<close>

datatype optval = Bytes bytes | Num u32 | Block u32 bool u16

definition packet_option :: "bytes \<Rightarrow> coap_packet \<Rightarrow> u32 \<Rightarrow> optval option" where
  "packet_option mem p n =
     (if \<not> IS_OPTION p n then None
      else if n = COAP_OPTION_ETAG then Some (Bytes (take (unat (etag_len p)) (etag p)))
      else if n = COAP_OPTION_OBSERVE then Some (Num (observe p))
      else if n = COAP_OPTION_URI_PORT then Some (Num (ucast (uri_port p)))
      else if n = COAP_OPTION_URI_PATH then Some (Bytes (str_bytes mem (uri_path p) (uri_path_len p)))
      else if n = COAP_OPTION_CONTENT_FORMAT then Some (Num (ucast (content_format p)))
      else if n = COAP_OPTION_URI_QUERY then Some (Bytes (str_bytes mem (uri_query p) (uri_query_len p)))
      else if n = COAP_OPTION_ACCEPT then Some (Num (ucast (accept p)))
      else if n = COAP_OPTION_BLOCK2 then
        Some (Block (block2_num p) (block2_more p \<noteq> 0) (block2_size p))
      else if n = COAP_OPTION_BLOCK1 then
        Some (Block (block1_num p) (block1_more p \<noteq> 0) (block1_size p))
      else if n = COAP_OPTION_SIZE2 then Some (Num (size2 p))
      else if n = COAP_OPTION_SIZE1 then Some (Num (size1 p))
      else None)"

record coap_view =
  v_transport :: coap_transport_type
  v_type_mid :: "(coap_message_type \<times> u16) option"
  v_code :: u8
  v_token :: bytes
  v_option :: "u32 \<Rightarrow> optval option"
  v_payload :: bytes

text \<open>A TCP message carries neither type nor message id.\<close>

definition packet_view :: "bytes \<Rightarrow> coap_packet \<Rightarrow> coap_view" where
  "packet_view mem p =
     \<lparr>v_transport = transport_type p,
      v_type_mid = (if transport_type p = COAP_TRANSPORT_UDP then Some (type p, mid p) else None),
      v_code = code p, v_token = take (unat (token_len p)) (token p),
      v_option = (\<lambda>n. if unat n \<le> 60 then packet_option mem p n else None),
      v_payload = take (unat (payload_len p)) (deref mem (payload p))\<rparr>"

section \<open>Block options\<close>

lemma coap_log_2_sizes:
  "coap_log_2 1 = 0" "coap_log_2 2 = 1" "coap_log_2 4 = 2" "coap_log_2 8 = 3"
  "coap_log_2 16 = 4" "coap_log_2 32 = 5" "coap_log_2 64 = 6" "coap_log_2 128 = 7"
  by (simp_all add: coap_log_2_def log_2_loop.simps Let_def)

definition block_sizes :: "u16 list" where
  "block_sizes = [16, 32, 64, 128, 256, 512, 1024, 2048]"

lemma block_word:
  fixes num k :: u32 and b :: bool
  assumes "unat num < 2 ^ 28" and "unat k < 2 ^ 3"
  defines "v \<equiv> push_bit 4 num OR (if b then 8 else 0) OR k"
  shows "drop_bit 4 v = num" and "v AND 8 = (if b then 8 else 0)" and "v AND 7 = k"
    and "v AND NOT 0x0000000F = push_bit 4 num"
proof -
  have num: "take_bit 28 num = num" and k: "take_bit 3 k = k"
    using assms(1,2) by (simp_all add: take_bit_self_iff)
  have c: "(7 :: u32) = mask 3" "(0xF :: u32) = mask 4"
    by (simp_all add: mask_eq_exp_minus_1)
  have b8: "bit (8 :: int) n \<longleftrightarrow> n = 3" for n
    using bit_exp_iff [of 3 n, where 'a = int] by auto
  have v: "v = push_bit 4 (take_bit 28 num) OR (if b then 8 else 0) OR take_bit 3 k"
    by (simp add: v_def num k)
  have "drop_bit 4 v = take_bit 28 num"
    unfolding v c by (rule bit_word_eqI) (auto simp: bit_simps b8)
  then show "drop_bit 4 v = num" by (simp only: num)
  show "v AND 8 = (if b then 8 else 0)"
    unfolding v c by (rule bit_word_eqI) (auto simp: bit_simps b8)
  have "v AND 7 = take_bit 3 k"
    unfolding v c by (rule bit_word_eqI) (auto simp: bit_simps b8)
  then show "v AND 7 = k" by (simp only: k)
  have "v AND NOT 0x0000000F = push_bit 4 (take_bit 28 num)"
    unfolding v c by (rule bit_word_eqI) (auto simp: bit_simps b8)
  then show "v AND NOT 0x0000000F = push_bit 4 num" by (simp only: num)
qed

text \<open>
  Every block size of RFC 7959 survives, 2048 (its reserved SZX 7) too; the offset the
  parser derives is block number times size.
\<close>

lemma block_fields_value:
  assumes "unat num < 2 ^ 28" and "sz \<in> set block_sizes"
  shows "block_fields (block_value num mr sz) = (num, if mr \<noteq> 0 then 1 else 0, sz, num * ucast sz)"
proof -
  obtain k :: u32 where k: "ucast (coap_log_2 (sz div 16)) = k" "0xF AND k = k" "unat k < 2 ^ 3"
    "push_bit (unat k) 16 = sz" "\<And>x :: u32. push_bit (unat k) (push_bit 4 x) = x * ucast sz"
  proof -
    let ?k = "ucast (coap_log_2 (sz div 16)) :: u32"
    from assms(2) consider "sz = 16" | "sz = 32" | "sz = 64" | "sz = 128" | "sz = 256" | "sz = 512"
      | "sz = 1024" | "sz = 2048"
      by (auto simp: block_sizes_def)
    then have "0xF AND ?k = ?k \<and> unat ?k < 2 ^ 3 \<and> push_bit (unat ?k) 16 = sz \<and>
        (\<forall>x :: u32. push_bit (unat ?k) (push_bit 4 x) = x * ucast sz)"
      by cases (simp_all add: coap_log_2_sizes push_bit_eq_mult)
    with that show ?thesis by blast
  qed
  have bv: "block_value num mr sz = push_bit 4 num OR (if mr \<noteq> 0 then 8 else 0) OR k"
    using k(1,2) by (simp add: block_value_def Let_def or.assoc)
  show ?thesis
    unfolding bv block_fields_def block_word [OF assms(1) k(3)] k(4,5)
    by (simp add: drop_bit_eq_div)
qed

section \<open>Reading an option list\<close>

definition hdr where
  "hdr p = (transport_type p, type p, code p, mid p, token_len p, token p, payload_len p, payload p)"

text \<open>
  \<open>fresh_ok\<close>: the bitmap and the ETag have their array sizes, and a string option that has
  not been seen is empty.
\<close>

definition fresh_ok :: "coap_packet \<Rightarrow> bool" where
  "fresh_ok p \<longleftrightarrow> length (options p) = 8 \<and> length (etag p) = COAP_ETAG_LEN \<and>
     (IS_OPTION p COAP_OPTION_URI_PATH \<or> uri_path p = Obj []) \<and>
     (IS_OPTION p COAP_OPTION_URI_QUERY \<or> uri_query p = Obj [])"

definition reads :: "coap_packet \<Rightarrow> coap_status \<times> coap_packet \<Rightarrow> (u32 \<times> optval) list \<Rightarrow> bool" where
  "reads p r ws \<longleftrightarrow> fst r = COAP_NO_ERROR \<and> fresh_ok (snd r) \<and> hdr (snd r) = hdr p \<and>
     (\<forall>m. unat m \<le> 60 \<longrightarrow> IS_OPTION (snd r) m = (m \<in> fst ` set ws \<or> IS_OPTION p m) \<and>
        packet_option [] (snd r) m =
          (case map_of ws m of Some w \<Rightarrow> Some w | None \<Rightarrow> packet_option [] p m))"

definition reads_all :: "(u32 \<times> bytes) list \<Rightarrow> (u32 \<times> optval) list \<Rightarrow> bool" where
  "reads_all opts ws \<longleftrightarrow> (\<forall>n \<in> fst ` set ws. unat n \<le> 60) \<and>
     (\<forall>p. fresh_ok p \<longrightarrow> (\<forall>n \<in> fst ` set ws. \<not> IS_OPTION p n) \<longrightarrow> reads p (apply_opts p opts) ws)"

lemma apply_opts_append:
  "apply_opts p (as @ bs) =
     (let (st, q) = apply_opts p as in if st \<noteq> COAP_NO_ERROR then (st, q) else apply_opts q bs)"
  by (induction p as rule: apply_opts.induct) (auto simp: Let_def split: prod.splits)

lemma reads_all_append:
  assumes as: "reads_all as ws" and bs: "reads_all bs ws'" and dj: "fst ` set ws \<inter> fst ` set ws' = {}"
  shows "reads_all (as @ bs) (ws @ ws')"
  unfolding reads_all_def
proof (intro conjI allI impI)
  show "\<forall>n \<in> fst ` set (ws @ ws'). unat n \<le> 60" using as bs unfolding reads_all_def by auto
  fix p
  assume ok: "fresh_ok p" and none: "\<forall>n \<in> fst ` set (ws @ ws'). \<not> IS_OPTION p n"
  obtain st q where q: "apply_opts p as = (st, q)" by fastforce
  have "\<forall>n \<in> fst ` set ws. \<not> IS_OPTION p n" using none by auto
  with as ok q have r1: "reads p (st, q) ws" unfolding reads_all_def by metis
  then have ok': "fresh_ok q" by (simp add: reads_def)
  have le: "\<forall>n \<in> fst ` set ws'. unat n \<le> 60" using bs by (simp add: reads_all_def)
  have "\<forall>n \<in> fst ` set ws'. \<not> IS_OPTION q n"
  proof
    fix n
    assume n: "n \<in> fst ` set ws'"
    then have "unat n \<le> 60" "n \<notin> fst ` set ws" "\<not> IS_OPTION p n" using le dj none by auto
    with r1 show "\<not> IS_OPTION q n" by (auto simp: reads_def)
  qed
  with bs ok' have r2: "reads q (apply_opts q bs) ws'" unfolding reads_all_def by metis
  have app: "apply_opts p (as @ bs) = apply_opts q bs"
    using q r1 by (simp add: apply_opts_append reads_def)
  have dom: "map_of ws' m = None" if "map_of ws m = Some w" for m w
    using that dj by (auto simp: map_of_eq_None_iff dest!: map_of_SomeD) (metis IntI empty_iff fst_conv imageI)
  show "reads p (apply_opts p (as @ bs)) (ws @ ws')"
    unfolding app using r1 r2 dom
    by (auto simp: reads_def map_add_def split: option.splits)
qed

lemma reads_all_Nil: "reads_all [] []"
  by (simp add: reads_all_def reads_def)

lemma IS_OPTION_mark:
  "length (options p) = 8 \<Longrightarrow> unat n \<le> 60 \<Longrightarrow> IS_OPTION (mark_option p n) m \<longleftrightarrow> m = n \<or> IS_OPTION p m"
  by (auto simp: mark_option_def IS_OPTION_def is_option_set_option_bit word_le_nat_alt)

lemma mark_option_more [simp]:
  "hdr (mark_option p n) = hdr p" "etag (mark_option p n) = etag p"
  by (simp_all add: mark_option_def SET_OPTION_def hdr_def)

lemma fresh_ok_mark: "fresh_ok p \<Longrightarrow> unat n \<le> 60 \<Longrightarrow> fresh_ok (mark_option p n)"
  by (auto simp: fresh_ok_def IS_OPTION_mark) (simp_all add: mark_option_def SET_OPTION_def)

text \<open>The options with one number: it is enough to look at the packet the switch leaves.\<close>

definition adds :: "coap_packet \<Rightarrow> coap_packet \<Rightarrow> u32 \<Rightarrow> optval \<Rightarrow> bool" where
  "adds p q n w \<longleftrightarrow> options q = options p \<and> fresh_ok q \<and> hdr q = hdr p \<and>
     packet_option [] q n = Some w \<and> (\<forall>m. m \<noteq> n \<longrightarrow> packet_option [] q m = packet_option [] p m)"

lemma reads_all_group:
  assumes n: "unat n \<le> 60"
    and eff: "\<And>p. fresh_ok p \<Longrightarrow> \<not> IS_OPTION p n \<Longrightarrow>
      \<exists>q. apply_opts p opts = (COAP_NO_ERROR, q) \<and> adds (mark_option p n) q n w"
  shows "reads_all (opt_if b opts) (opt_if b [(n, w)])"
proof -
  have "reads p (apply_opts p opts) [(n, w)]" if p: "fresh_ok p" "\<not> IS_OPTION p n" for p
  proof -
    have len: "length (options p) = 8" using p by (simp add: fresh_ok_def)
    from eff [OF p] obtain q where q: "apply_opts p opts = (COAP_NO_ERROR, q)"
      "options q = options (mark_option p n)" "fresh_ok q" "hdr q = hdr p"
      "packet_option [] q n = Some w"
      "\<And>m. m \<noteq> n \<Longrightarrow> packet_option [] q m = packet_option [] (mark_option p n) m"
      unfolding adds_def by auto
    have iso: "IS_OPTION q m \<longleftrightarrow> m = n \<or> IS_OPTION p m" for m
      using q(2) IS_OPTION_mark [OF len n] by (simp add: IS_OPTION_def)
    have "packet_option [] (mark_option p n) m = packet_option [] p m" if "m \<noteq> n" for m
      using that IS_OPTION_mark [OF len n, of m]
      by (simp add: packet_option_def) (simp add: mark_option_def SET_OPTION_def)
    then show ?thesis using q iso by (simp add: reads_def)
  qed
  then show ?thesis using n by (simp add: opt_if_def reads_all_Nil) (simp add: reads_all_def)
qed

lemma reads_all_single:
  assumes n: "unat n \<le> 60"
    and eff: "\<And>p. fresh_ok p \<Longrightarrow> IS_OPTION p n \<Longrightarrow>
      \<exists>q. option_effect p n v = (COAP_NO_ERROR, q) \<and> adds p q n w"
  shows "reads_all (opt_if b [(n, v)]) (opt_if b [(n, w)])"
proof (rule reads_all_group [OF n])
  fix p
  assume p: "fresh_ok p"
  then have "IS_OPTION (mark_option p n) n" using n by (simp add: IS_OPTION_mark fresh_ok_def)
  with eff [OF fresh_ok_mark [OF p n]] obtain q where
    "option_effect (mark_option p n) n v = (COAP_NO_ERROR, q)" "adds (mark_option p n) q n w" by blast
  then show "\<exists>q. apply_opts p [(n, v)] = (COAP_NO_ERROR, q) \<and> adds (mark_option p n) q n w" by simp
qed

lemmas adds_defs = adds_def fresh_ok_def hdr_def packet_option_def IS_OPTION_def

lemma ucast_u16_u32 [simp]: "(ucast (ucast (v :: u16) :: u32) :: u16) = v"
  by (rule bit_word_eqI) (auto simp: bit_simps)

lemma reads_observe: "reads_all (opt_if b [(6, int_bytes v)]) (opt_if b [(6, Num v)])"
  by (rule reads_all_single) (simp_all add: option_effect_def parse_int_bytes adds_defs)

lemma reads_port:
  "reads_all (opt_if b [(7, int_bytes (ucast (v :: u16)))]) (opt_if b [(7, Num (ucast v))])"
  by (rule reads_all_single) (simp_all add: option_effect_def parse_int_bytes adds_defs)

definition ocf_format :: "u16 \<Rightarrow> bool" where
  "ocf_format f \<longleftrightarrow> f = APPLICATION_VND_OCF_CBOR \<or> f = APPLICATION_CBOR"

lemma reads_content_format:
  "(b \<Longrightarrow> ocf_format v) \<Longrightarrow>
   reads_all (opt_if b [(12, int_bytes (ucast (v :: u16)))]) (opt_if b [(12, Num (ucast v))])"
  by (cases b) (simp_all add: opt_if_def reads_all_Nil,
      rule reads_all_single [where b = True, unfolded opt_if_def if_True],
      simp_all add: option_effect_def parse_int_bytes adds_defs ocf_format_def Let_def)

lemma reads_accept:
  "(b \<Longrightarrow> ocf_format v) \<Longrightarrow>
   reads_all (opt_if b [(17, int_bytes (ucast (v :: u16)))]) (opt_if b [(17, Num (ucast v))])"
  by (cases b) (simp_all add: opt_if_def reads_all_Nil,
      rule reads_all_single [where b = True, unfolded opt_if_def if_True],
      simp_all add: option_effect_def parse_int_bytes adds_defs ocf_format_def Let_def)

lemma reads_sizes:
  "reads_all (opt_if b [(28, int_bytes v)]) (opt_if b [(28, Num v)])"
  "reads_all (opt_if b [(60, int_bytes v)]) (opt_if b [(60, Num v)])"
  by (rule reads_all_single, simp_all add: option_effect_def parse_int_bytes adds_defs)+

definition block_ok :: "u32 \<Rightarrow> u16 \<Rightarrow> bool" where
  "block_ok num sz \<longleftrightarrow> unat num < 2 ^ 28 \<and> sz \<in> set block_sizes"

lemma reads_blocks:
  assumes "b \<Longrightarrow> block_ok num sz"
  shows "reads_all (opt_if b [(23, int_bytes (block_value num mr sz))]) (opt_if b [(23, Block num (mr \<noteq> 0) sz)])"
    and "reads_all (opt_if b [(27, int_bytes (block_value num mr sz))]) (opt_if b [(27, Block num (mr \<noteq> 0) sz)])"
proof -
  have bf: "block_fields (block_value num mr sz) = (num, if mr \<noteq> 0 then 1 else 0, sz, num * ucast sz)" if b
    using assms [OF that] block_fields_value by (simp add: block_ok_def)
  show "reads_all (opt_if b [(23, int_bytes (block_value num mr sz))]) (opt_if b [(23, Block num (mr \<noteq> 0) sz)])"
    by (cases b) (simp_all add: opt_if_def reads_all_Nil,
      rule reads_all_single [where b = True, unfolded opt_if_def if_True],
      simp_all add: option_effect_def parse_int_bytes adds_defs bf)
  show "reads_all (opt_if b [(27, int_bytes (block_value num mr sz))]) (opt_if b [(27, Block num (mr \<noteq> 0) sz)])"
    by (cases b) (simp_all add: opt_if_def reads_all_Nil,
      rule reads_all_single [where b = True, unfolded opt_if_def if_True],
      simp_all add: option_effect_def parse_int_bytes adds_defs bf)
qed

lemma reads_versions:
  "reads_all (opt_if b [(2049, int_bytes (version_value f))]) []"
  "reads_all (opt_if b [(2053, int_bytes (version_value f))]) []"
  by (simp_all add: opt_if_def reads_all_Nil)
    (simp_all add: reads_all_def reads_def option_effect_def parse_int_bytes version_value_def
      mark_option_def Let_def)

lemma reads_etag:
  assumes "b \<Longrightarrow> length v \<le> 8"
  shows "reads_all (opt_if b [(4, v)]) (opt_if b [(4, Bytes v)])"
proof (cases b)
  case True
  with assms have "length v \<le> 8" by simp
  then have "min 8 (length v) = length v" "unat (of_nat (length v) :: u8) = length v"
    by (simp_all add: unat_of_nat_u8)
  with True \<open>length v \<le> 8\<close> show ?thesis
    by (simp add: opt_if_def, intro reads_all_single [where b = True, unfolded opt_if_def if_True])
      (simp_all add: option_effect_def adds_defs splice_def)
qed (simp add: opt_if_def reads_all_Nil)

section \<open>Joined strings\<close>

lemma mark_option_again [simp]:
  "mark_option ((mark_option p n)\<lparr>uri_path := a, uri_path_len := k\<rparr>) n =
     (mark_option p n)\<lparr>uri_path := a, uri_path_len := k\<rparr>"
  "mark_option ((mark_option p n)\<lparr>uri_query := a, uri_query_len := k\<rparr>) n =
     (mark_option p n)\<lparr>uri_query := a, uri_query_len := k\<rparr>"
proof -
  have "set_option_bit (set_option_bit bm n) n = set_option_bit bm n" for bm
    by (cases "unat n div 8 < length bm") (simp_all add: set_option_bit_def or.assoc list_update_beyond)
  then show "mark_option ((mark_option p n)\<lparr>uri_path := a, uri_path_len := k\<rparr>) n =
     (mark_option p n)\<lparr>uri_path := a, uri_path_len := k\<rparr>"
    "mark_option ((mark_option p n)\<lparr>uri_query := a, uri_query_len := k\<rparr>) n =
     (mark_option p n)\<lparr>uri_query := a, uri_query_len := k\<rparr>"
    by (simp_all add: mark_option_def SET_OPTION_def)
qed

lemma apply_path:
  "uri_path p = Obj s \<Longrightarrow> parts \<noteq> [] \<Longrightarrow>
   apply_opts p (map (Pair 11) parts) = (COAP_NO_ERROR, (mark_option p 11)
     \<lparr>uri_path := Obj (foldl (join_part slash) s parts),
      uri_path_len := length (foldl (join_part slash) s parts)\<rparr>)"
proof (induction parts arbitrary: p s)
  case (Cons v parts)
  then show ?case by (cases "parts = []") (simp_all add: option_effect_def Let_def)
qed simp

lemma apply_query:
  "uri_query p = Obj s \<Longrightarrow> parts \<noteq> [] \<Longrightarrow>
   apply_opts p (map (Pair 15) parts) = (COAP_NO_ERROR, (mark_option p 15)
     \<lparr>uri_query := Obj (foldl (join_part ampersand) s parts),
      uri_query_len := length (foldl (join_part ampersand) s parts)\<rparr>)"
proof (induction parts arbitrary: p s)
  case (Cons v parts)
  then show ?case by (cases "parts = []") (simp_all add: option_effect_def Let_def)
qed simp

text \<open>
  A string round-trips when it neither starts nor ends with its splitter, as
  \<open>coap_set_header_uri_path\<close> and \<open>coap_set_header_uri_query\<close> leave it at the front.
\<close>

definition joined_ok :: "u8 \<Rightarrow> bytes \<Rightarrow> bool" where
  "joined_ok ch s \<longleftrightarrow> s \<noteq> [] \<longrightarrow> hd s \<noteq> ch \<and> last s \<noteq> ch"

lemma reads_path:
  assumes "b \<Longrightarrow> joined_ok slash s"
  shows "reads_all (opt_if b (map (Pair 11) (segs slash [] s))) (opt_if b [(11, Bytes s)])"
proof (cases b)
  case True
  then have s: "foldl (join_part slash) [] (segs slash [] s) = s"
    using assms by (intro join_segs) (simp add: joined_ok_def)
  show ?thesis
  proof (rule reads_all_group)
    fix p
    assume p: "fresh_ok p" "\<not> IS_OPTION p 11"
    let ?q = "(mark_option p 11)\<lparr>uri_path := Obj s, uri_path_len := length s\<rparr>"
    have "apply_opts p (map (Pair 11) (segs slash [] s)) = (COAP_NO_ERROR, ?q)"
      using p apply_path [of p "[]" "segs slash [] s"] by (simp add: fresh_ok_def s)
    moreover have "adds (mark_option p 11) ?q 11 (Bytes s)"
      using fresh_ok_mark [OF p(1), of 11] IS_OPTION_mark [of p 11] p(1)
      by (simp add: adds_defs str_bytes_def)
    ultimately show "\<exists>q. apply_opts p (map (Pair 11) (segs slash [] s)) = (COAP_NO_ERROR, q) \<and>
        adds (mark_option p 11) q 11 (Bytes s)" by blast
  qed simp
qed (simp add: opt_if_def reads_all_Nil)

lemma reads_query:
  assumes "b \<Longrightarrow> joined_ok ampersand s"
  shows "reads_all (opt_if b (map (Pair 15) (segs ampersand [] s))) (opt_if b [(15, Bytes s)])"
proof (cases b)
  case True
  then have s: "foldl (join_part ampersand) [] (segs ampersand [] s) = s"
    using assms by (intro join_segs) (simp add: joined_ok_def)
  show ?thesis
  proof (rule reads_all_group)
    fix p
    assume p: "fresh_ok p" "\<not> IS_OPTION p 15"
    let ?q = "(mark_option p 15)\<lparr>uri_query := Obj s, uri_query_len := length s\<rparr>"
    have "apply_opts p (map (Pair 15) (segs ampersand [] s)) = (COAP_NO_ERROR, ?q)"
      using p apply_query [of p "[]" "segs ampersand [] s"] by (simp add: fresh_ok_def s)
    moreover have "adds (mark_option p 15) ?q 15 (Bytes s)"
      using fresh_ok_mark [OF p(1), of 15] IS_OPTION_mark [of p 15] p(1)
      by (simp add: adds_defs str_bytes_def)
    ultimately show "\<exists>q. apply_opts p (map (Pair 15) (segs ampersand [] s)) = (COAP_NO_ERROR, q) \<and>
        adds (mark_option p 15) q 15 (Bytes s)" by blast
  qed simp
qed (simp add: opt_if_def reads_all_Nil)

section \<open>All options of a packet\<close>

definition packet_vals :: "bytes \<Rightarrow> coap_packet \<Rightarrow> (u32 \<times> optval) list" where
  "packet_vals mem pkt =
     concat (map (\<lambda>n. opt_if (IS_OPTION pkt n) [(n, the (packet_option mem pkt n))])
       [4, 6, 7, 11, 12, 15, 17, 23, 27, 28, 60])"

text \<open>The packets whose options survive the wire.\<close>

definition wire_opts_ok :: "bytes \<Rightarrow> coap_packet \<Rightarrow> bool" where
  "wire_opts_ok mem pkt \<longleftrightarrow>
     (IS_OPTION pkt 4 \<longrightarrow> unat (etag_len pkt) \<le> COAP_ETAG_LEN) \<and>
     (IS_OPTION pkt 11 \<longrightarrow> joined_ok slash (str_bytes mem (uri_path pkt) (uri_path_len pkt))) \<and>
     (IS_OPTION pkt 12 \<longrightarrow> ocf_format (content_format pkt)) \<and>
     (IS_OPTION pkt 15 \<longrightarrow> joined_ok ampersand (str_bytes mem (uri_query pkt) (uri_query_len pkt))) \<and>
     (IS_OPTION pkt 17 \<longrightarrow> ocf_format (accept pkt)) \<and>
     (IS_OPTION pkt 23 \<longrightarrow> block_ok (block2_num pkt) (block2_size pkt)) \<and>
     (IS_OPTION pkt 27 \<longrightarrow> block_ok (block1_num pkt) (block1_size pkt))"

lemma fst_opt_if: "fst ` set (opt_if b [(n, w)]) = (if b then {n} else {})"
  by (simp add: opt_if_def)

lemma reads_packet_opts:
  assumes "wire_opts_ok mem pkt" and "\<not> coap_check_signal_message pkt"
  shows "reads_all (packet_opts mem pkt) (packet_vals mem pkt)"
proof -
  have vals: "packet_vals mem pkt =
      opt_if (IS_OPTION pkt 4) [(4, Bytes (take (unat (etag_len pkt)) (etag pkt)))] @
      opt_if (IS_OPTION pkt 6) [(6, Num (observe pkt))] @
      opt_if (IS_OPTION pkt 7) [(7, Num (ucast (uri_port pkt)))] @
      opt_if (IS_OPTION pkt 11) [(11, Bytes (str_bytes mem (uri_path pkt) (uri_path_len pkt)))] @
      opt_if (IS_OPTION pkt 12) [(12, Num (ucast (content_format pkt)))] @
      opt_if (IS_OPTION pkt 15) [(15, Bytes (str_bytes mem (uri_query pkt) (uri_query_len pkt)))] @
      opt_if (IS_OPTION pkt 17) [(17, Num (ucast (accept pkt)))] @
      opt_if (IS_OPTION pkt 23) [(23, Block (block2_num pkt) (block2_more pkt \<noteq> 0) (block2_size pkt))] @
      opt_if (IS_OPTION pkt 27) [(27, Block (block1_num pkt) (block1_more pkt \<noteq> 0) (block1_size pkt))] @
      opt_if (IS_OPTION pkt 28) [(28, Num (size2 pkt))] @
      opt_if (IS_OPTION pkt 60) [(60, Num (size1 pkt))] @ [] @ []"
    by (simp add: packet_vals_def packet_option_def opt_if_def)
  have w: "IS_OPTION pkt 4 \<Longrightarrow> length (take (unat (etag_len pkt)) (etag pkt)) \<le> 8"
    "IS_OPTION pkt 11 \<Longrightarrow> joined_ok slash (str_bytes mem (uri_path pkt) (uri_path_len pkt))"
    "IS_OPTION pkt 12 \<Longrightarrow> ocf_format (content_format pkt)"
    "IS_OPTION pkt 15 \<Longrightarrow> joined_ok ampersand (str_bytes mem (uri_query pkt) (uri_query_len pkt))"
    "IS_OPTION pkt 17 \<Longrightarrow> ocf_format (accept pkt)"
    "IS_OPTION pkt 23 \<Longrightarrow> block_ok (block2_num pkt) (block2_size pkt)"
    "IS_OPTION pkt 27 \<Longrightarrow> block_ok (block1_num pkt) (block1_size pkt)"
    using assms(1) by (auto simp: wire_opts_ok_def)
  show ?thesis
    unfolding vals packet_opts_def if_not_P [OF assms(2)]
    by (intro reads_all_append reads_etag reads_observe reads_port reads_path reads_content_format
        reads_query reads_accept reads_blocks reads_sizes reads_versions w)
      (simp_all only: set_append image_Un fst_opt_if, auto)
qed

lemma map_of_packet_vals:
  assumes "unat m \<le> 60"
  shows "map_of (packet_vals mem pkt) m = packet_option mem pkt m"
proof -
  have m1: "map_of (opt_if b [(n, w)] @ ws) m = (if b \<and> m = n then Some w else map_of ws m)" for b n w ws
    by (simp add: opt_if_def map_add_def split: option.splits)
  have "map_of (packet_vals mem pkt) m =
      (if m \<in> set [4, 6, 7, 11, 12, 15, 17, 23, 27, 28, 60] \<and> IS_OPTION pkt m
       then Some (the (packet_option mem pkt m)) else None)"
    unfolding packet_vals_def list.map concat.simps m1 by auto
  then show ?thesis by (auto simp: packet_option_def)
qed

lemma packet_option_abs: "packet_option [] (abs_pkt mem p) n = packet_option mem p n"
  by (simp add: packet_option_def abs_pkt_def IS_OPTION_def str_bytes_def)

lemma hdr_abs [simp]: "hdr (abs_pkt mem p) = hdr p"
  by (simp add: hdr_def abs_pkt_def)

section \<open>Option numbers ascend\<close>

lemma ascendingI:
  assumes "sorted (map fst opts)" and "\<forall>(n, v) \<in> set opts. num \<le> n \<and> unat n \<le> 65804 \<and> length v \<le> 65804"
  shows "ascending num opts"
  using assms
proof (induction opts arbitrary: num)
  case (Cons o1 opts)
  obtain n v where o1: "o1 = (n, v)" by fastforce
  have "unat (n - num) \<le> unat n"
    using Cons.prems(2) o1 by (auto simp: unat_sub)
  moreover have "ascending n opts"
    by (rule Cons.IH) (use Cons.prems o1 in \<open>auto simp: split_beta\<close>)
  ultimately show ?case using Cons.prems(2) o1 by auto
qed simp

lemma enc_opts_length: "(n, v) \<in> set opts \<Longrightarrow> length v \<le> length (enc_opts num opts)"
proof (induction num opts rule: enc_opts.induct)
  case (2 num k u opts)
  then show ?case by (auto intro: order_trans)
qed simp

lemma map_fst_opt_if [simp]:
  "map fst (opt_if b xs) = opt_if b (map fst xs)" by (simp add: opt_if_def)

lemma sorted_packet_opts:
  assumes "\<not> coap_check_signal_message pkt"
  shows "sorted (map fst (packet_opts mem pkt))" and "n \<in> fst ` set (packet_opts mem pkt) \<Longrightarrow> unat n \<le> 2053"
proof -
  have pair: "sorted (map (\<lambda>x. n :: u32) (xs :: bytes list))" for n xs by (induction xs) auto
  have num: "m \<in> set (opt_if b (map (\<lambda>x. n :: u32) (xs :: bytes list))) \<Longrightarrow> m = n"
    "m \<in> set (opt_if b [n]) \<Longrightarrow> m = n" for m n b xs
    by (auto simp: opt_if_def split: if_splits)
  have so: "sorted (opt_if b xs)" if "sorted xs" for b and xs :: "u32 list"
    using that by (simp add: opt_if_def)
  show "sorted (map fst (packet_opts mem pkt))"
    unfolding packet_opts_def if_not_P [OF assms]
    by (simp add: sorted_append so pair comp_def) (auto dest!: num)
  show "n \<in> fst ` set (packet_opts mem pkt) \<Longrightarrow> unat n \<le> 2053"
    unfolding packet_opts_def if_not_P [OF assms]
    by (auto simp: opt_if_def split: if_splits)
qed

section \<open>Properties\<close>



end
