(* ===== verification/Coap_Roundtrip.thy ===== *)
theory Coap_Roundtrip
  imports Coap_View Coap_Message
begin

text \<open>
  Serialising a packet and parsing the bytes gives the packet back, over UDP and over TCP;
  the size a TCP receiver computes from the first bytes is the size of the message.
\<close>

definition wire_ok :: "bytes \<Rightarrow> coap_packet \<Rightarrow> bool" where
  "wire_ok mem pkt \<longleftrightarrow>
     msg_ok mem pkt \<and> wire_opts_ok mem pkt \<and> unat (token_len pkt) \<le> COAP_TOKEN_LEN \<and>
     \<not> coap_check_signal_message pkt \<and> header_length mem pkt \<le> COAP_MAX_HEADER_SIZE"

section \<open>Token, options and payload\<close>

definition blank :: "coap_packet \<Rightarrow> bool" where
  "blank p \<longleftrightarrow> same_strings p zero_packet \<and> length (token p) = COAP_TOKEN_LEN \<and>
     length (etag p) = COAP_ETAG_LEN \<and> payload_len p = 0"

lemma no_options: "unat m \<le> 60 \<Longrightarrow> \<not> IS_OPTION (p\<lparr>options := replicate 8 0\<rparr>) m"
  using no_option_zero_packet [of m] by (simp add: IS_OPTION_def zero_packet_def)

lemma packet_option_payload [simp]:
  "packet_option mem (p\<lparr>payload := a, payload_len := n\<rparr>) m = packet_option mem p m"
  by (simp add: packet_option_def IS_OPTION_def)

lemma enc_opts_bound: "wire_ok mem pkt \<Longrightarrow> length (enc_opts 0 (packet_opts mem pkt)) \<le> COAP_MAX_HEADER_SIZE"
  by (simp add: wire_ok_def header_length_def)

lemma ascending_packet_opts:
  assumes "wire_ok mem pkt"
  shows "ascending 0 (packet_opts mem pkt)"
proof (rule ascendingI)
  have sig: "\<not> coap_check_signal_message pkt" using assms by (simp add: wire_ok_def)
  show "sorted (map fst (packet_opts mem pkt))" by (rule sorted_packet_opts [OF sig])
  show "\<forall>(n, v) \<in> set (packet_opts mem pkt). 0 \<le> n \<and> unat n \<le> 65804 \<and> length v \<le> 65804"
  proof clarify
    fix n v
    assume *: "(n, v) \<in> set (packet_opts mem pkt)"
    then have "unat n \<le> 2053" using sorted_packet_opts(2) [OF sig, of n mem] by (force simp: image_iff)
    moreover have "length v \<le> 111"
      using enc_opts_length [OF *, of 0] enc_opts_bound [OF assms] by (simp add: COAP_MAX_HEADER_SIZE_def)
    ultimately show "0 \<le> n \<and> unat n \<le> 65804 \<and> length v \<le> 65804" by simp
  qed
qed

lemma parse_body:
  assumes ok: "wire_ok mem pkt"
    and p0: "blank p" "transport_type p = transport_type pkt" "code p = code pkt"
      "token_len p = token_len pkt" "transport_type pkt = COAP_TRANSPORT_UDP \<longrightarrow> type p = type pkt \<and> mid p = mid pkt"
    and udp: "transport_type pkt = COAP_TRANSPORT_UDP \<longrightarrow> unat (payload_len pkt) \<le> OC_BLOCK_SIZE"
    and rx: "drop cur rx = take (unat (token_len pkt)) (token pkt) @ enc_opts 0 (packet_opts mem pkt) @
        tail_bytes mem pkt @ pad"
    and pad: "pad \<noteq> []" and data_len: "data_len = length rx - length pad"
  shows "\<exists>pkt' rx'. coap_parse_token_option p rx data_len cur = Some (COAP_NO_ERROR, pkt', rx') \<and>
     packet_view rx' pkt' = packet_view mem pkt"
proof -
  define tok where "tok = take (unat (token_len pkt)) (token pkt)"
  define opts where "opts = packet_opts mem pkt"
  define c1 where "c1 = cur + length tok"
  define c2 where "c2 = c1 + length (enc_opts 0 opts)"
  have tok: "length tok = unat (token_len pkt)" "length tok \<le> 8"
    using ok by (auto simp: tok_def wire_ok_def msg_ok_def)
  have len_rx: "length rx = cur + length (tok @ enc_opts 0 opts @ tail_bytes mem pkt @ pad)"
    by (rule length_from_drop) (use rx pad in \<open>simp_all add: tok_def opts_def\<close>)
  have rd_tok: "rd_slice rx cur (unat (token_len p)) = Some tok"
    using rd_slice_from_drop [of cur rx tok] rx len_rx tok p0(4) by (simp add: tok_def)
  define p1 where "p1 = p\<lparr>token := splice 0 tok (token p), options := replicate 8 0\<rparr>"
  have start: "coap_parse_token_option p rx data_len cur = parse_options p1 rx data_len 0 c1"
    using rd_tok p0(4) tok by (simp add: coap_parse_token_option_def p1_def c1_def Let_def)
  have p1_str: "uri_path_len p1 = 0" "uri_query_len p1 = 0"
    using p0(1) by (simp_all add: p1_def blank_def same_strings_def)
  have inv: "rt_inv p1 c1 0"
    using p1_str by (simp add: rt_inv_def parse_inv_def str_in_def)
  have d1: "drop c1 rx = enc_opts 0 opts @ tail_bytes mem pkt @ pad"
    using drop_add_from_drop [of cur rx tok] rx by (simp add: c1_def tok_def opts_def)
  have fits: "c2 \<le> data_len" "data_len = c2 + length (tail_bytes mem pkt)"
    using len_rx data_len by (simp_all add: c1_def c2_def)
  have sig: "\<not> coap_check_signal_message p1"
    using ok p0(2,3) by (simp add: wire_ok_def p1_def coap_check_signal_message_def)
  have fresh: "fresh_ok (abs_pkt rx p1)"
    using p1_str p0(1) by (simp add: fresh_ok_def abs_pkt_def str_bytes_def) (simp add: p1_def blank_def)
  have none: "\<not> IS_OPTION (abs_pkt rx p1) m" if "unat m \<le> 60" for m
    using no_options [OF that, of p] by (simp add: abs_pkt_def IS_OPTION_def p1_def)
  have all: "reads_all opts (packet_vals mem pkt)"
    using ok reads_packet_opts by (simp add: wire_ok_def opts_def)
  then have reads: "reads (abs_pkt rx p1) (apply_opts (abs_pkt rx p1) opts) (packet_vals mem pkt)"
    using fresh none by (auto simp: reads_all_def)
  obtain st pkt1 rx1 where ref: "apply_opts (abs_pkt rx p1) opts = (st, abs_pkt rx1 pkt1)"
    "length rx1 = length rx"
    "if st \<noteq> COAP_NO_ERROR then parse_options p1 rx data_len 0 c1 = Some (st, pkt1, rx1)
     else parse_options p1 rx data_len 0 c1 = parse_options pkt1 rx1 data_len (last_num 0 opts) c2 \<and>
       drop c2 rx1 = tail_bytes mem pkt @ pad \<and> rt_inv pkt1 c2 (last_num 0 opts)"
    using parse_options_refines [OF d1 ascending_packet_opts [OF ok, folded opts_def] _ sig inv, of data_len] fits(1)
    unfolding c2_def by blast
  have st: "st = COAP_NO_ERROR" and h: "hdr pkt1 = hdr p1"
    using reads ref(1) by (simp_all add: reads_def hdr_def abs_pkt_def)
  have opt: "packet_option rx1 pkt1 m = packet_option mem pkt m" if "unat m \<le> 60" for m
  proof -
    have "packet_option rx1 pkt1 m = packet_option [] (abs_pkt rx1 pkt1) m" by (simp add: packet_option_abs)
    also have "\<dots> = packet_option mem pkt m"
      using reads ref(1) that none [OF that] map_of_packet_vals [OF that, of mem pkt]
      by (simp add: reads_def split: option.splits) (simp add: packet_option_def [of "[]"])
    finally show ?thesis .
  qed
  have view: "packet_view rx2 pkt2 = packet_view mem pkt"
    if "transport_type pkt2 = transport_type pkt1" "type pkt2 = type pkt1" "code pkt2 = code pkt1"
      "mid pkt2 = mid pkt1" "token_len pkt2 = token_len pkt1" "token pkt2 = token pkt1"
      "\<And>m. packet_option rx2 pkt2 m = packet_option rx1 pkt1 m"
      "take (unat (payload_len pkt2)) (deref rx2 (payload pkt2)) =
       take (unat (payload_len pkt)) (deref mem (payload pkt))" for pkt2 rx2
  proof -
    have "take (unat (token_len pkt)) (splice 0 tok (token p)) = tok"
      using slice_splice_self [of 0 tok "token p"] tok p0(1) by (simp add: blank_def)
    then show ?thesis
      using that h p0(2-5) opt by (auto simp: packet_view_def hdr_def p1_def tok_def fun_eq_iff)
  qed
  from st ref(3) have go: "coap_parse_token_option p rx data_len cur =
      parse_options pkt1 rx1 data_len (last_num 0 opts) c2"
    and d2: "drop c2 rx1 = tail_bytes mem pkt @ pad" and inv2: "parse_inv pkt1 c2"
    by (simp_all add: start rt_inv_def)
  show ?thesis
  proof (cases "payload_len pkt = 0")
    case True
    then have "data_len = c2" using fits(2) by (simp add: tail_bytes_def)
    moreover have "payload_len pkt1 = 0" using h p0(1) by (simp add: hdr_def p1_def blank_def)
    ultimately show ?thesis
      using go parse_options_end [of pkt1 rx1 c2] view [of pkt1 rx1] True by simp
  next
    case False
    define pay where "pay = take (unat (payload_len pkt)) (deref mem (payload pkt))"
    have len_pay: "length pay = unat (payload_len pkt)" using ok by (simp add: pay_def wire_ok_def msg_ok_def)
    have tail: "tail_bytes mem pkt = 0xFF # pay" using False by (simp add: tail_bytes_def pay_def word_gt_0)
    obtain rx2 where rx2: "parse_options pkt1 rx1 data_len (last_num 0 opts) c2 =
         Some (COAP_NO_ERROR, pkt1\<lparr>payload := Buf (c2 + 1), payload_len := of_nat (length pay)\<rparr>, rx2)"
      "abs_pkt rx2 pkt1 = abs_pkt rx1 pkt1" "take (length pay) (drop (c2 + 1) rx2) = pay"
    proof (rule parse_options_payload [of c2 rx1 pay pad data_len pkt1 "last_num 0 opts"])
      show "drop c2 rx1 = 0xFF # pay @ pad" "data_len = c2 + 1 + length pay"
        using d2 tail fits(2) by simp_all
      show "transport_type pkt1 = COAP_TRANSPORT_UDP \<longrightarrow> length pay \<le> OC_BLOCK_SIZE"
        using udp len_pay h p0(2) by (simp add: hdr_def p1_def)
    qed (use pad inv2 in auto)
    let ?q = "pkt1\<lparr>payload := Buf (c2 + 1), payload_len := of_nat (length pay)\<rparr>"
    have "packet_option rx2 ?q m = packet_option rx1 pkt1 m" for m
      using rx2(2) packet_option_abs [of rx2 pkt1 m] packet_option_abs [of rx1 pkt1 m] by simp
    then have "packet_view rx2 ?q = packet_view mem pkt"
      using rx2(3) len_pay by (intro view) (simp_all add: pay_def [symmetric])
    with go rx2(1) show ?thesis by auto
  qed
qed

section \<open>UDP\<close>

lemma token_len_cases: "unat (n :: u8) \<le> 8 \<Longrightarrow> n \<in> {0, 1, 2, 3, 4, 5, 6, 7, 8}"
proof -
  assume "unat n \<le> 8"
  then have "n \<in> of_nat ` {0..<9}" by (auto intro!: image_eqI [of _ _ "unat n"])
  then show ?thesis by (simp add: atLeastLessThan_upt upt_rec)
qed

lemma udp_first_byte:
  fixes n :: u8 and ty :: coap_message_type
  assumes "unat n \<le> 8"
  defines "b \<equiv> 0x40 OR push_bit 4 (type_code ty) OR (0x0F AND n)"
  shows "drop_bit 6 (0xC0 AND b) = 1" "type_of_code (drop_bit 4 (0x30 AND b)) = ty" "0x0F AND b = n"
  using token_len_cases [OF assms(1)] unfolding b_def
  by (cases ty; auto simp: type_of_code_def drop_bit_eq_div)+

lemma mid_bytes: "push_bit 8 (ucast (ucast (drop_bit 8 m) :: u8)) OR ucast (ucast m :: u8) = (m :: u16)"
  by (rule bit_word_eqI) (auto simp: bit_simps)

lemma blank_fields [simp]:
  "blank (p\<lparr>transport_type := t\<rparr>) = blank p" "blank (p\<lparr>version := v\<rparr>) = blank p"
  "blank (p\<lparr>type := ty\<rparr>) = blank p" "blank (p\<lparr>code := c\<rparr>) = blank p" "blank (p\<lparr>mid := m\<rparr>) = blank p"
  "blank (p\<lparr>token_len := n\<rparr>) = blank p" "blank zero_packet"
  by (simp_all add: blank_def same_strings_def) (simp add: zero_packet_def)

lemma udp_parse_header:
  assumes "drop_bit 6 (0xC0 AND b) = 1" and "type_of_code (drop_bit 4 (0x30 AND b)) = ty"
    and "0x0F AND b = n" and "unat n \<le> 8"
  shows "coap_udp_parse_message (b # c # h # l # rest) data_len =
     coap_parse_token_option (zero_packet\<lparr>transport_type := COAP_TRANSPORT_UDP, version := 1, type := ty,
        token_len := n, code := c, mid := push_bit 8 (ucast h) OR ucast l\<rparr>)
       (b # c # h # l # rest) (unat data_len) COAP_HEADER_LEN"
  using assms(4)
  by (simp add: coap_udp_parse_message_def rd_def Let_def assms(1-3) del: drop_bit_and push_bit_and)

lemma coap_udp_parse_msg_bytes:
  assumes ok: "wire_ok mem pkt" and udp: "transport_type pkt = COAP_TRANSPORT_UDP"
    and "unat (payload_len pkt) \<le> OC_BLOCK_SIZE" and "pad \<noteq> []"
  shows "\<exists>pkt' rx'.
     coap_udp_parse_message (msg_bytes mem pkt @ pad) (of_nat (length (msg_bytes mem pkt))) =
       Some (COAP_NO_ERROR, pkt', rx') \<and> packet_view rx' pkt' = packet_view mem pkt"
proof -
  let ?rx = "msg_bytes mem pkt @ pad"
  have tkl: "unat (token_len pkt) \<le> 8" using ok by (simp add: wire_ok_def)
  have hb: "header_bytes mem pkt = udp_header pkt" using udp by (simp add: header_bytes_def)
  have len: "length (msg_bytes mem pkt) < 65536"
  proof -
    have "length (msg_bytes mem pkt) \<le> header_length mem pkt + unat (payload_len pkt)"
      using ok by (simp add: msg_bytes_def header_length_def tail_bytes_def wire_ok_def msg_ok_def)
    then show ?thesis using ok assms(3) by (simp add: wire_ok_def COAP_MAX_HEADER_SIZE_val OC_BLOCK_SIZE_val)
  qed
  then have data_len: "unat (of_nat (length (msg_bytes mem pkt)) :: u16) = length (msg_bytes mem pkt)"
    by (simp add: unat_of_nat)
  define p where "p = zero_packet
    \<lparr>transport_type := COAP_TRANSPORT_UDP, version := 1, type := type pkt, token_len := token_len pkt,
     code := code pkt, mid := mid pkt\<rparr>"
  have rx: "?rx = (0x40 OR push_bit 4 (type_code (type pkt)) OR (0x0F AND token_len pkt)) # code pkt #
      ucast (drop_bit 8 (mid pkt)) # ucast (mid pkt) # drop 4 ?rx"
    by (simp add: msg_bytes_def hb udp_header_def)
  have parse: "coap_udp_parse_message ?rx (of_nat (length (msg_bytes mem pkt))) =
      coap_parse_token_option p ?rx (length (msg_bytes mem pkt)) 4"
    using udp_parse_header [OF udp_first_byte [OF tkl, of "type pkt"] tkl, of "code pkt"
        "ucast (drop_bit 8 (mid pkt))" "ucast (mid pkt)" "drop 4 ?rx"
        "of_nat (length (msg_bytes mem pkt))"]
    unfolding rx [symmetric] data_len mid_bytes p_def .
  show ?thesis
    unfolding parse
    by (rule parse_body [OF ok, where pad = pad])
      (use assms in \<open>auto simp: p_def msg_bytes_def hb udp_header_def\<close>)
qed

section \<open>TCP\<close>

text \<open>The loop over the extended length bytes reads their big-endian value.\<close>

lemma be_val_Cons: "be_val (b # bs) = unat b * 256 ^ length bs + be_val bs"
proof (induction bs rule: rev_induct)
  case Nil
  then show ?case by (simp add: be_val_def)
next
  case (snoc c bs)
  then show ?case using be_val_snoc [of "b # bs" c] by (simp add: be_val_snoc algebra_simps)
qed

lemma or_shifted_byte:
  "k \<le> 3 \<Longrightarrow> (a * 256 ^ Suc k :: nat) OR unat (push_bit (8 * k) (0x000000FF AND ucast (b :: u8) :: u32)) =
     (a * 256 + unat b) * 256 ^ k"
proof -
  assume k: "k \<le> 3"
  have ub: "unat (ucast b :: u32) = unat b"
  proof -
    have "unat b < 2 ^ 32" by (rule less_trans [of _ 256]) simp_all
    then show ?thesis by (simp add: unsigned_ucast_eq take_bit_nat_eq_self_iff)
  qed
  have "mask 8 AND ucast b = (ucast b :: u32)"
    by (rule bit_word_eqI) (auto simp: bit_simps dest: bit_imp_le_length)
  then have "0x000000FF AND ucast b = (ucast b :: u32)" by (simp add: mask_eq_exp_minus_1)
  moreover have "unat (push_bit (8 * k) (ucast b) :: u32) = push_bit (8 * k) (unat b)"
  proof -
    have "unat b * 2 ^ (8 * k) < 256 * 2 ^ (8 * k)" by simp
    also have "256 * 2 ^ (8 * k) = (2 :: nat) ^ (8 * Suc k)" by (simp add: power_add)
    also have "\<dots> \<le> 2 ^ 32" using k by (intro power_increasing) auto
    finally have "push_bit (8 * k) (unat b) < 2 ^ 32" by (simp add: push_bit_eq_mult)
    then have "take_bit 32 (push_bit (8 * k) (unat b)) = push_bit (8 * k) (unat b)"
      by (rule iffD2 [OF take_bit_nat_eq_self_iff])
    then show ?thesis by (subst unsigned_push_bit_eq) (simp add: ub)
  qed
  moreover have "a * 256 ^ Suc k = push_bit (8 * Suc k) a" "256 ^ k = (2 :: nat) ^ (8 * k)"
    by (simp_all add: push_bit_eq_mult power_mult power_add)
  moreover have "push_bit (8 * Suc k) a AND push_bit (8 * k) (unat b) = 0"
    by (rule bit_eqI) (auto simp: bit_simps dest!: bit_imp_le_length)
  ultimately show ?thesis
    by (simp add: disjunctive_add_eq_or [symmetric] push_bit_eq_mult algebra_simps power_add)
qed

lemma or_ext_be:
  assumes "drop i data = bs @ rest" and "i \<le> length data" and "i + length bs = n + 1" and "length bs \<le> 4"
  shows "or_ext data i n (a * 256 ^ length bs) (length bs) = Some (a * 256 ^ length bs + be_val bs)"
  using assms
proof (induction bs arbitrary: i a)
  case (Cons b bs)
  have d: "drop i data = b # bs @ rest" using Cons.prems(1) by simp
  then have "rd data i = Some b" "drop (Suc i) data = bs @ rest" "Suc i \<le> length data"
    using length_from_drop [OF d] by (simp_all add: rd_from_drop drop_Suc_from_drop)
  moreover have "n - i = length bs" using Cons.prems(3) by simp
  moreover have "or_ext data (Suc i) n ((a * 256 + unat b) * 256 ^ length bs) (length bs) =
      Some ((a * 256 + unat b) * 256 ^ length bs + be_val bs)"
    by (rule Cons.IH) (use Cons.prems calculation in auto)
  ultimately show ?case
    using or_shifted_byte [of "length bs" a b] Cons.prems(4) by (simp add: be_val_Cons algebra_simps)
qed (simp add: byte_simps)

lemma ext_bytes_Suc: "ext_bytes (Suc n) v = ext_bytes n (v div 256) @ [of_nat v]"
proof -
  have "v div 256 ^ (Suc n - i) = v div 256 div 256 ^ (n - i)" if "i \<le> n" for i
    using that by (simp add: Suc_diff_le div_mult2_eq)
  then show ?thesis by (auto simp: ext_bytes_def)
qed

lemma be_val_ext_bytes: "v < 256 ^ n \<Longrightarrow> be_val (ext_bytes n v) = v"
proof (induction n arbitrary: v)
  case (Suc n)
  then have "v div 256 < 256 ^ n" by (simp add: less_mult_imp_div_less mult.commute)
  with Suc.IH show ?case by (simp add: ext_bytes_Suc be_val_snoc unat_of_nat_u8)
qed (simp add: ext_bytes_def byte_simps)

definition message_length :: "bytes \<Rightarrow> coap_packet \<Rightarrow> nat" where
  "message_length mem pkt = length (enc_opts 0 (packet_opts mem pkt)) + length (tail_bytes mem pkt)"

lemma and_0xF0_hi: "drop_bit 4 (0xF0 AND (b :: u8)) = drop_bit 4 b"
proof -
  have c: "(0xF0 :: u8) = NOT (mask 4)" by (simp add: mask_eq_exp_minus_1)
  show ?thesis unfolding c
    by (rule bit_word_eqI) (auto simp: bit_simps dest: bit_imp_le_length)
qed

lemma tcp_parse_length:
  assumes c: "coap_tcp_compute_message_length pkt n = (num_ext, len, ext)"
    and tot: "tot = n + (if payload_len pkt > 0 then 1 + unat (payload_len pkt) else 0)"
    and "tot < 2 ^ 32" and tkl: "unat (token_len pkt) < 16"
  shows "coap_tcp_parse_message_length (tcp_header pkt n @ rest) = Some (tot, num_ext)"
    and "rd (tcp_header pkt n @ rest) 0 = Some (push_bit 4 len OR token_len pkt)"
    and "0x0F AND (push_bit 4 len OR token_len pkt) = token_len pkt"
proof -
  let ?b = "push_bit 4 len OR token_len pkt"
  have t: "0x0F AND token_len pkt = token_len pkt"
    using and_nibbles [OF tkl, of 0] by (simp add: and.commute)
  have hd: "tcp_header pkt n = ?b # ext_bytes (unat num_ext) ext @ [code pkt]"
    using c by (simp add: tcp_header_def t)
  have lenb: "unat len < 16" using compute_message_length_bounds [OF c] by simp
  have b: "drop_bit 4 (0xF0 AND ?b) = len"
    unfolding and_0xF0_hi by (rule drop_bit_nibbles [OF lenb tkl])
  show "0x0F AND ?b = token_len pkt" using and_nibbles [OF tkl] by (simp add: and.commute)
  show rd0: "rd (tcp_header pkt n @ rest) 0 = Some ?b" by (simp add: hd rd_def)
  have ext: "or_ext (tcp_header pkt n @ rest) (Suc 0) k 0 k = Some ext" if "unat num_ext = k" "k \<le> 4" "ext < 256 ^ k" for k
    using or_ext_be [of 1 "tcp_header pkt n @ rest" "ext_bytes k ext" "code pkt # rest" k 0] that
    by (simp add: hd be_val_ext_bytes)
  have "tot < 13 \<and> num_ext = 0 \<and> unat len = tot \<or>
      num_ext = 1 \<and> len = 13 \<and> ext + 13 = tot \<and> ext < 256 \<or>
      num_ext = 2 \<and> len = 14 \<and> ext + 269 = tot \<and> ext < 65536 \<or>
      num_ext = 4 \<and> len = 15 \<and> ext + 65805 = tot \<and> ext < 2 ^ 32"
    using c assms(3) unfolding coap_tcp_compute_message_length_def tot [symmetric] Let_def
    by (auto simp: unat_of_nat_u8 split: if_splits)
  then consider "tot < 13" "num_ext = 0" "unat len = tot"
    | "num_ext = 1" "len = 13" "ext + 13 = tot" "ext < 256 ^ 1"
    | "num_ext = 2" "len = 14" "ext + 269 = tot" "ext < 256 ^ 2"
    | "num_ext = 4" "len = 15" "ext + 65805 = tot" "ext < 256 ^ 4"
    by fastforce
  then show "coap_tcp_parse_message_length (tcp_header pkt n @ rest) = Some (tot, num_ext)"
    unfolding coap_tcp_parse_message_length_def rd0 bind.bind_lunit Let_def b
    by cases (simp_all add: ext [of "Suc 0"] ext [of 2] ext [of 4] word_less_nat_alt del: or_ext.simps)
qed

lemma wire_ok_lengths:
  assumes "wire_ok mem pkt"
  shows "length (msg_bytes mem pkt) = length (header_bytes mem pkt) + unat (token_len pkt) + message_length mem pkt"
    and "message_length mem pkt = length (enc_opts 0 (packet_opts mem pkt)) +
      (if payload_len pkt > 0 then 1 + unat (payload_len pkt) else 0)"
  using assms by (auto simp: msg_bytes_def message_length_def tail_bytes_def wire_ok_def msg_ok_def)

text \<open>The receiver sizes a stream message from its first bytes.\<close>

lemma coap_tcp_get_packet_size_msg:
  assumes ok: "wire_ok mem pkt" and tcp: "transport_type pkt = COAP_TRANSPORT_TCP"
    and len: "length (msg_bytes mem pkt) < 2 ^ 32"
  shows "coap_tcp_get_packet_size (msg_bytes mem pkt @ rest) = Some (length (msg_bytes mem pkt))"
proof -
  let ?n = "length (enc_opts 0 (packet_opts mem pkt))"
  obtain num_ext l ext where c: "coap_tcp_compute_message_length pkt ?n = (num_ext, l, ext)"
    by (metis prod_cases3)
  have hb: "header_bytes mem pkt = tcp_header pkt ?n" using tcp by (simp add: header_bytes_def)
  have "unat (token_len pkt) \<le> 8" using ok by (simp add: wire_ok_def)
  then have tkl: "unat (token_len pkt) < 16" by simp
  have ml: "message_length mem pkt < 2 ^ 32" using len wire_ok_lengths(1) [OF ok] by simp
  note p = tcp_parse_length [OF c wire_ok_lengths(2) [OF ok] ml tkl]
  obtain tl where rx: "msg_bytes mem pkt @ rest = tcp_header pkt ?n @ tl"
    by (simp add: msg_bytes_def hb)
  show ?thesis
    unfolding rx coap_tcp_get_packet_size_def p bind.bind_lunit prod.case drop_bit_0 id_apply
    using wire_ok_lengths(1) [OF ok] length_tcp_header [OF c] hb by simp
qed

lemma coap_tcp_parse_msg_bytes:
  assumes ok: "wire_ok mem pkt" and tcp: "transport_type pkt = COAP_TRANSPORT_TCP"
    and len: "length (msg_bytes mem pkt) < 2 ^ 32" and "pad \<noteq> []"
  shows "\<exists>pkt' rx'.
     coap_tcp_parse_message (msg_bytes mem pkt @ pad) (of_nat (length (msg_bytes mem pkt))) =
       Some (COAP_NO_ERROR, pkt', rx') \<and> packet_view rx' pkt' = packet_view mem pkt"
proof -
  let ?rx = "msg_bytes mem pkt @ pad"
  let ?n = "length (enc_opts 0 (packet_opts mem pkt))"
  obtain num_ext l ext where c: "coap_tcp_compute_message_length pkt ?n = (num_ext, l, ext)"
    by (metis prod_cases3)
  have hb: "header_bytes mem pkt = tcp_header pkt ?n" using tcp by (simp add: header_bytes_def)
  have tkl8: "unat (token_len pkt) \<le> 8" using ok by (simp add: wire_ok_def)
  then have tkl: "unat (token_len pkt) < 16" by simp
  have ml: "message_length mem pkt < 2 ^ 32" using len wire_ok_lengths(1) [OF ok] by simp
  note p = tcp_parse_length [OF c wire_ok_lengths(2) [OF ok] ml tkl]
  obtain tl where rx: "?rx = tcp_header pkt ?n @ tl" by (simp add: msg_bytes_def hb)
  have cd: "rd (tcp_header pkt ?n @ tl) (1 + unat num_ext) = Some (code pkt)"
    using c by (simp add: tcp_header_def rd_def nth_append)
  define q where "q = zero_packet
    \<lparr>transport_type := COAP_TRANSPORT_TCP, type := COAP_TYPE_NON, mid := 0,
     token_len := token_len pkt, code := code pkt\<rparr>"
  have data_len: "unat (of_nat (length (msg_bytes mem pkt)) :: u32) = length (msg_bytes mem pkt)"
    using len by (simp add: unat_of_nat)
  have tl: "token_len q = token_len pkt" by (simp add: q_def)
  have parse: "coap_tcp_parse_message ?rx (of_nat (length (msg_bytes mem pkt))) =
      coap_parse_token_option q ?rx (length (msg_bytes mem pkt)) (2 + unat num_ext)"
    unfolding coap_tcp_parse_message_def data_len rx p cd bind.bind_lunit prod.case drop_bit_0 id_apply
      Let_def q_def [symmetric] tl
    using tkl8 by simp
  show ?thesis
    unfolding parse
    by (rule parse_body [OF ok, where pad = pad])
      (use assms length_tcp_header [OF c] in \<open>auto simp: q_def msg_bytes_def hb\<close>)
qed

section \<open>Properties\<close>

lemma serialize_into:
  assumes "wire_ok mem pkt" and "code pkt \<noteq> 0" and "length (msg_bytes mem pkt) < length buf"
  obtains pad where "pad \<noteq> []"
    and "coap_serialize_message mem pkt (Mem buf) =
      Some (Mem (msg_bytes mem pkt @ pad), length (msg_bytes mem pkt))"
proof (rule that [of "drop (length (msg_bytes mem pkt)) buf"])
  show "coap_serialize_message mem pkt (Mem buf) =
      Some (Mem (msg_bytes mem pkt @ drop (length (msg_bytes mem pkt)) buf), length (msg_bytes mem pkt))"
    using coap_serialize_message_eq [of mem pkt "Mem buf"] assms
    by (simp add: wire_ok_def splice_def)
qed (use assms(3) in simp)

definition example_packet :: "coap_transport_type \<Rightarrow> coap_packet" where
  "example_packet t = SET_OPTION (SET_OPTION (SET_OPTION (SET_OPTION (zero_packet
     \<lparr>transport_type := t, type := COAP_TYPE_CON, code := 2, mid := 0x1234, token_len := 3,
      token := [1, 2, 3, 0, 0, 0, 0, 0], uri_path := Obj [0x6F, 0x69, 0x63, 0x2F, 0x72, 0x65, 0x73, 0],
      uri_path_len := 7, content_format := APPLICATION_VND_OCF_CBOR, observe := 300,
      block1_num := 5, block1_more := 1, block1_size := 64, payload := Obj [0xA0, 0xFF],
      payload_len := 2\<rparr>) 11) 12) 6) 27"

lemmas example_defs = example_packet_def IS_OPTION_def SET_OPTION_def zero_packet_def
  set_option_bit_def is_option_bit_def coap_check_signal_message_def str_bytes_def

lemma example_opts: "packet_opts [] (example_packet t) =
   [(6, [1, 44]), (11, [0x6F, 0x69, 0x63]), (11, [0x72, 0x65, 0x73]), (12, [39, 16]), (27, [0x5A]),
    (2053, [8, 0])]"
  by (cases t) (simp_all add: example_defs packet_opts_def opt_if_def int_bytes_def block_value_def
      coap_log_2_sizes version_value_def)

lemma example_fields:
  "unat (token_len (example_packet t)) = 3" "length (token (example_packet t)) = 8"
  "unat (payload_len (example_packet t)) = 2" "0 < payload_len (example_packet t)"
  "transport_type (example_packet t) = t" "code (example_packet t) = 2"
  "deref [] (payload (example_packet t)) = [0xA0, 0xFF]"
  by (simp_all add: example_packet_def SET_OPTION_def word_less_nat_alt)

lemma example_length: "length (enc_opts 0 (packet_opts [] (example_packet t))) = 22"
  by (simp add: example_opts opt_header_def opt_ext_def)

lemma example_header: "length (header_bytes [] (example_packet t)) \<le> 4"
  by (cases t) (simp_all add: header_bytes_def udp_header_def tcp_header_def example_length
      example_fields coap_tcp_compute_message_length_def Let_def)

lemma example_wire_ok: "wire_ok [] (example_packet t)"
proof -
  have "msg_ok [] (example_packet t)"
    by (simp add: msg_ok_def ser_ok_def str_ok_def example_defs)
  moreover have "wire_opts_ok [] (example_packet t)"
    by (simp add: wire_opts_ok_def joined_ok_def ocf_format_def block_ok_def block_sizes_def example_defs)
  moreover have "\<not> coap_check_signal_message (example_packet t)"
    by (simp add: example_defs)
  moreover have "header_length [] (example_packet t) \<le> COAP_MAX_HEADER_SIZE"
    using example_header [of t]
    by (simp add: header_length_def example_fields example_length COAP_MAX_HEADER_SIZE_val)
  ultimately show ?thesis by (simp add: wire_ok_def example_fields)
qed

lemma example_msg_length: "length (msg_bytes [] (example_packet t)) \<le> 32"
  using example_header [of t]
  by (simp add: msg_bytes_def example_fields example_length tail_bytes_def)

text \<open>C1: Over UDP, serialising a well-formed packet into a buffer with room for one more byte
  and parsing the result succeeds and gives the same message: type, message id, code, token,
  every option, payload.\<close>

theorem coap_udp_roundtrip:
  assumes "wire_ok mem pkt" and "transport_type pkt = COAP_TRANSPORT_UDP" and "code pkt \<noteq> 0"
    and "unat (payload_len pkt) \<le> OC_BLOCK_SIZE" and "length (msg_bytes mem pkt) < length buf"
  shows "\<exists>buf' n pkt' rx. coap_serialize_message mem pkt (Mem buf) = Some (Mem buf', n) \<and>
     coap_udp_parse_message buf' (of_nat n) = Some (COAP_NO_ERROR, pkt', rx) \<and>
     packet_view rx pkt' = packet_view mem pkt"
  using serialize_into [OF assms(1,3,5)] coap_udp_parse_msg_bytes [OF assms(1,2,4)] by metis

theorem coap_udp_roundtrip_witness:
  "\<exists>buf' n pkt' rx. coap_serialize_message [] (example_packet COAP_TRANSPORT_UDP) (Mem (replicate 64 0)) =
       Some (Mem buf', n) \<and>
     coap_udp_parse_message buf' (of_nat n) = Some (COAP_NO_ERROR, pkt', rx) \<and>
     packet_view rx pkt' = packet_view [] (example_packet COAP_TRANSPORT_UDP)"
  using example_msg_length [of COAP_TRANSPORT_UDP]
  by (intro coap_udp_roundtrip) (simp_all add: example_wire_ok example_fields OC_BLOCK_SIZE_val)

text \<open>C8: Over TCP, serialising a well-formed packet gives a message whose size the receiver
  computes from its first bytes, and parsing it gives the same code, token, options and payload.\<close>

theorem coap_tcp_roundtrip:
  assumes "wire_ok mem pkt" and "transport_type pkt = COAP_TRANSPORT_TCP" and "code pkt \<noteq> 0"
    and "length (msg_bytes mem pkt) < 2 ^ 32" and "length (msg_bytes mem pkt) < length buf"
  shows "\<exists>buf' n pkt' rx. coap_serialize_message mem pkt (Mem buf) = Some (Mem buf', n) \<and>
     coap_tcp_get_packet_size buf' = Some n \<and>
     coap_tcp_parse_message buf' (of_nat n) = Some (COAP_NO_ERROR, pkt', rx) \<and>
     packet_view rx pkt' = packet_view mem pkt"
  using serialize_into [OF assms(1,3,5)] coap_tcp_parse_msg_bytes [OF assms(1,2,4)]
    coap_tcp_get_packet_size_msg [OF assms(1,2,4)] by metis

theorem coap_tcp_roundtrip_witness:
  "\<exists>buf' n pkt' rx. coap_serialize_message [] (example_packet COAP_TRANSPORT_TCP) (Mem (replicate 64 0)) =
       Some (Mem buf', n) \<and>
     coap_tcp_get_packet_size buf' = Some n \<and>
     coap_tcp_parse_message buf' (of_nat n) = Some (COAP_NO_ERROR, pkt', rx) \<and>
     packet_view rx pkt' = packet_view [] (example_packet COAP_TRANSPORT_TCP)"
  using example_msg_length [of COAP_TRANSPORT_TCP]
  by (intro coap_tcp_roundtrip) (simp_all add: example_wire_ok example_fields)

text \<open>C23: Serialising never writes outside the buffer: with room for the header limit and the
  payload the result is a buffer of the same size, unchanged behind the returned length, and
  the length is 0 exactly when the header would exceed \<open>COAP_MAX_HEADER_SIZE\<close>.\<close>

theorem coap_serialize_message_safe:
  assumes "msg_ok mem pkt" and "COAP_MAX_HEADER_SIZE + unat (payload_len pkt) \<le> length buf"
  shows "\<exists>buf' n. coap_serialize_message mem pkt (Mem buf) = Some (Mem buf', n) \<and>
     length buf' = length buf \<and> drop n buf' = drop n buf \<and>
     (n = 0 \<longleftrightarrow> header_length mem pkt > COAP_MAX_HEADER_SIZE)"
  by (rule coap_serialize_total [OF assms])

theorem coap_serialize_message_safe_witness:
  "\<exists>buf' n. coap_serialize_message [] (example_packet COAP_TRANSPORT_UDP) (Mem (replicate 200 0)) =
       Some (Mem buf', n) \<and>
     length buf' = length (replicate 200 (0 :: u8)) \<and> drop n buf' = drop n (replicate 200 0) \<and>
     (n = 0 \<longleftrightarrow> header_length [] (example_packet COAP_TRANSPORT_UDP) > COAP_MAX_HEADER_SIZE)"
  using example_wire_ok [of COAP_TRANSPORT_UDP]
  by (intro coap_serialize_message_safe)
    (simp_all add: wire_ok_def example_fields COAP_MAX_HEADER_SIZE_val)

end
