(* ===== verification/OC_Memb.thy ===== *)
theory OC_Memb
  imports OC_Prelude
begin

text \<open>
  The block allocator of \<open>src/util/oc_memb.c\<close> as built without \<open>OC_DYNAMIC_ALLOCATION\<close>: a
  pool declared by \<open>OC_MEMB\<close> is an array of \<open>num\<close> blocks of \<open>size\<close> bytes with a reference
  count each. A block pointer is its byte offset from \<open>mem\<close>, as an integer, so that foreign
  pointers are values too; \<open>None\<close> is the null pointer. Pool sizes are products of two
  16-bit numbers and are kept as natural numbers. The interface \<open>block_pool\<close> is what the
  modules with static pools rely on.
\<close>

record oc_memb =
  size :: u16
  num :: u16
  count :: bytes
  mem :: bytes
  buffers_avail_cb :: bool

section \<open>Operations\<close>

definition oc_memb_init :: "oc_memb \<Rightarrow> oc_memb" where
  "oc_memb_init m =
     (if num m > 0
      then m\<lparr>count := splice 0 (replicate (unat (num m)) 0) (count m),
             mem := splice 0 (replicate (unat (size m) * unat (num m)) 0) (mem m)\<rparr>
      else m)"

text \<open>The search loop: the index of the first block with count 0, or \<open>num\<close>.\<close>

fun first_free :: "bytes \<Rightarrow> nat" where
  "first_free [] = 0"
| "first_free (c # cs) = (if c = 0 then 0 else Suc (first_free cs))"

definition oc_memb_alloc :: "oc_memb option \<Rightarrow> oc_memb option \<times> int option" where
  "oc_memb_alloc pm = (case pm of None \<Rightarrow> (None, None)
     | Some m \<Rightarrow>
        if num m > 0 then
          let i = first_free (take (unat (num m)) (count m))
          in if i < unat (num m) then
               let m = m\<lparr>count := (count m)[i := count m ! i + 1]\<rparr>;
                   p = i * unat (size m);
                   m = m\<lparr>mem := splice p (replicate (unat (size m)) 0) (mem m)\<rparr>
               in (Some m, Some (int p))
             else (Some m, None)
        else (Some m, None))"

definition oc_memb_numfree :: "oc_memb \<Rightarrow> nat" where
  "oc_memb_numfree m = length (filter (\<lambda>c. c = 0) (take (unat (num m)) (count m)))"

text \<open>The walk over the blocks, \<open>ptr2\<close> moving by \<open>size\<close>; \<open>None\<close> when no block starts at \<open>ptr\<close>.\<close>

fun find_block :: "int option \<Rightarrow> nat \<Rightarrow> int \<Rightarrow> nat \<Rightarrow> nat \<Rightarrow> nat option" where
  "find_block ptr sz ptr2 i 0 = None"
| "find_block ptr sz ptr2 i (Suc k) =
     (if Some ptr2 = ptr then Some i else find_block ptr sz (ptr2 + int sz) (Suc i) k)"

text \<open>
  \<open>oc_memb_free\<close>: the pool, the return value, and the argument the callback is called with
  when one is set.
\<close>

definition oc_memb_free :: "oc_memb option \<Rightarrow> int option \<Rightarrow> oc_memb option \<times> int \<times> nat option" where
  "oc_memb_free pm ptr = (case pm of None \<Rightarrow> (None, -1, None)
     | Some m \<Rightarrow>
        let m = (if num m > 0 then
                   case find_block ptr (unat (size m)) 0 0 (unat (num m)) of
                     Some i \<Rightarrow> if count m ! i > 0 then m\<lparr>count := (count m)[i := count m ! i - 1]\<rparr> else m
                   | None \<Rightarrow> m
                 else m)
        in (Some m, 0, if buffers_avail_cb m then Some (oc_memb_numfree m) else None))"

definition oc_memb_inmemb :: "oc_memb \<Rightarrow> int \<Rightarrow> bool" where
  "oc_memb_inmemb m ptr \<longleftrightarrow> 0 \<le> ptr \<and> ptr < int (unat (num m) * unat (size m))"

definition oc_memb_set_buffers_avail_cb :: "oc_memb \<Rightarrow> bool \<Rightarrow> oc_memb" where
  "oc_memb_set_buffers_avail_cb m cb = m\<lparr>buffers_avail_cb := cb\<rparr>"

section \<open>Invariant and blocks\<close>

definition memb_ok :: "oc_memb \<Rightarrow> bool" where
  "memb_ok m \<longleftrightarrow> size m > 0 \<and> length (count m) = unat (num m) \<and>
     length (mem m) = unat (num m) * unat (size m) \<and> (\<forall>c \<in> set (count m). c = 0 \<or> c = 1)"

definition block_ptr :: "oc_memb \<Rightarrow> nat \<Rightarrow> int" where
  "block_ptr m i = int (i * unat (size m))"

definition live :: "oc_memb \<Rightarrow> int set" where
  "live m = block_ptr m ` {i. i < unat (num m) \<and> count m ! i \<noteq> 0}"

definition block_of :: "oc_memb \<Rightarrow> nat \<Rightarrow> bytes" where
  "block_of m i = take (unat (size m)) (drop (i * unat (size m)) (mem m))"

lemma first_free_le: "first_free cs \<le> length cs"
  by (induction cs) auto

lemma first_free_nth: "first_free cs < length cs \<Longrightarrow> cs ! first_free cs = 0"
  by (induction cs) auto

lemma first_free_least: "i < first_free cs \<Longrightarrow> cs ! i \<noteq> 0"
proof (induction cs arbitrary: i)
  case (Cons c cs)
  then show ?case by (cases i) (auto split: if_splits)
qed simp

lemma first_free_full: "first_free cs = length cs \<longleftrightarrow> (\<forall>c \<in> set cs. c \<noteq> 0)"
  by (induction cs) auto

lemma find_block_Some:
  "find_block ptr sz p2 j k = Some i \<Longrightarrow> j \<le> i \<and> i < j + k \<and> ptr = Some (p2 + int ((i - j) * sz))"
proof (induction ptr sz p2 j k rule: find_block.induct)
  case (2 ptr sz p2 j k)
  show ?case
  proof (cases "Some p2 = ptr")
    case True
    with 2 show ?thesis by auto
  next
    case False
    with 2 have *: "Suc j \<le> i \<and> i < Suc j + k \<and> ptr = Some (p2 + int sz + int ((i - Suc j) * sz))" by simp
    then have "j < i" by simp
    then have "i - j = Suc (i - Suc j)" by arith
    with * show ?thesis by (simp add: algebra_simps)
  qed
qed simp

lemma find_block_hit:
  "0 < sz \<Longrightarrow> d < k \<Longrightarrow> find_block (Some (p2 + int (d * sz))) sz p2 j k = Some (j + d)"
proof (induction d arbitrary: p2 j k)
  case 0
  then show ?case by (cases k) auto
next
  case (Suc d)
  then obtain k' where k: "k = Suc k'" "d < k'" by (cases k) auto
  with Suc have "find_block (Some (p2 + int sz + int (d * sz))) sz (p2 + int sz) (Suc j) k' = Some (Suc j + d)"
    by blast
  moreover have "0 < int sz + int d * int sz" using Suc.prems by (simp add: add_pos_nonneg)
  ultimately show ?case using k by (simp add: algebra_simps)
qed

lemma block_ptr_inj: "memb_ok m \<Longrightarrow> block_ptr m i = block_ptr m j \<longleftrightarrow> i = j"
  by (auto simp: block_ptr_def memb_ok_def word_gt_0 unsigned_eq_0_iff)

lemma find_block_ptr:
  assumes "memb_ok m"
  shows "find_block ptr (unat (size m)) 0 0 (unat (num m)) = Some i \<longleftrightarrow>
     i < unat (num m) \<and> ptr = Some (block_ptr m i)"
  using find_block_Some [of ptr "unat (size m)" 0 0 "unat (num m)" i]
    find_block_hit [of "unat (size m)" i "unat (num m)" 0 0] assms
  by (auto simp: block_ptr_def memb_ok_def word_gt_0 unat_gt_0)

lemma live_iff: "memb_ok m \<Longrightarrow> i < unat (num m) \<Longrightarrow> block_ptr m i \<in> live m \<longleftrightarrow> count m ! i \<noteq> 0"
  by (auto simp: live_def block_ptr_inj)

lemma card_live: "memb_ok m \<Longrightarrow> card (live m) + oc_memb_numfree m = unat (num m)"
proof -
  assume ok: "memb_ok m"
  have "inj_on (block_ptr m) S" for S using block_ptr_inj [OF ok] by (auto intro: inj_onI)
  then have "card (live m) = card {i. i < unat (num m) \<and> count m ! i \<noteq> 0}"
    by (simp add: live_def card_image)
  also have "\<dots> = length (filter (\<lambda>c. c \<noteq> 0) (count m))"
    using ok by (simp add: length_filter_conv_card memb_ok_def)
  finally show ?thesis
    using sum_length_filter_compl [of "\<lambda>c. c \<noteq> 0" "count m"] ok
    by (simp add: oc_memb_numfree_def memb_ok_def)
qed

section \<open>Allocation\<close>

text \<open>The state after taking block \<open>i\<close>.\<close>

definition take_block :: "oc_memb \<Rightarrow> nat \<Rightarrow> oc_memb" where
  "take_block m i = m\<lparr>count := (count m)[i := 1],
     mem := splice (i * unat (size m)) (replicate (unat (size m)) 0) (mem m)\<rparr>"

lemma block_bound: "i < n \<Longrightarrow> i * k + k \<le> n * (k :: nat)"
  by (metis add.commute mult_Suc mult_le_mono1 Suc_leI)

lemma memb_ok_take_block: "memb_ok m \<Longrightarrow> i < unat (num m) \<Longrightarrow> memb_ok (take_block m i)"
  using block_bound [of i "unat (num m)" "unat (size m)"]
  by (auto simp: memb_ok_def take_block_def dest!: set_update_subset_insert [THEN subsetD])

lemma oc_memb_alloc_eq:
  assumes ok: "memb_ok m"
  defines "i \<equiv> first_free (count m)"
  shows "oc_memb_alloc (Some m) =
     (if live m = block_ptr m ` {..<unat (num m)} then (Some m, None)
      else (Some (take_block m i), Some (block_ptr m i)))"
    and "live m \<noteq> block_ptr m ` {..<unat (num m)} \<Longrightarrow> i < unat (num m) \<and> count m ! i = 0"
proof -
  have len: "length (count m) = unat (num m)" using ok by (simp add: memb_ok_def)
  have full: "live m = block_ptr m ` {..<unat (num m)} \<longleftrightarrow> i = unat (num m)"
  proof -
    have "i = unat (num m) \<longleftrightarrow> (\<forall>j < unat (num m). count m ! j \<noteq> 0)"
      using first_free_full [of "count m"] len by (auto simp: i_def all_set_conv_all_nth)
    also have "\<dots> \<longleftrightarrow> live m = block_ptr m ` {..<unat (num m)}"
      using live_iff [OF ok] by (auto simp: live_def)
    finally show ?thesis ..
  qed
  show *: "i < unat (num m) \<and> count m ! i = 0" if "live m \<noteq> block_ptr m ` {..<unat (num m)}"
    using that full first_free_le [of "count m"] first_free_nth [of "count m"] len by (auto simp: i_def)
  have num0: "num m > 0" if "i < unat (num m)" using that by (auto simp: word_gt_0)
  show "oc_memb_alloc (Some m) =
     (if live m = block_ptr m ` {..<unat (num m)} then (Some m, None)
      else (Some (take_block m i), Some (block_ptr m i)))"
    using full * num0 len
    by (auto simp: oc_memb_alloc_def i_def [symmetric] take_block_def block_ptr_def Let_def)
qed

lemma live_take_block:
  "memb_ok m \<Longrightarrow> i < unat (num m) \<Longrightarrow> live (take_block m i) = insert (block_ptr m i) (live m)"
  by (auto simp: live_def take_block_def block_ptr_def memb_ok_def nth_list_update)

lemma block_of_take_block:
  assumes "memb_ok m" and "i < unat (num m)" and "j < unat (num m)"
  shows "block_of (take_block m i) j = (if j = i then replicate (unat (size m)) 0 else block_of m j)"
proof -
  let ?s = "unat (size m)"
  have len: "length (mem m) = unat (num m) * ?s" using assms(1) by (simp add: memb_ok_def)
  have bi: "i * ?s + ?s \<le> length (mem m)" and bj: "j * ?s + ?s \<le> length (mem m)"
    using block_bound assms(2,3) len by simp_all
  consider "j = i" | "j < i" | "i < j" by linarith
  then show ?thesis
  proof cases
    case 1
    then show ?thesis
      using slice_splice_self [of "i * ?s" "replicate ?s 0" "mem m"] bi
      by (simp add: block_of_def take_block_def)
  next
    case 2
    then have "j * ?s + ?s \<le> i * ?s" by (rule block_bound)
    with 2 bi show ?thesis
      by (simp add: block_of_def take_block_def splice_def drop_take min_absorb1)
  next
    case 3
    then have "i * ?s + ?s \<le> j * ?s" by (rule block_bound)
    with 3 bi show ?thesis
      by (simp add: block_of_def take_block_def drop_splice)
  qed
qed

section \<open>Release\<close>

lemma oc_memb_free_live:
  assumes ok: "memb_ok m" and "ptr \<in> live m"
  obtains m' cb where "oc_memb_free (Some m) (Some ptr) = (Some m', 0, cb)" and "memb_ok m'"
    and "live m' = live m - {ptr}" and "mem m' = mem m" and "size m' = size m" and "num m' = num m"
    and "cb = (if buffers_avail_cb m then Some (oc_memb_numfree m + 1) else None)"
proof -
  obtain i where i: "i < unat (num m)" "count m ! i \<noteq> 0" "ptr = block_ptr m i"
    using assms(2) by (auto simp: live_def)
  have len: "length (count m) = unat (num m)" using ok by (simp add: memb_ok_def)
  have c1: "count m ! i = 1" using ok i len by (auto simp: memb_ok_def)
  let ?m = "m\<lparr>count := (count m)[i := 0]\<rparr>"
  have f: "find_block (Some ptr) (unat (size m)) 0 0 (unat (num m)) = Some i"
    using find_block_ptr [OF ok] i by simp
  have ok': "memb_ok ?m"
    using ok by (auto simp: memb_ok_def dest!: set_update_subset_insert [THEN subsetD])
  have live': "live ?m = live m - {ptr}"
    using i len block_ptr_inj [OF ok] by (auto simp: live_def block_ptr_def nth_list_update)
  have "card (live m) = Suc (card (live ?m))"
    unfolding live' using assms(2) by (intro card_Suc_Diff1 [symmetric]) (auto simp: live_def)
  then have nf: "oc_memb_numfree ?m = oc_memb_numfree m + 1"
    using card_live [OF ok] card_live [OF ok'] by simp
  have "num m > 0" using i(1) by (auto simp: word_gt_0)
  with f c1 have "oc_memb_free (Some m) (Some ptr) =
      (Some ?m, 0, if buffers_avail_cb m then Some (oc_memb_numfree m + 1) else None)"
    using nf by (simp add: oc_memb_free_def Let_def)
  with that ok' live' show ?thesis by fastforce
qed

text \<open>A pointer that is not a live block changes nothing: the return value is 0 all the same.\<close>

lemma oc_memb_free_other:
  assumes ok: "memb_ok m" and "\<forall>p. ptr = Some p \<longrightarrow> p \<notin> live m"
  shows "\<exists>cb. oc_memb_free (Some m) ptr = (Some m, 0, cb)"
proof (cases "find_block ptr (unat (size m)) 0 0 (unat (num m))")
  case None
  then show ?thesis by (simp add: oc_memb_free_def Let_def)
next
  case (Some i)
  then have i: "i < unat (num m)" "ptr = Some (block_ptr m i)" using find_block_ptr [OF ok] by auto
  then have "count m ! i = 0" using assms(2) live_iff [OF ok] by auto
  with Some show ?thesis by (simp add: oc_memb_free_def Let_def)
qed

section \<open>The interface\<close>

text \<open>Allocating up to \<open>n\<close> blocks one after the other, stopping at the first failure.\<close>

fun allocs :: "('s \<Rightarrow> 's \<times> 'p option) \<Rightarrow> 's \<Rightarrow> nat \<Rightarrow> 's \<times> 'p list" where
  "allocs alloc s 0 = (s, [])"
| "allocs alloc s (Suc n) = (case alloc s of (s', None) \<Rightarrow> (s', [])
     | (s', Some p) \<Rightarrow> let (s'', ps) = allocs alloc s' n in (s'', p # ps))"

locale block_pool =
  fixes ok :: "'s \<Rightarrow> bool" and alive :: "'s \<Rightarrow> 'p set" and room :: "'s \<Rightarrow> nat"
    and alloc :: "'s \<Rightarrow> 's \<times> 'p option" and free :: "'s \<Rightarrow> 'p \<Rightarrow> 's"
  assumes alloc_full: "ok s \<Longrightarrow> room s = 0 \<Longrightarrow> alloc s = (s, None)"
    and alloc_room: "ok s \<Longrightarrow> room s > 0 \<Longrightarrow> \<exists>s' p. alloc s = (s', Some p) \<and> p \<notin> alive s \<and> ok s' \<and>
      alive s' = insert p (alive s) \<and> room s' = room s - 1"
    and free_alive: "ok s \<Longrightarrow> p \<in> alive s \<Longrightarrow>
      ok (free s p) \<and> alive (free s p) = alive s - {p} \<and> room (free s p) = room s + 1"
begin

lemma allocs_room:
  "ok s \<Longrightarrow> n \<le> room s \<Longrightarrow> \<exists>s' ps. allocs alloc s n = (s', ps) \<and> length ps = n \<and> distinct ps \<and>
     set ps \<inter> alive s = {} \<and> alive s' = alive s \<union> set ps \<and> room s' = room s - n \<and> ok s'"
proof (induction n arbitrary: s)
  case (Suc n)
  then obtain s1 p where s1: "alloc s = (s1, Some p)" "p \<notin> alive s" "ok s1"
    "alive s1 = insert p (alive s)" "room s1 = room s - 1"
    using alloc_room [of s] by auto
  have "n \<le> room s1" using s1 Suc.prems by simp
  with s1 obtain s2 ps where "allocs alloc s1 n = (s2, ps)" "length ps = n" "distinct ps"
    "set ps \<inter> alive s1 = {}" "alive s2 = alive s1 \<union> set ps" "room s2 = room s1 - n" "ok s2"
    using Suc.IH [of s1] by blast
  with s1 show ?case by auto
qed simp

lemma allocs_exhaust:
  assumes "ok s"
  shows "\<exists>s' ps. allocs alloc s (room s) = (s', ps) \<and> length ps = room s \<and> distinct ps \<and>
     alive s' = alive s \<union> set ps \<and> alloc s' = (s', None)"
  using allocs_room [OF assms order_refl] alloc_full by fastforce

lemma free_alloc:
  assumes "ok s" and "p \<in> alive s"
  shows "\<exists>s' q. alloc (free s p) = (s', Some q) \<and> q \<notin> alive s - {p} \<and> alive s' = insert q (alive s - {p})"
  using alloc_room [of "free s p"] free_alive [OF assms] by auto

end

definition memb_alloc_step :: "oc_memb \<Rightarrow> oc_memb \<times> int option" where
  "memb_alloc_step m = (case oc_memb_alloc (Some m) of (pm, p) \<Rightarrow> (the pm, p))"

definition memb_free_step :: "oc_memb \<Rightarrow> int \<Rightarrow> oc_memb" where
  "memb_free_step m p = the (fst (oc_memb_free (Some m) (Some p)))"

lemma live_full_iff:
  assumes "memb_ok m"
  shows "live m = block_ptr m ` {..<unat (num m)} \<longleftrightarrow> oc_memb_numfree m = 0"
proof -
  have sub: "live m \<subseteq> block_ptr m ` {..<unat (num m)}" by (auto simp: live_def)
  have "inj_on (block_ptr m) {..<unat (num m)}" using block_ptr_inj [OF assms] by (simp add: inj_on_def)
  then have card: "card (block_ptr m ` {..<unat (num m)}) = unat (num m)" by (simp add: card_image)
  have "live m = block_ptr m ` {..<unat (num m)} \<longleftrightarrow> card (live m) = unat (num m)"
  proof
    assume "live m = block_ptr m ` {..<unat (num m)}"
    then show "card (live m) = unat (num m)" by (simp only: card)
  next
    assume "card (live m) = unat (num m)"
    then show "live m = block_ptr m ` {..<unat (num m)}"
      by (intro card_subset_eq [OF _ sub]) (simp_all only: card finite_imageI finite_lessThan)
  qed
  with card_live [OF assms] show ?thesis by linarith
qed

interpretation mp: block_pool memb_ok live oc_memb_numfree memb_alloc_step memb_free_step
proof unfold_locales
  fix m
  assume ok: "memb_ok m"
  note eq = oc_memb_alloc_eq [OF ok] live_full_iff [OF ok]
  show "memb_alloc_step m = (m, None)" if "oc_memb_numfree m = 0"
    using that eq by (simp add: memb_alloc_step_def)
  show "\<exists>m' p. memb_alloc_step m = (m', Some p) \<and> p \<notin> live m \<and> memb_ok m' \<and>
      live m' = insert p (live m) \<and> oc_memb_numfree m' = oc_memb_numfree m - 1"
    if "0 < oc_memb_numfree m"
  proof -
    let ?i = "first_free (count m)"
    have i: "?i < unat (num m)" "count m ! ?i = 0" using eq(2) that eq(3) by auto
    have new: "block_ptr m ?i \<notin> live m" using live_iff [OF ok i(1)] i(2) by simp
    have ok': "memb_ok (take_block m ?i)" by (rule memb_ok_take_block [OF ok i(1)])
    have "finite (live m)" by (simp add: live_def)
    then have "card (live (take_block m ?i)) = Suc (card (live m))"
      using new by (simp add: live_take_block [OF ok i(1)])
    then have "oc_memb_numfree (take_block m ?i) = oc_memb_numfree m - 1"
      using card_live [OF ok] card_live [OF ok'] by (simp add: take_block_def)
    then show ?thesis
      using eq(1,3) that new ok' live_take_block [OF ok i(1)] by (simp add: memb_alloc_step_def)
  qed
  show "memb_ok (memb_free_step m p) \<and> live (memb_free_step m p) = live m - {p} \<and>
      oc_memb_numfree (memb_free_step m p) = oc_memb_numfree m + 1" if p: "p \<in> live m" for p
  proof -
    obtain m' cb where m': "oc_memb_free (Some m) (Some p) = (Some m', 0, cb)" "memb_ok m'"
      "live m' = live m - {p}" "num m' = num m"
      using oc_memb_free_live [OF ok p] by metis
    have "card (live m) = Suc (card (live m'))"
      unfolding m'(3) using p by (intro card_Suc_Diff1 [symmetric]) (auto simp: live_def)
    then show ?thesis
      using m' card_live [OF ok] card_live [OF m'(2)] by (simp add: memb_free_step_def)
  qed
qed

section \<open>Properties\<close>

definition example_pool :: oc_memb where
  "example_pool = oc_memb_init
     \<lparr>size = 4, num = 3, count = [7, 7, 7], mem = replicate 12 0xFF, buffers_avail_cb = True\<rparr>"

lemma example_pool_ok: "memb_ok example_pool"
  by (simp add: example_pool_def memb_ok_def oc_memb_init_def splice_def word_less_nat_alt)

text \<open>Allocation is first fit and exact: while a block is free it returns the lowest free
  block, zeroed, and leaves the contents of all other blocks as they are; when none is free
  it returns a null pointer and changes nothing.\<close>

theorem oc_memb_alloc_correct:
  assumes "memb_ok m"
  shows "(if oc_memb_numfree m = 0 then oc_memb_alloc (Some m) = (Some m, None)
     else \<exists>m' i. oc_memb_alloc (Some m) = (Some m', Some (block_ptr m i)) \<and> i < unat (num m) \<and>
       block_ptr m i \<notin> live m \<and> (\<forall>j < i. block_ptr m j \<in> live m) \<and> memb_ok m' \<and>
       live m' = insert (block_ptr m i) (live m) \<and> block_of m' i = replicate (unat (size m)) 0 \<and>
       (\<forall>j < unat (num m). j \<noteq> i \<longrightarrow> block_of m' j = block_of m j))"
proof (cases "oc_memb_numfree m = 0")
  case True
  with oc_memb_alloc_eq(1) [OF assms] live_full_iff [OF assms] show ?thesis by simp
next
  case False
  let ?i = "first_free (count m)"
  have i: "?i < unat (num m)" "count m ! ?i = 0"
    using oc_memb_alloc_eq(2) [OF assms] live_full_iff [OF assms] False by auto
  have "\<forall>j < ?i. block_ptr m j \<in> live m"
    using live_iff [OF assms] first_free_least [of _ "count m"] i(1) by auto
  with False i oc_memb_alloc_eq(1) [OF assms] live_full_iff [OF assms] live_iff [OF assms i(1)]
  show ?thesis
    by (auto intro!: exI [of _ "take_block m ?i"] exI [of _ ?i]
        simp: memb_ok_take_block [OF assms] live_take_block [OF assms] block_of_take_block [OF assms])
qed

theorem oc_memb_alloc_correct_witness:
  "\<exists>m' i. oc_memb_alloc (Some example_pool) = (Some m', Some (block_ptr example_pool i)) \<and>
     i < 3 \<and> memb_ok m'"
proof -
  have "oc_memb_numfree example_pool = 3"
    by (simp add: example_pool_def oc_memb_init_def oc_memb_numfree_def splice_def word_less_nat_alt)
  with oc_memb_alloc_correct [OF example_pool_ok] show ?thesis
    by (auto simp: example_pool_def oc_memb_init_def word_less_nat_alt)
qed

text \<open>The capacity is exactly what is free: that many allocations in a row succeed with
  different blocks, none of them in use before, and the next one fails.\<close>

theorem oc_memb_capacity:
  assumes "memb_ok m"
  shows "\<exists>m' ps. allocs memb_alloc_step m (oc_memb_numfree m) = (m', ps) \<and>
     length ps = oc_memb_numfree m \<and> distinct ps \<and> live m' = live m \<union> set ps \<and>
     oc_memb_alloc (Some m') = (Some m', None)"
proof -
  obtain m' ps where r: "allocs memb_alloc_step m (oc_memb_numfree m) = (m', ps)"
    "length ps = oc_memb_numfree m" "distinct ps" "live m' = live m \<union> set ps"
    "oc_memb_numfree m' = 0" "memb_ok m'"
    using mp.allocs_room [OF assms order_refl] by auto
  then have "oc_memb_alloc (Some m') = (Some m', None)"
    using oc_memb_alloc_eq(1) [of m'] live_full_iff [of m'] by simp
  with r show ?thesis by blast
qed

theorem oc_memb_capacity_witness:
  "\<exists>m' ps. allocs memb_alloc_step example_pool (oc_memb_numfree example_pool) = (m', ps) \<and>
     length ps = oc_memb_numfree example_pool \<and> distinct ps \<and>
     live m' = live example_pool \<union> set ps \<and> oc_memb_alloc (Some m') = (Some m', None)"
  by (rule oc_memb_capacity [OF example_pool_ok])

text \<open>Releasing a live block makes exactly that block free again, keeps the memory, and
  tells the callback the new number of free blocks; a foreign pointer or a block that is
  already free changes nothing, and the return value is 0 in both cases.\<close>

theorem oc_memb_free_correct:
  assumes "memb_ok m"
  shows "if ptr \<in> live m
     then \<exists>m'. oc_memb_free (Some m) (Some ptr) =
         (Some m', 0, if buffers_avail_cb m then Some (oc_memb_numfree m + 1) else None) \<and>
       memb_ok m' \<and> live m' = live m - {ptr} \<and> mem m' = mem m
     else \<exists>cb. oc_memb_free (Some m) (Some ptr) = (Some m, 0, cb)"
proof (cases "ptr \<in> live m")
  case True
  then show ?thesis by (metis oc_memb_free_live [OF assms True])
next
  case False
  then show ?thesis using oc_memb_free_other [OF assms, of "Some ptr"] by simp
qed

theorem oc_memb_free_correct_witness:
  "if (4 :: int) \<in> live example_pool
     then \<exists>m'. oc_memb_free (Some example_pool) (Some 4) =
         (Some m', 0, if buffers_avail_cb example_pool then Some (oc_memb_numfree example_pool + 1) else None) \<and>
       memb_ok m' \<and> live m' = live example_pool - {4} \<and> mem m' = mem example_pool
     else \<exists>cb. oc_memb_free (Some example_pool) (Some 4) = (Some example_pool, 0, cb)"
  by (rule oc_memb_free_correct [OF example_pool_ok])

end
