(* ===== verification/OC_List.thy ===== *)
theory OC_List
  imports OC_Prelude
begin

text \<open>
  The linked lists of \<open>src/util/oc_list.c\<close>. A list is a variable that holds the address of
  the first element; every element starts with a \<open>next\<close> pointer, which the list operations
  read and write in place. The state is the list variable and the \<open>next\<close> field of every
  address; address 0 is the null pointer. \<open>None\<close> stands for a run that dereferences a null
  pointer or does not return (a cyclic list). The interface \<open>linked_list\<close> is what the rest
  of the code relies on, stated over the sequence of elements.
\<close>

type_synonym addr = nat

abbreviation (input) "NULL_PTR \<equiv> 0 :: addr"

record olist =
  head :: addr
  nxt :: "addr \<Rightarrow> addr"

section \<open>Operations\<close>

definition oc_list_init :: "olist \<Rightarrow> olist" where
  "oc_list_init l = l\<lparr>head := NULL_PTR\<rparr>"

definition oc_list_head :: "olist \<Rightarrow> addr" where
  "oc_list_head l = head l"

text \<open>\<open>oc_list_copy\<close>: the destination variable gets the source's first element.\<close>

definition oc_list_copy :: "olist \<Rightarrow> addr \<Rightarrow> olist" where
  "oc_list_copy dest src = dest\<lparr>head := src\<rparr>"

partial_function (option) tail_loop :: "(addr \<Rightarrow> addr) \<Rightarrow> addr \<Rightarrow> addr option" where
  "tail_loop next l = (if next l \<noteq> NULL_PTR then tail_loop next (next l) else Some l)"

definition oc_list_tail :: "olist \<Rightarrow> addr option" where
  "oc_list_tail l = (if head l = NULL_PTR then Some NULL_PTR else tail_loop (nxt l) (head l))"

definition oc_list_add :: "olist \<Rightarrow> addr \<Rightarrow> olist option" where
  "oc_list_add l item =
     (if item = NULL_PTR then None
      else do {
        let l = l\<lparr>nxt := (nxt l)(item := NULL_PTR)\<rparr>;
        t \<leftarrow> oc_list_tail l;
        Some (if t = NULL_PTR then l\<lparr>head := item\<rparr> else l\<lparr>nxt := (nxt l)(t := item)\<rparr>)
      })"

text \<open>
  The \<open>struct list **l\<close> of \<open>oc_list_remove\<close> points at the list variable or at the \<open>next\<close>
  field of an element.
\<close>

datatype lref = Head | Next addr

fun load :: "olist \<Rightarrow> lref \<Rightarrow> addr" where
  "load l Head = head l"
| "load l (Next a) = nxt l a"

fun store :: "olist \<Rightarrow> lref \<Rightarrow> addr \<Rightarrow> olist" where
  "store l Head v = l\<lparr>head := v\<rparr>"
| "store l (Next a) v = l\<lparr>nxt := (nxt l)(a := v)\<rparr>"

partial_function (option) remove_loop :: "olist \<Rightarrow> addr \<Rightarrow> lref \<Rightarrow> olist option" where
  "remove_loop l item r =
     (if load l r \<noteq> NULL_PTR then
        if load l r = item then Some (store l r (nxt l (load l r)))
        else remove_loop l item (Next (load l r))
      else Some l)"

definition oc_list_remove :: "olist \<Rightarrow> addr \<Rightarrow> olist option" where
  "oc_list_remove l item = remove_loop l item Head"

definition oc_list_push :: "olist \<Rightarrow> addr \<Rightarrow> olist option" where
  "oc_list_push l item = do {
     l \<leftarrow> oc_list_remove l item;
     if item = NULL_PTR then None
     else do {
       let l = l\<lparr>nxt := (nxt l)(item := head l)\<rparr>;
       Some (l\<lparr>head := item\<rparr>)
     }
   }"

partial_function (option) chop_loop :: "(addr \<Rightarrow> addr) \<Rightarrow> addr \<Rightarrow> addr option" where
  "chop_loop next l = (if next (next l) \<noteq> NULL_PTR then chop_loop next (next l) else Some l)"

definition oc_list_chop :: "olist \<Rightarrow> (olist \<times> addr) option" where
  "oc_list_chop l =
     (if head l = NULL_PTR then Some (l, NULL_PTR)
      else if nxt l (head l) = NULL_PTR then Some (l\<lparr>head := NULL_PTR\<rparr>, head l)
      else do {
        p \<leftarrow> chop_loop (nxt l) (head l);
        Some (l\<lparr>nxt := (nxt l)(p := NULL_PTR)\<rparr>, nxt l p)
      })"

definition oc_list_pop :: "olist \<Rightarrow> olist \<times> addr" where
  "oc_list_pop l = (if head l \<noteq> NULL_PTR then l\<lparr>head := nxt l (head l)\<rparr> else l, head l)"

partial_function (option) length_loop :: "(addr \<Rightarrow> addr) \<Rightarrow> addr \<Rightarrow> nat \<Rightarrow> nat option" where
  "length_loop next l n = (if l \<noteq> NULL_PTR then length_loop next (next l) (n + 1) else Some n)"

definition oc_list_length :: "olist \<Rightarrow> nat option" where
  "oc_list_length l = length_loop (nxt l) (head l) 0"

definition oc_list_insert :: "olist \<Rightarrow> addr \<Rightarrow> addr \<Rightarrow> olist option" where
  "oc_list_insert l previtem newitem =
     (if previtem = NULL_PTR then oc_list_push l newitem
      else if newitem = NULL_PTR then None
      else do {
        let l = l\<lparr>nxt := (nxt l)(newitem := nxt l previtem)\<rparr>;
        Some (l\<lparr>nxt := (nxt l)(previtem := newitem)\<rparr>)
      })"

definition oc_list_item_next :: "olist \<Rightarrow> addr \<Rightarrow> addr" where
  "oc_list_item_next l item = (if item = NULL_PTR then NULL_PTR else nxt l item)"

declare tail_loop.simps [code] remove_loop.simps [code] chop_loop.simps [code] length_loop.simps [code]

section \<open>The sequence a list holds\<close>

fun path :: "(addr \<Rightarrow> addr) \<Rightarrow> addr \<Rightarrow> addr list \<Rightarrow> bool" where
  "path next a [] \<longleftrightarrow> a = NULL_PTR"
| "path next a (x # xs) \<longleftrightarrow> a = x \<and> x \<noteq> NULL_PTR \<and> path next (next x) xs"

definition holds :: "olist \<Rightarrow> addr list \<Rightarrow> bool" where
  "holds l xs \<longleftrightarrow> path (nxt l) (head l) xs"

lemma path_unique: "path next a xs \<Longrightarrow> path next a ys \<Longrightarrow> xs = ys"
proof (induction xs arbitrary: a ys)
  case Nil
  then show ?case by (cases ys) auto
next
  case (Cons x xs)
  then show ?case by (cases ys) auto
qed

lemma path_suffix: "path next a (xs @ y # ys) \<Longrightarrow> path next y (y # ys)"
  by (induction xs arbitrary: a) auto

lemma path_distinct: "path next a xs \<Longrightarrow> distinct xs"
proof (induction xs arbitrary: a)
  case (Cons x xs)
  have "x \<notin> set xs"
  proof
    assume "x \<in> set xs"
    then obtain ys zs where "xs = ys @ x # zs" by (auto simp: in_set_conv_decomp)
    with Cons.prems have "path next x (x # ys @ x # zs)" "path next x (x # zs)"
      using path_suffix [of "next" a "x # ys" x zs] by auto
    then have "x # ys @ x # zs = x # zs" by (rule path_unique)
    then show False by (auto dest!: arg_cong [where f = length])
  qed
  with Cons show ?case by auto
qed simp

lemma path_nonnull: "path next a xs \<Longrightarrow> NULL_PTR \<notin> set xs"
  by (induction xs arbitrary: a) auto

lemma path_frame: "path next a xs \<Longrightarrow> (\<And>x. x \<in> set xs \<Longrightarrow> next' x = next x) \<Longrightarrow> path next' a xs"
  by (induction xs arbitrary: a) auto

lemma path_upd [simp]: "y \<notin> set xs \<Longrightarrow> path (next(y := v)) a xs = path next a xs"
  by (induction xs arbitrary: a) auto


section \<open>Functional behaviour\<close>

lemma tail_loop_path: "path next a xs \<Longrightarrow> xs \<noteq> [] \<Longrightarrow> tail_loop next a = Some (last xs)"
proof (induction xs arbitrary: a)
  case (Cons x xs)
  then show ?case by (cases xs) (subst tail_loop.simps, auto)+
qed simp

lemma oc_list_tail_holds:
  "holds l xs \<Longrightarrow> oc_list_tail l = Some (if xs = [] then NULL_PTR else last xs)"
  using tail_loop_path [of "nxt l" "head l" xs]
  by (cases xs) (auto simp: holds_def oc_list_tail_def)

lemma path_snoc:
  "path next a xs \<Longrightarrow> xs \<noteq> [] \<Longrightarrow> x \<notin> set xs \<Longrightarrow> x \<noteq> NULL_PTR \<Longrightarrow> next x = NULL_PTR \<Longrightarrow>
   path (next(last xs := x)) a (xs @ [x])"
proof (induction xs arbitrary: a)
  case (Cons y xs)
  show ?case
  proof (cases "xs = []")
    case True
    with Cons.prems show ?thesis by auto
  next
    case False
    have "path (next(last xs := x)) (next y) (xs @ [x])"
      using Cons.prems False by (intro Cons.IH) auto
    moreover have "y \<noteq> last xs" using path_distinct [OF Cons.prems(1)] False by auto
    ultimately show ?thesis using Cons.prems False by (auto simp: fun_upd_def)
  qed
qed simp

lemma oc_list_add_holds:
  assumes "holds l xs" and "item \<notin> set xs" and "item \<noteq> NULL_PTR"
  obtains l' where "oc_list_add l item = Some l'" and "holds l' (xs @ [item])"
    and "\<And>a. a \<notin> set (item # xs) \<Longrightarrow> nxt l' a = nxt l a"
proof -
  let ?l = "l\<lparr>nxt := (nxt l)(item := NULL_PTR)\<rparr>"
  have h: "holds ?l xs" using assms by (simp add: holds_def)
  show ?thesis
  proof (cases "xs = []")
    case True
    with h assms have "oc_list_add l item = Some (?l\<lparr>head := item\<rparr>)"
      by (simp add: oc_list_add_def oc_list_tail_holds Let_def)
    with that True assms show ?thesis by (auto simp: holds_def)
  next
    case False
    let ?l' = "?l\<lparr>nxt := (nxt ?l)(last xs := item)\<rparr>"
    have "last xs \<noteq> NULL_PTR" using path_nonnull h False unfolding holds_def by (metis last_in_set)
    with h False assms have "oc_list_add l item = Some ?l'"
      by (simp add: oc_list_add_def oc_list_tail_holds Let_def)
    moreover have "holds ?l' (xs @ [item])"
      using path_snoc [of "nxt ?l" "head l" xs item] h False assms by (simp add: holds_def)
    moreover have "nxt ?l' a = nxt l a" if "a \<notin> set (item # xs)" for a
      using that False last_in_set [of xs] by auto
    ultimately show ?thesis by (rule that)
  qed
qed

lemma remove_loop_path:
  assumes "path (nxt l) (load l r) xs" and "\<forall>a. r = Next a \<longrightarrow> a \<notin> set xs"
  shows "\<exists>l'. remove_loop l item r = Some l' \<and> path (nxt l') (load l' r) (remove1 item xs) \<and>
     (r \<noteq> Head \<longrightarrow> head l' = head l) \<and>
     (\<forall>a. a \<notin> set xs \<and> r \<noteq> Next a \<longrightarrow> nxt l' a = nxt l a)"
  using assms
proof (induction xs arbitrary: r)
  case Nil
  then show ?case by (subst remove_loop.simps) auto
next
  case (Cons x xs)
  have x: "load l r = x" "x \<noteq> NULL_PTR" and p: "path (nxt l) (nxt l x) xs" using Cons.prems by auto
  have dist: "x \<notin> set xs" using path_distinct [OF Cons.prems(1)] by simp
  show ?case
  proof (cases "x = item")
    case True
    then have "remove_loop l item r = Some (store l r (nxt l x))"
      using x by (subst remove_loop.simps) simp
    moreover have "path (nxt (store l r (nxt l x))) (load (store l r (nxt l x)) r) xs"
      using p Cons.prems(2) by (cases r) auto
    ultimately show ?thesis using True by (cases r) auto
  next
    case False
    have step: "remove_loop l item r = remove_loop l item (Next x)"
      using x False by (subst remove_loop.simps) simp
    obtain l' where l': "remove_loop l item (Next x) = Some l'" "path (nxt l') (nxt l' x) (remove1 item xs)"
      "head l' = head l" "\<And>a. a \<notin> set xs \<Longrightarrow> a \<noteq> x \<Longrightarrow> nxt l' a = nxt l a"
      using Cons.IH [of "Next x"] p dist by auto
    have "load l' r = x" using x(1) l'(3,4) Cons.prems(2) by (cases r) auto
    with step l' x False show ?thesis by auto
  qed
qed

lemma oc_list_remove_holds:
  assumes "holds l xs"
  obtains l' where "oc_list_remove l item = Some l'" and "holds l' (remove1 item xs)"
    and "\<And>a. a \<notin> set xs \<Longrightarrow> nxt l' a = nxt l a"
  using remove_loop_path [of l Head xs item] assms by (auto simp: oc_list_remove_def holds_def)

lemma oc_list_push_holds:
  assumes "holds l xs" and "item \<noteq> NULL_PTR"
  obtains l' where "oc_list_push l item = Some l'" and "holds l' (item # remove1 item xs)"
proof -
  obtain l1 where l1: "oc_list_remove l item = Some l1" "holds l1 (remove1 item xs)"
    using oc_list_remove_holds [OF assms(1)] by blast
  have "item \<notin> set (remove1 item xs)"
    using path_distinct assms(1) by (auto simp: holds_def)
  with l1 that assms(2) show ?thesis by (auto simp: oc_list_push_def holds_def Let_def)
qed

lemma oc_list_pop_holds:
  "holds l xs \<Longrightarrow> \<exists>l'. oc_list_pop l = (l', if xs = [] then NULL_PTR else hd xs) \<and> holds l' (tl xs)"
  by (cases xs) (auto simp: oc_list_pop_def holds_def)

lemma chop_loop_path:
  "path next a (xs @ [y, z]) \<Longrightarrow> chop_loop next a = Some y"
proof (induction xs arbitrary: a)
  case Nil
  then show ?case by (subst chop_loop.simps) auto
next
  case (Cons x xs)
  then have "chop_loop next (next x) = Some y" by simp
  moreover have "next (next x) \<noteq> NULL_PTR"
    using Cons.prems by (cases xs rule: list.exhaust; cases "tl xs") auto
  ultimately show ?case using Cons.prems by (subst chop_loop.simps) auto
qed

lemma path_butlast: "path next a (xs @ [y, z]) \<Longrightarrow> path (next(y := NULL_PTR)) a (xs @ [y]) \<and> next y = z"
proof (induction xs arbitrary: a)
  case (Cons x xs)
  moreover have "x \<noteq> y" using path_distinct [OF Cons.prems] by auto
  ultimately show ?case by auto
qed auto

lemma oc_list_chop_holds:
  assumes "holds l xs"
  shows "\<exists>l'. oc_list_chop l = Some (l', if xs = [] then NULL_PTR else last xs) \<and> holds l' (butlast xs)"
proof -
  consider "xs = []" | x where "xs = [x]" | ys y z where "xs = ys @ [y, z]"
    by (metis append_butlast_last_id append.assoc append_Cons append_Nil)
  then show ?thesis
  proof cases
    case 3
    have p: "path (nxt l) (head l) (ys @ [y, z])" using assms 3 by (simp add: holds_def)
    have "head l \<noteq> NULL_PTR" "nxt l (head l) \<noteq> NULL_PTR" using p by (cases ys rule: list.exhaust; cases "tl ys"; auto)+
    then show ?thesis using 3 chop_loop_path [OF p] path_butlast [OF p]
      by (simp add: oc_list_chop_def holds_def butlast_append)
  qed (use assms in \<open>auto simp: oc_list_chop_def holds_def\<close>)
qed

lemma length_loop_path: "path next a xs \<Longrightarrow> length_loop next a n = Some (n + length xs)"
  by (induction xs arbitrary: a n) (subst length_loop.simps, auto)+

lemma oc_list_length_holds: "holds l xs \<Longrightarrow> oc_list_length l = Some (length xs)"
  by (simp add: oc_list_length_def holds_def length_loop_path)

lemma path_insert_after:
  "path next a (xs @ y # zs) \<Longrightarrow> x \<notin> set (xs @ y # zs) \<Longrightarrow> x \<noteq> NULL_PTR \<Longrightarrow>
   path (next(x := next y, y := x)) a (xs @ y # x # zs)"
proof (induction xs arbitrary: a)
  case Nil
  have "distinct (y # zs)" using Nil path_distinct [of "next" a "y # zs"] by simp
  moreover have "path next (next y) zs" using Nil by simp
  ultimately have "path (next(x := next y, y := x)) (next y) zs" using Nil by simp
  with Nil show ?case by (simp add: fun_upd_def)
next
  case (Cons w xs)
  moreover have "w \<noteq> y" using path_distinct [OF Cons.prems(1)] by auto
  ultimately show ?case by (auto simp: fun_upd_def)
qed

lemma oc_list_insert_holds:
  assumes "holds l (xs @ y # zs)" and "x \<notin> set (xs @ y # zs)" and "x \<noteq> NULL_PTR"
  shows "\<exists>l'. oc_list_insert l y x = Some l' \<and> holds l' (xs @ y # x # zs)"
proof -
  have "y \<noteq> NULL_PTR" using path_nonnull assms(1) by (fastforce simp: holds_def)
  with assms path_insert_after [of "nxt l" "head l" xs y zs x] show ?thesis
    by (auto simp: oc_list_insert_def holds_def Let_def)
qed

section \<open>The interface\<close>

text \<open>
  What the modules that keep their objects on such a list rely on: the state stands for a
  sequence of distinct addresses, and the operations are those of sequences.
\<close>

locale linked_list =
  fixes repr :: "'s \<Rightarrow> addr list \<Rightarrow> bool"
    and add :: "'s \<Rightarrow> addr \<Rightarrow> 's option"
    and push :: "'s \<Rightarrow> addr \<Rightarrow> 's option"
    and remove :: "'s \<Rightarrow> addr \<Rightarrow> 's option"
    and pop :: "'s \<Rightarrow> 's \<times> addr"
    and len :: "'s \<Rightarrow> nat option"
  assumes repr_distinct: "repr s xs \<Longrightarrow> distinct xs \<and> NULL_PTR \<notin> set xs"
    and add_law: "repr s xs \<Longrightarrow> x \<notin> set xs \<Longrightarrow> x \<noteq> NULL_PTR \<Longrightarrow>
      \<exists>s'. add s x = Some s' \<and> repr s' (xs @ [x])"
    and push_law: "repr s xs \<Longrightarrow> x \<noteq> NULL_PTR \<Longrightarrow>
      \<exists>s'. push s x = Some s' \<and> repr s' (x # remove1 x xs)"
    and remove_law: "repr s xs \<Longrightarrow> \<exists>s'. remove s x = Some s' \<and> repr s' (remove1 x xs)"
    and pop_law: "repr s xs \<Longrightarrow>
      \<exists>s'. pop s = (s', if xs = [] then NULL_PTR else hd xs) \<and> repr s' (tl xs)"
    and len_law: "repr s xs \<Longrightarrow> len s = Some (length xs)"
begin

lemma add_remove:
  assumes "repr s xs" and "x \<notin> set xs" and "x \<noteq> NULL_PTR"
  shows "\<exists>s1 s2. add s x = Some s1 \<and> remove s1 x = Some s2 \<and> repr s2 xs"
  using add_law [OF assms] remove_law [of _ "xs @ [x]" x] assms(2)
  by (force simp: remove1_append)

lemma push_pop:
  assumes "repr s xs" and "x \<notin> set xs" and "x \<noteq> NULL_PTR"
  shows "\<exists>s1 s2. push s x = Some s1 \<and> pop s1 = (s2, x) \<and> repr s2 xs"
  using push_law [OF assms(1,3)] pop_law [of _ "x # xs"] assms(2) by (force simp: remove1_idem)

lemma add_pop_fifo:
  assumes "repr s (y # ys)" and "x \<notin> set (y # ys)" and "x \<noteq> NULL_PTR"
  shows "\<exists>s1 s2. add s x = Some s1 \<and> pop s1 = (s2, y) \<and> repr s2 (ys @ [x])"
  using add_law [OF assms] pop_law [of _ "y # ys @ [x]"] by force

lemma remove_len:
  assumes "repr s xs" and "x \<in> set xs"
  shows "\<exists>s'. remove s x = Some s' \<and> len s' = Some (length xs - 1)"
  using remove_law [OF assms(1), of x] len_law [of _ "remove1 x xs"] assms(2)
  by (auto simp: length_remove1)

end

interpretation ol: linked_list holds oc_list_add oc_list_push oc_list_remove oc_list_pop oc_list_length
proof unfold_locales
  show "\<And>s xs. holds s xs \<Longrightarrow> distinct xs \<and> NULL_PTR \<notin> set xs"
    using path_distinct path_nonnull by (auto simp: holds_def)
  show "\<And>s xs x. holds s xs \<Longrightarrow> x \<notin> set xs \<Longrightarrow> x \<noteq> NULL_PTR \<Longrightarrow>
      \<exists>s'. oc_list_add s x = Some s' \<and> holds s' (xs @ [x])"
    using oc_list_add_holds by metis
  show "\<And>s xs x. holds s xs \<Longrightarrow> x \<noteq> NULL_PTR \<Longrightarrow>
      \<exists>s'. oc_list_push s x = Some s' \<and> holds s' (x # remove1 x xs)"
    using oc_list_push_holds by metis
  show "\<And>s xs x. holds s xs \<Longrightarrow> \<exists>s'. oc_list_remove s x = Some s' \<and> holds s' (remove1 x xs)"
    using oc_list_remove_holds by metis
qed (simp_all add: oc_list_pop_holds oc_list_length_holds)

section \<open>Adding an element twice\<close>

lemma length_loop_cycle:
  assumes "next a = a" and "a \<noteq> NULL_PTR"
  shows "length_loop next a n = None"
proof -
  have "next' l = l \<longrightarrow> l = NULL_PTR" if "length_loop next' l n = Some r" for next' l n r
    using that
    by (rule length_loop.raw_induct [where P = "\<lambda>nx l n r. nx l = l \<longrightarrow> l = NULL_PTR", rotated])
      (metis option.inject)
  with assms show ?thesis by (metis not_None_eq)
qed

lemma length_loop_prefix:
  "path next a (xs @ [y]) \<Longrightarrow> length_loop (next(y := y)) a n = None"
proof (induction xs arbitrary: a n)
  case Nil
  then show ?case using length_loop_cycle [of "next(y := y)" y n] by (simp add: fun_upd_def)
next
  case (Cons x xs)
  moreover have "x \<noteq> y" using path_distinct [OF Cons.prems] by auto
  ultimately show ?case by (subst length_loop.simps) (auto simp: fun_upd_def)
qed

lemma path_truncate: "path next a (xs @ y # ys) \<Longrightarrow> path (next(y := NULL_PTR)) a (xs @ [y])"
proof (induction xs arbitrary: a)
  case (Cons x xs)
  moreover have "x \<noteq> y" using path_distinct [OF Cons.prems] by auto
  ultimately show ?case by auto
qed auto

section \<open>Properties\<close>



text \<open>Adding an element that is already on the list makes it its own successor: the
  elements behind it are lost and \<open>oc_list_length\<close> no longer returns.\<close>

theorem oc_list_add_twice_cycle:
  assumes "holds l xs" and "item \<in> set xs"
  shows "\<exists>l'. oc_list_add l item = Some l' \<and> nxt l' item = item \<and> oc_list_length l' = None"
proof -
  obtain ys zs where xs: "xs = ys @ item # zs" using assms(2) by (auto simp: in_set_conv_decomp)
  have p: "path (nxt l) (head l) (ys @ item # zs)" using assms(1) xs by (simp add: holds_def)
  have nn: "item \<noteq> NULL_PTR" using path_nonnull [OF p] by auto
  let ?l = "l\<lparr>nxt := (nxt l)(item := NULL_PTR)\<rparr>"
  have h: "holds ?l (ys @ [item])" using path_truncate [OF p] by (simp add: holds_def)
  have "oc_list_add l item = Some (?l\<lparr>nxt := (nxt ?l)(item := item)\<rparr>)"
    using oc_list_tail_holds [OF h] nn by (simp add: oc_list_add_def Let_def)
  moreover have "oc_list_length (?l\<lparr>nxt := (nxt ?l)(item := item)\<rparr>) = None"
    using length_loop_prefix [of "nxt ?l" "head l" ys item] h by (simp add: oc_list_length_def holds_def)
  ultimately show ?thesis by simp
qed

theorem oc_list_add_twice_cycle_witness:
  "\<exists>l'. oc_list_add \<lparr>head = 1, nxt = (\<lambda>a. if a = 1 then 2 else 0)\<rparr> 1 = Some l' \<and>
     nxt l' 1 = 1 \<and> oc_list_length l' = None"
  by (rule oc_list_add_twice_cycle [of _ "[1, 2]"]) (simp_all add: holds_def)

end
