(* ===== verification/OC_Mmem.thy ===== *)
theory OC_Mmem
  imports OC_List
begin

text \<open>
  The managed memory of \<open>src/util/oc_mmem.c\<close> as built without \<open>OC_DYNAMIC_ALLOCATION\<close>: three
  arrays (bytes, ints, doubles), each filled from the front; every handle (\<open>struct oc_mmem\<close>)
  records the address and size of its part and sits on the list of its pool in allocation
  order. Freeing moves the parts behind the freed one down and adjusts their handles. Arrays
  are modelled as bytes and the handles' \<open>ptr\<close> as byte offsets; sizes count elements. The
  number of elements per pool is a parameter of the configuration.
\<close>

datatype pool = BYTE_POOL | INT_POOL | DOUBLE_POOL

primrec width :: "pool \<Rightarrow> nat" where
  "width BYTE_POOL = 1"
| "width INT_POOL = 4"
| "width DOUBLE_POOL = 8"

record mmem =
  next_of :: "addr \<Rightarrow> addr"
  size_of :: "addr \<Rightarrow> nat"
  ptr_of :: "addr \<Rightarrow> nat"
  first :: "pool \<Rightarrow> addr"
  arena :: "pool \<Rightarrow> bytes"
  avail :: "pool \<Rightarrow> nat"
  pool_size :: "pool \<Rightarrow> nat"

definition pool_list :: "mmem \<Rightarrow> pool \<Rightarrow> olist" where
  "pool_list s p = \<lparr>head = first s p, nxt = next_of s\<rparr>"

definition set_pool_list :: "mmem \<Rightarrow> pool \<Rightarrow> olist \<Rightarrow> mmem" where
  "set_pool_list s p l = s\<lparr>next_of := nxt l, first := (first s)(p := head l)\<rparr>"

section \<open>Operations\<close>

definition oc_mmem_init :: "mmem \<Rightarrow> mmem" where
  "oc_mmem_init s = s\<lparr>first := (\<lambda>p. NULL_PTR), avail := pool_size s\<rparr>"

text \<open>The first byte behind the used part: \<open>&bytes[OC_BYTES_POOL_SIZE - avail_bytes]\<close>.\<close>

definition used_end :: "mmem \<Rightarrow> pool \<Rightarrow> nat" where
  "used_end s p = (pool_size s p - avail s p) * width p"

definition oc_mmem_alloc :: "mmem \<Rightarrow> addr \<Rightarrow> nat \<Rightarrow> pool \<Rightarrow> (mmem \<times> nat) option" where
  "oc_mmem_alloc s m sz p =
     (if m = NULL_PTR then Some (s, 0)
      else if avail s p < sz then Some (s, 0)
      else do {
        l \<leftarrow> oc_list_add (pool_list s p) m;
        let s = set_pool_list s p l;
        let s = s\<lparr>ptr_of := (ptr_of s)(m := used_end s p)\<rparr>;
        let s = s\<lparr>size_of := (size_of s)(m := sz)\<rparr>;
        let s = s\<lparr>avail := (avail s)(p := avail s p - sz)\<rparr>;
        Some (s, sz * width p)
      })"

partial_function (option) shift_loop ::
  "(addr \<Rightarrow> addr) \<Rightarrow> nat \<Rightarrow> addr \<Rightarrow> (addr \<Rightarrow> nat) \<Rightarrow> (addr \<Rightarrow> nat) option" where
  "shift_loop next k n ptr =
     (if n \<noteq> NULL_PTR then shift_loop next k (next n) (ptr(n := ptr n - k)) else Some ptr)"

declare shift_loop.simps [code]

text \<open>
  \<open>oc_mmem_free\<close>: the third argument of \<open>memmove\<close> is a pointer difference, so it counts
  elements of the pool, while \<open>memmove\<close> counts bytes; the handles move by \<open>m->size\<close> bytes.
\<close>

definition oc_mmem_free :: "mmem \<Rightarrow> addr \<Rightarrow> pool \<Rightarrow> mmem option" where
  "oc_mmem_free s m p =
     (if m = NULL_PTR then Some s
      else do {
        s \<leftarrow> (if next_of s m \<noteq> NULL_PTR then do {
                let src = ptr_of s (next_of s m);
                bs \<leftarrow> rd_slice (arena s p) src ((used_end s p - src) div width p);
                a \<leftarrow> wr_mem_bytes (arena s p) (ptr_of s m) bs;
                let s = s\<lparr>arena := (arena s)(p := a)\<rparr>;
                ptrs \<leftarrow> shift_loop (next_of s) (size_of s m) (next_of s m) (ptr_of s);
                Some (s\<lparr>ptr_of := ptrs\<rparr>)
              }
              else Some s);
        let s = s\<lparr>avail := (avail s)(p := avail s p + size_of s m)\<rparr>;
        l \<leftarrow> oc_list_remove (pool_list s p) m;
        Some (set_pool_list s p l)
      })"

section \<open>The invariant\<close>

text \<open>The parts lie one after the other, in list order, from offset \<open>off\<close>.\<close>

fun layout :: "mmem \<Rightarrow> pool \<Rightarrow> nat \<Rightarrow> addr list \<Rightarrow> bool" where
  "layout s p off [] = True"
| "layout s p off (x # xs) \<longleftrightarrow> ptr_of s x = off \<and> layout s p (off + size_of s x * width p) xs"

definition total_size :: "mmem \<Rightarrow> addr list \<Rightarrow> nat" where
  "total_size s xs = sum_list (map (size_of s) xs)"

definition pool_ok :: "mmem \<Rightarrow> pool \<Rightarrow> addr list \<Rightarrow> bool" where
  "pool_ok s p xs \<longleftrightarrow> holds (pool_list s p) xs \<and> layout s p 0 xs \<and>
     total_size s xs + avail s p = pool_size s p \<and> length (arena s p) = pool_size s p * width p"

definition mmem_ok :: "mmem \<Rightarrow> (pool \<Rightarrow> addr list) \<Rightarrow> bool" where
  "mmem_ok s xs \<longleftrightarrow> (\<forall>p. pool_ok s p (xs p)) \<and> (\<forall>p q. p \<noteq> q \<longrightarrow> set (xs p) \<inter> set (xs q) = {})"

definition content :: "mmem \<Rightarrow> pool \<Rightarrow> addr \<Rightarrow> bytes" where
  "content s p x = take (size_of s x * width p) (drop (ptr_of s x) (arena s p))"

lemma width_pos [simp]: "0 < width p"
  by (cases p) auto

lemma total_size_simps [simp]:
  "total_size s [] = 0" "total_size s (x # xs) = size_of s x + total_size s xs"
  "total_size s (xs @ ys) = total_size s xs + total_size s ys"
  by (simp_all add: total_size_def)

lemma layout_append:
  "layout s p off (xs @ ys) \<longleftrightarrow> layout s p off xs \<and> layout s p (off + total_size s xs * width p) ys"
  by (induction xs arbitrary: off) (auto simp: algebra_simps)

lemma layout_cong:
  "layout s p off xs \<Longrightarrow> (\<And>x. x \<in> set xs \<Longrightarrow> ptr_of s' x = ptr_of s x \<and> size_of s' x = size_of s x) \<Longrightarrow>
   layout s' p off xs"
  by (induction xs arbitrary: off) auto

lemma total_size_cong:
  "(\<And>x. x \<in> set xs \<Longrightarrow> size_of s' x = size_of s x) \<Longrightarrow> total_size s' xs = total_size s xs"
  by (induction xs) auto

lemma pool_ok_frame:
  assumes "pool_ok s q ys" and "first s' q = first s q" and "arena s' q = arena s q"
    and "avail s' q = avail s q" and "pool_size s' = pool_size s"
    and "\<And>x. x \<in> set ys \<Longrightarrow> next_of s' x = next_of s x \<and> ptr_of s' x = ptr_of s x \<and> size_of s' x = size_of s x"
  shows "pool_ok s' q ys"
proof -
  have "path (next_of s') (first s q) ys"
    using path_frame [of "next_of s" "first s q" ys "next_of s'"] assms(1,6)
    by (simp add: pool_ok_def holds_def pool_list_def)
  moreover have "layout s' q 0 ys" using layout_cong [of s q 0 ys s'] assms(1,6) by (simp add: pool_ok_def)
  moreover have "total_size s' ys = total_size s ys" using total_size_cong assms(6) by blast
  ultimately show ?thesis using assms by (simp add: pool_ok_def holds_def pool_list_def)
qed

lemma used_end_total: "pool_ok s p xs \<Longrightarrow> used_end s p = total_size s xs * width p"
  by (auto simp: pool_ok_def used_end_def)

section \<open>Allocation\<close>

lemma oc_mmem_alloc_ok:
  assumes ok: "mmem_ok s xs" and m: "m \<noteq> NULL_PTR" "\<And>q. m \<notin> set (xs q)" and sz: "sz \<le> avail s p"
  obtains s' where "oc_mmem_alloc s m sz p = Some (s', sz * width p)"
    and "mmem_ok s' (xs(p := xs p @ [m]))" and "size_of s' m = sz"
    and "\<And>q x. x \<in> set (xs q) \<Longrightarrow> content s' q x = content s q x"
proof -
  have pok: "pool_ok s p (xs p)" using ok by (simp add: mmem_ok_def)
  obtain l where l: "oc_list_add (pool_list s p) m = Some l" "holds l (xs p @ [m])"
    "\<And>a. a \<notin> set (m # xs p) \<Longrightarrow> nxt l a = next_of s a"
    using oc_list_add_holds [of "pool_list s p" "xs p" m] pok m by (auto simp: pool_ok_def pool_list_def)
  define s' where "s' = s\<lparr>next_of := nxt l, first := (first s)(p := head l),
    ptr_of := (ptr_of s)(m := used_end s p), size_of := (size_of s)(m := sz),
    avail := (avail s)(p := avail s p - sz)\<rparr>"
  have run: "oc_mmem_alloc s m sz p = Some (s', sz * width p)"
    using l(1) m sz by (simp add: oc_mmem_alloc_def set_pool_list_def s'_def used_end_def Let_def)
  have same: "ptr_of s' x = ptr_of s x \<and> size_of s' x = size_of s x" if "x \<in> set (xs q)" for q x
    using that m(2) by (auto simp: s'_def)
  have "pool_ok s' p (xs p @ [m])"
  proof -
    have "layout s' p 0 (xs p)" using layout_cong [of s p 0 "xs p" s'] pok same [of _ p] by (simp add: pool_ok_def)
    moreover have ts: "total_size s' (xs p) = total_size s (xs p)" using total_size_cong same by blast
    moreover have "ptr_of s' m = total_size s (xs p) * width p" "size_of s' m = sz"
      using used_end_total [OF pok] by (simp_all add: s'_def)
    ultimately show ?thesis
      using pok l(2) sz by (simp add: pool_ok_def layout_append) (simp add: s'_def pool_list_def holds_def)
  qed
  moreover have "pool_ok s' q (xs q)" if "q \<noteq> p" for q
  proof (rule pool_ok_frame)
    show "pool_ok s q (xs q)" using ok by (simp add: mmem_ok_def)
    fix x assume x: "x \<in> set (xs q)"
    then have "x \<notin> set (m # xs p)" using that ok m(2) [of q] by (auto simp: mmem_ok_def)
    then show "next_of s' x = next_of s x \<and> ptr_of s' x = ptr_of s x \<and> size_of s' x = size_of s x"
      using same [OF x] l(3) by (simp add: s'_def)
  qed (use that in \<open>simp_all add: s'_def\<close>)
  ultimately have "mmem_ok s' (xs(p := xs p @ [m]))"
    using ok m(2) by (auto simp: mmem_ok_def)
  moreover have "content s' q x = content s q x" if "x \<in> set (xs q)" for q x
    using same [OF that] by (simp add: content_def) (simp add: s'_def)
  ultimately show ?thesis using run that [of s'] by (simp add: s'_def)
qed

section \<open>Release of bytes\<close>

lemma shift_loop_path:
  "path next n zs \<Longrightarrow>
   shift_loop next k n ptr = Some (\<lambda>x. if x \<in> set zs then ptr x - k else ptr x)"
proof (induction zs arbitrary: n ptr)
  case Nil
  then show ?case by (subst shift_loop.simps) simp
next
  case (Cons z zs)
  then have "z \<notin> set zs" using path_distinct by (metis distinct.simps(2))
  moreover have "shift_loop next k (next z) (ptr(z := ptr z - k)) =
      Some (\<lambda>x. if x \<in> set zs then (ptr(z := ptr z - k)) x - k else (ptr(z := ptr z - k)) x)"
    using Cons by simp
  ultimately show ?case using Cons.prems by (subst shift_loop.simps) (auto simp: fun_eq_iff)
qed

lemma slice_moved:
  assumes "k + n \<le> c" and "e + c \<le> length a" and "d \<le> e"
  shows "take n (drop (d + k) (splice d (take c (drop e a)) a)) = take n (drop (e + k) a)"
  using assms by (intro nth_equalityI) (auto simp: nth_splice ac_simps)

lemma slice_before: "d + n \<le> i \<Longrightarrow> i \<le> length a \<Longrightarrow> take n (drop d (splice i xs a)) = take n (drop d a)"
  by (simp add: splice_def drop_take min_absorb1)

lemma layout_shift:
  "layout s p (off + k) xs \<Longrightarrow> (\<And>x. x \<in> set xs \<Longrightarrow> ptr_of s' x = ptr_of s x - k \<and> size_of s' x = size_of s x) \<Longrightarrow>
   layout s' p off xs"
proof (induction xs arbitrary: off)
  case (Cons x xs)
  then have "layout s p (off + size_of s x * width p + k) xs" by (simp add: ac_simps)
  then have "layout s' p (off + size_of s x * width p) xs" using Cons by auto
  with Cons.prems show ?case by auto
qed simp

lemma layout_bounds:
  "layout s p off xs \<Longrightarrow> x \<in> set xs \<Longrightarrow>
   off \<le> ptr_of s x \<and> ptr_of s x + size_of s x * width p \<le> off + total_size s xs * width p"
proof (induction xs arbitrary: off)
  case (Cons y xs)
  then show ?case by (force simp: algebra_simps)
qed simp

lemma path_next_mid: "path next a (ys @ m # zs) \<Longrightarrow> path next (next m) zs"
  using path_suffix by fastforce

text \<open>The state between the move and the removal from the list.\<close>

lemma oc_mmem_free_run:
  assumes pok: "pool_ok s BYTE_POOL (ys @ m # zs)"
  defines "d \<equiv> total_size s ys" and "k \<equiv> size_of s m" and "c \<equiv> total_size s zs"
  obtains s' where "oc_mmem_free s m BYTE_POOL = Some s'"
    and "arena s' = (arena s)(BYTE_POOL :=
      splice d (take c (drop (d + k) (arena s BYTE_POOL))) (arena s BYTE_POOL))"
    and "ptr_of s' = (\<lambda>x. if x \<in> set zs then ptr_of s x - k else ptr_of s x)"
    and "size_of s' = size_of s" and "avail s' = (avail s)(BYTE_POOL := avail s BYTE_POOL + k)"
    and "pool_size s' = pool_size s" and "holds (pool_list s' BYTE_POOL) (ys @ zs)"
    and "\<And>q. q \<noteq> BYTE_POOL \<Longrightarrow> first s' q = first s q"
    and "\<And>a. a \<notin> set (ys @ m # zs) \<Longrightarrow> next_of s' a = next_of s a"
proof -
  let ?a = "arena s BYTE_POOL"
  have p: "path (next_of s) (first s BYTE_POOL) (ys @ m # zs)"
    using pok by (simp add: pool_ok_def holds_def pool_list_def)
  have nn: "m \<noteq> NULL_PTR" "m \<notin> set ys" using path_nonnull [OF p] path_distinct [OF p] by auto
  have pz: "path (next_of s) (next_of s m) zs" by (rule path_next_mid [OF p])
  have lay: "layout s BYTE_POOL 0 (ys @ m # zs)" using pok by (simp add: pool_ok_def)
  then have pm: "ptr_of s m = d" and lz: "layout s BYTE_POOL (d + k) zs"
    by (simp_all add: layout_append d_def k_def)
  have e: "used_end s BYTE_POOL = d + k + c"
    using used_end_total [OF pok] by (simp add: d_def k_def c_def)
  have len: "d + k + c \<le> length ?a" using pok by (auto simp: pool_ok_def d_def k_def c_def)
  define s1 where "s1 = s\<lparr>arena := (arena s)(BYTE_POOL := splice d (take c (drop (d + k) ?a)) ?a),
    ptr_of := (\<lambda>x. if x \<in> set zs then ptr_of s x - k else ptr_of s x),
    avail := (avail s)(BYTE_POOL := avail s BYTE_POOL + k)\<rparr>"
  have "holds (pool_list s1 BYTE_POOL) (ys @ m # zs)"
    using p by (simp add: s1_def holds_def pool_list_def)
  then obtain l where l: "oc_list_remove (pool_list s1 BYTE_POOL) m = Some l"
    "holds l (remove1 m (ys @ m # zs))"
    "\<And>a. a \<notin> set (ys @ m # zs) \<Longrightarrow> nxt l a = nxt (pool_list s1 BYTE_POOL) a"
    by (rule oc_list_remove_holds [of _ _ m]) blast
  have rm: "remove1 m (ys @ m # zs) = ys @ zs" using nn(2) by (simp add: remove1_append)
  have "oc_mmem_free s m BYTE_POOL = Some (set_pool_list s1 BYTE_POOL l)"
  proof (cases zs)
    case Nil
    then have "s1 = s\<lparr>avail := (avail s)(BYTE_POOL := avail s BYTE_POOL + k)\<rparr>"
      by (simp add: s1_def c_def)
    with Nil pz nn(1) l(1) show ?thesis by (simp add: oc_mmem_free_def Let_def k_def)
  next
    case (Cons z zs')
    then have z: "next_of s m = z" "z \<noteq> NULL_PTR" "ptr_of s z = d + k" using pz lz by auto
    have "rd_slice ?a (d + k) c = Some (take c (drop (d + k) ?a))" using len by (simp add: rd_slice_def)
    moreover have "wr_mem_bytes ?a d (take c (drop (d + k) ?a)) = Some (splice d (take c (drop (d + k) ?a)) ?a)"
      using len by (simp add: wr_mem_bytes_def)
    ultimately show ?thesis
      using nn(1) z e pm l(1) shift_loop_path [OF pz, of k "ptr_of s"]
      by (simp add: oc_mmem_free_def Let_def s1_def k_def pool_list_def)
  qed
  then show ?thesis
    by (rule that)
      (use l(2,3) rm in \<open>simp_all add: set_pool_list_def s1_def pool_list_def holds_def\<close>)
qed

lemma oc_mmem_free_ok:
  assumes ok: "mmem_ok s xs" and m: "m \<in> set (xs BYTE_POOL)"
  obtains s' where "oc_mmem_free s m BYTE_POOL = Some s'"
    and "mmem_ok s' (xs(BYTE_POOL := remove1 m (xs BYTE_POOL)))"
    and "avail s' BYTE_POOL = avail s BYTE_POOL + size_of s m"
    and "\<And>q x. x \<in> set (xs q) \<Longrightarrow> x \<noteq> m \<Longrightarrow> content s' q x = content s q x"
proof -
  obtain ys zs where xs: "xs BYTE_POOL = ys @ m # zs" "m \<notin> set ys"
    using split_list_first [OF m] by blast
  have pok: "pool_ok s BYTE_POOL (ys @ m # zs)" using ok xs(1) by (metis mmem_ok_def)
  let ?d = "total_size s ys" and ?k = "size_of s m" and ?c = "total_size s zs" and ?a = "arena s BYTE_POOL"
  obtain s' where s': "oc_mmem_free s m BYTE_POOL = Some s'"
    "arena s' = (arena s)(BYTE_POOL := splice ?d (take ?c (drop (?d + ?k) ?a)) ?a)"
    "ptr_of s' = (\<lambda>x. if x \<in> set zs then ptr_of s x - ?k else ptr_of s x)"
    "size_of s' = size_of s" "avail s' = (avail s)(BYTE_POOL := avail s BYTE_POOL + ?k)"
    "pool_size s' = pool_size s" "holds (pool_list s' BYTE_POOL) (ys @ zs)"
    "\<And>q. q \<noteq> BYTE_POOL \<Longrightarrow> first s' q = first s q"
    "\<And>a. a \<notin> set (ys @ m # zs) \<Longrightarrow> next_of s' a = next_of s a"
    by (rule oc_mmem_free_run [OF pok]) blast
  have lay: "layout s BYTE_POOL 0 ys" "layout s BYTE_POOL (?d + ?k) zs"
    using pok by (simp_all add: pool_ok_def layout_append)
  have len: "?d + ?k + ?c \<le> length ?a" using pok by (auto simp: pool_ok_def)
  have dist: "distinct (ys @ m # zs)" using pok ol.repr_distinct unfolding pool_ok_def by blast
  have rm: "remove1 m (xs BYTE_POOL) = ys @ zs" using xs by (simp add: remove1_append)
  have tot: "total_size s' vs = total_size s vs" for vs using total_size_cong s'(4) by metis
  have "pool_ok s' BYTE_POOL (ys @ zs)"
  proof -
    have "layout s' BYTE_POOL 0 ys"
      by (rule layout_cong [OF lay(1)]) (use s'(3,4) dist in auto)
    moreover have "layout s' BYTE_POOL ?d zs"
      using layout_shift [OF lay(2), of s'] s'(3,4) by simp
    moreover have "length (splice ?d (take ?c (drop (?d + ?k) ?a)) ?a) = length ?a"
      using len by (intro length_splice) simp
    ultimately show ?thesis
      using pok s'(2,5,6,7) by (simp add: pool_ok_def layout_append tot)
  qed
  moreover have "pool_ok s' q (xs q)" if "q \<noteq> BYTE_POOL" for q
  proof (rule pool_ok_frame)
    show "pool_ok s q (xs q)" using ok by (simp add: mmem_ok_def)
    fix x assume "x \<in> set (xs q)"
    then have "x \<notin> set (ys @ m # zs)" using that ok xs(1) unfolding mmem_ok_def by (metis disjoint_iff)
    then show "next_of s' x = next_of s x \<and> ptr_of s' x = ptr_of s x \<and> size_of s' x = size_of s x"
      using s'(3,4,9) by simp
  qed (use that s' in simp_all)
  moreover have "set ((xs(BYTE_POOL := ys @ zs)) q) \<subseteq> set (xs q)" for q using xs(1) by auto
  then have "set ((xs(BYTE_POOL := ys @ zs)) q) \<inter> set ((xs(BYTE_POOL := ys @ zs)) r) = {}" if "q \<noteq> r" for q r
    using that ok unfolding mmem_ok_def by blast
  ultimately have ok': "mmem_ok s' (xs(BYTE_POOL := ys @ zs))"
    unfolding mmem_ok_def by simp
  have content: "content s' q x = content s q x" if x: "x \<in> set (xs q)" "x \<noteq> m" for q x
  proof (cases "q = BYTE_POOL")
    case False
    then have "x \<notin> set (ys @ m # zs)" using x(1) ok xs(1) unfolding mmem_ok_def by (metis disjoint_iff)
    with False show ?thesis using s'(2-4) by (simp add: content_def)
  next
    case True
    with x xs consider "x \<in> set ys" | "x \<in> set zs" by auto
    then show ?thesis
    proof cases
      case 1
      then show ?thesis using True layout_bounds [OF lay(1) 1] len dist s'(2-4)
        by (auto simp: content_def intro!: slice_before)
    next
      case 2
      define j where "j = ptr_of s x - (?d + ?k)"
      have j: "ptr_of s x = ?d + ?k + j" "j + size_of s x \<le> ?c"
        using layout_bounds [OF lay(2) 2] unfolding j_def by simp_all arith
      then show ?thesis using True 2 slice_moved [OF j(2), of "?d + ?k" ?a ?d] len s'(2-4)
        by (simp add: content_def)
    qed
  qed
  show ?thesis
    by (rule that [OF s'(1)]) (use ok' rm s'(5) content in simp_all)
qed

section \<open>Properties\<close>

definition empty_mmem :: "(pool \<Rightarrow> nat) \<Rightarrow> mmem" where
  "empty_mmem n = oc_mmem_init \<lparr>next_of = (\<lambda>x. 0), size_of = (\<lambda>x. 0), ptr_of = (\<lambda>x. 0),
     first = (\<lambda>p. 0), arena = (\<lambda>p. replicate (n p * width p) 0), avail = (\<lambda>p. 0), pool_size = n\<rparr>"

lemma empty_mmem_ok: "mmem_ok (empty_mmem n) (\<lambda>p. [])"
  by (simp add: mmem_ok_def pool_ok_def empty_mmem_def oc_mmem_init_def holds_def pool_list_def)

text \<open>Allocating from a managed pool with enough room succeeds, returns the size in
  bytes, appends the part behind all others and leaves the contents of every part of every
  pool as they were; the invariant (parts contiguous in list order, sizes and available space
  adding up to the pool) is kept.\<close>

theorem oc_mmem_alloc_correct:
  assumes "mmem_ok s xs" and "m \<noteq> NULL_PTR" and "\<forall>q. m \<notin> set (xs q)" and "sz \<le> avail s p"
  shows "\<exists>s'. oc_mmem_alloc s m sz p = Some (s', sz * width p) \<and>
     mmem_ok s' (xs(p := xs p @ [m])) \<and> length (content s' p m) = sz * width p \<and>
     (\<forall>q. \<forall>x \<in> set (xs q). content s' q x = content s q x)"
proof -
  obtain s' where s': "oc_mmem_alloc s m sz p = Some (s', sz * width p)"
    "mmem_ok s' (xs(p := xs p @ [m]))" "size_of s' m = sz"
    "\<And>q x. x \<in> set (xs q) \<Longrightarrow> content s' q x = content s q x"
    using oc_mmem_alloc_ok [OF assms(1,2) _ assms(4)] assms(3) by metis
  have pok: "pool_ok s' p (xs p @ [m])" using s'(2) unfolding mmem_ok_def by (metis fun_upd_same)
  then have "ptr_of s' m + sz * width p \<le> total_size s' (xs p @ [m]) * width p"
    using layout_bounds [of s' p 0 "xs p @ [m]" m] s'(3) by (simp add: pool_ok_def)
  also have "\<dots> \<le> pool_size s' p * width p"
    using pok unfolding pool_ok_def by (intro mult_le_mono1) linarith
  also have "\<dots> = length (arena s' p)" using pok by (simp add: pool_ok_def)
  finally have "ptr_of s' m + sz * width p \<le> length (arena s' p)" .
  then have "length (content s' p m) = sz * width p" by (simp add: content_def s'(3))
  with s' show ?thesis by blast
qed

theorem oc_mmem_alloc_correct_witness:
  "\<exists>s'. oc_mmem_alloc (empty_mmem (\<lambda>p. 10)) 1 4 INT_POOL = Some (s', 4 * width INT_POOL) \<and>
     mmem_ok s' ((\<lambda>p. [])(INT_POOL := [1])) \<and> length (content s' INT_POOL 1) = 4 * width INT_POOL \<and>
     (\<forall>q. \<forall>x \<in> set ([] :: addr list). content s' q x = content (empty_mmem (\<lambda>p. 10)) q x)"
  using oc_mmem_alloc_correct [OF empty_mmem_ok, of 1 4 "\<lambda>p. 10" INT_POOL]
  by (simp add: empty_mmem_def oc_mmem_init_def)

text \<open>C16: Freeing a part of the byte pool compacts the pool: the part leaves the list, its
  space becomes available, and although the parts behind it are moved, every remaining part of
  every pool keeps its contents.\<close>

theorem oc_mmem_free_bytes_correct:
  assumes "mmem_ok s xs" and "m \<in> set (xs BYTE_POOL)"
  shows "\<exists>s'. oc_mmem_free s m BYTE_POOL = Some s' \<and>
     mmem_ok s' (xs(BYTE_POOL := remove1 m (xs BYTE_POOL))) \<and>
     avail s' BYTE_POOL = avail s BYTE_POOL + size_of s m \<and>
     (\<forall>q. \<forall>x \<in> set (xs q). x \<noteq> m \<longrightarrow> content s' q x = content s q x)"
  by (rule oc_mmem_free_ok [OF assms]) blast

definition two_parts :: "pool \<Rightarrow> bytes \<Rightarrow> mmem" where
  "two_parts p bs = \<lparr>next_of = (\<lambda>x. if x = 1 then 2 else 0), size_of = (\<lambda>x. if x = 1 \<or> x = 2 then 1 else 0),
     ptr_of = (\<lambda>x. if x = 2 then width p else 0), first = (\<lambda>q. if q = p then 1 else 0),
     arena = (\<lambda>q. if q = p then bs else replicate (2 * width q) 0),
     avail = (\<lambda>q. if q = p then 0 else 2), pool_size = (\<lambda>q. 2)\<rparr>"

lemma two_parts_ok: "length bs = 2 * width p \<Longrightarrow> mmem_ok (two_parts p bs) ((\<lambda>q. [])(p := [1, 2]))"
  by (auto simp: mmem_ok_def pool_ok_def two_parts_def holds_def pool_list_def)

theorem oc_mmem_free_bytes_correct_witness:
  "\<exists>s'. oc_mmem_free (two_parts BYTE_POOL [7, 8]) 1 BYTE_POOL = Some s' \<and>
     avail s' BYTE_POOL = 1 \<and> content s' BYTE_POOL 2 = [8]"
  using oc_mmem_free_bytes_correct [OF two_parts_ok [of "[7, 8]" BYTE_POOL], of 1]
  by (auto simp: two_parts_def content_def)

text \<open>In the int pool the same operation destroys data: with two one-element parts, freeing
  the first moves one byte instead of four and the second handle by one byte instead of four,
  so the second part no longer reads back.\<close>

theorem oc_mmem_free_ints_corrupts:
  "mmem_ok (two_parts INT_POOL [1, 2, 3, 4, 5, 6, 7, 8]) ((\<lambda>q. [])(INT_POOL := [1, 2])) \<and>
   content (two_parts INT_POOL [1, 2, 3, 4, 5, 6, 7, 8]) INT_POOL 2 = [5, 6, 7, 8] \<and>
   (\<exists>s'. oc_mmem_free (two_parts INT_POOL [1, 2, 3, 4, 5, 6, 7, 8]) 1 INT_POOL = Some s' \<and>
      ptr_of s' 2 = 3 \<and> content s' INT_POOL 2 = [4, 5, 6, 7])"
proof (intro conjI)
  let ?s = "two_parts INT_POOL [1, 2, 3, 4, 5, 6, 7, 8]"
  have pz: "path (next_of ?s) 2 [2]" by (simp add: two_parts_def)
  have "oc_list_remove \<lparr>head = 1, nxt = next_of ?s\<rparr> 1 = Some \<lparr>head = 2, nxt = next_of ?s\<rparr>"
    by (simp add: oc_list_remove_def remove_loop.simps two_parts_def)
  then show "\<exists>s'. oc_mmem_free ?s 1 INT_POOL = Some s' \<and>
      ptr_of s' 2 = 3 \<and> content s' INT_POOL 2 = [4, 5, 6, 7]"
    using shift_loop_path [OF pz, of 1 "ptr_of ?s"]
    by (simp add: oc_mmem_free_def two_parts_def Let_def used_end_def rd_slice_def wr_mem_bytes_def
        pool_list_def set_pool_list_def content_def splice_def)
  show "mmem_ok ?s ((\<lambda>q. [])(INT_POOL := [1, 2]))" by (rule two_parts_ok) simp
  show "content ?s INT_POOL 2 = [5, 6, 7, 8]" by (simp add: two_parts_def content_def)
qed

end
