(* ===== verification/OC_Event_Queue.thy ===== *)
theory OC_Event_Queue
  imports OC_List
begin

text \<open>
  The event queue of \<open>src/util/oc_process.c\<close>: a ring of \<open>OC_PROCESS_NUMEVENTS\<close> entries with
  the index of the first event and the number of events. Without dynamic allocation the ring
  has 10 entries and a post to a full ring is refused; with it the ring is doubled and the
  events from the first one on move to its end. Both refine a FIFO queue, stated by the
  interface \<open>fifo\<close>. Indices are natural numbers: they stay below twice the ring size, which
  fits the \<open>unsigned char\<close> of the static build.
\<close>

record event_data =
  ev :: u8
  data :: nat
  receiver :: addr

record event_ring =
  events :: "event_data list"
  fevent :: nat
  nevents :: nat

abbreviation (input) "OC_PROCESS_ERR_OK \<equiv> 0 :: nat"
abbreviation (input) "OC_PROCESS_ERR_FULL \<equiv> 1 :: nat"

definition zero_event :: event_data where
  "zero_event = \<lparr>ev = 0, data = 0, receiver = NULL_PTR\<rparr>"

section \<open>Posting\<close>

text \<open>\<open>OC_PROCESS_NUMEVENTS\<close> is the length of the array.\<close>

abbreviation "numevents r \<equiv> length (events r)"

text \<open>The common end of \<open>oc_process_post\<close>: write behind the last event.\<close>

definition put_event :: "event_ring \<Rightarrow> event_data \<Rightarrow> event_ring" where
  "put_event r e =
     (let snum = (fevent r + nevents r) mod numevents r
      in r\<lparr>events := (events r)[snum := e], nevents := nevents r + 1\<rparr>)"

definition oc_process_post :: "event_ring \<Rightarrow> event_data \<Rightarrow> event_ring \<times> nat" where
  "oc_process_post r e =
     (if nevents r = numevents r then (r, OC_PROCESS_ERR_FULL) else (put_event r e, OC_PROCESS_ERR_OK))"

text \<open>
  The loop that makes room after the array has been doubled (\<open>realloc\<close> keeps the old entries;
  the new ones are unspecified, here given by \<open>fresh\<close>).
\<close>

function move_loop :: "event_data list \<Rightarrow> nat \<Rightarrow> nat \<Rightarrow> nat \<Rightarrow> nat \<Rightarrow> nat \<Rightarrow> event_data list" where
  "move_loop es tot n nev i j =
     (if i < tot - n then
        let (es, j) = (if i < nev then (es[tot - n + j := es ! i], j + 1) else (es, j))
        in move_loop (es[i := zero_event]) tot n nev (i + 1) j
      else es)"
  by pat_completeness auto
termination
  by (relation "measure (\<lambda>(es, tot, n, nev, i, j). tot - i)") auto

declare move_loop.simps [simp del]

definition grow :: "event_ring \<Rightarrow> event_data list \<Rightarrow> event_ring" where
  "grow r fresh =
     (let tot = 2 * numevents r;
          es = events r @ take (numevents r) fresh;
          n = nevents r - fevent r;
          es = move_loop es tot n (nevents r) (fevent r) 0
      in r\<lparr>events := es, fevent := tot - n\<rparr>)"

definition oc_process_post_dynamic :: "event_data list \<Rightarrow> event_ring \<Rightarrow> event_data \<Rightarrow> event_ring \<times> nat" where
  "oc_process_post_dynamic fresh r e =
     (let r = (if nevents r = numevents r then grow r fresh else r)
      in (put_event r e, OC_PROCESS_ERR_OK))"

section \<open>Taking the first event\<close>

text \<open>The first lines of \<open>do_event\<close>.\<close>

definition next_event :: "event_ring \<Rightarrow> (event_data \<times> event_ring) option" where
  "next_event r =
     (if nevents r > 0
      then Some (events r ! fevent r,
                 r\<lparr>fevent := (fevent r + 1) mod numevents r, nevents := nevents r - 1\<rparr>)
      else None)"

definition init_ring :: "nat \<Rightarrow> event_ring" where
  "init_ring n = \<lparr>events = replicate n zero_event, fevent = 0, nevents = 0\<rparr>"

section \<open>The FIFO it implements\<close>

definition ring_ok :: "event_ring \<Rightarrow> bool" where
  "ring_ok r \<longleftrightarrow> fevent r < numevents r \<and> nevents r \<le> numevents r"

definition queue :: "event_ring \<Rightarrow> event_data list" where
  "queue r = map (\<lambda>i. events r ! ((fevent r + i) mod numevents r)) [0..<nevents r]"

lemma length_queue [simp]: "length (queue r) = nevents r"
  by (simp add: queue_def)

lemma ring_index_inj:
  assumes "i < N" and "j < N" and "(f + i) mod N = (f + j) mod N"
  shows "i = (j :: nat)"
proof -
  have less: "\<not> k < l" if "l < N" "(f + k) mod N = (f + l) mod N" for k l
  proof
    assume "k < l"
    with that(2) have "N dvd (f + l) - (f + k)" using mod_eq_dvd_iff_nat [of "f + k" "f + l" N] by simp
    then have "N dvd l - k" by simp
    with \<open>k < l\<close> that(1) show False by (auto dest: dvd_imp_le)
  qed
  show ?thesis using less [of j i] less [of i j] assms by force
qed

lemma put_event_queue:
  assumes "ring_ok r" and "nevents r < numevents r"
  shows "queue (put_event r e) = queue r @ [e]" and "ring_ok (put_event r e)"
proof -
  let ?N = "numevents r"
  have k: "(fevent r + nevents r) mod ?N < ?N" using assms(2) by (intro mod_less_divisor) linarith
  have "(events r)[(fevent r + nevents r) mod ?N := e] ! ((fevent r + i) mod ?N) =
      events r ! ((fevent r + i) mod ?N)" if "i < nevents r" for i
  proof -
    have "(fevent r + nevents r) mod ?N \<noteq> (fevent r + i) mod ?N"
      using ring_index_inj [of i ?N "nevents r" "fevent r"] that assms(2) by fastforce
    then show ?thesis by (rule nth_list_update_neq)
  qed
  then show "queue (put_event r e) = queue r @ [e]"
    using k by (simp add: queue_def put_event_def Let_def)
  show "ring_ok (put_event r e)" using assms by (simp add: ring_ok_def put_event_def Let_def)
qed

lemma next_event_queue:
  assumes "ring_ok r"
  shows "case queue r of [] \<Rightarrow> next_event r = None
     | e # es \<Rightarrow> \<exists>r'. next_event r = Some (e, r') \<and> ring_ok r' \<and> queue r' = es \<and> numevents r' = numevents r"
proof (cases "nevents r")
  case 0
  then show ?thesis by (simp add: queue_def next_event_def)
next
  case (Suc n)
  let ?N = "numevents r"
  have q: "queue r = events r ! fevent r # map (\<lambda>i. events r ! ((fevent r + Suc i) mod ?N)) [0..<n]"
    using assms Suc by (simp add: queue_def ring_ok_def map_Suc_upt [symmetric] upt_conv_Cons del: upt_Suc)
  let ?r = "r\<lparr>fevent := (fevent r + 1) mod ?N, nevents := n\<rparr>"
  have "queue ?r = map (\<lambda>i. events r ! ((fevent r + Suc i) mod ?N)) [0..<n]"
    by (simp add: queue_def mod_simps)
  moreover have "0 < ?N" using assms unfolding ring_ok_def by linarith
  then have "ring_ok ?r"
    using assms Suc mod_less_divisor [OF \<open>0 < ?N\<close>, of "fevent r + 1"] by (simp add: ring_ok_def)
  ultimately show ?thesis using q Suc by (simp add: next_event_def)
qed

section \<open>Doubling the ring\<close>

text \<open>
  Each pass of the loop moves the entry \<open>i\<close> to the same distance from the new end and clears
  its old place.
\<close>

lemma move_loop_nth:
  assumes "length es = 2 * N" and "f \<le> i" and "i \<le> N + f" and "f < N" and "j = min i N - f"
    and "k < 2 * N"
  shows "length (move_loop es (2 * N) (N - f) N i j) = 2 * N \<and>
     move_loop es (2 * N) (N - f) N i j ! k =
       (if i \<le> k \<and> k < N + f then zero_event
        else if N + f + j \<le> k then es ! (k - N) else es ! k)"
  using assms
proof (induction "N + f - i" arbitrary: es i j)
  case 0
  have "2 * N - (N - f) = N + f" using 0 by simp
  then have "move_loop es (2 * N) (N - f) N i j = es" using 0 by (subst move_loop.simps) simp
  moreover have "j = N - f" "i = N + f" using 0 by auto
  ultimately show ?case using 0 by auto
next
  case (Suc d)
  have tn: "2 * N - (N - f) = N + f" using Suc.prems by simp
  have lt: "i < N + f" using Suc.hyps(2) by simp
  define es1 where "es1 = (if i < N then es[N + f + j := es ! i] else es)"
  define j1 where "j1 = min (Suc i) N - f"
  have j1: "j1 = (if i < N then j + 1 else j)" using Suc.prems by (auto simp: j1_def)
  have step: "move_loop es (2 * N) (N - f) N i j =
      move_loop (es1[i := zero_event]) (2 * N) (N - f) N (Suc i) j1"
    using lt j1 by (subst move_loop.simps) (simp add: tn es1_def)
  have len1: "length (es1[i := zero_event]) = 2 * N" using Suc.prems by (simp add: es1_def)
  have IH: "length (move_loop (es1[i := zero_event]) (2 * N) (N - f) N (Suc i) j1) = 2 * N \<and>
     move_loop (es1[i := zero_event]) (2 * N) (N - f) N (Suc i) j1 ! k =
       (if Suc i \<le> k \<and> k < N + f then zero_event
        else if N + f + j1 \<le> k then es1[i := zero_event] ! (k - N) else es1[i := zero_event] ! k)"
    using Suc.hyps(2) Suc.prems lt by (intro Suc.hyps(1) [OF _ len1]) (auto simp: j1_def)
  have "(if Suc i \<le> k \<and> k < N + f then zero_event
        else if N + f + j1 \<le> k then es1[i := zero_event] ! (k - N) else es1[i := zero_event] ! k) =
      (if i \<le> k \<and> k < N + f then zero_event else if N + f + j \<le> k then es ! (k - N) else es ! k)"
  proof (cases "i < N")
    case True
    then have e: "N + f + j = N + i" "N + f + j1 = Suc (N + i)" using Suc.prems by (auto simp: j1)
    have es1: "es1 = es[N + i := es ! i]" using True e(1) unfolding es1_def by metis
    have c: "f \<le> i" "length es = 2 * N" "k < 2 * N" "f < N" using Suc.prems by simp_all
    consider "k < i" | "k = i" | "i < k" "k < N + i" | "k = N + i" | "N + i < k" by linarith
    then show ?thesis
      unfolding e es1 using c True by cases (simp_all add: nth_list_update)
  next
    case False
    then have "N + f + j = 2 * N" "j1 = j" "es1 = es" using Suc.prems by (auto simp: j1 es1_def)
    then show ?thesis using Suc.prems lt False by (cases "k = i") auto
  qed
  with IH show ?case unfolding step by simp
qed

lemma grow_queue:
  assumes "ring_ok r" and "nevents r = numevents r" and "length fresh \<ge> numevents r"
  shows "queue (grow r fresh) = queue r" and "ring_ok (grow r fresh)"
    and "numevents (grow r fresh) = 2 * numevents r" and "nevents (grow r fresh) = nevents r"
proof -
  define N where "N = numevents r"
  define f where "f = fevent r"
  have f: "f < N" and nev: "nevents r = N" using assms by (simp_all add: ring_ok_def N_def f_def)
  define es where "es = events r @ take N fresh"
  have len: "length es = 2 * N" using assms(3) by (simp add: es_def N_def)
  define es' where "es' = move_loop es (2 * N) (N - f) N f 0"
  have mv: "length es' = 2 * N" "k < 2 * N \<Longrightarrow> es' ! k =
      (if f \<le> k \<and> k < N + f then zero_event else if N + f \<le> k then es ! (k - N) else es ! k)" for k
    using move_loop_nth [of es N f f 0 k] move_loop_nth [of es N f f 0 0] len f by (auto simp: es'_def)
  have g: "grow r fresh = r\<lparr>events := es', fevent := N + f\<rparr>"
    using f nev by (simp add: grow_def es'_def es_def N_def [symmetric] f_def [symmetric] Let_def)
  show "ring_ok (grow r fresh)" "numevents (grow r fresh) = 2 * numevents r" "nevents (grow r fresh) = nevents r"
    using g mv(1) f nev by (simp_all add: ring_ok_def N_def)
  have "es' ! ((N + f + i) mod (2 * N)) = events r ! ((f + i) mod N)" if i: "i < N" for i
  proof (cases "f + i < N")
    case True
    then show ?thesis using mv(2) [of "N + f + i"] by (simp add: es_def nth_append N_def)
  next
    case False
    have "(N + f + i) mod (2 * N) = N + f + i - 2 * N" "(f + i) mod N = f + i - N"
      using False i f by (simp_all add: mod_if)
    moreover have "f + i - N < f" using i f False by simp
    ultimately show ?thesis using mv(2) [of "f + i - N"] f False i by (simp add: es_def nth_append N_def)
  qed
  then show "queue (grow r fresh) = queue r"
    using g mv(1) nev by (simp add: queue_def N_def [symmetric] f_def [symmetric])
qed

section \<open>The interface\<close>

locale fifo =
  fixes inv :: "'s \<Rightarrow> bool" and items :: "'s \<Rightarrow> 'e list" and full :: "'s \<Rightarrow> bool"
    and enq :: "'s \<Rightarrow> 'e \<Rightarrow> 's" and deq :: "'s \<Rightarrow> ('e \<times> 's) option"
  assumes enq_law: "inv s \<Longrightarrow> \<not> full s \<Longrightarrow> inv (enq s e) \<and> items (enq s e) = items s @ [e]"
    and deq_law: "inv s \<Longrightarrow> case items s of [] \<Rightarrow> deq s = None
      | e # es \<Rightarrow> \<exists>s'. deq s = Some (e, s') \<and> inv s' \<and> items s' = es"
begin

lemma deq_None_iff: "inv s \<Longrightarrow> deq s = None \<longleftrightarrow> items s = []"
  using deq_law [of s] by (auto split: list.splits)

lemma enq_deq:
  assumes "inv s" and "\<not> full s"
  shows "\<exists>s'. deq (enq s e) = Some (hd (items s @ [e]), s') \<and> items s' = tl (items s @ [e])"
  using enq_law [OF assms, of e] deq_law [of "enq s e"] by (cases "items s") auto

lemma drain: "inv s \<Longrightarrow> n \<le> length (items s) \<Longrightarrow>
    \<exists>s'. ((\<lambda>p. Option.bind p (\<lambda>(es, s). Option.bind (deq s) (\<lambda>(e, s'). Some (es @ [e], s')))) ^^ n) (Some ([], s)) =
      Some (take n (items s), s') \<and> inv s' \<and> items s' = drop n (items s)"
proof (induction n)
  case (Suc n)
  then obtain s1 where s1: "((\<lambda>p. Option.bind p (\<lambda>(es, s). Option.bind (deq s) (\<lambda>(e, s'). Some (es @ [e], s')))) ^^ n) (Some ([], s)) =
      Some (take n (items s), s1)" "inv s1" "items s1 = drop n (items s)" by auto
  obtain e es where "items s1 = e # es" "e = items s ! n" "es = drop (Suc n) (items s)"
    using s1(3) Suc.prems by (metis Cons_nth_drop_Suc Suc_le_eq)
  moreover from this(1) obtain s2 where "deq s1 = Some (e, s2)" "inv s2" "items s2 = es"
    using deq_law [OF s1(2)] by auto
  ultimately show ?case using s1(1) Suc.prems by (simp add: take_Suc_conv_app_nth)
qed simp

end

interpretation sq: fifo ring_ok queue "\<lambda>r. nevents r = numevents r" "\<lambda>r e. fst (oc_process_post r e)" next_event
proof unfold_locales
  fix r e
  assume ok: "ring_ok r"
  show "ring_ok (fst (oc_process_post r e)) \<and> queue (fst (oc_process_post r e)) = queue r @ [e]"
    if "nevents r \<noteq> numevents r"
    using that ok put_event_queue [OF ok] by (simp add: oc_process_post_def ring_ok_def)
  show "case queue r of [] \<Rightarrow> next_event r = None
      | e # es \<Rightarrow> \<exists>s'. next_event r = Some (e, s') \<and> ring_ok s' \<and> queue s' = es"
    using next_event_queue [OF ok] by (auto split: list.splits)
qed

lemma post_dynamic_queue:
  assumes "ring_ok r" and "numevents r \<le> length fresh"
  shows "ring_ok (fst (oc_process_post_dynamic fresh r e))"
    and "queue (fst (oc_process_post_dynamic fresh r e)) = queue r @ [e]"
proof -
  define r' where "r' = (if nevents r = numevents r then grow r fresh else r)"
  have r': "ring_ok r'" "queue r' = queue r" "nevents r' < numevents r'"
    using assms grow_queue [OF assms(1)] by (auto simp: r'_def ring_ok_def)
  show "ring_ok (fst (oc_process_post_dynamic fresh r e))"
    "queue (fst (oc_process_post_dynamic fresh r e)) = queue r @ [e]"
    using put_event_queue [OF r'(1,3)] r'(2)
    by (simp_all add: oc_process_post_dynamic_def r'_def [symmetric])
qed

text \<open>With dynamic allocation nothing is ever full, as long as \<open>realloc\<close> delivers.\<close>

interpretation dq: fifo ring_ok queue "\<lambda>r. False"
  "\<lambda>r e. fst (oc_process_post_dynamic (replicate (numevents r) zero_event) r e)" next_event
proof unfold_locales
  show "\<And>r e. ring_ok r \<Longrightarrow> \<not> False \<Longrightarrow>
      ring_ok (fst (oc_process_post_dynamic (replicate (numevents r) zero_event) r e)) \<and>
      queue (fst (oc_process_post_dynamic (replicate (numevents r) zero_event) r e)) = queue r @ [e]"
    by (simp add: post_dynamic_queue)
  show "\<And>r. ring_ok r \<Longrightarrow> case queue r of [] \<Rightarrow> next_event r = None
      | e # es \<Rightarrow> \<exists>s'. next_event r = Some (e, s') \<and> ring_ok s' \<and> queue s' = es"
    by (rule sq.deq_law)
qed

section \<open>Properties\<close>

lemma init_ring_ok: "0 < n \<Longrightarrow> ring_ok (init_ring n) \<and> queue (init_ring n) = []"
  by (simp add: ring_ok_def init_ring_def queue_def)

text \<open>C30: The static event ring is a bounded FIFO queue: a post is refused without any change
  exactly when the ring holds as many events as it has entries and is appended otherwise, and
  events leave in the order they were posted.\<close>

theorem oc_process_post_fifo:
  assumes "ring_ok r"
  shows "(if length (queue r) = numevents r then oc_process_post r e = (r, OC_PROCESS_ERR_FULL)
      else \<exists>r'. oc_process_post r e = (r', OC_PROCESS_ERR_OK) \<and> ring_ok r' \<and> queue r' = queue r @ [e]) \<and>
     (case queue r of [] \<Rightarrow> next_event r = None
      | e1 # es \<Rightarrow> \<exists>r'. next_event r = Some (e1, r') \<and> ring_ok r' \<and> queue r' = es)"
proof (rule conjI)
  show "if length (queue r) = numevents r then oc_process_post r e = (r, OC_PROCESS_ERR_FULL)
      else \<exists>r'. oc_process_post r e = (r', OC_PROCESS_ERR_OK) \<and> ring_ok r' \<and> queue r' = queue r @ [e]"
    using sq.enq_law [OF assms, of e] by (auto simp: oc_process_post_def)
  show "case queue r of [] \<Rightarrow> next_event r = None
      | e1 # es \<Rightarrow> \<exists>r'. next_event r = Some (e1, r') \<and> ring_ok r' \<and> queue r' = es"
    by (rule sq.deq_law [OF assms])
qed

theorem oc_process_post_fifo_witness:
  "\<exists>r'. oc_process_post (init_ring 10) \<lparr>ev = 0x81, data = 0, receiver = 1\<rparr> = (r', OC_PROCESS_ERR_OK) \<and>
     ring_ok r' \<and> queue r' = [\<lparr>ev = 0x81, data = 0, receiver = 1\<rparr>]"
  using oc_process_post_fifo [of "init_ring 10" "\<lparr>ev = 0x81, data = 0, receiver = 1\<rparr>"] init_ring_ok [of 10]
  by (simp add: init_ring_def)

text \<open>The growing event ring is an unbounded FIFO queue: a post always succeeds and
  appends the event, also when the ring is full and wraps around, and doubles the array only
  then.\<close>

theorem oc_process_post_dynamic_fifo:
  assumes "ring_ok r" and "numevents r \<le> length fresh"
  shows "\<exists>r'. oc_process_post_dynamic fresh r e = (r', OC_PROCESS_ERR_OK) \<and> ring_ok r' \<and>
     queue r' = queue r @ [e] \<and>
     numevents r' = (if length (queue r) = numevents r then 2 * numevents r else numevents r)"
proof -
  let ?r = "fst (oc_process_post_dynamic fresh r e)"
  have "numevents ?r = (if length (queue r) = numevents r then 2 * numevents r else numevents r)"
    using grow_queue(3) [OF assms(1) _ assms(2)]
    by (simp add: oc_process_post_dynamic_def put_event_def Let_def)
  moreover have "oc_process_post_dynamic fresh r e = (?r, OC_PROCESS_ERR_OK)"
    by (simp add: oc_process_post_dynamic_def Let_def)
  ultimately show ?thesis using post_dynamic_queue [OF assms] by metis
qed

theorem oc_process_post_dynamic_fifo_witness:
  "\<exists>r'. oc_process_post_dynamic [zero_event, zero_event]
        \<lparr>events = [zero_event\<lparr>data := 2\<rparr>, zero_event\<lparr>data := 1\<rparr>], fevent = 1, nevents = 2\<rparr>
        (zero_event\<lparr>data := 3\<rparr>) = (r', OC_PROCESS_ERR_OK) \<and>
     queue r' = [zero_event\<lparr>data := 1\<rparr>, zero_event\<lparr>data := 2\<rparr>, zero_event\<lparr>data := 3\<rparr>]"
proof -
  let ?r = "\<lparr>events = [zero_event\<lparr>data := 2\<rparr>, zero_event\<lparr>data := 1\<rparr>], fevent = 1, nevents = 2\<rparr>"
  have "queue ?r = [zero_event\<lparr>data := 1\<rparr>, zero_event\<lparr>data := 2\<rparr>]" "ring_ok ?r"
    by (simp_all add: queue_def ring_ok_def upt_rec)
  then show ?thesis
    using oc_process_post_dynamic_fifo [of ?r "[zero_event, zero_event]" "zero_event\<lparr>data := 3\<rparr>"] by auto
qed

end
