(* ===== verification/OC_Process.thy ===== *)
theory OC_Process
  imports OC_Event_Queue
begin

text \<open>
  The cooperative scheduler of \<open>src/util/oc_process.c\<close>: a list of processes, each with a state
  and a protothread, events delivered one at a time from the queue of \<open>OC_Event_Queue\<close>, and
  polling. The threads are the application: a parameter \<open>thr\<close> that may change the whole
  state, the scheduler's included, and returns the protothread's result. Calling and exiting
  processes are mutually recursive in the source and call back into the threads, so the model
  takes fuel; \<open>None\<close> is fuel that has run out or a list walk that does not end. The lemmas are
  about threads that leave the scheduler's variables alone (they change \<open>world\<close> only), for which
  fuel of two more than the number of processes is enough.
\<close>

abbreviation (input) "OC_PROCESS_STATE_NONE \<equiv> 0 :: u8"
abbreviation (input) "OC_PROCESS_STATE_RUNNING \<equiv> 1 :: u8"
abbreviation (input) "OC_PROCESS_STATE_CALLED \<equiv> 2 :: u8"

abbreviation (input) "OC_PROCESS_EVENT_INIT \<equiv> 0x81 :: u8"
abbreviation (input) "OC_PROCESS_EVENT_POLL \<equiv> 0x82 :: u8"
abbreviation (input) "OC_PROCESS_EVENT_EXIT \<equiv> 0x83 :: u8"
abbreviation (input) "OC_PROCESS_EVENT_EXITED \<equiv> 0x87 :: u8"
abbreviation (input) "OC_PROCESS_EVENT_MAX \<equiv> 0x8a :: u8"
abbreviation (input) "OC_PROCESS_BROADCAST \<equiv> NULL_PTR"

datatype pt_result = PT_WAITING | PT_YIELDED | PT_EXITED | PT_ENDED

record 'w sched =
  ring :: event_ring
  lastevent :: u8
  oc_process_list :: addr
  oc_process_current :: addr
  pnext :: "addr \<Rightarrow> addr"
  state :: "addr \<Rightarrow> u8"
  has_thread :: "addr \<Rightarrow> bool"
  needspoll :: "addr \<Rightarrow> bool"
  pt :: "addr \<Rightarrow> nat"
  poll_requested :: bool
  world :: 'w

type_synonym 'w threads = "addr \<Rightarrow> u8 \<Rightarrow> nat \<Rightarrow> 'w sched \<Rightarrow> 'w sched \<times> pt_result"

definition set_state :: "'w sched \<Rightarrow> addr \<Rightarrow> u8 \<Rightarrow> 'w sched" where
  "set_state s p v = s\<lparr>state := (state s)(p := v)\<rparr>"

section \<open>Operations\<close>

definition oc_process_alloc_event :: "'w sched \<Rightarrow> 'w sched \<times> u8" where
  "oc_process_alloc_event s = (s\<lparr>lastevent := lastevent s + 1\<rparr>, lastevent s)"

definition oc_process_is_running :: "'w sched \<Rightarrow> addr \<Rightarrow> bool" where
  "oc_process_is_running s p \<longleftrightarrow> state s p \<noteq> OC_PROCESS_STATE_NONE"

text \<open>\<open>for (q = oc_process_list; q != p && q != NULL; q = q->next);\<close>\<close>

partial_function (option) find_process :: "(addr \<Rightarrow> addr) \<Rightarrow> addr \<Rightarrow> addr \<Rightarrow> addr option" where
  "find_process next p q = (if q \<noteq> p \<and> q \<noteq> NULL_PTR then find_process next p (next q) else Some q)"

text \<open>The loop of \<open>exit_process\<close> that takes \<open>p\<close> out behind its predecessor.\<close>

partial_function (option) unlink_loop :: "(addr \<Rightarrow> addr) \<Rightarrow> addr \<Rightarrow> addr \<Rightarrow> (addr \<Rightarrow> addr) option" where
  "unlink_loop next p q =
     (if q \<noteq> NULL_PTR then
        if next q = p then Some (next(q := next p)) else unlink_loop next p (next q)
      else Some next)"

declare find_process.simps [code] unlink_loop.simps [code]

definition unlink :: "'w sched \<Rightarrow> addr \<Rightarrow> 'w sched option" where
  "unlink s p =
     (if p = oc_process_list s then Some (s\<lparr>oc_process_list := pnext s p\<rparr>)
      else do {
        nx \<leftarrow> unlink_loop (pnext s) p (oc_process_list s);
        Some (s\<lparr>pnext := nx\<rparr>)
      })"

text \<open>
  \<open>call_process\<close> and \<open>exit_process\<close> call each other. The bodies take the other function as an
  argument; the fuel bounds the nesting of exits and the length of the list walks.
\<close>

definition call_with ::
  "('w sched \<Rightarrow> addr \<Rightarrow> addr \<Rightarrow> 'w sched option) \<Rightarrow> 'w threads \<Rightarrow>
   'w sched \<Rightarrow> addr \<Rightarrow> u8 \<Rightarrow> nat \<Rightarrow> 'w sched option" where
  "call_with exitf thr s p e d =
     (if state s p AND OC_PROCESS_STATE_RUNNING \<noteq> 0 \<and> has_thread s p then
        let s = s\<lparr>oc_process_current := p\<rparr>;
            s = set_state s p OC_PROCESS_STATE_CALLED;
            (s, ret) = thr p e d s
        in if ret = PT_EXITED \<or> ret = PT_ENDED \<or> e = OC_PROCESS_EVENT_EXIT
           then exitf s p p
           else Some (set_state s p OC_PROCESS_STATE_RUNNING)
      else Some s)"

primrec tell_exited ::
  "('w sched \<Rightarrow> addr \<Rightarrow> u8 \<Rightarrow> nat \<Rightarrow> 'w sched option) \<Rightarrow> nat \<Rightarrow> 'w sched \<Rightarrow> addr \<Rightarrow> addr \<Rightarrow> 'w sched option"
where
  "tell_exited callf 0 s p q = None"
| "tell_exited callf (Suc k) s p q =
     (if q \<noteq> NULL_PTR then do {
        s \<leftarrow> (if p \<noteq> q then callf s q OC_PROCESS_EVENT_EXITED p else Some s);
        tell_exited callf k s p (pnext s q)
      }
      else Some s)"

definition exit_with ::
  "('w sched \<Rightarrow> addr \<Rightarrow> u8 \<Rightarrow> nat \<Rightarrow> 'w sched option) \<Rightarrow> 'w threads \<Rightarrow> nat \<Rightarrow>
   'w sched \<Rightarrow> addr \<Rightarrow> addr \<Rightarrow> 'w sched option" where
  "exit_with callf thr k s p fromprocess = do {
     let old_current = oc_process_current s;
     q \<leftarrow> find_process (pnext s) p (oc_process_list s);
     if q = NULL_PTR then Some s
     else do {
       s \<leftarrow> (if oc_process_is_running s p then do {
               let s = set_state s p OC_PROCESS_STATE_NONE;
               s \<leftarrow> tell_exited callf k s p (oc_process_list s);
               if has_thread s p \<and> p \<noteq> fromprocess
               then Some (fst (thr p OC_PROCESS_EVENT_EXIT 0 (s\<lparr>oc_process_current := p\<rparr>)))
               else Some s
             }
             else Some s);
       s \<leftarrow> unlink s p;
       Some (s\<lparr>oc_process_current := old_current\<rparr>)
     }
   }"

primrec exit_process :: "'w threads \<Rightarrow> nat \<Rightarrow> 'w sched \<Rightarrow> addr \<Rightarrow> addr \<Rightarrow> 'w sched option" where
  "exit_process thr 0 = (\<lambda>s p fromprocess. None)"
| "exit_process thr (Suc k) = exit_with (call_with (exit_process thr k) thr) thr k"

definition call_process :: "'w threads \<Rightarrow> nat \<Rightarrow> 'w sched \<Rightarrow> addr \<Rightarrow> u8 \<Rightarrow> nat \<Rightarrow> 'w sched option" where
  "call_process thr k = call_with (exit_process thr k) thr"

definition oc_process_exit :: "'w threads \<Rightarrow> nat \<Rightarrow> 'w sched \<Rightarrow> addr \<Rightarrow> 'w sched option" where
  "oc_process_exit thr k s p = exit_process thr k s p (oc_process_current s)"

definition oc_process_post_synch ::
  "'w threads \<Rightarrow> nat \<Rightarrow> 'w sched \<Rightarrow> addr \<Rightarrow> u8 \<Rightarrow> nat \<Rightarrow> 'w sched option" where
  "oc_process_post_synch thr k s p e d = do {
     let caller = oc_process_current s;
     s \<leftarrow> call_process thr k s p e d;
     Some (s\<lparr>oc_process_current := caller\<rparr>)
   }"

definition oc_process_start :: "'w threads \<Rightarrow> nat \<Rightarrow> 'w sched \<Rightarrow> addr \<Rightarrow> nat \<Rightarrow> 'w sched option" where
  "oc_process_start thr k s p d = do {
     q \<leftarrow> find_process (pnext s) p (oc_process_list s);
     if q = p then Some s
     else do {
       let s = s\<lparr>pnext := (pnext s)(p := oc_process_list s)\<rparr>;
       let s = s\<lparr>oc_process_list := p\<rparr>;
       let s = set_state s p OC_PROCESS_STATE_RUNNING;
       let s = s\<lparr>pt := (pt s)(p := 0)\<rparr>;
       oc_process_post_synch thr k s p OC_PROCESS_EVENT_INIT d
     }
   }"

definition oc_process_init :: "'w sched \<Rightarrow> 'w sched" where
  "oc_process_init s = s\<lparr>lastevent := OC_PROCESS_EVENT_MAX,
     ring := (ring s)\<lparr>nevents := 0, fevent := 0\<rparr>,
     oc_process_current := NULL_PTR, oc_process_list := NULL_PTR\<rparr>"

primrec poll_loop :: "'w threads \<Rightarrow> nat \<Rightarrow> 'w sched \<Rightarrow> addr \<Rightarrow> 'w sched option" where
  "poll_loop thr 0 s p = None"
| "poll_loop thr (Suc k) s p =
     (if p \<noteq> NULL_PTR then do {
        s \<leftarrow> (if needspoll s p then
                let s = set_state s p OC_PROCESS_STATE_RUNNING;
                    s = s\<lparr>needspoll := (needspoll s)(p := False)\<rparr>
                in call_process thr k s p OC_PROCESS_EVENT_POLL 0
              else Some s);
        poll_loop thr k s (pnext s p)
      }
      else Some s)"

definition do_poll :: "'w threads \<Rightarrow> nat \<Rightarrow> 'w sched \<Rightarrow> 'w sched option" where
  "do_poll thr k s = (let s = s\<lparr>poll_requested := False\<rparr> in poll_loop thr k s (oc_process_list s))"

primrec broadcast_loop :: "'w threads \<Rightarrow> nat \<Rightarrow> 'w sched \<Rightarrow> addr \<Rightarrow> u8 \<Rightarrow> nat \<Rightarrow> 'w sched option" where
  "broadcast_loop thr 0 s p e d = None"
| "broadcast_loop thr (Suc k) s p e d =
     (if p \<noteq> NULL_PTR then do {
        s \<leftarrow> (if poll_requested s then do_poll thr k s else Some s);
        s \<leftarrow> call_process thr k s p e d;
        broadcast_loop thr k s (pnext s p) e d
      }
      else Some s)"

definition do_event :: "'w threads \<Rightarrow> nat \<Rightarrow> 'w sched \<Rightarrow> 'w sched option" where
  "do_event thr k s = (case next_event (ring s) of None \<Rightarrow> Some s
     | Some (x, r) \<Rightarrow>
        let s = s\<lparr>ring := r\<rparr>
        in if receiver x = OC_PROCESS_BROADCAST
           then broadcast_loop thr k s (oc_process_list s) (ev x) (data x)
           else let s = (if ev x = OC_PROCESS_EVENT_INIT
                         then set_state s (receiver x) OC_PROCESS_STATE_RUNNING else s)
                in call_process thr k s (receiver x) (ev x) (data x))"

definition oc_process_nevents :: "'w sched \<Rightarrow> nat" where
  "oc_process_nevents s = nevents (ring s) + (if poll_requested s then 1 else 0)"

definition oc_process_run :: "'w threads \<Rightarrow> nat \<Rightarrow> 'w sched \<Rightarrow> ('w sched \<times> nat) option" where
  "oc_process_run thr k s = do {
     s \<leftarrow> (if poll_requested s then do_poll thr k s else Some s);
     s \<leftarrow> do_event thr k s;
     Some (s, oc_process_nevents s)
   }"

definition oc_process_poll :: "'w sched \<Rightarrow> addr \<Rightarrow> 'w sched" where
  "oc_process_poll s p =
     (if p \<noteq> NULL_PTR \<and> (state s p = OC_PROCESS_STATE_RUNNING \<or> state s p = OC_PROCESS_STATE_CALLED)
      then s\<lparr>needspoll := (needspoll s)(p := True), poll_requested := True\<rparr> else s)"

section \<open>Threads that leave the scheduler alone\<close>

text \<open>
  \<open>app f r\<close>: a thread changes the world by \<open>f\<close> and returns \<open>r\<close>.
\<close>

definition app :: "(addr \<Rightarrow> u8 \<Rightarrow> nat \<Rightarrow> 'w \<Rightarrow> 'w) \<Rightarrow> (addr \<Rightarrow> u8 \<Rightarrow> nat \<Rightarrow> 'w \<Rightarrow> pt_result) \<Rightarrow> 'w threads" where
  "app f r p e d s = (s\<lparr>world := f p e d (world s)\<rparr>, r p e d (world s))"

definition stays :: "pt_result \<Rightarrow> bool" where
  "stays ret \<longleftrightarrow> ret = PT_WAITING \<or> ret = PT_YIELDED"

text \<open>A process that takes events: running and with a thread.\<close>

definition ready :: "'w sched \<Rightarrow> addr \<Rightarrow> bool" where
  "ready s p \<longleftrightarrow> state s p = OC_PROCESS_STATE_RUNNING \<and> has_thread s p"

definition procs :: "'w sched \<Rightarrow> addr list \<Rightarrow> bool" where
  "procs s ps \<longleftrightarrow> path (pnext s) (oc_process_list s) ps \<and>
     (\<forall>p. state s p \<in> {OC_PROCESS_STATE_NONE, OC_PROCESS_STATE_RUNNING, OC_PROCESS_STATE_CALLED})"

definition deliver :: "(addr \<Rightarrow> u8 \<Rightarrow> nat \<Rightarrow> 'w \<Rightarrow> 'w) \<Rightarrow> u8 \<Rightarrow> nat \<Rightarrow> addr list \<Rightarrow> 'w \<Rightarrow> 'w" where
  "deliver f e d qs w = foldl (\<lambda>w q. f q e d w) w qs"

lemma deliver_simps [simp]: "deliver f e d [] w = w" "deliver f e d (q # qs) w = deliver f e d qs (f q e d w)"
  by (simp_all add: deliver_def)

section \<open>Calling a process\<close>

lemma call_ready:
  assumes "ready s p" and "stays (r p e d (world s))" and "e \<noteq> OC_PROCESS_EVENT_EXIT"
  shows "call_with x (app f r) s p e d =
     Some (s\<lparr>oc_process_current := p, world := f p e d (world s)\<rparr>)"
proof -
  have "(state s)(p := 1) = state s" using assms(1) by (auto simp: ready_def)
  then have "(state s)(p := 2, p := 1) = state s" by simp
  then show ?thesis
    using assms by (auto simp: call_with_def ready_def app_def stays_def set_state_def Let_def)
qed

lemma call_not_ready:
  "\<not> ready s p \<Longrightarrow> state s p \<in> {0, 1, 2} \<Longrightarrow> call_with x thr s p e d = Some s"
  by (auto simp: call_with_def ready_def)

section \<open>List walks\<close>

lemma find_process_path:
  "path next a ps \<Longrightarrow> find_process next p a = Some (if p \<in> set ps then p else NULL_PTR)"
proof (induction ps arbitrary: a)
  case Nil
  then show ?case by (subst find_process.simps) simp
next
  case (Cons q ps)
  then show ?case by (subst find_process.simps) auto
qed

lemma unlink_loop_path:
  assumes "path next a ps" and "p \<in> set ps" and "p \<noteq> a"
  shows "\<exists>nx. unlink_loop next p a = Some nx \<and> path nx a (remove1 p ps) \<and>
     (\<forall>x. x \<notin> set ps \<longrightarrow> nx x = next x)"
  using assms
proof (induction ps arbitrary: a)
  case (Cons q ps)
  have d: "q \<notin> set ps" "distinct ps" using path_distinct [OF Cons.prems(1)] by simp_all
  have q: "a = q" "q \<noteq> NULL_PTR" "path next (next q) ps" using Cons.prems(1) by auto
  have p: "p \<in> set ps" "p \<noteq> q" using Cons.prems q by auto
  show ?case
  proof (cases "next q = p")
    case True
    then obtain qs where ps: "ps = p # qs" using q(3) p by (cases ps) auto
    then have "path (next(q := next p)) (next p) qs" using q(3) d by simp
    then have "path (next(q := next p)) a (q # qs)" using q by (simp add: fun_upd_def)
    moreover have "unlink_loop next p a = Some (next(q := next p))"
      using True q by (subst unlink_loop.simps) simp
    ultimately show ?thesis using ps p by (intro exI [of _ "next(q := next p)"]) (auto simp: fun_upd_def)
  next
    case False
    obtain nx where nx: "unlink_loop next p (next q) = Some nx" "path nx (next q) (remove1 p ps)"
      "\<forall>x. x \<notin> set ps \<longrightarrow> nx x = next x"
      using Cons.IH [OF q(3) p(1)] False by auto
    have "unlink_loop next p a = Some nx" using False q nx(1) by (subst unlink_loop.simps) simp
    with nx q p d(1) show ?thesis by auto
  qed
qed simp

lemma unlink_procs:
  assumes "path (pnext s) (oc_process_list s) ps" and "p \<in> set ps"
  shows "\<exists>nx l. unlink s p = Some (s\<lparr>pnext := nx, oc_process_list := l\<rparr>) \<and> path nx l (remove1 p ps)"
proof (cases "p = oc_process_list s")
  case True
  then obtain qs where "ps = p # qs" using assms by (cases ps) auto
  with True assms have "path (pnext s) (pnext s p) (remove1 p ps)" by simp
  moreover have "unlink s p = Some (s\<lparr>pnext := pnext s, oc_process_list := pnext s p\<rparr>)"
    using True by (simp add: unlink_def)
  ultimately show ?thesis by blast
next
  case False
  then obtain nx where "unlink_loop (pnext s) p (oc_process_list s) = Some nx"
    "path nx (oc_process_list s) (remove1 p ps)"
    using unlink_loop_path [OF assms] by auto
  with False have "unlink s p = Some (s\<lparr>pnext := nx, oc_process_list := oc_process_list s\<rparr>)"
    by (simp add: unlink_def)
  with \<open>path nx (oc_process_list s) (remove1 p ps)\<close> show ?thesis by blast
qed

section \<open>Walks that deliver an event\<close>

lemma ready_update [simp]:
  "ready (s\<lparr>oc_process_current := c, world := w\<rparr>) q = ready s q"
  by (simp add: ready_def)

lemma tell_exited_walk:
  assumes "path (pnext s) q qs" and "length qs < k"
    and "\<And>x. state s x \<in> {0, 1, 2}" and "\<And>x w. stays (r x OC_PROCESS_EVENT_EXITED p w)"
  shows "\<exists>c. tell_exited (call_with x (app f r)) k s p q = Some (s\<lparr>oc_process_current := c,
     world := deliver f OC_PROCESS_EVENT_EXITED p (filter (\<lambda>y. y \<noteq> p \<and> ready s y) qs) (world s)\<rparr>)"
  using assms
proof (induction qs arbitrary: q k s)
  case Nil
  then obtain k' where "k = Suc k'" by (cases k) auto
  with Nil show ?case by (intro exI [of _ "oc_process_current s"]) simp
next
  case (Cons y qs)
  then obtain k' where k: "k = Suc k'" "length qs < k'" by (cases k) auto
  have y: "q = y" "y \<noteq> NULL_PTR" "path (pnext s) (pnext s y) qs" using Cons.prems(1) by auto
  show ?case
  proof (cases "y \<noteq> p \<and> ready s y")
    case True
    let ?s = "s\<lparr>oc_process_current := y, world := f y OC_PROCESS_EVENT_EXITED p (world s)\<rparr>"
    have "call_with x (app f r) s y OC_PROCESS_EVENT_EXITED p = Some ?s"
      using True Cons.prems(4) by (intro call_ready) simp_all
    moreover have "\<exists>c. tell_exited (call_with x (app f r)) k' ?s p (pnext s y) = Some (?s\<lparr>oc_process_current := c,
       world := deliver f OC_PROCESS_EVENT_EXITED p (filter (\<lambda>y. y \<noteq> p \<and> ready ?s y) qs) (world ?s)\<rparr>)"
      using Cons.prems(3,4) k(2) y(3) by (intro Cons.IH) simp_all
    ultimately show ?thesis using k(1) y(1,2) True by auto
  next
    case False
    have "(if p \<noteq> y then call_with x (app f r) s y OC_PROCESS_EVENT_EXITED p else Some s) = Some s"
      using False Cons.prems(3) [of y] by (auto intro: call_not_ready)
    moreover have "\<exists>c. tell_exited (call_with x (app f r)) k' s p (pnext s y) = Some (s\<lparr>oc_process_current := c,
       world := deliver f OC_PROCESS_EVENT_EXITED p (filter (\<lambda>y. y \<noteq> p \<and> ready s y) qs) (world s)\<rparr>)"
      using Cons.prems(3,4) k(2) y(3) by (intro Cons.IH)
    ultimately show ?thesis using k(1) y(1,2) False by auto
  qed
qed

lemma broadcast_walk:
  assumes "path (pnext s) q qs" and "length qs < k" and "\<And>x. state s x \<in> {0, 1, 2}"
    and "\<And>x w. stays (r x e d w)" and "e \<noteq> OC_PROCESS_EVENT_EXIT" and "\<not> poll_requested s"
  shows "\<exists>c. broadcast_loop (app f r) k s q e d = Some (s\<lparr>oc_process_current := c,
     world := deliver f e d (filter (ready s) qs) (world s)\<rparr>)"
  using assms
proof (induction qs arbitrary: q k s)
  case Nil
  then obtain k' where "k = Suc k'" by (cases k) auto
  with Nil show ?case by (intro exI [of _ "oc_process_current s"]) simp
next
  case (Cons y qs)
  then obtain k' where k: "k = Suc k'" "length qs < k'" by (cases k) auto
  have y: "q = y" "y \<noteq> NULL_PTR" "path (pnext s) (pnext s y) qs" using Cons.prems(1) by auto
  show ?case
  proof (cases "ready s y")
    case True
    let ?s = "s\<lparr>oc_process_current := y, world := f y e d (world s)\<rparr>"
    have "call_process (app f r) k' s y e d = Some ?s"
      unfolding call_process_def using True Cons.prems(4,5) by (intro call_ready) simp_all
    moreover have "\<exists>c. broadcast_loop (app f r) k' ?s (pnext s y) e d = Some (?s\<lparr>oc_process_current := c,
       world := deliver f e d (filter (ready ?s) qs) (world ?s)\<rparr>)"
      using Cons.prems(3-6) k(2) y(3) by (intro Cons.IH) simp_all
    ultimately show ?thesis using k(1) y(1,2) True Cons.prems(6) by (auto cong: filter_cong)
  next
    case False
    then have "call_process (app f r) k' s y e d = Some s"
      unfolding call_process_def using Cons.prems(3) by (intro call_not_ready)
    moreover have "\<exists>c. broadcast_loop (app f r) k' s (pnext s y) e d = Some (s\<lparr>oc_process_current := c,
       world := deliver f e d (filter (ready s) qs) (world s)\<rparr>)"
      using Cons.prems(3-6) k(2) y(3) by (intro Cons.IH)
    ultimately show ?thesis using k(1) y(1,2) False Cons.prems(6) by auto
  qed
qed

section \<open>Properties\<close>


definition two_procs :: "nat list sched" where
  "two_procs = \<lparr>ring = fst (oc_process_post (init_ring 10) \<lparr>ev = 0x90, data = 7, receiver = 0\<rparr>),
     lastevent = 0x8a, oc_process_list = 1, oc_process_current = 0,
     pnext = (\<lambda>x. if x = 1 then 2 else 0), state = (\<lambda>x. if x = 1 \<or> x = 2 then 1 else 0),
     has_thread = (\<lambda>x. True), needspoll = (\<lambda>x. False), pt = (\<lambda>x. 0), poll_requested = False, world = []\<rparr>"

definition logger :: "addr \<Rightarrow> u8 \<Rightarrow> nat \<Rightarrow> nat list \<Rightarrow> nat list" where
  "logger p e d w = w @ [p, d]"

lemma two_procs_ok: "procs two_procs [1, 2]" "ready two_procs 1" "ready two_procs 2"
  by (simp_all add: procs_def two_procs_def ready_def)


text \<open>Exiting a running process takes it off the process list, leaves it in state none,
  tells every other running process once, in list order, that it has exited, and hands the
  process itself the exit event unless it is the caller; the current process is restored.\<close>

theorem oc_process_exit_correct:
  assumes "procs s ps" and "p \<in> set ps" and "length ps < k" and "oc_process_is_running s p"
    and "\<forall>q w. stays (r q OC_PROCESS_EVENT_EXITED p w)"
  shows "\<exists>s'. oc_process_exit (app f r) (Suc k) s p = Some s' \<and> procs s' (remove1 p ps) \<and>
     state s' = (state s)(p := OC_PROCESS_STATE_NONE) \<and>
     oc_process_current s' = oc_process_current s \<and>
     world s' = (let w = deliver f OC_PROCESS_EVENT_EXITED p (filter (\<lambda>q. q \<noteq> p \<and> ready s q) ps) (world s)
       in if has_thread s p \<and> p \<noteq> oc_process_current s then f p OC_PROCESS_EVENT_EXIT 0 w else w)"
proof -
  let ?s = "set_state s p OC_PROCESS_STATE_NONE"
  let ?call = "call_with (exit_process (app f r) k) (app f r)"
  have path: "path (pnext s) (oc_process_list s) ps" and st: "\<And>x. state s x \<in> {0, 1, 2}"
    using assms(1) by (auto simp: procs_def)
  have nn: "p \<noteq> NULL_PTR" using path_nonnull [OF path] assms(2) by metis
  have "filter (\<lambda>y. y \<noteq> p \<and> ready ?s y) ps = filter (\<lambda>y. y \<noteq> p \<and> ready s y) ps"
    by (auto simp: ready_def set_state_def intro: filter_cong)
  moreover have st': "state ?s x \<in> {0, 1, 2}" for x using st [of x] by (simp add: set_state_def)
  ultimately obtain c where tell: "tell_exited ?call k ?s p (oc_process_list s) = Some (?s\<lparr>oc_process_current := c,
      world := deliver f OC_PROCESS_EVENT_EXITED p (filter (\<lambda>y. y \<noteq> p \<and> ready s y) ps) (world s)\<rparr>)"
    using tell_exited_walk [of ?s "oc_process_list s" ps k r p "exit_process (app f r) k" f, OF _ assms(3) st']
      path assms(5) by (auto simp: set_state_def)
  define w where "w = deliver f OC_PROCESS_EVENT_EXITED p (filter (\<lambda>y. y \<noteq> p \<and> ready s y) ps) (world s)"
  define s1 where "s1 = (if has_thread s p \<and> p \<noteq> oc_process_current s
      then ?s\<lparr>oc_process_current := p, world := f p OC_PROCESS_EVENT_EXIT 0 w\<rparr>
      else ?s\<lparr>oc_process_current := c, world := w\<rparr>)"
  have s1: "pnext s1 = pnext s" "oc_process_list s1 = oc_process_list s" "state s1 = state ?s"
    by (simp_all add: s1_def set_state_def)
  obtain nx l where un: "unlink s1 p = Some (s1\<lparr>pnext := nx, oc_process_list := l\<rparr>)" "path nx l (remove1 p ps)"
    using unlink_procs [of s1 ps p] path assms(2) s1 by auto
  have "oc_process_exit (app f r) (Suc k) s p =
      Some (s1\<lparr>pnext := nx, oc_process_list := l, oc_process_current := oc_process_current s\<rparr>)"
    using find_process_path [OF path, of p] assms(2,4) nn tell un(1)
    by (cases "has_thread s p \<and> p \<noteq> oc_process_current s")
      (auto simp: oc_process_exit_def exit_with_def Let_def w_def [symmetric] s1_def app_def set_state_def)
  then show ?thesis
    using un(2) s1 st by (auto simp: procs_def set_state_def s1_def w_def Let_def)
qed

theorem oc_process_exit_correct_witness:
  "\<exists>s'. oc_process_exit (app logger (\<lambda>p e d w. PT_YIELDED)) 4 two_procs 1 = Some s' \<and>
     procs s' [2] \<and> world s' = [2, 1, 1, 0]"
  using oc_process_exit_correct [OF two_procs_ok(1), of 1 3 "\<lambda>p e d w. PT_YIELDED" logger] two_procs_ok(2,3)
  by (auto simp: stays_def logger_def two_procs_def oc_process_is_running_def Let_def)

text \<open>Starting a process that is not on the list puts it at the front, running, with its
  protothread reset, and delivers the init event to it at once; starting it again does
  nothing.\<close>

theorem oc_process_start_correct:
  assumes "procs s ps" and "p \<noteq> NULL_PTR" and "stays (r p OC_PROCESS_EVENT_INIT d (world s))"
  shows "if p \<in> set ps then oc_process_start (app f r) k s p d = Some s
     else \<exists>s'. oc_process_start (app f r) k s p d = Some s' \<and> procs s' (p # ps) \<and>
       state s' = (state s)(p := OC_PROCESS_STATE_RUNNING) \<and> pt s' p = 0 \<and>
       oc_process_current s' = oc_process_current s \<and>
       world s' = (if has_thread s p then f p OC_PROCESS_EVENT_INIT d (world s) else world s)"
proof -
  have path: "path (pnext s) (oc_process_list s) ps" using assms(1) by (simp add: procs_def)
  note fp = find_process_path [OF path, of p]
  show ?thesis
  proof (cases "p \<in> set ps")
    case True
    then show ?thesis using fp by (simp add: oc_process_start_def)
  next
    case False
    let ?s = "s\<lparr>pnext := (pnext s)(p := oc_process_list s), oc_process_list := p,
      state := (state s)(p := 1), pt := (pt s)(p := 0)\<rparr>"
    have "procs ?s (p # ps)" using assms(1,2) False path by (auto simp: procs_def)
    moreover have "call_process (app f r) k ?s p OC_PROCESS_EVENT_INIT d =
        Some (if has_thread s p then ?s\<lparr>oc_process_current := p, world := f p OC_PROCESS_EVENT_INIT d (world s)\<rparr> else ?s)"
      using call_ready [of ?s p r OC_PROCESS_EVENT_INIT d] call_not_ready [of ?s p] assms(3)
      by (auto simp: call_process_def ready_def)
    ultimately show ?thesis
      using fp False assms(2)
      by (auto simp: oc_process_start_def oc_process_post_synch_def set_state_def Let_def procs_def)
  qed
qed

theorem oc_process_start_correct_witness:
  "\<exists>s'. oc_process_start (app logger (\<lambda>p e d w. PT_YIELDED)) 0 two_procs 3 5 = Some s' \<and>
     procs s' [3, 1, 2] \<and> world s' = [3, 5]"
  using oc_process_start_correct [OF two_procs_ok(1), of 3 "\<lambda>p e d w. PT_YIELDED" 5 logger 0]
  by (auto simp: stays_def logger_def two_procs_def)

end
