(* ===== verification/OC_Etimer.thy ===== *)
theory OC_Etimer
  imports OC_Process
begin

text \<open>
  Timers and event timers: \<open>src/util/oc_timer.c\<close> and \<open>src/util/oc_etimer.c\<close>. An event timer is
  a list element with a timer (start and interval, 64-bit clock ticks that wrap) and the process
  to notify; the process pointer is null once the timer has expired. The timer process scans
  the list when polled, posts a timer event for every expired timer and takes it off the list.
  The clock is a parameter \<open>now\<close> that is constant during one operation; the scheduler is the
  one of \<open>OC_Process\<close>. \<open>None\<close> stands for a list walk that does not end.
\<close>

type_synonym clock = u64

section \<open>Timers\<close>

record oc_timer =
  start :: clock
  interval :: clock

definition oc_timer_set :: "clock \<Rightarrow> oc_timer \<Rightarrow> clock \<Rightarrow> oc_timer" where
  "oc_timer_set now t iv = t\<lparr>interval := iv, start := now\<rparr>"

definition oc_timer_reset :: "oc_timer \<Rightarrow> oc_timer" where
  "oc_timer_reset t = t\<lparr>start := start t + interval t\<rparr>"

definition oc_timer_restart :: "clock \<Rightarrow> oc_timer \<Rightarrow> oc_timer" where
  "oc_timer_restart now t = t\<lparr>start := now\<rparr>"

definition oc_timer_expired :: "clock \<Rightarrow> oc_timer \<Rightarrow> bool" where
  "oc_timer_expired now t \<longleftrightarrow> (let diff = (now - start t) + 1 in interval t < diff)"

definition oc_timer_remaining :: "clock \<Rightarrow> oc_timer \<Rightarrow> clock" where
  "oc_timer_remaining now t = start t + interval t - now"

section \<open>Event timers\<close>

abbreviation (input) "OC_PROCESS_NONE \<equiv> NULL_PTR"
abbreviation (input) "OC_PROCESS_EVENT_TIMER \<equiv> 0x88 :: u8"

text \<open>The address of the timer process, a static object.\<close>

definition oc_etimer_process :: addr where
  "oc_etimer_process = 1"

record etimers =
  timerlist :: addr
  tnext :: "addr \<Rightarrow> addr"
  timer :: "addr \<Rightarrow> oc_timer"
  tproc :: "addr \<Rightarrow> addr"
  next_expiration :: clock
  sch :: "unit sched"

definition deadline :: "etimers \<Rightarrow> addr \<Rightarrow> clock" where
  "deadline s t = start (timer s t) + interval (timer s t)"

partial_function (option) min_dist :: "etimers \<Rightarrow> clock \<Rightarrow> addr \<Rightarrow> clock \<Rightarrow> clock option" where
  "min_dist s now t tdist =
     (if t \<noteq> NULL_PTR
      then min_dist s now (tnext s t) (if deadline s t - now < tdist then deadline s t - now else tdist)
      else Some tdist)"

definition update_time :: "clock \<Rightarrow> etimers \<Rightarrow> etimers option" where
  "update_time now s =
     (if timerlist s = NULL_PTR then Some (s\<lparr>next_expiration := 0\<rparr>)
      else do {
        let t = timerlist s;
        tdist \<leftarrow> min_dist s now (tnext s t) (deadline s t - now);
        Some (s\<lparr>next_expiration := now + tdist\<rparr>)
      })"

definition oc_etimer_pending :: "etimers \<Rightarrow> bool" where
  "oc_etimer_pending s \<longleftrightarrow> timerlist s \<noteq> NULL_PTR"

definition oc_etimer_next_expiration_time :: "etimers \<Rightarrow> clock" where
  "oc_etimer_next_expiration_time s = (if oc_etimer_pending s then next_expiration s else 0)"

definition oc_etimer_request_poll :: "etimers \<Rightarrow> etimers \<times> clock" where
  "oc_etimer_request_poll s =
     (let s = s\<lparr>sch := oc_process_poll (sch s) oc_etimer_process\<rparr>
      in (s, oc_etimer_next_expiration_time s))"

definition add_timer :: "clock \<Rightarrow> etimers \<Rightarrow> addr \<Rightarrow> etimers option" where
  "add_timer now s et = do {
     let s = fst (oc_etimer_request_poll s);
     found \<leftarrow> (if tproc s et \<noteq> OC_PROCESS_NONE then find_process (tnext s) et (timerlist s)
               else Some NULL_PTR);
     if tproc s et \<noteq> OC_PROCESS_NONE \<and> found = et \<and> et \<noteq> NULL_PTR
     then update_time now (s\<lparr>tproc := (tproc s)(et := oc_process_current (sch s))\<rparr>)
     else do {
       let s = s\<lparr>tproc := (tproc s)(et := oc_process_current (sch s))\<rparr>;
       let s = s\<lparr>tnext := (tnext s)(et := timerlist s)\<rparr>;
       let s = s\<lparr>timerlist := et\<rparr>;
       update_time now s
     }
   }"

definition set_timer :: "etimers \<Rightarrow> addr \<Rightarrow> oc_timer \<Rightarrow> etimers" where
  "set_timer s et t = s\<lparr>timer := (timer s)(et := t)\<rparr>"

definition oc_etimer_set :: "clock \<Rightarrow> etimers \<Rightarrow> addr \<Rightarrow> clock \<Rightarrow> etimers option" where
  "oc_etimer_set now s et iv = add_timer now (set_timer s et (oc_timer_set now (timer s et) iv)) et"

definition oc_etimer_reset_with_new_interval :: "clock \<Rightarrow> etimers \<Rightarrow> addr \<Rightarrow> clock \<Rightarrow> etimers option" where
  "oc_etimer_reset_with_new_interval now s et iv =
     add_timer now (set_timer s et ((oc_timer_reset (timer s et))\<lparr>interval := iv\<rparr>)) et"

definition oc_etimer_reset :: "clock \<Rightarrow> etimers \<Rightarrow> addr \<Rightarrow> etimers option" where
  "oc_etimer_reset now s et = add_timer now (set_timer s et (oc_timer_reset (timer s et))) et"

definition oc_etimer_restart :: "clock \<Rightarrow> etimers \<Rightarrow> addr \<Rightarrow> etimers option" where
  "oc_etimer_restart now s et = add_timer now (set_timer s et (oc_timer_restart now (timer s et))) et"

definition oc_etimer_adjust :: "clock \<Rightarrow> etimers \<Rightarrow> addr \<Rightarrow> int \<Rightarrow> etimers option" where
  "oc_etimer_adjust now s et timediff =
     update_time now (set_timer s et ((timer s et)\<lparr>start := start (timer s et) + of_int timediff\<rparr>))"

definition oc_etimer_expired :: "etimers \<Rightarrow> addr \<Rightarrow> bool" where
  "oc_etimer_expired s et \<longleftrightarrow> tproc s et = OC_PROCESS_NONE"

definition oc_etimer_expiration_time :: "etimers \<Rightarrow> addr \<Rightarrow> clock" where
  "oc_etimer_expiration_time s et = start (timer s et) + interval (timer s et)"

definition oc_etimer_start_time :: "etimers \<Rightarrow> addr \<Rightarrow> clock" where
  "oc_etimer_start_time s et = start (timer s et)"

text \<open>\<open>for (t = timerlist; t != NULL && t->next != et; t = t->next);\<close>\<close>

partial_function (option) find_before :: "(addr \<Rightarrow> addr) \<Rightarrow> addr \<Rightarrow> addr \<Rightarrow> addr option" where
  "find_before next et t = (if t \<noteq> NULL_PTR \<and> next t \<noteq> et then find_before next et (next t) else Some t)"

definition oc_etimer_stop :: "clock \<Rightarrow> etimers \<Rightarrow> addr \<Rightarrow> etimers option" where
  "oc_etimer_stop now s et = do {
     s \<leftarrow> (if et = timerlist s then update_time now (s\<lparr>timerlist := tnext s et\<rparr>)
           else do {
             t \<leftarrow> find_before (tnext s) et (timerlist s);
             if t \<noteq> NULL_PTR then update_time now (s\<lparr>tnext := (tnext s)(t := tnext s et)\<rparr>) else Some s
           });
     let s = s\<lparr>tnext := (tnext s)(et := NULL_PTR)\<rparr>;
     Some (s\<lparr>tproc := (tproc s)(et := OC_PROCESS_NONE)\<rparr>)
   }"

section \<open>The timer process\<close>

text \<open>On \<open>OC_PROCESS_EVENT_EXITED\<close>: drop the timers of the process that has exited.\<close>

partial_function (option) drop_first :: "etimers \<Rightarrow> addr \<Rightarrow> etimers option" where
  "drop_first s p =
     (if timerlist s \<noteq> NULL_PTR \<and> tproc s (timerlist s) = p
      then drop_first (s\<lparr>timerlist := tnext s (timerlist s)\<rparr>) p else Some s)"

partial_function (option) drop_rest :: "etimers \<Rightarrow> addr \<Rightarrow> addr \<Rightarrow> etimers option" where
  "drop_rest s p t =
     (if tnext s t \<noteq> NULL_PTR then
        if tproc s (tnext s t) = p
        then drop_rest (s\<lparr>tnext := (tnext s)(t := tnext s (tnext s t))\<rparr>) p t
        else drop_rest s p (tnext s t)
      else Some s)"

definition etimer_exited :: "etimers \<Rightarrow> addr \<Rightarrow> etimers option" where
  "etimer_exited s p = do {
     s \<leftarrow> drop_first s p;
     if timerlist s \<noteq> NULL_PTR then drop_rest s p (timerlist s) else Some s
   }"

text \<open>
  On \<open>OC_PROCESS_EVENT_POLL\<close>: the scan from \<open>again:\<close> on. \<open>u\<close> trails \<open>t\<close>; after an expired timer
  has been posted the scan starts over.
\<close>

definition timer_event :: "etimers \<Rightarrow> addr \<Rightarrow> event_data" where
  "timer_event s t = \<lparr>ev = OC_PROCESS_EVENT_TIMER, data = t, receiver = tproc s t\<rparr>"

partial_function (option) poll_scan :: "clock \<Rightarrow> etimers \<Rightarrow> addr \<Rightarrow> addr \<Rightarrow> etimers option" where
  "poll_scan now s u t =
     (if t \<noteq> NULL_PTR then
        if oc_timer_expired now (timer s t) then
          case oc_process_post (ring (sch s)) (timer_event s t) of (r, ret) \<Rightarrow>
            if ret = OC_PROCESS_ERR_OK then do {
              let s = s\<lparr>sch := (sch s)\<lparr>ring := r\<rparr>\<rparr>;
              let s = s\<lparr>tproc := (tproc s)(t := OC_PROCESS_NONE)\<rparr>;
              let s = (if u \<noteq> NULL_PTR then s\<lparr>tnext := (tnext s)(u := tnext s t)\<rparr>
                       else s\<lparr>timerlist := tnext s t\<rparr>);
              let s = s\<lparr>tnext := (tnext s)(t := NULL_PTR)\<rparr>;
              s \<leftarrow> update_time now s;
              poll_scan now s NULL_PTR (timerlist s)
            }
            else poll_scan now (fst (oc_etimer_request_poll s)) t (tnext s t)
        else poll_scan now s t (tnext s t)
      else Some s)"

definition oc_etimer_thread :: "clock \<Rightarrow> etimers \<Rightarrow> u8 \<Rightarrow> nat \<Rightarrow> etimers option" where
  "oc_etimer_thread now s e d =
     (if e = OC_PROCESS_EVENT_EXITED then etimer_exited s d
      else if e \<noteq> OC_PROCESS_EVENT_POLL then Some s
      else poll_scan now s NULL_PTR (timerlist s))"

declare min_dist.simps [code] find_before.simps [code] drop_first.simps [code] drop_rest.simps [code]
  poll_scan.simps [code]

section \<open>The list of timers\<close>

definition timers :: "etimers \<Rightarrow> addr list \<Rightarrow> bool" where
  "timers s ts \<longleftrightarrow> path (tnext s) (timerlist s) ts"

lemma min_dist_path:
  "path (tnext s) t ts \<Longrightarrow>
   min_dist s now t d = Some (Min (insert d ((\<lambda>x. deadline s x - now) ` set ts)))"
proof (induction ts arbitrary: t d)
  case Nil
  then show ?case by (subst min_dist.simps) simp
next
  case (Cons x ts)
  let ?f = "\<lambda>x. deadline s x - now"
  have "min_dist s now t d = Some (Min (insert (min (?f x) d) (?f ` set ts)))"
    using Cons by (subst min_dist.simps) (auto simp: min_def)
  moreover have "Min (insert (min (?f x) d) (?f ` set ts)) = Min (insert d (?f ` set (x # ts)))"
    by (cases "ts = []") (simp_all add: min.assoc min.commute min.left_commute)
  ultimately show ?case by simp
qed

lemma update_time_timers:
  "timers s ts \<Longrightarrow> update_time now s = Some (s\<lparr>next_expiration :=
     if ts = [] then 0 else now + Min ((\<lambda>x. deadline s x - now) ` set ts)\<rparr>)"
  by (cases ts) (auto simp: timers_def update_time_def min_dist_path Let_def)

lemma request_poll_fields [simp]:
  "timerlist (fst (oc_etimer_request_poll s)) = timerlist s"
  "tnext (fst (oc_etimer_request_poll s)) = tnext s" "timer (fst (oc_etimer_request_poll s)) = timer s"
  "tproc (fst (oc_etimer_request_poll s)) = tproc s"
  "ring (sch (fst (oc_etimer_request_poll s))) = ring (sch s)"
  "fst (oc_etimer_request_poll (fst (oc_etimer_request_poll s))) = fst (oc_etimer_request_poll s)"
  by (simp_all add: oc_etimer_request_poll_def Let_def oc_process_poll_def)

lemma oc_process_current_poll [simp]:
  "oc_process_current (sch (fst (oc_etimer_request_poll s))) = oc_process_current (sch s)"
  by (simp add: oc_etimer_request_poll_def Let_def oc_process_poll_def)

section \<open>The scan\<close>

lemma scan_skip:
  "path (tnext s) t (a @ rest) \<Longrightarrow> \<forall>x \<in> set a. \<not> oc_timer_expired now (timer s x) \<Longrightarrow>
   poll_scan now s u t = poll_scan now s (last (u # a)) (case rest of [] \<Rightarrow> NULL_PTR | x # xs \<Rightarrow> x)"
proof (induction a arbitrary: u t)
  case Nil
  then show ?case by (cases rest) auto
next
  case (Cons y a)
  have "poll_scan now s u t = poll_scan now s y (tnext s y)"
    using Cons.prems by (subst poll_scan.simps) simp
  also have "\<dots> = poll_scan now s (last (y # a)) (case rest of [] \<Rightarrow> NULL_PTR | x # xs \<Rightarrow> x)"
    using Cons by simp
  finally show ?case by simp
qed

lemma scan_end: "poll_scan now s u NULL_PTR = Some s"
  by (subst poll_scan.simps) simp

lemma scan_full:
  "path (tnext s) t ts \<Longrightarrow> nevents (ring (sch s)) = numevents (ring (sch s)) \<Longrightarrow>
   poll_scan now s u t =
     Some (if \<exists>x \<in> set ts. oc_timer_expired now (timer s x) then fst (oc_etimer_request_poll s) else s)"
proof (induction ts arbitrary: s u t)
  case Nil
  then show ?case by (simp add: scan_end)
next
  case (Cons x ts)
  have x: "t = x" "x \<noteq> NULL_PTR" "path (tnext s) (tnext s x) ts" using Cons.prems(1) by auto
  show ?case
  proof (cases "oc_timer_expired now (timer s x)")
    case True
    let ?s = "fst (oc_etimer_request_poll s)"
    have "poll_scan now s u t = poll_scan now ?s x (tnext s x)"
      using True x Cons.prems(2) by (subst poll_scan.simps) (simp add: oc_process_post_def)
    moreover have "poll_scan now ?s x (tnext s x) = Some ?s"
      using Cons.IH [of ?s "tnext s x" x] x(3) Cons.prems(2) by simp
    ultimately show ?thesis using True by simp
  next
    case False
    have "poll_scan now s u t = poll_scan now s x (tnext s x)"
      using False x by (subst poll_scan.simps) simp
    with False Cons.IH [OF x(3) Cons.prems(2)] show ?thesis by simp
  qed
qed

text \<open>Taking an element out of a list behind its predecessor.\<close>

lemma path_take_out:
  assumes "path next a (xs @ t # ys)"
  shows "if xs = [] then path (next(t := NULL_PTR)) (next t) ys
     else path (next(last xs := next t, t := NULL_PTR)) a (xs @ ys)"
  using assms
proof (induction xs arbitrary: a)
  case Nil
  then have "t \<notin> set ys" using path_distinct [of "next" a "t # ys"] by simp
  with Nil show ?case by simp
next
  case (Cons x xs)
  have d: "distinct (x # xs @ t # ys)" using path_distinct [OF Cons.prems] by simp
  have x: "a = x" "x \<noteq> NULL_PTR" "path next (next x) (xs @ t # ys)" using Cons.prems by auto
  show ?case
  proof (cases "xs = []")
    case True
    with x have "next x = t" "path next (next t) ys" by auto
    then have "path (next(x := next t, t := NULL_PTR)) (next t) ys" using d True by simp
    with True x d show ?thesis by (auto simp: fun_upd_def)
  next
    case False
    have "x \<noteq> last xs" "x \<noteq> t" using d False by auto
    with Cons.IH [OF x(3)] False x show ?thesis by (auto simp: fun_upd_def)
  qed
qed

text \<open>One expired timer is posted: the scan continues from the start of the shorter list.\<close>

lemma scan_post:
  assumes ts: "timers s (a @ t # b)" and a: "\<forall>x \<in> set a. \<not> oc_timer_expired now (timer s x)"
    and exp: "oc_timer_expired now (timer s t)" and ok: "ring_ok (ring (sch s))"
    and room: "nevents (ring (sch s)) < numevents (ring (sch s))"
  obtains s' where "poll_scan now s NULL_PTR (timerlist s) = poll_scan now s' NULL_PTR (timerlist s')"
    and "timers s' (a @ b)" and "timer s' = timer s" and "tproc s' = (tproc s)(t := OC_PROCESS_NONE)"
    and "ring (sch s') = put_event (ring (sch s)) (timer_event s t)"
    and "sch s' = (sch s)\<lparr>ring := put_event (ring (sch s)) (timer_event s t)\<rparr>"
proof -
  have p: "path (tnext s) (timerlist s) (a @ t # b)" using ts by (simp add: timers_def)
  have "NULL_PTR \<notin> set (a @ t # b)" by (rule path_nonnull [OF p])
  then have nn: "t \<noteq> NULL_PTR" "a \<noteq> [] \<Longrightarrow> last a \<noteq> NULL_PTR"
    using last_in_set [of a] by (fastforce, metis Un_iff set_append)
  have dist: "distinct (a @ t # b)" by (rule path_distinct [OF p])
  define r where "r = put_event (ring (sch s)) (timer_event s t)"
  define s1 where "s1 = (let s = s\<lparr>sch := (sch s)\<lparr>ring := r\<rparr>, tproc := (tproc s)(t := OC_PROCESS_NONE)\<rparr>;
      s = (if a \<noteq> [] then s\<lparr>tnext := (tnext s)(last a := tnext s t)\<rparr> else s\<lparr>timerlist := tnext s t\<rparr>)
      in s\<lparr>tnext := (tnext s)(t := NULL_PTR)\<rparr>)"
  have t1: "timers s1 (a @ b)"
    using path_take_out [OF p] by (auto simp: timers_def s1_def Let_def)
  define s2 where "s2 = s1\<lparr>next_expiration :=
      if a @ b = [] then 0 else now + Min ((\<lambda>x. deadline s1 x - now) ` set (a @ b))\<rparr>"
  have ut: "update_time now s1 = Some s2" unfolding s2_def by (rule update_time_timers [OF t1])
  have post: "oc_process_post (ring (sch s)) (timer_event s t) = (r, OC_PROCESS_ERR_OK)"
    using room by (simp add: oc_process_post_def r_def)
  have "poll_scan now s NULL_PTR (timerlist s) = poll_scan now s (last (NULL_PTR # a)) t"
    using scan_skip [OF p a, of NULL_PTR] by simp
  also have "\<dots> = poll_scan now s2 NULL_PTR (timerlist s2)"
  proof -
    have "(if last (NULL_PTR # a) \<noteq> NULL_PTR then f else g) = (if a \<noteq> [] then f else g)" for f g :: etimers
      using nn(2) by auto
    then show ?thesis
      using nn(1) exp post ut by (subst poll_scan.simps) (simp add: s1_def Let_def cong: if_cong)
  qed
  finally show ?thesis
    by (rule that) (use t1 in \<open>auto simp: s2_def s1_def Let_def timers_def r_def\<close>)
qed

lemma first_split:
  "filter P xs = y # ys \<Longrightarrow> \<exists>a b. xs = a @ y # b \<and> (\<forall>x \<in> set a. \<not> P x) \<and> P y \<and> filter P b = ys"
  by (metis (no_types, lifting) filter_eq_ConsD)

lemma scan_result:
  assumes "timers s ts" and "ring_ok (ring (sch s))"
    and "room = numevents (ring (sch s)) - nevents (ring (sch s))"
    and "es = filter (\<lambda>t. oc_timer_expired now (timer s t)) ts"
  shows "\<exists>s'. poll_scan now s NULL_PTR (timerlist s) = Some s' \<and>
     timers s' (filter (\<lambda>t. t \<notin> set (take room es)) ts) \<and> ring_ok (ring (sch s')) \<and>
     queue (ring (sch s')) = queue (ring (sch s)) @ map (timer_event s) (take room es) \<and>
     tproc s' = (\<lambda>t. if t \<in> set (take room es) then OC_PROCESS_NONE else tproc s t) \<and>
     timer s' = timer s \<and>
     (room < length es \<longrightarrow> (\<exists>s0. state (sch s0) = state (sch s) \<and> sch s' = sch (fst (oc_etimer_request_poll s0))))"
  using assms
proof (induction es arbitrary: s ts room)
  case Nil
  have "\<forall>x \<in> set ts. \<not> oc_timer_expired now (timer s x)"
    using Nil.prems(4) by (simp add: filter_empty_conv eq_commute [of "[]"])
  then have "poll_scan now s NULL_PTR (timerlist s) = Some s"
    using scan_skip [of s "timerlist s" ts "[]" now NULL_PTR] Nil.prems(1) scan_end
    by (simp add: timers_def)
  with Nil show ?case by (intro exI [of _ s]) auto
next
  case (Cons t es)
  have p: "path (tnext s) (timerlist s) ts" using Cons.prems(1) by (simp add: timers_def)
  show ?case
  proof (cases room)
    case 0
    then have "nevents (ring (sch s)) = numevents (ring (sch s))"
      using Cons.prems(2,3) by (simp add: ring_ok_def)
    moreover have "\<exists>x \<in> set ts. oc_timer_expired now (timer s x)"
      using Cons.prems(4) by (metis (mono_tags, lifting) filter_eq_Cons_iff in_set_conv_decomp)
    ultimately have "poll_scan now s NULL_PTR (timerlist s) = Some (fst (oc_etimer_request_poll s))"
      using scan_full [OF p] by simp
    with 0 Cons.prems(1,2) show ?thesis
      by (intro exI [of _ "fst (oc_etimer_request_poll s)"]) (auto simp: timers_def)
  next
    case (Suc room')
    obtain a b where ts: "ts = a @ t # b" "\<forall>x \<in> set a. \<not> oc_timer_expired now (timer s x)"
      "oc_timer_expired now (timer s t)" "filter (\<lambda>t. oc_timer_expired now (timer s t)) b = es"
      using first_split [OF Cons.prems(4) [symmetric]] by blast
    have dist: "distinct (a @ t # b)" using path_distinct [OF p] ts(1) by simp
    have nt: "t \<notin> set es" using dist ts(4) by auto
    obtain s1 where s1: "poll_scan now s NULL_PTR (timerlist s) = poll_scan now s1 NULL_PTR (timerlist s1)"
      "timers s1 (a @ b)" "timer s1 = timer s" "tproc s1 = (tproc s)(t := OC_PROCESS_NONE)"
      "ring (sch s1) = put_event (ring (sch s)) (timer_event s t)"
      "sch s1 = (sch s)\<lparr>ring := put_event (ring (sch s)) (timer_event s t)\<rparr>"
      using scan_post [of s a t b now] ts Cons.prems(1-3) Suc by (metis zero_less_Suc zero_less_diff)
    have room: "nevents (ring (sch s)) < numevents (ring (sch s))" using Cons.prems(3) Suc by simp
    have q: "queue (ring (sch s1)) = queue (ring (sch s)) @ [timer_event s t]" "ring_ok (ring (sch s1))"
      using put_event_queue [OF Cons.prems(2) room] s1(5) by simp_all
    have room': "room' = numevents (ring (sch s1)) - nevents (ring (sch s1))"
      using Cons.prems(3) Suc s1(5) by (simp add: put_event_def Let_def)
    have es: "es = filter (\<lambda>t. oc_timer_expired now (timer s1 t)) (a @ b)"
      using ts(2,4) s1(3) by simp
    obtain s' where s': "poll_scan now s1 NULL_PTR (timerlist s1) = Some s'"
      "timers s' (filter (\<lambda>t. t \<notin> set (take room' es)) (a @ b))" "ring_ok (ring (sch s'))"
      "queue (ring (sch s')) = queue (ring (sch s1)) @ map (timer_event s1) (take room' es)"
      "tproc s' = (\<lambda>t. if t \<in> set (take room' es) then OC_PROCESS_NONE else tproc s1 t)"
      "timer s' = timer s1"
      "room' < length es \<longrightarrow> (\<exists>s0. state (sch s0) = state (sch s1) \<and> sch s' = sch (fst (oc_etimer_request_poll s0)))"
      using Cons.IH [OF s1(2) q(2) room' es] by blast
    have drop: "filter (\<lambda>x. x \<noteq> t \<and> P x) xs = filter P xs" if "t \<notin> set xs" for P xs
      using that by (intro filter_cong) auto
    have "filter (\<lambda>x. x \<notin> set (take room (t # es))) ts = filter (\<lambda>t. t \<notin> set (take room' es)) (a @ b)"
      using ts(1) dist Suc drop by simp
    moreover have "map (timer_event s1) (take room' es) = map (timer_event s) (take room' es)"
      using nt s1(4) by (auto simp: timer_event_def dest: in_set_takeD)
    moreover have "state (sch s1) = state (sch s)" using s1(6) by simp
    ultimately show ?thesis
      using s' s1(1,3,4) q(1) Suc by (intro exI [of _ s']) (auto simp: fun_eq_iff)
  qed
qed

section \<open>Adding, stopping, exiting\<close>

text \<open>
  Between operations a timer that is on the list has a process, and a timer with a process is
  on the list.
\<close>

definition etimers_ok :: "etimers \<Rightarrow> addr list \<Rightarrow> bool" where
  "etimers_ok s ts \<longleftrightarrow> timers s ts \<and> (\<forall>t \<in> set ts. tproc s t \<noteq> OC_PROCESS_NONE)"

lemma update_time_ok:
  assumes "timers s ts"
  obtains s' where "update_time now s = Some s'" and "s' = s\<lparr>next_expiration := next_expiration s'\<rparr>"
    and "ts \<noteq> [] \<Longrightarrow> next_expiration s' = now + Min ((\<lambda>x. deadline s x - now) ` set ts)"
  using update_time_timers [OF assms, of now] that by fastforce

lemma add_timer_ok:
  assumes ok: "etimers_ok s ts" and et: "et \<noteq> NULL_PTR" and cur: "oc_process_current (sch s) \<noteq> OC_PROCESS_NONE"
  defines "ts' \<equiv> (if et \<in> set ts then ts else et # ts)"
  obtains s' where "add_timer now s et = Some s'" and "etimers_ok s' ts'"
    and "tproc s' = (tproc s)(et := oc_process_current (sch s))" and "timer s' = timer s"
    and "next_expiration s' = now + Min ((\<lambda>x. deadline s x - now) ` set ts')"
proof -
  let ?r = "fst (oc_etimer_request_poll s)"
  have p: "path (tnext s) (timerlist s) ts" and pr: "\<forall>t \<in> set ts. tproc s t \<noteq> OC_PROCESS_NONE"
    using ok by (auto simp: etimers_ok_def timers_def)
  define s1 where "s1 = (let s = ?r\<lparr>tproc := (tproc s)(et := oc_process_current (sch s))\<rparr>
      in if et \<in> set ts then s else s\<lparr>tnext := (tnext s)(et := timerlist s), timerlist := et\<rparr>)"
  have t1: "timers s1 ts'"
    using p et by (auto simp: timers_def s1_def ts'_def Let_def)
  have "add_timer now s et = update_time now s1"
    using find_process_path [OF p, of et] pr et
    by (auto simp: add_timer_def s1_def Let_def)
  moreover obtain s' where s': "update_time now s1 = Some s'" "s' = s1\<lparr>next_expiration := next_expiration s'\<rparr>"
    "next_expiration s' = now + Min ((\<lambda>x. deadline s1 x - now) ` set ts')"
    using update_time_ok [OF t1, of now] by (metis list.distinct(1) ts'_def empty_iff list.set(1))
  moreover have "deadline s1 = deadline s" by (auto simp: deadline_def s1_def Let_def)
  moreover have "etimers_ok s' ts' \<and> tproc s' = (tproc s)(et := oc_process_current (sch s)) \<and> timer s' = timer s"
    by (subst s'(2), subst s'(2), subst s'(2))
      (use t1 pr cur in \<open>auto simp: etimers_ok_def timers_def s1_def ts'_def Let_def\<close>)
  ultimately show ?thesis using that by metis
qed

lemma find_before_path:
  assumes "path next a (xs @ et # ys)" and "xs \<noteq> []"
  shows "find_before next et a = Some (last xs)"
  using assms
proof (induction xs arbitrary: a)
  case (Cons x xs)
  show ?case
  proof (cases "xs = []")
    case True
    with Cons.prems show ?thesis by (subst find_before.simps) auto
  next
    case False
    then have "next x \<noteq> et" using Cons.prems path_distinct [OF Cons.prems(1)] by (cases xs) auto
    with False Cons show ?thesis by (subst find_before.simps) auto
  qed
qed simp

lemma find_before_absent:
  "path next a xs \<Longrightarrow> et \<notin> set xs \<Longrightarrow> et \<noteq> NULL_PTR \<Longrightarrow> find_before next et a = Some NULL_PTR"
proof (induction xs arbitrary: a)
  case Nil
  then show ?case by (subst find_before.simps) simp
next
  case (Cons x xs)
  moreover have "next x \<noteq> et" using Cons.prems by (cases xs) auto
  ultimately show ?case by (subst find_before.simps) auto
qed

lemma oc_etimer_stop_ok:
  assumes ok: "etimers_ok s ts" and et: "et \<noteq> NULL_PTR"
  obtains s' where "oc_etimer_stop now s et = Some s'" and "etimers_ok s' (remove1 et ts)"
    and "oc_etimer_expired s' et" and "\<And>t. t \<noteq> et \<Longrightarrow> tproc s' t = tproc s t" and "timer s' = timer s"
proof -
  have p: "path (tnext s) (timerlist s) ts" and pr: "\<forall>t \<in> set ts. tproc s t \<noteq> OC_PROCESS_NONE"
    using ok by (auto simp: etimers_ok_def timers_def)
  have dist: "distinct ts" by (rule path_distinct [OF p])
  have "\<exists>s1. oc_etimer_stop now s et = Some (s1\<lparr>tnext := (tnext s1)(et := NULL_PTR), tproc := (tproc s1)(et := OC_PROCESS_NONE)\<rparr>) \<and>
      path ((tnext s1)(et := NULL_PTR)) (timerlist s1) (remove1 et ts) \<and> tproc s1 = tproc s \<and> timer s1 = timer s"
  proof (cases "et \<in> set ts")
    case False
    then have "et \<noteq> timerlist s" using p et by (cases ts) auto
    with False p et show ?thesis
      by (intro exI [of _ s]) (simp add: oc_etimer_stop_def find_before_absent remove1_idem)
  next
    case True
    then obtain xs ys where ts: "ts = xs @ et # ys" "et \<notin> set xs" using split_list_first by metis
    have rm: "remove1 et ts = xs @ ys" using ts by (simp add: remove1_append)
    note out = path_take_out [OF p [unfolded ts(1)]]
    define s0 where "s0 = (if xs = [] then s\<lparr>timerlist := tnext s et\<rparr>
        else s\<lparr>tnext := (tnext s)(last xs := tnext s et)\<rparr>)"
    have nf: "et \<notin> set ys" using dist ts by simp
    have "timers s0 (xs @ ys)"
      using out nf ts(2) by (auto simp: timers_def s0_def split: if_splits)
    then obtain s1 where s1: "update_time now s0 = Some s1" "s1 = s0\<lparr>next_expiration := next_expiration s1\<rparr>"
      by (rule update_time_ok)
    have hd: "et = timerlist s \<longleftrightarrow> xs = []" using p ts by (cases xs) auto
    have "xs \<noteq> [] \<Longrightarrow> last xs \<noteq> NULL_PTR" using path_nonnull [OF p] ts(1) by (metis Un_iff last_in_set set_append)
    then have "oc_etimer_stop now s et = Some (s1\<lparr>tnext := (tnext s1)(et := NULL_PTR), tproc := (tproc s1)(et := OC_PROCESS_NONE)\<rparr>)"
      using hd find_before_path [OF p [unfolded ts(1)]] s1(1)
      by (cases "xs = []") (simp_all add: oc_etimer_stop_def s0_def Let_def)
    moreover have "tnext s1 = tnext s0" "timerlist s1 = timerlist s0" "tproc s1 = tproc s" "timer s1 = timer s"
      by (subst s1(2), simp add: s0_def)+
    ultimately show ?thesis using out rm by (intro exI [of _ s1]) (auto simp: s0_def)
  qed
  then obtain s1 where s1: "oc_etimer_stop now s et = Some (s1\<lparr>tnext := (tnext s1)(et := NULL_PTR), tproc := (tproc s1)(et := OC_PROCESS_NONE)\<rparr>)"
      "path ((tnext s1)(et := NULL_PTR)) (timerlist s1) (remove1 et ts)" "tproc s1 = tproc s" "timer s1 = timer s"
    by blast
  show ?thesis
    by (rule that [OF s1(1)]) (use s1(2-4) pr dist in \<open>auto simp: etimers_ok_def timers_def oc_etimer_expired_def\<close>)
qed

lemma drop_first_path:
  "path (tnext s) (timerlist s) ts \<Longrightarrow> \<exists>l. drop_first s p = Some (s\<lparr>timerlist := l\<rparr>) \<and>
     path (tnext s) l (dropWhile (\<lambda>t. tproc s t = p) ts)"
proof (induction ts arbitrary: s)
  case Nil
  then show ?case by (subst drop_first.simps) (auto intro: exI [of _ 0])
next
  case (Cons t ts)
  show ?case
  proof (cases "tproc s t = p")
    case True
    let ?s = "s\<lparr>timerlist := tnext s t\<rparr>"
    obtain l where "drop_first ?s p = Some (?s\<lparr>timerlist := l\<rparr>)"
      "path (tnext s) l (dropWhile (\<lambda>t. tproc s t = p) ts)"
      using Cons.IH [of ?s] Cons.prems by auto
    with True Cons.prems show ?thesis by (subst drop_first.simps) auto
  next
    case False
    with Cons.prems have "drop_first s p = Some (s\<lparr>timerlist := timerlist s\<rparr>)"
      by (subst drop_first.simps) auto
    with False Cons.prems show ?thesis by (intro exI [of _ "timerlist s"]) auto
  qed
qed

lemma drop_rest_path:
  "path (tnext s) t (t # xs) \<Longrightarrow> \<exists>nx. drop_rest s p t = Some (s\<lparr>tnext := nx\<rparr>) \<and>
     path nx t (t # filter (\<lambda>x. tproc s x \<noteq> p) xs) \<and> (\<forall>x. x \<notin> set (t # xs) \<longrightarrow> nx x = tnext s x)"
proof (induction xs arbitrary: s t)
  case Nil
  then have "drop_rest s p t = Some (s\<lparr>tnext := tnext s\<rparr>)" by (subst drop_rest.simps) simp
  with Nil show ?case by (intro exI [of _ "tnext s"]) auto
next
  case (Cons y xs)
  have d: "t \<noteq> y" "t \<notin> set xs" "y \<notin> set xs" using path_distinct [OF Cons.prems] by auto
  have y: "tnext s t = y" "y \<noteq> NULL_PTR" "path (tnext s) y (y # xs)" "t \<noteq> NULL_PTR" using Cons.prems by auto
  show ?case
  proof (cases "tproc s y = p")
    case True
    let ?s = "s\<lparr>tnext := (tnext s)(t := tnext s y)\<rparr>"
    have "path (tnext ?s) t (t # xs)" using y d by (simp add: fun_upd_def) (use path_upd in \<open>simp add: fun_upd_def\<close>)
    from Cons.IH [OF this] obtain nx where nx: "drop_rest ?s p t = Some (?s\<lparr>tnext := nx\<rparr>)"
      "path nx t (t # filter (\<lambda>x. tproc s x \<noteq> p) xs)" "\<forall>x. x \<notin> set (t # xs) \<longrightarrow> nx x = tnext ?s x"
      by auto
    have "drop_rest s p t = drop_rest ?s p t" using True y by (subst drop_rest.simps) simp
    with True nx show ?thesis by auto
  next
    case False
    obtain nx where nx: "drop_rest s p y = Some (s\<lparr>tnext := nx\<rparr>)"
      "path nx y (y # filter (\<lambda>x. tproc s x \<noteq> p) xs)" "\<forall>x. x \<notin> set (y # xs) \<longrightarrow> nx x = tnext s x"
      using Cons.IH [OF y(3)] by auto
    have "drop_rest s p t = drop_rest s p y" using False y by (subst drop_rest.simps) simp
    with False nx y d show ?thesis by auto
  qed
qed

lemma etimer_exited_ok:
  assumes "etimers_ok s ts"
  shows "\<exists>s'. etimer_exited s p = Some s' \<and> etimers_ok s' (filter (\<lambda>t. tproc s t \<noteq> p) ts) \<and>
     tproc s' = tproc s \<and> timer s' = timer s"
proof -
  obtain l where l: "drop_first s p = Some (s\<lparr>timerlist := l\<rparr>)"
    "path (tnext s) l (dropWhile (\<lambda>t. tproc s t = p) ts)"
    using drop_first_path [of s ts p] assms by (auto simp: etimers_ok_def timers_def)
  have pr: "\<forall>t \<in> set ts. tproc s t \<noteq> OC_PROCESS_NONE" using assms by (simp add: etimers_ok_def)
  have f: "filter (\<lambda>t. tproc s t \<noteq> p) ts = filter (\<lambda>t. tproc s t \<noteq> p) (dropWhile (\<lambda>t. tproc s t = p) ts)"
    by (induction ts) auto
  show ?thesis
  proof (cases "dropWhile (\<lambda>t. tproc s t = p) ts")
    case Nil
    with l f pr show ?thesis by (auto simp: etimer_exited_def etimers_ok_def timers_def)
  next
    case (Cons t xs)
    then have t: "l = t" "t \<noteq> NULL_PTR" "path (tnext s) t (t # xs)" using l(2) by auto
    have "tproc s t \<noteq> p" using Cons by (metis (mono_tags, lifting) hd_dropWhile list.distinct(1) list.sel(1))
    moreover obtain nx where "drop_rest (s\<lparr>timerlist := l\<rparr>) p t = Some (s\<lparr>timerlist := l, tnext := nx\<rparr>)"
      "path nx t (t # filter (\<lambda>x. tproc s x \<noteq> p) xs)"
      using drop_rest_path [of "s\<lparr>timerlist := l\<rparr>" t xs p] t by auto
    moreover have "\<forall>x \<in> set (t # xs). tproc s x \<noteq> OC_PROCESS_NONE"
      using pr Cons by (metis set_dropWhileD)
    ultimately show ?thesis using l(1) t f Cons
      by (auto simp: etimer_exited_def etimers_ok_def timers_def)
  qed
qed

section \<open>Properties\<close>

text \<open>C17: When the timer process is polled it posts one timer event for each expired timer, in
  list order, as far as the event queue has room; the timers posted are marked expired and leave
  the list, all others stay, and if some expired timer could not be posted the process asks to be
  polled again. The scan, which starts over after every post, ends.\<close>

theorem oc_etimer_poll_correct:
  fixes now :: clock
  assumes "timers s ts" and "ring_ok (ring (sch s))"
  defines "es \<equiv> filter (\<lambda>t. oc_timer_expired now (timer s t)) ts"
  defines "posted \<equiv> take (numevents (ring (sch s)) - nevents (ring (sch s))) es"
  shows "\<exists>s'. oc_etimer_thread now s OC_PROCESS_EVENT_POLL d = Some s' \<and>
     timers s' (filter (\<lambda>t. t \<notin> set posted) ts) \<and>
     queue (ring (sch s')) = queue (ring (sch s)) @ map (timer_event s) posted \<and>
     (\<forall>t. oc_etimer_expired s' t \<longleftrightarrow> t \<in> set posted \<or> oc_etimer_expired s t) \<and>
     (length posted < length es \<longrightarrow> state (sch s) oc_etimer_process = OC_PROCESS_STATE_RUNNING \<longrightarrow>
        poll_requested (sch s'))"
proof -
  obtain s' where s': "poll_scan now s NULL_PTR (timerlist s) = Some s'"
    "timers s' (filter (\<lambda>t. t \<notin> set posted) ts)"
    "queue (ring (sch s')) = queue (ring (sch s)) @ map (timer_event s) posted"
    "tproc s' = (\<lambda>t. if t \<in> set posted then OC_PROCESS_NONE else tproc s t)"
    "numevents (ring (sch s)) - nevents (ring (sch s)) < length es \<longrightarrow>
       (\<exists>s0. state (sch s0) = state (sch s) \<and> sch s' = sch (fst (oc_etimer_request_poll s0)))"
    unfolding posted_def es_def using scan_result [OF assms(1,2) refl refl, of now] by blast
  have "poll_requested (sch s')"
    if less: "length posted < length es"
      and run: "state (sch s) oc_etimer_process = OC_PROCESS_STATE_RUNNING"
  proof -
    obtain s0 where "state (sch s0) = state (sch s)" "sch s' = sch (fst (oc_etimer_request_poll s0))"
      using less s'(5) by (auto simp: posted_def)
    with run show ?thesis
      by (simp add: oc_etimer_request_poll_def Let_def oc_process_poll_def oc_etimer_process_def)
  qed
  with s'(1-4) show ?thesis by (auto simp: oc_etimer_thread_def oc_etimer_expired_def)
qed

definition two_timers :: etimers where
  "two_timers = \<lparr>timerlist = 10, tnext = (\<lambda>x. if x = 10 then 20 else 0),
     timer = (\<lambda>x. \<lparr>start = 100, interval = (if x = 10 then 50 else 5)\<rparr>), tproc = (\<lambda>x. 3),
     next_expiration = 105,
     sch = \<lparr>ring = init_ring 10, lastevent = 0x8a, oc_process_list = 1, oc_process_current = 3,
       pnext = (\<lambda>x. 0), state = (\<lambda>x. 1), has_thread = (\<lambda>x. True), needspoll = (\<lambda>x. False),
       pt = (\<lambda>x. 0), poll_requested = False, world = ()\<rparr>\<rparr>"

lemma two_timers_ok: "etimers_ok two_timers [10, 20]" "ring_ok (ring (sch two_timers))"
  by (simp_all add: two_timers_def etimers_ok_def timers_def ring_ok_def init_ring_def)

theorem oc_etimer_poll_correct_witness:
  "\<exists>s'. oc_etimer_thread 110 two_timers OC_PROCESS_EVENT_POLL 0 = Some s' \<and> timers s' [10] \<and>
     queue (ring (sch s')) = [\<lparr>ev = 0x88, data = 20, receiver = 3\<rparr>] \<and> oc_etimer_expired s' 20"
proof -
  have ts: "timers two_timers [10, 20]" using two_timers_ok(1) by (simp add: etimers_ok_def)
  have f: "filter (\<lambda>t. oc_timer_expired 110 (timer two_timers t)) [10, 20] = [20]"
    by (simp add: two_timers_def oc_timer_expired_def)
  have "queue (ring (sch two_timers)) = []" "numevents (ring (sch two_timers)) - nevents (ring (sch two_timers)) = 10"
    by (simp_all add: two_timers_def queue_def init_ring_def)
  then show ?thesis
    using oc_etimer_poll_correct [OF ts two_timers_ok(2), of 110 0] unfolding f
    by (auto simp: timer_event_def two_timers_def)
qed

text \<open>Setting an event timer from a process puts it on the list once, whether it was there
  before or not, with the calling process to be notified and the deadline now plus interval, and
  the next expiration time becomes the earliest deadline, counted from now with wrap-around.\<close>

theorem oc_etimer_set_correct:
  assumes "etimers_ok s ts" and "et \<noteq> NULL_PTR" and "oc_process_current (sch s) \<noteq> OC_PROCESS_NONE"
  shows "\<exists>s' ts'. oc_etimer_set now s et iv = Some s' \<and> etimers_ok s' ts' \<and>
     set ts' = insert et (set ts) \<and> tproc s' et = oc_process_current (sch s) \<and>
     oc_etimer_expiration_time s' et = now + iv \<and>
     (\<forall>t. t \<noteq> et \<longrightarrow> timer s' t = timer s t \<and> tproc s' t = tproc s t) \<and>
     oc_etimer_next_expiration_time s' = now + Min ((\<lambda>t. oc_etimer_expiration_time s' t - now) ` set ts')"
proof -
  let ?s = "set_timer s et (oc_timer_set now (timer s et) iv)"
  have ok: "etimers_ok ?s ts" using assms(1) by (simp add: etimers_ok_def timers_def set_timer_def)
  define ts' where "ts' = (if et \<in> set ts then ts else et # ts)"
  obtain s' where s': "add_timer now ?s et = Some s'" "etimers_ok s' ts'"
    "tproc s' = (tproc ?s)(et := oc_process_current (sch ?s))" "timer s' = timer ?s"
    "next_expiration s' = now + Min ((\<lambda>x. deadline ?s x - now) ` set ts')"
    unfolding ts'_def using add_timer_ok [OF ok assms(2), of now] assms(3) by (auto simp: set_timer_def)
  have "deadline ?s = oc_etimer_expiration_time s'"
    using s'(4) by (auto simp: deadline_def oc_etimer_expiration_time_def)
  moreover have "oc_etimer_pending s'"
    using s'(2) assms(2) by (cases ts') (auto simp: oc_etimer_pending_def etimers_ok_def timers_def ts'_def split: if_splits)
  moreover have "set ts' = insert et (set ts)" by (auto simp: ts'_def)
  ultimately show ?thesis
    using s' by (intro exI [of _ s'] exI [of _ ts'])
      (auto simp: oc_etimer_set_def oc_etimer_next_expiration_time_def oc_etimer_expiration_time_def
        set_timer_def oc_timer_set_def)
qed

theorem oc_etimer_set_correct_witness:
  "\<exists>s' ts'. oc_etimer_set 110 two_timers 30 1000 = Some s' \<and> etimers_ok s' ts' \<and>
     set ts' = {30, 10, 20} \<and> oc_etimer_expiration_time s' 30 = 1110"
  using oc_etimer_set_correct [OF two_timers_ok(1), of 30 110 1000]
  by (fastforce simp: two_timers_def)

text \<open>Stopping a timer takes exactly it off the list and marks it expired; when a process
  exits exactly its timers leave the list. Both keep the list well-formed.\<close>

theorem oc_etimer_stop_and_exit:
  assumes "etimers_ok s ts" and "et \<noteq> NULL_PTR"
  shows "(\<exists>s'. oc_etimer_stop now s et = Some s' \<and> etimers_ok s' (remove1 et ts) \<and> oc_etimer_expired s' et) \<and>
     (\<exists>s'. oc_etimer_thread now s OC_PROCESS_EVENT_EXITED p = Some s' \<and>
        etimers_ok s' (filter (\<lambda>t. tproc s t \<noteq> p) ts))"
proof (rule conjI)
  show "\<exists>s'. oc_etimer_stop now s et = Some s' \<and> etimers_ok s' (remove1 et ts) \<and> oc_etimer_expired s' et"
    by (rule oc_etimer_stop_ok [OF assms]) blast
  show "\<exists>s'. oc_etimer_thread now s OC_PROCESS_EVENT_EXITED p = Some s' \<and>
        etimers_ok s' (filter (\<lambda>t. tproc s t \<noteq> p) ts)"
    using etimer_exited_ok [OF assms(1), of p] by (auto simp: oc_etimer_thread_def)
qed

theorem oc_etimer_stop_and_exit_witness:
  "(\<exists>s'. oc_etimer_stop 110 two_timers 20 = Some s' \<and> etimers_ok s' [10] \<and> oc_etimer_expired s' 20) \<and>
   (\<exists>s'. oc_etimer_thread 110 two_timers OC_PROCESS_EVENT_EXITED 3 = Some s' \<and> etimers_ok s' [])"
  using oc_etimer_stop_and_exit [OF two_timers_ok(1), of 20 110 3] by (simp add: two_timers_def)

text \<open>A timer has expired exactly when at least its interval has passed since its start, on
  the wrapping 64-bit clock, except in the one tick in which the elapsed time is the largest
  clock value, where the addition wraps to zero and the timer counts as not expired.\<close>

theorem oc_timer_expired_iff:
  "oc_timer_expired now t \<longleftrightarrow> interval t \<le> now - start t \<and> now - start t \<noteq> -1"
proof -
  have "(x :: u64) < y + 1 \<longleftrightarrow> x \<le> y \<and> y \<noteq> -1" for x y
  proof (cases "y = -1")
    case False
    then have "1 + y \<noteq> 0" by (metis add_eq_0_iff)
    then have "unat (y + 1) = unat y + 1" using unatSuc [of y] by (simp add: add.commute)
    with False show ?thesis by (simp add: word_less_nat_alt word_le_nat_alt less_Suc_eq_le)
  qed simp
  then show ?thesis by (simp add: oc_timer_expired_def)
qed

end
