(* ===== verification/OC_Base64.thy ===== *)
theory OC_Base64
  imports OC_Prelude
begin

text \<open>
  Base64: \<open>src/api/oc_base64.c\<close>. The encoder keeps a carry between the bytes of a 3-byte block,
  the decoder works in place; both are loops over positions with checked access to their buffer.
  The reference is the block-wise definition of RFC 4648. The sizes are taken to fit \<open>int\<close>, the
  type of the return value.
\<close>

definition alphabet :: bytes where
  "alphabet = map of_char ''ABCDEFGHIJKLMNOPQRSTUVWXYZabcdefghijklmnopqrstuvwxyz0123456789+/=''"

section \<open>Encoding\<close>

primrec encode_loop :: "bytes \<Rightarrow> nat \<Rightarrow> u8 \<Rightarrow> nat \<Rightarrow> bytes \<Rightarrow> (u8 \<times> nat \<times> bytes) option" where
  "encode_loop [] i val j out = Some (val, j, out)"
| "encode_loop (x # input) i val j out =
     (if i mod 3 = 0 then do {
        let val = drop_bit 2 x;
        c \<leftarrow> rd alphabet (unat val);
        out \<leftarrow> wr_mem out j c;
        encode_loop input (i + 1) (push_bit 4 x AND 0x30) (j + 1) out
      }
      else if i mod 3 = 1 then do {
        let val = val OR drop_bit 4 x;
        c \<leftarrow> rd alphabet (unat val);
        out \<leftarrow> wr_mem out j c;
        encode_loop input (i + 1) (push_bit 2 x AND 0x3D) (j + 1) out
      }
      else do {
        let val = val OR drop_bit 6 x;
        c \<leftarrow> rd alphabet (unat val);
        out \<leftarrow> wr_mem out j c;
        let val = x AND 0x3F;
        c \<leftarrow> rd alphabet (unat val);
        out \<leftarrow> wr_mem out (j + 1) c;
        encode_loop input (i + 1) val (j + 2) out
      })"

text \<open>Both loops that fill the rest of a buffer: with pads here, with zeros in the decoder.\<close>

function fill_loop :: "u8 \<Rightarrow> nat \<Rightarrow> nat \<Rightarrow> bytes \<Rightarrow> (nat \<times> bytes) option" where
  "fill_loop v len j out =
     (if j < len then do { out \<leftarrow> wr_mem out j v; fill_loop v len (j + 1) out } else Some (j, out))"
  by pat_completeness auto
termination by (relation "measure (\<lambda>(v, len, j, out). len - j)") auto

declare fill_loop.simps [simp del]

definition oc_base64_encode :: "bytes \<Rightarrow> bytes \<Rightarrow> nat \<Rightarrow> (int \<times> bytes) option" where
  "oc_base64_encode input output_buffer output_buffer_len = do {
     let input_len = length input;
     let output_len = (input_len div 3) * 4;
     let output_len = (if input_len mod 3 \<noteq> 0 then output_len + 4 else output_len);
     if output_buffer_len < output_len then Some (- 1, output_buffer)
     else do {
       out \<leftarrow> (if input_len = 0 then wr_mem output_buffer 0 0 else Some output_buffer);
       (val, j, out) \<leftarrow> encode_loop input 0 0 0 out;
       (j, out) \<leftarrow> (if input_len mod 3 \<noteq> 0 then do {
                     c \<leftarrow> rd alphabet (unat val);
                     out \<leftarrow> wr_mem out j c;
                     Some (j + 1, out)
                   } else Some (j, out));
       (j, out) \<leftarrow> fill_loop (of_char CHR ''='') output_len j out;
       Some (int j, out)
     }
   }"

declare encode_loop.simps(2) [simp del]

section \<open>Decoding\<close>

text \<open>The six-bit value of a character of the alphabet.\<close>

definition reverse_map :: "u8 \<Rightarrow> u8 option" where
  "reverse_map val_s =
     (if of_char CHR ''A'' \<le> val_s \<and> val_s \<le> of_char CHR ''Z'' then Some (val_s - 65)
      else if of_char CHR ''a'' \<le> val_s \<and> val_s \<le> of_char CHR ''z'' then Some (val_s - 71)
      else if of_char CHR ''0'' \<le> val_s \<and> val_s \<le> of_char CHR ''9'' then Some (val_s + 4)
      else if val_s = of_char CHR ''+'' then Some 62
      else if val_s = of_char CHR ''/'' then Some 63
      else None)"

text \<open>The length is a multiple of four here, so \<open>len - 2\<close> does not wrap: \<open>i < len - 2\<close> is \<open>i + 2 < len\<close>.\<close>

function decode_loop :: "bytes \<Rightarrow> nat \<Rightarrow> nat \<Rightarrow> nat \<Rightarrow> u8 \<Rightarrow> (int \<times> bytes) option" where
  "decode_loop str len i j val_c =
     (if i < len then do {
        c \<leftarrow> rd str i;
        case reverse_map c of
          None \<Rightarrow>
            if c = of_char CHR ''='' then
              if i + 2 < len then Some (- 1, str)
              else if i + 2 = len then do {
                d \<leftarrow> rd str (i + 1);
                Some (if d \<noteq> of_char CHR ''='' then - 1 else int j, str)
              }
              else Some (int j, str)
            else Some (- 1, str)
        | Some val_s \<Rightarrow>
            if i mod 4 = 0 then decode_loop str len (i + 1) j (push_bit 2 val_s AND 0xFD)
            else if i mod 4 = 1 then do {
              str \<leftarrow> wr_mem str j (val_c OR drop_bit 4 val_s);
              decode_loop str len (i + 1) (j + 1) (push_bit 4 val_s AND 0xF0)
            }
            else if i mod 4 = 2 then do {
              str \<leftarrow> wr_mem str j (val_c OR drop_bit 2 val_s);
              decode_loop str len (i + 1) (j + 1) (push_bit 6 val_s AND 0xD0)
            }
            else do {
              str \<leftarrow> wr_mem str j (val_c OR val_s);
              decode_loop str len (i + 1) (j + 1) (val_c OR val_s)
            }
      } else Some (int j, str))"
  by pat_completeness auto
termination by (relation "measure (\<lambda>(str, len, i, j, val_c). len - i)") auto

declare decode_loop.simps [simp del]

definition oc_base64_decode :: "bytes \<Rightarrow> nat \<Rightarrow> (int \<times> bytes) option" where
  "oc_base64_decode str len =
     (if len mod 4 \<noteq> 0 then Some (- 1, str)
      else do {
        (j, str) \<leftarrow> decode_loop str len 0 0 0;
        if j = - 1 then Some (- 1, str)
        else do { (_, str) \<leftarrow> fill_loop 0 len (nat j) str; Some (j, str) }
      })"

section \<open>Reference definition\<close>

definition letter :: "u8 \<Rightarrow> u8" where
  "letter v = alphabet ! unat v"

abbreviation (input) "PAD \<equiv> (of_char CHR ''='' :: u8)"

fun base64 :: "bytes \<Rightarrow> bytes" where
  "base64 [] = []"
| "base64 [a] = [letter (drop_bit 2 a), letter (push_bit 4 (a AND 3)), PAD, PAD]"
| "base64 [a, b] = [letter (drop_bit 2 a), letter (push_bit 4 (a AND 3) OR drop_bit 4 b),
     letter (push_bit 2 (b AND 15)), PAD]"
| "base64 (a # b # c # rest) =
     [letter (drop_bit 2 a), letter (push_bit 4 (a AND 3) OR drop_bit 4 b),
      letter (push_bit 2 (b AND 15) OR drop_bit 6 c), letter (c AND 63)] @ base64 rest"

text \<open>A well-formed encoded string: whole blocks, letters, and at most two pads at the end.\<close>

definition is_letter :: "u8 \<Rightarrow> bool" where
  "is_letter c \<longleftrightarrow> c \<in> set (take 64 alphabet)"

definition base64_string :: "bytes \<Rightarrow> bool" where
  "base64_string s \<longleftrightarrow> length s mod 4 = 0 \<and>
     (\<exists>k \<le> 2. k \<le> length s \<and> list_all is_letter (take (length s - k) s) \<and>
        drop (length s - k) s = replicate k PAD)"

section \<open>Six-bit values and letters\<close>

lemma length_alphabet [simp]: "length alphabet = 65"
  by (simp add: alphabet_def)

lemma rd_alphabet: "unat v < 64 \<Longrightarrow> rd alphabet (unat v) = Some (letter v)"
  by (simp add: rd_def letter_def)

lemma carry_masks:
  "push_bit 4 a AND 0x30 = push_bit 4 (a AND 3)"
  "push_bit 2 a AND 0x3D = push_bit 2 (a AND 15)" for a :: u8
  by (rule bit_eqI; simp add: bit_simps; use less_Suc_eq in \<open>auto simp: bit_simps less_Suc_eq numeral_eq_Suc\<close>)+

lemma join_bytes:
  "(push_bit 2 (drop_bit 2 a) AND 0xFD) OR drop_bit 4 (push_bit 4 (a AND 3) OR drop_bit 4 b) = a"
  "(push_bit 4 (push_bit 4 (a AND 3) OR drop_bit 4 b) AND 0xF0)
     OR drop_bit 2 (push_bit 2 (b AND 15) OR drop_bit 6 c) = b"
  "(push_bit 6 (push_bit 2 (b AND 15) OR drop_bit 6 c) AND 0xD0) OR (c AND 63) = c" for a b c :: u8
  by (rule bit_eqI; simp add: bit_simps; use less_Suc_eq in \<open>auto simp: bit_simps less_Suc_eq numeral_eq_Suc\<close>)+

lemma join_last:
  "(push_bit 2 (drop_bit 2 a) AND 0xFD) OR drop_bit 4 (push_bit 4 (a AND 3)) = a"
  "(push_bit 4 (push_bit 4 (a AND 3) OR drop_bit 4 b) AND 0xF0) OR drop_bit 2 (push_bit 2 (b AND 15)) = b" for a b :: u8
  using join_bytes(1) [of a 0] join_bytes(2) [of a b 0] by (simp_all only: drop_bit_of_0 or.right_neutral)

lemma six_bits_less:
  "unat (drop_bit 2 a) < 64" "unat (push_bit 4 (a AND 3) OR drop_bit 4 b) < 64"
  "unat (push_bit 2 (b AND 15) OR drop_bit 6 c) < 64" "unat (c AND 63) < 64"
  "unat (push_bit 4 (a AND 3)) < 64" "unat (push_bit 2 (b AND 15)) < 64" for a b c :: u8
  unfolding take_bit_self_iff [where k = 6, simplified, symmetric]
  by (rule bit_eqI; simp add: bit_simps; use less_Suc_eq in
      \<open>auto simp: bit_simps less_Suc_eq numeral_eq_Suc dest: bit_imp_le_length\<close>)+

lemma reverse_map_letters: "list_all (\<lambda>n. reverse_map (alphabet ! n) = Some (of_nat n)) [0..<64]"
  by code_simp

lemma letter_ranges:
  "list_all (\<lambda>n. alphabet ! (n - 65) = of_nat n) [65..<91]"
  "list_all (\<lambda>n. alphabet ! (n - 71) = of_nat n) [97..<123]"
  "list_all (\<lambda>n. alphabet ! (n + 4) = of_nat n) [48..<58]"
  by code_simp+

lemma reverse_map_letter [simp]: "unat v < 64 \<Longrightarrow> reverse_map (letter v) = Some v"
  using reverse_map_letters by (auto simp: list_all_iff letter_def)

lemma reverse_map_Some:
  assumes "reverse_map c = Some v"
  shows "unat v < 64 \<and> letter v = c"
proof -
  have in_range: "P (unat c)" if "list_all P [m..<n]" "unat c \<in> {m..<n}" for P m n
    using that by (auto simp: list_all_iff)
  consider (upper) "unat c \<in> {65..<91}" "v = c - 65" | (lower) "unat c \<in> {97..<123}" "v = c - 71"
    | (digit) "unat c \<in> {48..<58}" "v = c + 4" | "c = 43" "v = 62" | "c = 47" "v = 63"
    using assms by (auto simp: reverse_map_def word_le_nat_alt split: if_splits)
  then show ?thesis
  proof cases
    case upper
    then have "unat v = unat c - 65" by (simp add: unat_sub word_le_nat_alt)
    with in_range [OF letter_ranges(1) upper(1)] upper(1) show ?thesis by (auto simp: letter_def)
  next
    case lower
    then have "unat v = unat c - 71" by (simp add: unat_sub word_le_nat_alt)
    with in_range [OF letter_ranges(2) lower(1)] lower(1) show ?thesis by (auto simp: letter_def)
  next
    case digit
    then have "unat v = unat c + 4" by (simp add: unat_word_ariths)
    with in_range [OF letter_ranges(3) digit(1)] digit(1) show ?thesis by (auto simp: letter_def)
  qed (simp_all add: letter_def alphabet_def)
qed

lemma reverse_map_PAD [simp]: "reverse_map PAD = None" "reverse_map 61 = None"
  by (simp_all add: reverse_map_def)

lemma is_letter_iff: "is_letter c \<longleftrightarrow> reverse_map c \<noteq> None"
proof
  assume "is_letter c"
  then obtain n where "n < 64" "c = alphabet ! n"
    by (auto simp: is_letter_def in_set_conv_nth)
  then have "c = letter (of_nat n)" "unat (of_nat n :: u8) < 64"
    by (simp_all add: letter_def unat_of_nat_u8)
  then show "reverse_map c \<noteq> None" by simp
next
  assume "reverse_map c \<noteq> None"
  then obtain v where "unat v < 64" "c = letter v" using reverse_map_Some by blast
  then show "is_letter c" by (force simp: is_letter_def letter_def in_set_conv_nth)
qed

section \<open>The loops\<close>

lemma fill_loop_eq:
  "j \<le> len \<Longrightarrow> len \<le> length out \<Longrightarrow>
   fill_loop v len j out = Some (len, splice j (replicate (len - j) v) out)"
proof (induction v len j out rule: fill_loop.induct)
  case (1 v len j out)
  show ?case
  proof (cases "j < len")
    case True
    then have w: "wr_mem out j v = Some (splice j [v] out)"
      using "1.prems" by (simp add: wr_mem_def list_update_splice)
    have "splice (j + 1) (replicate (len - (j + 1)) v) (splice j [v] out) = splice j (replicate (len - j) v) out"
      using splice_splice [of j "[v]" "replicate (len - (j + 1)) v" out] True "1.prems"
      by (simp flip: replicate_Suc add: Suc_diff_Suc)
    with 1 True w show ?thesis
      by (subst fill_loop.simps) simp
  qed (use "1.prems" in \<open>simp add: fill_loop.simps\<close>)
qed

text \<open>How much of the encoding the byte loop leaves to the code behind it.\<close>

definition pending :: "bytes \<Rightarrow> nat" where
  "pending input = (if length input mod 3 = 0 then 0 else 4 - length input mod 3)"

lemma encode_step:
  "i mod 3 = 0 \<Longrightarrow> j < length out \<Longrightarrow> encode_loop (x # input) i val j out =
     encode_loop input (i + 1) (push_bit 4 (x AND 3)) (j + 1) (splice j [letter (drop_bit 2 x)] out)"
  "i mod 3 = 1 \<Longrightarrow> j < length out \<Longrightarrow> unat (val OR drop_bit 4 x) < 64 \<Longrightarrow> encode_loop (x # input) i val j out =
     encode_loop input (i + 1) (push_bit 2 (x AND 15)) (j + 1) (splice j [letter (val OR drop_bit 4 x)] out)"
  "i mod 3 = 2 \<Longrightarrow> j + 1 < length out \<Longrightarrow> unat (val OR drop_bit 6 x) < 64 \<Longrightarrow> encode_loop (x # input) i val j out =
     encode_loop input (i + 1) (x AND 63) (j + 2)
       (splice j [letter (val OR drop_bit 6 x), letter (x AND 63)] out)"
  using six_bits_less(1) [of x] six_bits_less(4) [of x] splice_splice [of j "[_]" "[_]" out]
  by (simp_all only: encode_loop.simps carry_masks Let_def rd_alphabet wr_mem_def list_update_splice
      bind.bind_lunit if_True if_False simp_thms length_splice)
    (simp_all add: list_update_splice)

lemma encode_loop_block:
  assumes "i mod 3 = 0" and "j + 4 \<le> length out"
  shows "encode_loop (a # b # c # rest) i val j out =
    encode_loop rest (i + 3) (c AND 63) (j + 4) (splice j
      [letter (drop_bit 2 a), letter (push_bit 4 (a AND 3) OR drop_bit 4 b),
       letter (push_bit 2 (b AND 15) OR drop_bit 6 c), letter (c AND 63)] out)"
proof -
  have i: "(i + 1) mod 3 = 1" "(i + 1 + 1) mod 3 = 2" using assms(1) by presburger+
  have "splice (j + 1 + 1) [y, z] (splice (j + 1) [x] (splice j [w] out)) = splice j [w, x, y, z] out" for w x y z
    using assms(2) splice_splice [of j "[w]" "[x]" out] splice_splice [of j "[w, x]" "[y, z]" out] by simp
  moreover have "length (splice j [w] out) = length out" "length (splice (j + 1) [x] (splice j [w] out)) = length out"
    "j < length out" "j + 1 < length out" "j + 1 + 1 + 1 < length out" for w x
    using assms(2) by simp_all
  moreover have "i + 1 + 1 + 1 = i + 3" "j + 1 + 1 + 2 = j + 4" by simp_all
  ultimately show ?thesis
    using assms(1) i by (simp only: encode_step six_bits_less)
qed

lemma pending_le: "pending input \<le> length (base64 input)"
  by (induction input rule: base64.induct) (auto simp: pending_def)

lemma encode_loop_eq:
  "i mod 3 = 0 \<Longrightarrow> j + length (base64 input) \<le> length out \<Longrightarrow>
   \<exists>val'. encode_loop input i val j out =
      Some (val', j + (length (base64 input) - pending input),
            splice j (take (length (base64 input) - pending input) (base64 input)) out) \<and>
    (pending input \<noteq> 0 \<longrightarrow> unat val' < 64 \<and>
       drop (length (base64 input) - pending input) (base64 input) = letter val' # replicate (pending input - 1) PAD)"
proof (induction input arbitrary: i val j out rule: base64.induct)
  case (2 a)
  then have "encode_loop [a] i val j out = Some (push_bit 4 (a AND 3), j + 1, splice j [letter (drop_bit 2 a)] out)"
    by (simp add: encode_step(1))
  then show ?case using six_bits_less(5) [of a] by (simp add: pending_def numeral_2_eq_2)
next
  case (3 a b)
  have i: "(i + 1) mod 3 = 1" using "3.prems"(1) by presburger
  have s: "splice (j + 1) [x] (splice j [w] out) = splice j [w, x] out" "length (splice j [w] out) = length out"
    "j < length out" "j + 1 < length out" for w x
    using "3.prems"(2) splice_splice [of j "[w]" "[x]" out] by simp_all
  have "encode_loop [a, b] i val j out = Some (push_bit 2 (b AND 15), j + 2,
      splice j [letter (drop_bit 2 a), letter (push_bit 4 (a AND 3) OR drop_bit 4 b)] out)"
    using "3.prems"(1) i s by (simp only: encode_step six_bits_less) simp
  then show ?case using six_bits_less(6) [of b] by (simp add: pending_def)
next
  case (4 a b c rest)
  let ?p = "[letter (drop_bit 2 a), letter (push_bit 4 (a AND 3) OR drop_bit 4 b),
      letter (push_bit 2 (b AND 15) OR drop_bit 6 c), letter (c AND 63)]"
  have len: "length (splice j ?p out) = length out" and pend: "pending (a # b # c # rest) = pending rest"
    using "4.prems" by (simp_all add: pending_def)
  have i: "(i + 3) mod 3 = 0" and j: "j + 4 + length (base64 rest) \<le> length (splice j ?p out)"
    using "4.prems" len by simp_all
  obtain val' where v: "encode_loop rest (i + 3) (c AND 63) (j + 4) (splice j ?p out) =
      Some (val', j + 4 + (length (base64 rest) - pending rest),
            splice (j + 4) (take (length (base64 rest) - pending rest) (base64 rest)) (splice j ?p out))"
    "pending rest \<noteq> 0 \<longrightarrow> unat val' < 64 \<and>
       drop (length (base64 rest) - pending rest) (base64 rest) = letter val' # replicate (pending rest - 1) PAD"
    using "4.IH" [OF i j, of "c AND 63"] by blast
  have "splice (j + 4) ys (splice j ?p out) = splice j (?p @ ys) out" if "length ys \<le> length (base64 rest)" for ys
  proof -
    have p: "j + length ?p = j + 4" by simp
    show ?thesis using splice_splice [of j ?p ys out] that "4.prems"(2) unfolding p by simp
  qed
  moreover have "encode_loop (a # b # c # rest) i val j out =
      encode_loop rest (i + 3) (c AND 63) (j + 4) (splice j ?p out)"
    using encode_loop_block [of i j out a b c rest val] "4.prems" by simp
  ultimately show ?case
    using v pending_le [of rest] by (simp add: pend Suc_diff_le numeral_eq_Suc)
qed (simp add: pending_def)

lemma length_base64: "length (base64 input) = (length input + 2) div 3 * 4"
proof (induction input rule: base64.induct)
  case (4 a b c rest)
  have "(n + 5) div 3 = (n + 2) div 3 + 1" for n :: nat by presburger
  with 4 show ?case by (simp add: ac_simps)
qed simp_all

lemma length_base64_code:
  "length (base64 input) = (if length input mod 3 \<noteq> 0 then length input div 3 * 4 + 4 else length input div 3 * 4)"
proof -
  have "(n + 2) div 3 = (if n mod 3 \<noteq> 0 then n div 3 + 1 else n div 3)" for n :: nat by presburger
  then show ?thesis by (simp add: length_base64)
qed

text \<open>A block is decoded in place behind the part already decoded.\<close>

lemma decode_step:
  assumes "i < len" and "drop i str = c # rest" and "reverse_map c = Some v" and "j < length str"
  shows "i mod 4 = 0 \<Longrightarrow> decode_loop str len i j val_c = decode_loop str len (i + 1) j (push_bit 2 v AND 0xFD)"
    "i mod 4 = 1 \<Longrightarrow> decode_loop str len i j val_c =
       decode_loop (splice j [val_c OR drop_bit 4 v] str) len (i + 1) (j + 1) (push_bit 4 v AND 0xF0)"
    "i mod 4 = 2 \<Longrightarrow> decode_loop str len i j val_c =
       decode_loop (splice j [val_c OR drop_bit 2 v] str) len (i + 1) (j + 1) (push_bit 6 v AND 0xD0)"
    "i mod 4 = 3 \<Longrightarrow> decode_loop str len i j val_c =
       decode_loop (splice j [val_c OR v] str) len (i + 1) (j + 1) (val_c OR v)"
  using assms rd_from_drop [OF assms(2)]
  by (subst decode_loop.simps; simp add: wr_mem_def list_update_splice)+

lemma decode_pads:
  assumes "drop i str = PAD # rest" and "len = length str" and "rest = [] \<or> rest = [PAD]"
  shows "decode_loop str len i j val_c = Some (int j, str)"
proof -
  have len: "length str = i + length (PAD # rest)" using length_from_drop [OF assms(1)] by simp
  then have "rd str i = Some PAD" "rest = [PAD] \<Longrightarrow> rd str (Suc i) = Some PAD"
    using rd_from_drop [OF assms(1)] drop_Suc_from_drop [OF assms(1)] rd_from_drop [of "Suc i" str PAD "[]"] by auto
  with assms(2,3) len show ?thesis by (subst decode_loop.simps) (elim disjE; simp)
qed

lemma decode_two:
  assumes "i mod 4 = 0" and "j \<le> i" and "drop i str = letter v # letter w # rest"
    and "unat v < 64" and "unat w < 64"
  defines "str' \<equiv> splice j [(push_bit 2 v AND 0xFD) OR drop_bit 4 w] str"
  shows "decode_loop str (length str) i j val_c = decode_loop str' (length str) (i + 2) (j + 1) (push_bit 4 w AND 0xF0)"
    and "drop (i + 2) str' = rest" and "length str' = length str" and "i + 2 + length rest = length str"
proof -
  have len: "length str = i + length (letter v # letter w # rest)" using length_from_drop [OF assms(3)] by simp
  have d: "drop (i + 1) str = letter w # rest" using drop_Suc_from_drop [OF assms(3)] by simp
  have "(i + 1) mod 4 = 1" using assms(1) by presburger
  with assms len show "decode_loop str (length str) i j val_c =
      decode_loop str' (length str) (i + 2) (j + 1) (push_bit 4 w AND 0xF0)"
    using decode_step(1) [OF _ assms(3), of "length str" v j val_c] decode_step(2) [OF _ d, of "length str" w j]
    by simp
  show "drop (i + 2) str' = rest" "length str' = length str" "i + 2 + length rest = length str"
    using assms(2) len drop_Suc_from_drop [OF d] by (simp_all add: str'_def drop_splice)
qed

lemma decode_three:
  assumes "i mod 4 = 0" and "j \<le> i" and "drop i str = letter v # letter w # letter x # rest"
    and "unat v < 64" and "unat w < 64" and "unat x < 64"
  defines "str' \<equiv> splice j [(push_bit 2 v AND 0xFD) OR drop_bit 4 w, (push_bit 4 w AND 0xF0) OR drop_bit 2 x] str"
  shows "decode_loop str (length str) i j val_c = decode_loop str' (length str) (i + 3) (j + 2) (push_bit 6 x AND 0xD0)"
    and "drop (i + 3) str' = rest" and "length str' = length str" and "i + 3 + length rest = length str"
proof -
  let ?s = "splice j [(push_bit 2 v AND 0xFD) OR drop_bit 4 w] str"
  note two = decode_two [OF assms(1-3) assms(4,5)]
  have s': "str' = splice (j + 1) [(push_bit 4 w AND 0xF0) OR drop_bit 2 x] ?s"
    using two(4) assms(2) splice_splice [of j "[_]" "[_]" str] by (simp add: str'_def)
  have "(i + 2) mod 4 = 2" using assms(1) by presburger
  with two assms s' show "decode_loop str (length str) i j val_c =
      decode_loop str' (length str) (i + 3) (j + 2) (push_bit 6 x AND 0xD0)"
    using decode_step(3) [OF _ two(2), of "length str" x "j + 1"] by (simp add: numeral_3_eq_3)
  show "drop (i + 3) str' = rest" "length str' = length str" "i + 3 + length rest = length str"
    using two s' assms(2) drop_Suc_from_drop [OF two(2)] by (simp_all add: drop_splice numeral_3_eq_3)
qed

lemma decode_four:
  assumes "i mod 4 = 0" and "j \<le> i" and "drop i str = letter v # letter w # letter x # letter y # rest"
    and "unat v < 64" and "unat w < 64" and "unat x < 64" and "unat y < 64"
  defines "str' \<equiv> splice j [(push_bit 2 v AND 0xFD) OR drop_bit 4 w, (push_bit 4 w AND 0xF0) OR drop_bit 2 x,
    (push_bit 6 x AND 0xD0) OR y] str"
  shows "decode_loop str (length str) i j val_c =
      decode_loop str' (length str) (i + 4) (j + 3) ((push_bit 6 x AND 0xD0) OR y)"
    and "drop (i + 4) str' = rest" and "length str' = length str" and "i + 4 + length rest = length str"
proof -
  let ?s = "splice j [(push_bit 2 v AND 0xFD) OR drop_bit 4 w, (push_bit 4 w AND 0xF0) OR drop_bit 2 x] str"
  note three = decode_three [OF assms(1-3) assms(4-6)]
  have s': "str' = splice (j + 2) [(push_bit 6 x AND 0xD0) OR y] ?s"
    using three(4) assms(2) splice_splice [of j "[_, _]" "[_]" str] by (simp add: str'_def)
  have n: "i + 4 = Suc (i + 3)" "j + 3 = Suc (j + 2)" by simp_all
  have "(i + 3) mod 4 = 3" using assms(1) by presburger
  with three assms s' show "decode_loop str (length str) i j val_c =
      decode_loop str' (length str) (i + 4) (j + 3) ((push_bit 6 x AND 0xD0) OR y)"
    using decode_step(4) [OF _ three(2), of "length str" y "j + 2"] unfolding n by simp
  show "drop (i + 4) str' = rest" "length str' = length str" "i + 4 + length rest = length str"
    using three s' assms(2) drop_Suc_from_drop [OF three(2)] unfolding n by (simp_all add: drop_splice)
qed

lemma decode_loop_eq:
  "i mod 4 = 0 \<Longrightarrow> j \<le> i \<Longrightarrow> drop i str = base64 input \<Longrightarrow> i \<le> length str \<Longrightarrow>
   decode_loop str (length str) i j val_c = Some (int (j + length input), splice j input str)"
proof (induction input arbitrary: i j str val_c rule: base64.induct)
  case 1
  then show ?case by (subst decode_loop.simps) simp
next
  case (2 a)
  have "drop i str = letter (drop_bit 2 a) # letter (push_bit 4 (a AND 3)) # [PAD, PAD]" using "2.prems" by simp
  note two = decode_two [OF "2.prems"(1,2) this six_bits_less(1,5), unfolded join_last]
  show ?case using two(1) [of val_c] decode_pads [OF two(2) two(3) [symmetric]] by simp
next
  case (3 a b)
  have "drop i str = letter (drop_bit 2 a) # letter (push_bit 4 (a AND 3) OR drop_bit 4 b)
      # letter (push_bit 2 (b AND 15)) # [PAD]" using "3.prems" by simp
  note three = decode_three [OF "3.prems"(1,2) this six_bits_less(1,2,6), unfolded join_last join_bytes(1)]
  show ?case using three(1) [of val_c] decode_pads [OF three(2) three(3) [symmetric]] by simp
next
  case (4 a b c rest)
  have "drop i str = letter (drop_bit 2 a) # letter (push_bit 4 (a AND 3) OR drop_bit 4 b)
      # letter (push_bit 2 (b AND 15) OR drop_bit 6 c) # letter (c AND 63) # base64 rest"
    using "4.prems" by simp
  note four = decode_four [OF "4.prems"(1,2) this six_bits_less(1-4), unfolded join_bytes]
  have "(i + 4) mod 4 = 0" "j + 3 \<le> i + 4" using "4.prems" by simp_all
  then have "decode_loop (splice j [a, b, c] str) (length str) (i + 4) (j + 3) c =
      Some (int (j + 3 + length rest), splice (j + 3) rest (splice j [a, b, c] str))"
    using "4.IH" [of "i + 4" "j + 3" "splice j [a, b, c] str" c] four(2-4) by simp
  moreover have "length rest \<le> length (base64 rest)" by (induction rest rule: base64.induct) auto
  then have "splice (j + 3) rest (splice j [a, b, c] str) = splice j (a # b # c # rest) str"
    using splice_splice [of j "[a, b, c]" rest str] four(4) "4.prems"(2) by (simp add: numeral_3_eq_3)
  ultimately show ?case using four(1) [of val_c] by simp
qed

text \<open>The decoder's verdict on arbitrary input.\<close>

definition pads_ok :: "bytes \<Rightarrow> bool" where
  "pads_ok s \<longleftrightarrow> (\<exists>k \<le> 2. k \<le> length s \<and> list_all is_letter (take (length s - k) s) \<and>
     drop (length s - k) s = replicate k PAD)"

lemma pads_ok_Nil [simp]: "pads_ok []"
  by (auto simp: pads_ok_def)

lemma pads_ok_Cons:
  "pads_ok (c # s) \<longleftrightarrow> (if is_letter c then pads_ok s else c = PAD \<and> (s = [] \<or> s = [PAD]))"
proof (cases "is_letter c")
  case True
  have "pads_ok (c # s)" if "pads_ok s"
    using that True by (fastforce simp: pads_ok_def Suc_diff_le)
  moreover have "pads_ok s" if "pads_ok (c # s)"
  proof -
    obtain k where k: "k \<le> 2" "k \<le> Suc (length s)" "list_all is_letter (take (Suc (length s) - k) (c # s))"
      "drop (Suc (length s) - k) (c # s) = replicate k PAD"
      using \<open>pads_ok (c # s)\<close> by (auto simp: pads_ok_def)
    have "k \<noteq> Suc (length s)" using k(4) True by (auto simp: is_letter_iff)
    then have "k \<le> length s" using k(2) by simp
    with k show ?thesis by (auto simp: pads_ok_def Suc_diff_le)
  qed
  ultimately show ?thesis using True by auto
next
  case False
  have "c = PAD \<and> (s = [] \<or> s = [PAD])" if ok: "pads_ok (c # s)"
  proof -
    obtain k where k: "k \<le> 2" "k \<le> Suc (length s)" "list_all is_letter (take (Suc (length s) - k) (c # s))"
      "drop (Suc (length s) - k) (c # s) = replicate k PAD"
      using ok by (auto simp: pads_ok_def)
    have "k = Suc (length s)" using k(2,3) False by (cases "Suc (length s) - k") auto
    with k(1,4) show ?thesis by (cases s) auto
  qed
  moreover have "pads_ok [PAD]" "pads_ok [PAD, PAD]"
    unfolding pads_ok_def by (rule exI [of _ 1], simp) (rule exI [of _ 2], simp add: numeral_2_eq_2)
  ultimately show ?thesis using False by auto
qed

definition verdict :: "nat \<Rightarrow> bool \<Rightarrow> (int \<times> bytes) option \<Rightarrow> bool" where
  "verdict len ok res \<longleftrightarrow> (\<exists>r str'. res = Some (r, str') \<and> length str' = len \<and>
     (if ok then 0 \<le> r \<and> nat r \<le> len else r = - 1))"

lemma verdict_Some [simp]:
  "verdict len ok (Some (r, s)) \<longleftrightarrow> length s = len \<and> (if ok then 0 \<le> r \<and> nat r \<le> len else r = - 1)"
  by (auto simp: verdict_def)

lemma decode_loop_verdict:
  "i \<le> length str \<Longrightarrow> j \<le> i \<Longrightarrow> len = length str \<Longrightarrow>
   verdict len (pads_ok (drop i str)) (decode_loop str len i j val_c)"
proof (induction str len i j val_c rule: decode_loop.induct)
  case (1 str len i j val_c)
  show ?case
  proof (cases "i < len")
    case False
    with "1.prems" show ?thesis by (subst decode_loop.simps) simp
  next
    case True
    define c where "c = str ! i"
    have c: "rd str i = Some c" and d: "drop i str = c # drop (i + 1) str" and j: "j < length str"
      using True "1.prems" by (simp_all add: rd_def c_def Cons_nth_drop_Suc)
    have w: "wr_mem str j x = Some (str[j := x])" for x using j by (simp add: wr_mem_def)
    show ?thesis
    proof (cases "reverse_map c")
      case None
      obtain t where t: "drop (i + 1) str = t" "length t = len - (i + 1)" using "1.prems" by simp
      have last: "i + 2 = len \<Longrightarrow> rd str (i + 1) = Some (hd t)"
        using "1.prems" True t(1) [symmetric] by (simp add: rd_def hd_drop_conv_nth)
      have "pads_ok (drop i str) \<longleftrightarrow> c = PAD \<and> (i + 2 = len \<longrightarrow> hd t = PAD) \<and> \<not> i + 2 < len"
        using None True t(2) unfolding d t(1) pads_ok_Cons
        by (cases t; cases "tl t") (auto simp: is_letter_iff)
      with None True c last "1.prems" j show ?thesis by (subst decode_loop.simps) auto
    next
      case (Some v)
      have p: "pads_ok (drop i str) = pads_ok (drop (i + 1) str)"
        using Some by (simp add: d pads_ok_Cons is_letter_iff)
      have "drop (Suc i) (str[j := x]) = drop (Suc i) str" for x using "1.prems" by simp
      then show ?thesis
        using "1.IH"(1) [OF True c Some] "1.IH"(2) [OF True c Some _ _ w] "1.IH"(3) [OF True c Some _ _ _ w]
          "1.IH"(4) [OF True c Some _ _ _ w] "1.prems" True j
        by (subst decode_loop.simps) (simp add: c Some w p del: One_nat_def)
    qed
  qed
qed

section \<open>Properties\<close>

lemma encode_eq:
  assumes "input \<noteq> []" and "length (base64 input) \<le> n" and "n \<le> length out"
  shows "oc_base64_encode input out n = Some (int (length (base64 input)), splice 0 (base64 input) out)"
proof -
  let ?b = "base64 input" and ?p = "pending input"
  obtain val where val: "encode_loop input 0 0 0 out =
      Some (val, length ?b - ?p, splice 0 (take (length ?b - ?p) ?b) out)"
    "?p \<noteq> 0 \<Longrightarrow> unat val < 64"
    "?p \<noteq> 0 \<Longrightarrow> drop (length ?b - ?p) ?b = letter val # replicate (?p - 1) PAD"
    using encode_loop_eq [of 0 0 input out 0] assms by auto
  show ?thesis
  proof (cases "length input mod 3 = 0")
    case True
    then have "?p = 0" by (simp add: pending_def)
    with True assms val(1) show ?thesis
      by (simp add: oc_base64_encode_def length_base64_code fill_loop_eq)
  next
    case False
    then have p: "?p \<noteq> 0" "length input mod 3 \<noteq> 0" by (auto simp: pending_def)
    let ?k = "length ?b - ?p"
    have k: "?k + 1 + (?p - 1) = length ?b" using pending_le [of input] p(1) by simp
    then have w: "wr_mem (splice 0 (take ?k ?b) out) ?k (letter val) = Some (splice 0 (take ?k ?b @ [letter val]) out)"
      using assms splice_splice [of 0 "take ?k ?b" "[letter val]" out]
      by (simp add: wr_mem_def list_update_splice)
    have "?b = take ?k ?b @ letter val # replicate (?p - 1) PAD"
      using val(3) p(1) append_take_drop_id [of ?k ?b] by simp
    then have "splice (?k + 1) (replicate (?p - 1) PAD) (splice 0 (take ?k ?b @ [letter val]) out) = splice 0 ?b out"
      using k assms splice_splice [of 0 "take ?k ?b @ [letter val]" "replicate (?p - 1) PAD" out] by simp
    moreover have "fill_loop PAD (length ?b) (?k + 1) (splice 0 (take ?k ?b @ [letter val]) out) =
        Some (length ?b, splice (?k + 1) (replicate (?p - 1) PAD) (splice 0 (take ?k ?b @ [letter val]) out))"
      using k assms by (subst fill_loop_eq) (auto simp: le_diff_conv)
    ultimately show ?thesis
      using assms p(2) val(1,2) w p(1)
      by (simp add: oc_base64_encode_def length_base64_code [symmetric] rd_alphabet Let_def del: One_nat_def)
        (simp add: length_base64_code rd_alphabet)
  qed
qed

text \<open>C32: The byte-wise encoder with its carry computes the block-wise Base64 of RFC 4648: for
  non-empty input and enough room it writes exactly that text, leaves the rest of the buffer and
  returns the text's length; with too little room it returns -1 and writes nothing.\<close>

theorem oc_base64_encode_equiv:
  assumes "input \<noteq> []" and "n \<le> length out"
  shows "oc_base64_encode input out n =
    (if n < length (base64 input) then Some (- 1, out)
     else Some (int (length (base64 input)), splice 0 (base64 input) out))"
proof (cases "n < length (base64 input)")
  case True
  then show ?thesis by (simp add: oc_base64_encode_def length_base64_code)
next
  case False
  then show ?thesis using encode_eq [OF assms(1) _ assms(2)] by simp
qed

theorem oc_base64_encode_equiv_witness:
  "oc_base64_encode [0x66, 0x6F] [0, 0, 0, 0, 9] 5 = Some (4, [0x5A, 0x6D, 0x38, 0x3D, 9])"
  using oc_base64_encode_equiv [of "[0x66, 0x6F]" 5 "[0, 0, 0, 0, 9]"]
  by (simp add: splice_def letter_def alphabet_def)

text \<open>C31: Round trip: decoding in place what the encoder wrote gives back the input, followed
  by zeros up to the length of the text, and returns the input's length.\<close>

theorem oc_base64_roundtrip:
  assumes "input \<noteq> []" and "length (base64 input) \<le> length out"
  shows "\<exists>n out'. oc_base64_encode input out (length out) = Some (int n, out') \<and>
     oc_base64_decode (take n out') n =
       Some (int (length input), input @ replicate (n - length input) 0)"
proof -
  let ?b = "base64 input"
  have le: "length input \<le> length ?b" by (induction input rule: base64.induct) auto
  have "splice 0 input ?b = input @ drop (length input) ?b" using le by (simp add: splice_def)
  then have "decode_loop ?b (length ?b) 0 0 0 = Some (int (length input), input @ drop (length input) ?b)"
    using decode_loop_eq [of 0 0 ?b input 0] by simp
  moreover have "fill_loop 0 (length ?b) (length input) (input @ drop (length input) ?b) =
      Some (length ?b, input @ replicate (length ?b - length input) 0)"
    using le by (subst fill_loop_eq) (auto simp: splice_def)
  ultimately have "oc_base64_decode ?b (length ?b) =
      Some (int (length input), input @ replicate (length ?b - length input) 0)"
    by (simp add: oc_base64_decode_def length_base64)
  moreover have "take (length ?b) (splice 0 ?b out) = ?b"
    using assms(2) by (simp add: splice_def)
  ultimately show ?thesis
    using encode_eq [OF assms(1) assms(2) order.refl] by fastforce
qed

theorem oc_base64_roundtrip_witness:
  "\<exists>n out'. oc_base64_encode [0xFF, 0xFE] [0, 0, 0, 0] 4 = Some (int n, out') \<and>
     oc_base64_decode (take n out') n = Some (2, [0xFF, 0xFE] @ replicate (n - 2) 0)"
  using oc_base64_roundtrip [of "[0xFF, 0xFE]" "[0, 0, 0, 0]"] by (simp add: numeral_eq_Suc)

text \<open>C33: On arbitrary bytes the decoder ends, stays inside the string, and returns -1 exactly
  when the string is not whole blocks of letters with at most two pads at the end.\<close>

theorem oc_base64_decode_total:
  "\<exists>r str'. oc_base64_decode str (length str) = Some (r, str') \<and> length str' = length str \<and>
     (r = - 1 \<longleftrightarrow> \<not> base64_string str) \<and> r \<le> int (length str)"
proof (cases "length str mod 4 = 0")
  case True
  obtain r s where r: "decode_loop str (length str) 0 0 0 = Some (r, s)" "length s = length str"
    "if pads_ok str then 0 \<le> r \<and> nat r \<le> length str else r = - 1"
    using decode_loop_verdict [of 0 str 0 "length str" 0] by (auto simp: verdict_def)
  have ok: "base64_string str \<longleftrightarrow> pads_ok str" using True by (simp add: base64_string_def pads_ok_def)
  show ?thesis
  proof (cases "pads_ok str")
    case p: True
    with r have "fill_loop 0 (length str) (nat r) s =
        Some (length str, splice (nat r) (replicate (length str - nat r) 0) s)"
      by (intro fill_loop_eq) auto
    with True r p ok show ?thesis by (auto simp: oc_base64_decode_def)
  qed (use True r ok in \<open>simp add: oc_base64_decode_def\<close>)
qed (simp add: oc_base64_decode_def base64_string_def)

text \<open>For empty input and an empty buffer, which passes the size check, the encoder
  writes its terminating zero out of bounds.\<close>

lemma oc_base64_encode_empty_overrun:
  "oc_base64_encode [] [] 0 = None \<and> oc_base64_encode [] (b # out) 0 = Some (0, 0 # out)"
  by (simp add: oc_base64_encode_def wr_mem_def fill_loop.simps)

end
