(* ===== verification/OC_Uuid.thy ===== *)
theory OC_Uuid
  imports OC_Prelude
begin

text \<open>
  UUIDs and their text form: \<open>src/api/oc_uuid.c\<close>. A UUID is its 16-byte array; strings and the
  arrays are regions with checked access, so a read behind the string or a write behind \<open>id[16]\<close>
  is \<open>None\<close>. The random numbers of the port layer are a parameter of \<open>oc_gen_uuid\<close>.
\<close>

type_synonym uuid = bytes

abbreviation (input) "OC_UUID_LEN \<equiv> 37 :: nat"
abbreviation (input) "DASH \<equiv> (of_char CHR ''-'' :: u8)"

section \<open>From text\<close>

definition isalpha :: "u8 \<Rightarrow> bool" where
  "isalpha x \<longleftrightarrow> 65 \<le> x \<and> x \<le> 90 \<or> 97 \<le> x \<and> x \<le> 122"

text \<open>The bits a character that is not a dash adds to \<open>c\<close>; a letter behind \<open>f\<close> adds none.\<close>

definition digit_bits :: "u8 \<Rightarrow> u8" where
  "digit_bits x =
     (if isalpha x then
        if x = 65 \<or> x = 97 then 0x0a
        else if x = 66 \<or> x = 98 then 0x0b
        else if x = 67 \<or> x = 99 then 0x0c
        else if x = 68 \<or> x = 100 then 0x0d
        else if x = 69 \<or> x = 101 then 0x0e
        else if x = 70 \<or> x = 102 then 0x0f
        else 0
      else x - 48)"

text \<open>\<open>n\<close> is the number of iterations left and \<open>s\<close> the string from \<open>&str[i]\<close> on.\<close>

primrec str_loop :: "nat \<Rightarrow> bytes \<Rightarrow> nat \<Rightarrow> nat \<Rightarrow> u8 \<Rightarrow> uuid \<Rightarrow> uuid option" where
  "str_loop 0 s j k c uuid = Some uuid"
| "str_loop (Suc n) s j k c uuid =
     (case s of
        [] \<Rightarrow> None
      | x # s \<Rightarrow>
          if x = DASH then str_loop n s j k c uuid
          else do {
            let c = c OR digit_bits x;
            if (j + 1) * 2 = k then do {
              uuid \<leftarrow> wr_mem uuid j c;
              str_loop n s (j + 1) (k + 1) 0 uuid
            }
            else str_loop n s j (k + 1) (push_bit 4 c) uuid
          })"

definition oc_str_to_uuid :: "bytes \<Rightarrow> uuid \<Rightarrow> uuid option" where
  "oc_str_to_uuid str uuid = str_loop 36 str 0 1 0 uuid"

section \<open>To text\<close>

definition hex_digit :: "u8 \<Rightarrow> u8" where
  "hex_digit d = (if d < 10 then 48 + d else 87 + d)"

definition hex02 :: "u8 \<Rightarrow> bytes" where
  "hex02 b = [hex_digit (drop_bit 4 b), hex_digit (b AND 0xF)]"

text \<open>\<open>snprintf\<close> writes the characters and the terminating zero.\<close>

primrec to_str_loop :: "nat \<Rightarrow> uuid \<Rightarrow> nat \<Rightarrow> nat \<Rightarrow> bytes \<Rightarrow> bytes option" where
  "to_str_loop 0 uuid i j buffer = Some buffer"
| "to_str_loop (Suc n) uuid i j buffer = do {
     (j, buffer) \<leftarrow> (if i \<in> {4, 6, 8, 10} then do {
                      buffer \<leftarrow> wr_mem_bytes buffer j [DASH, 0];
                      Some (j + 1, buffer)
                    } else Some (j, buffer));
     b \<leftarrow> rd uuid i;
     buffer \<leftarrow> wr_mem_bytes buffer j (hex02 b @ [0]);
     to_str_loop n uuid (i + 1) (j + 2) buffer
   }"

definition oc_uuid_to_str :: "uuid option \<Rightarrow> bytes \<Rightarrow> nat \<Rightarrow> bytes option" where
  "oc_uuid_to_str uuid buffer buflen =
     (case uuid of
        None \<Rightarrow> Some buffer
      | Some u \<Rightarrow> if buflen < OC_UUID_LEN then Some buffer else to_str_loop 16 u 0 0 buffer)"

section \<open>Generation\<close>

definition u32_bytes :: "u32 \<Rightarrow> bytes" where
  "u32_bytes r = [ucast r, ucast (drop_bit 8 r), ucast (drop_bit 16 r), ucast (drop_bit 24 r)]"

definition oc_gen_uuid :: "(nat \<Rightarrow> u32) \<Rightarrow> uuid" where
  "oc_gen_uuid random =
     (let id = concat (map (\<lambda>i. u32_bytes (random i)) [0..<4]);
          id = id[8 := id ! 8 AND 0x3f];
          id = id[8 := id ! 8 OR 0x40];
          id = id[6 := id ! 6 AND 0x0f];
          id = id[6 := id ! 6 OR 0x40]
      in id)"

section \<open>The text of a UUID\<close>

text \<open>The canonical form of RFC 4122: groups of 4, 2, 2, 2 and 6 bytes in lower-case hex.\<close>

definition uuid_text :: "uuid \<Rightarrow> bytes" where
  "uuid_text u = concat (map hex02 (take 4 u)) @ [DASH] @ concat (map hex02 (take 2 (drop 4 u))) @ [DASH]
     @ concat (map hex02 (take 2 (drop 6 u))) @ [DASH] @ concat (map hex02 (take 2 (drop 8 u))) @ [DASH]
     @ concat (map hex02 (drop 10 u))"

lemma nibbles: "list_all (\<lambda>n. digit_bits (hex_digit (of_nat n)) = of_nat n \<and> hex_digit (of_nat n) \<noteq> DASH) [0..<16]"
  by code_simp

lemma digit_bits_hex_digit:
  assumes "unat d < 16"
  shows "digit_bits (hex_digit d) = d" "hex_digit d \<noteq> DASH"
  using nibbles assms by (force simp: list_all_iff simp del: of_char_of)+

lemma byte_nibbles: "unat (drop_bit 4 b) < 16" "unat (b AND 0xF) < 16" for b :: u8
  unfolding take_bit_self_iff [where k = 4, simplified, symmetric]
  by (rule bit_eqI; simp add: bit_simps; use less_Suc_eq in
      \<open>auto simp: bit_simps less_Suc_eq numeral_eq_Suc dest: bit_imp_le_length\<close>)+

lemma join_nibbles: "push_bit 4 (drop_bit 4 b) OR (b AND 0xF) = b" for b :: u8
  by (rule bit_eqI; simp add: bit_simps; use less_Suc_eq in \<open>auto simp: bit_simps less_Suc_eq numeral_eq_Suc\<close>)

lemma str_loop_byte:
  "str_loop (Suc (Suc n)) (hex02 b @ s) j (Suc (2 * j)) 0 uuid =
     do { uuid \<leftarrow> wr_mem uuid j b; str_loop n s (Suc j) (Suc (2 * Suc j)) 0 uuid }"
  using digit_bits_hex_digit [OF byte_nibbles(1) [of b]] digit_bits_hex_digit [OF byte_nibbles(2) [of b]]
  by (simp add: hex02_def join_nibbles del: of_char_of)

lemma str_loop_bytes:
  "j + length bs \<le> length uuid \<Longrightarrow>
   str_loop (2 * length bs + n) (concat (map hex02 bs) @ s) j (Suc (2 * j)) 0 uuid =
     str_loop n s (j + length bs) (Suc (2 * (j + length bs))) 0 (splice j bs uuid)"
proof (induction bs arbitrary: j uuid)
  case (Cons b bs)
  have w: "wr_mem uuid j b = Some (splice j [b] uuid)" using Cons.prems by (simp add: wr_mem_def list_update_splice)
  have "splice (Suc j) bs (splice j [b] uuid) = splice j (b # bs) uuid"
    using splice_splice [of j "[b]" bs uuid] Cons.prems by simp
  then show ?case
    using Cons.IH [of "Suc j" "splice j [b] uuid"] Cons.prems str_loop_byte [of "2 * length bs + n" b "concat (map hex02 bs) @ s" j uuid]
    by (simp add: w)
qed simp

lemma str_loop_group:
  "length bs = m \<Longrightarrow> N = 2 * m + Suc n \<Longrightarrow> j + m \<le> length uuid \<Longrightarrow>
   str_loop N (concat (map hex02 bs) @ DASH # s) j (Suc (2 * j)) 0 uuid =
     str_loop n s (j + m) (Suc (2 * (j + m))) 0 (splice j bs uuid)"
  using str_loop_bytes [of j bs uuid "Suc n" "DASH # s"] by simp

lemma str_to_uuid_text:
  assumes "length u = 16" and "length u' = 16"
  shows "oc_str_to_uuid (uuid_text u @ rest) u' = Some u"
proof -
  have len: "length (take 4 u) = 4" "length (take 2 (drop 4 u)) = 2" "length (take 2 (drop 6 u)) = 2"
    "length (take 2 (drop 8 u)) = 2" "length (drop 10 u) = 6"
    using assms by simp_all
  let ?u1 = "splice 0 (take 4 u) u'" and ?r = "concat (map hex02 (drop 10 u)) @ rest"
  let ?u2 = "splice 4 (take 2 (drop 4 u)) ?u1"
  let ?u3 = "splice 6 (take 2 (drop 6 u)) ?u2"
  let ?u4 = "splice 8 (take 2 (drop 8 u)) ?u3"
  have l: "length ?u1 = 16" "length ?u2 = 16" "length ?u3 = 16" "length ?u4 = 16"
    using assms by simp_all
  have "str_loop 12 ?r 10 21 0 ?u4 = Some (splice 10 (drop 10 u) ?u4)"
    using str_loop_bytes [of 10 "drop 10 u" ?u4 0 rest] l assms by simp
  then have "oc_str_to_uuid (uuid_text u @ rest) u' = Some (splice 10 (drop 10 u) ?u4)"
    using str_loop_group [OF len(1), of 36 27 0 u'] str_loop_group [OF len(2), of 27 22 4 ?u1]
      str_loop_group [OF len(3), of 22 17 6 ?u2] str_loop_group [OF len(4), of 17 12 8 ?u3] l assms
    by (simp add: oc_str_to_uuid_def uuid_text_def del: of_char_of)
  also have "splice 10 (drop 10 u) ?u4 = u"
    using l assms by (intro nth_equalityI) (auto simp: nth_splice)
  finally show ?thesis .
qed

text \<open>The writer leaves the text so far and its terminating zero at the front of the buffer.\<close>

definition text_from :: "uuid \<Rightarrow> nat \<Rightarrow> bytes" where
  "text_from u i = concat (map (\<lambda>i. (if i \<in> {4, 6, 8, 10} then [DASH] else []) @ hex02 (u ! i)) [i..<16])"

lemma splice_over_zero:
  "ys \<noteq> [] \<Longrightarrow> length p + length ys \<le> length b \<Longrightarrow>
   wr_mem_bytes (splice 0 (p @ [z]) b) (length p) ys = Some (splice 0 (p @ ys) b)"
  by (cases ys) (auto simp: wr_mem_bytes_def splice_def add.commute)

lemma text_from_step:
  "i < 16 \<Longrightarrow> text_from u i = (if i \<in> {4, 6, 8, 10} then [DASH] else []) @ hex02 (u ! i) @ text_from u (Suc i)"
  by (simp add: text_from_def upt_conv_Cons)

lemma to_str_loop_eq:
  "(n = 0 \<longrightarrow> z = 0) \<Longrightarrow> i + n = 16 \<Longrightarrow> length u = 16 \<Longrightarrow> length p + length (text_from u i) < length b \<Longrightarrow>
   to_str_loop n u i (length p) (splice 0 (p @ [z]) b) = Some (splice 0 (p @ text_from u i @ [0]) b)"
proof (induction n arbitrary: i p z)
  case 0
  then show ?case by (simp add: text_from_def)
next
  case (Suc n)
  define d where "d = (if i \<in> {4, 6, 8, 10} then [DASH] else [])"
  have t: "text_from u i = d @ hex02 (u ! i) @ text_from u (Suc i)"
    using Suc.prems text_from_step [of i u] by (simp add: d_def)
  let ?q = "p @ d @ hex02 (u ! i)"
  have fits: "length ?q + length (text_from u (Suc i)) < length b" using Suc.prems(4) t by simp
  have d1: "(if i \<in> {4, 6, 8, 10} then do {
          buffer \<leftarrow> wr_mem_bytes (splice 0 (p @ [z]) b) (length p) [DASH, 0];
          Some (length p + 1, buffer)
        } else Some (length p, splice 0 (p @ [z]) b)) =
      Some (length (p @ d), splice 0 ((p @ d) @ [if d = [] then z else 0]) b)"
    using fits splice_over_zero [of "[DASH, 0]" p b z] by (simp add: d_def hex02_def)
  have d2: "wr_mem_bytes (splice 0 ((p @ d) @ [if d = [] then z else 0]) b) (length (p @ d)) (hex02 (u ! i) @ [0]) = Some (splice 0 (?q @ [0]) b)"
    using fits splice_over_zero [of "hex02 (u ! i) @ [0]" "p @ d" b] by simp
  have "to_str_loop (Suc n) u i (length p) (splice 0 (p @ [z]) b) =
      to_str_loop n u (Suc i) (length ?q) (splice 0 (?q @ [0]) b)"
    unfolding to_str_loop.simps d1 using d2 Suc.prems by (simp add: rd_def hex02_def)
  then show ?case using Suc.IH [of 0 "Suc i" ?q] Suc.prems fits t by simp
qed

lemma uuid_text_from: "length u = 16 \<Longrightarrow> text_from u 0 = uuid_text u"
  by (auto simp: text_from_def uuid_text_def upt_rec length_Suc_conv numeral_eq_Suc)

lemma length_uuid_text: "length u = 16 \<Longrightarrow> length (uuid_text u) = 36"
  by (auto simp: uuid_text_def length_Suc_conv hex02_def numeral_eq_Suc)

lemma uuid_to_str_eq:
  assumes "length u = 16" and "OC_UUID_LEN \<le> buflen" and "buflen \<le> length buffer"
  shows "oc_uuid_to_str (Some u) buffer buflen = Some (splice 0 (uuid_text u @ [0]) buffer)"
proof -
  obtain z b where b: "buffer = z # b" using assms by (cases buffer) auto
  have "to_str_loop 16 u 0 0 (splice 0 ([] @ [z]) buffer) = Some (splice 0 ([] @ text_from u 0 @ [0]) buffer)"
    using to_str_loop_eq [of 16 z 0 u "[]" buffer] uuid_text_from [OF assms(1)] length_uuid_text [OF assms(1)] assms
    by simp
  moreover have "splice 0 ([] @ [z]) buffer = buffer" by (simp add: b splice_def)
  ultimately show ?thesis
    using assms uuid_text_from [OF assms(1)] by (simp add: oc_uuid_to_str_def)
qed

section \<open>Arbitrary strings\<close>

lemma str_loop_defined:
  "k = Suc (2 * j) \<or> k = Suc (Suc (2 * j)) \<Longrightarrow> j \<le> length uuid \<Longrightarrow> n \<le> length s \<Longrightarrow>
   str_loop n s j k c uuid = None \<longleftrightarrow>
     length uuid < (k - 1 + length (filter (\<lambda>x. x \<noteq> DASH) (take n s))) div 2"
proof (induction n arbitrary: s j k c uuid)
  case (Suc n)
  then obtain x t where s: "s = x # t" by (cases s) auto
  consider "x = DASH" | "x \<noteq> DASH" "k = Suc (2 * j)" | "x \<noteq> DASH" "k = Suc (Suc (2 * j))"
    using Suc.prems(1) by blast
  then show ?case
  proof cases
    case 3
    then show ?thesis
      using Suc.IH [of "Suc k" "Suc j" _ t] Suc.prems s
      by (cases "j < length uuid") (auto simp: wr_mem_def simp del: of_char_of)
  qed (use Suc s in \<open>simp_all del: of_char_of\<close>)
qed auto

section \<open>Properties\<close>

text \<open>C34: Round trip: writing a UUID into a buffer of at least 37 bytes gives its canonical text
  with the terminating zero and leaves the rest of the buffer, and reading that text gives the
  UUID back.\<close>

theorem oc_uuid_roundtrip:
  assumes "length u = 16" and "length u' = 16" and "OC_UUID_LEN \<le> buflen" and "buflen \<le> length buffer"
  shows "\<exists>text. oc_uuid_to_str (Some u) buffer buflen = Some text \<and>
     take 37 text = uuid_text u @ [0] \<and> drop 37 text = drop 37 buffer \<and> oc_str_to_uuid text u' = Some u"
proof -
  have "splice 0 (uuid_text u @ [0]) buffer = uuid_text u @ [0] @ drop 37 buffer"
    using length_uuid_text [OF assms(1)] by (simp add: splice_def)
  with uuid_to_str_eq [OF assms(1,3,4)] str_to_uuid_text [OF assms(1,2)] length_uuid_text [OF assms(1)]
  show ?thesis by simp
qed

theorem oc_uuid_roundtrip_witness:
  "\<exists>text. oc_uuid_to_str (Some (replicate 16 0xAB)) (replicate 40 7) 40 = Some text \<and>
     take 37 text = uuid_text (replicate 16 0xAB) @ [0] \<and> oc_str_to_uuid text (replicate 16 0) = Some (replicate 16 0xAB)"
  using oc_uuid_roundtrip [of "replicate 16 0xAB" "replicate 16 0" 40 "replicate 40 7"] by auto

text \<open>Reading a UUID from at least 36 characters writes behind the 16-byte array exactly when
  34 or more of the first 36 characters are not dashes.\<close>

theorem oc_str_to_uuid_overrun:
  assumes "36 \<le> length str" and "length uuid = 16"
  shows "oc_str_to_uuid str uuid = None \<longleftrightarrow> 34 \<le> length (filter (\<lambda>x. x \<noteq> DASH) (take 36 str))"
  using str_loop_defined [of 1 0 uuid 36 str 0] assms by (auto simp: oc_str_to_uuid_def)

theorem oc_str_to_uuid_overrun_witness:
  "oc_str_to_uuid (replicate 36 0x61) (replicate 16 0) = None"
  using oc_str_to_uuid_overrun [of "replicate 36 0x61" "replicate 16 0"] by simp

text \<open>A generated UUID has version nibble 4, and the two top bits of byte 8 are 0 and 1,
  whatever the random numbers are; so it never carries the variant 1 and 0 of RFC 4122.\<close>

theorem oc_gen_uuid_bits:
  "length (oc_gen_uuid random) = 16 \<and> drop_bit 4 (oc_gen_uuid random ! 6) = 4 \<and>
   drop_bit 6 (oc_gen_uuid random ! 8) = 1"
proof -
  have "drop_bit 4 ((x AND 0x0f) OR 0x40) = 4" "drop_bit 6 ((x AND 0x3f) OR 0x40) = 1" for x :: u8
    by (rule bit_eqI; simp add: bit_simps; use less_Suc_eq in \<open>auto simp: bit_simps less_Suc_eq numeral_eq_Suc\<close>)+
  then show ?thesis
    by (simp add: oc_gen_uuid_def u32_bytes_def Let_def upt_rec numeral_eq_Suc)
qed

end
