(* ===== verification/Sec_Types.thy ===== *)
theory Sec_Types
  imports OC_Uuid
begin

text \<open>
  The data of the security layer: parsed payloads (\<open>oc_rep_t\<close>), resources, endpoints,
  TLS peers, credentials, access control entries and the per-device state of the resources
  \<open>/oic/sec/doxm\<close>, \<open>pstat\<close>, \<open>acl2\<close> and \<open>cred\<close>, as built with \<open>OC_SECURITY\<close> and \<open>OC_PKI\<close>.

  C strings hold no zero byte and are character lists; allocation of string memory succeeds.
  A linked list of the C code is a HOL list, and a pointer into it is the suffix that starts
  there, the null pointer the empty suffix. The two block pools of the access control list are
  the counts of their free blocks (by the theorems of \<open>OC_Memb\<close> an allocation succeeds exactly
  when that count is positive, and a free adds one).
\<close>

section \<open>Parsed payloads\<close>

text \<open>The value union with its type; nothing here reads floating-point values, which are left out
  (an array of them keeps its length).\<close>

datatype oc_rep = Rep (rep_name: string) (rep_value: rep_value)
and rep_value =
    REP_NIL
  | REP_INT int
  | REP_DOUBLE
  | REP_BOOL bool
  | REP_BYTE_STRING bytes
  | REP_STRING string
  | REP_OBJECT "oc_rep list"
  | REP_INT_ARRAY "int list"
  | REP_DOUBLE_ARRAY nat
  | REP_BOOL_ARRAY "bool list"
  | REP_BYTE_STRING_ARRAY "bytes list"
  | REP_STRING_ARRAY "string list"
  | REP_OBJECT_ARRAY "oc_rep list list"

text \<open>The memory of a C string: its characters and the terminating zero.\<close>

definition c_str :: "string \<Rightarrow> bytes" where
  "c_str s = map of_char s @ [0]"

section \<open>Resources and endpoints\<close>

datatype oc_method = OC_GET | OC_POST | OC_PUT | OC_DELETE

abbreviation (input) "OC_DISCOVERABLE \<equiv> 0x01 :: u32"
abbreviation (input) "OC_SECURE \<equiv> 0x10 :: u32"

text \<open>\<open>core_index\<close> is the position in \<open>core_resources\<close> of a resource that lives there.\<close>

record oc_resource =
  uri :: string
  rtypes :: "string list"
  rinterfaces :: u32
  properties :: u32
  rdevice :: nat
  core_index :: "nat option"

abbreviation (input) "OCF_P \<equiv> 0 :: nat"
abbreviation (input) "OCF_RES \<equiv> 4 :: nat"
abbreviation (input) "OCF_SEC_DOXM \<equiv> 5 :: nat"
abbreviation (input) "OCF_SEC_PSTAT \<equiv> 6 :: nat"
abbreviation (input) "OCF_SEC_ACL \<equiv> 7 :: nat"
abbreviation (input) "OCF_SEC_CRED \<equiv> 8 :: nat"
abbreviation (input) "OCF_D \<equiv> 12 :: nat"
abbreviation (input) "OC_NUM_CORE_RESOURCES_PER_DEVICE \<equiv> 13 :: nat"

definition oc_core_is_DCR :: "oc_resource \<Rightarrow> nat \<Rightarrow> bool" where
  "oc_core_is_DCR resource device \<longleftrightarrow>
     (let device_resources = OCF_D * device;
          DCRs_start = device_resources + OCF_RES;
          DCRs_end = device_resources + OCF_D
      in core_index resource = Some 0 \<or>
         list_ex (\<lambda>i. core_index resource = Some i) [DCRs_start..<DCRs_end + 1])"

abbreviation (input) "SECURED \<equiv> 0x02 :: u32"
abbreviation (input) "IPV4 \<equiv> 0x04 :: u32"
abbreviation (input) "IPV6 \<equiv> 0x08 :: u32"
abbreviation (input) "MULTICAST \<equiv> 0x40 :: u32"
abbreviation (input) "TCP \<equiv> 0x10 :: u32"

text \<open>The address union: the bytes and port of the IPv6 or IPv4 member, as the flags say.\<close>

record oc_endpoint =
  edevice :: nat
  flags :: u32
  address :: bytes
  port :: u16
  interface_index :: int
  ep_version :: u16

definition oc_endpoint_compare :: "oc_endpoint \<Rightarrow> oc_endpoint \<Rightarrow> int" where
  "oc_endpoint_compare ep1 ep2 =
     (if flags ep1 AND NOT MULTICAST \<noteq> flags ep2 AND NOT MULTICAST \<or> edevice ep1 \<noteq> edevice ep2 then - 1
      else if flags ep1 AND IPV6 \<noteq> 0 then
        if address ep1 = address ep2 \<and> port ep1 = port ep2 then 0 else - 1
      else if flags ep1 AND IPV4 \<noteq> 0 then
        if address ep1 = address ep2 \<and> port ep1 = port ep2 then 0 else - 1
      else - 1)"

section \<open>Credentials and peers\<close>

abbreviation (input) "OC_CREDTYPE_PSK \<equiv> 1 :: int"
abbreviation (input) "OC_CREDUSAGE_NULL \<equiv> 0 :: int"

record oc_sec_cred =
  credid :: int
  credtype :: int
  credusage :: int
  subjectuuid :: uuid
  cred_role :: string
  cred_authority :: string

record oc_sec_creds =
  creds :: "oc_sec_cred list"
  cred_rowneruuid :: uuid

text \<open>A TLS session with its peer's UUID, whether it uses a pre-shared key, and the roles the
  peer has asserted, with the device they were asserted to.\<close>

record oc_tls_peer =
  peer_endpoint :: oc_endpoint
  peer_uuid :: uuid
  uses_psk :: bool
  roles :: "oc_sec_cred list"
  roles_device :: nat

section \<open>Access control entries\<close>

abbreviation (input) "OC_PERM_CREATE \<equiv> 0x01 :: u16"
abbreviation (input) "OC_PERM_RETRIEVE \<equiv> 0x02 :: u16"
abbreviation (input) "OC_PERM_UPDATE \<equiv> 0x04 :: u16"
abbreviation (input) "OC_PERM_DELETE \<equiv> 0x08 :: u16"
abbreviation (input) "OC_PERM_NOTIFY \<equiv> 0x10 :: u16"

abbreviation (input) "OC_ACE_NO_WC \<equiv> - 1 :: u32"
abbreviation (input) "OC_ACE_WC_ALL \<equiv> 0x111 :: u32"
abbreviation (input) "OC_ACE_WC_ALL_SECURED \<equiv> 0x01 :: u32"
abbreviation (input) "OC_ACE_WC_ALL_PUBLIC \<equiv> 0x10 :: u32"

datatype oc_ace_connection_type = OC_CONN_AUTH_CRYPT | OC_CONN_ANON_CLEAR

text \<open>The subject union together with its type tag.\<close>

datatype oc_ace_subject =
    SUBJECT_UUID uuid
  | SUBJECT_ROLE string string
  | SUBJECT_CONN oc_ace_connection_type

record oc_ace_res =
  href :: string
  interfaces :: u32
  types :: "string list"
  wildcard :: u32

record oc_sec_ace =
  resources :: "oc_ace_res list"
  subject :: oc_ace_subject
  aceid :: int
  permission :: u16

record oc_sec_acl =
  subjects :: "oc_sec_ace list"
  acl_rowneruuid :: uuid

section \<open>Ownership and provisioning state\<close>

record oc_sec_doxm =
  oxmsel :: int
  sct :: int
  owned :: bool
  devowneruuid :: uuid
  deviceuuid :: uuid
  doxm_rowneruuid :: uuid

abbreviation (input) "OC_DOS_RESET \<equiv> 0 :: int"
abbreviation (input) "OC_DOS_RFOTM \<equiv> 1 :: int"
abbreviation (input) "OC_DOS_RFPRO \<equiv> 2 :: int"
abbreviation (input) "OC_DOS_RFNOP \<equiv> 3 :: int"
abbreviation (input) "OC_DOS_SRESET \<equiv> 4 :: int"

record oc_sec_pstat =
  dos_s :: int
  dos_p :: bool
  isop :: bool
  cm :: int
  tm :: int
  om :: int
  sm :: int
  pstat_rowneruuid :: uuid

record oc_sec_sp =
  current_profile :: u32
  supported_profiles :: u32
  sp_credid :: int

section \<open>The state of the security layer\<close>

text \<open>Besides the security resources: the identifiers of the devices and the platform, the core
  resources, and the stream of random numbers the port layer delivers.\<close>

record sec =
  num_devices :: nat
  core_resources :: "nat \<Rightarrow> oc_resource"
  aclist :: "nat \<Rightarrow> oc_sec_acl"
  ace_free :: nat
  res_free :: nat
  pstat :: "nat \<Rightarrow> oc_sec_pstat"
  doxm :: "nat \<Rightarrow> oc_sec_doxm"
  devices :: "nat \<Rightarrow> oc_sec_creds"
  tls_peers :: "oc_tls_peer list"
  sp :: "nat \<Rightarrow> oc_sec_sp"
  sp_mfg_default :: "nat \<Rightarrow> oc_sec_sp"
  device_di :: "nat \<Rightarrow> uuid"
  device_piid :: "nat \<Rightarrow> uuid"
  platform_pi :: uuid
  set_post_otm_acl :: bool
  random_numbers :: "nat \<Rightarrow> u32"
  random_pos :: nat

definition oc_random_value :: "sec \<Rightarrow> u32 \<times> sec" where
  "oc_random_value s = (random_numbers s (random_pos s), s\<lparr>random_pos := random_pos s + 1\<rparr>)"

definition oc_core_get_resource_by_index :: "sec \<Rightarrow> nat \<Rightarrow> nat \<Rightarrow> oc_resource" where
  "oc_core_get_resource_by_index s type device =
     (if type = OCF_P then core_resources s 0 else core_resources s (OCF_D * device + type))"

definition nil_id :: uuid where
  "nil_id = replicate 16 0"

primrec find_peer :: "oc_tls_peer list \<Rightarrow> oc_endpoint \<Rightarrow> oc_tls_peer list" where
  "find_peer [] ep = []"
| "find_peer (p # ps) ep = (if oc_endpoint_compare (peer_endpoint p) ep = 0 then p # ps else find_peer ps ep)"

definition oc_tls_get_peer :: "sec \<Rightarrow> oc_endpoint \<Rightarrow> oc_tls_peer list" where
  "oc_tls_get_peer s ep = find_peer (tls_peers s) ep"

primrec find_cred :: "oc_sec_cred list \<Rightarrow> (oc_sec_cred \<Rightarrow> bool) \<Rightarrow> oc_sec_cred option" where
  "find_cred [] P = None"
| "find_cred (c # cs) P = (if P c then Some c else find_cred cs P)"

definition oc_sec_find_cred :: "sec \<Rightarrow> uuid \<Rightarrow> int \<Rightarrow> int \<Rightarrow> nat \<Rightarrow> oc_sec_cred option" where
  "oc_sec_find_cred s u ty us device =
     find_cred (creds (devices s device)) (\<lambda>c. credtype c = ty \<and> credusage c = us \<and> subjectuuid c = u)"

definition oc_sec_find_creds_for_subject :: "sec \<Rightarrow> uuid \<Rightarrow> nat \<Rightarrow> oc_sec_cred option" where
  "oc_sec_find_creds_for_subject s u device =
     find_cred (creds (devices s device)) (\<lambda>c. subjectuuid c = u)"

lemma find_cred_None_iff: "find_cred cs P = None \<longleftrightarrow> (\<forall>c \<in> set cs. \<not> P c)"
  by (induction cs) auto

lemma find_cred_Some: "find_cred cs P = Some c \<Longrightarrow> c \<in> set cs \<and> P c"
  by (induction cs) (auto split: if_splits)

end
