(* ===== verification/Sec_Acl.thy ===== *)
theory Sec_Acl
  imports Sec_Types
begin

text \<open>
  The access decision: \<open>oc_sec_check_acl\<close> of \<open>src/security/oc_acl.c\<close> with the searches it is made
  of. The property is the policy the decision implements, stated without loops or accumulated
  permission bits. Whether a role certificate is valid is decided by mbedTLS and is a parameter.
\<close>

section \<open>Matching a resource entry\<close>

text \<open>The inner loop over the types of an entry: a \<open>*\<close> ends it without a match.\<close>

primrec type_loop :: "string \<Rightarrow> string list \<Rightarrow> bool" where
  "type_loop t [] = False"
| "type_loop t (u # us) = (if u = ''*'' then False else if t = u then True else type_loop t us)"

definition href_match :: "string option \<Rightarrow> oc_ace_res \<Rightarrow> bool \<times> bool" where
  "href_match h res =
     (case h of
        Some h \<Rightarrow>
          let skip = (if h \<noteq> [] \<and> hd h = CHR ''/'' then 0 else 1) in
          if length (href res) > 0 then
            if length h + skip \<noteq> length (href res) \<or> drop skip (href res) \<noteq> h then (False, False)
            else (True, True)
          else (True, False)
      | None \<Rightarrow> (True, False))"

definition res_match :: "oc_ace_res \<Rightarrow> string option \<Rightarrow> string list option \<Rightarrow> u32 \<Rightarrow> u32 \<Rightarrow> bool" where
  "res_match res h rt iface_mask wc =
     (let (match, positive) = href_match h res;
          (match, positive) =
            (case rt of
               Some rts \<Rightarrow>
                 if match \<and> length (types res) > 0 then
                   if \<not> list_ex (\<lambda>t. type_loop t (types res)) rts then (False, positive) else (match, True)
                 else (match, positive)
             | None \<Rightarrow> (match, positive));
          (match, positive) =
            (if match \<and> iface_mask \<noteq> 0 \<and> interfaces res \<noteq> 0 then
               if iface_mask AND interfaces res = 0 then (False, positive) else (match, True)
             else (match, positive));
          (match, positive) =
            (if match \<and> wc \<noteq> 0 \<and> wildcard res \<noteq> 0 then
               if wc \<noteq> OC_ACE_WC_ALL \<and> wc AND wildcard res \<noteq> 0 then (match, True)
               else if wc = OC_ACE_WC_ALL \<and> wildcard res = OC_ACE_WC_ALL then (match, True)
               else (False, positive)
             else (match, positive))
      in match \<and> positive)"

primrec find_res :: "oc_ace_res list \<Rightarrow> string option \<Rightarrow> string list option \<Rightarrow> u32 \<Rightarrow> u32 \<Rightarrow> oc_ace_res list" where
  "find_res [] h rt i w = []"
| "find_res (r # rs) h rt i w = (if res_match r h rt i w then r # rs else find_res rs h rt i w)"

definition oc_sec_ace_find_resource ::
  "oc_ace_res list \<Rightarrow> oc_sec_ace \<Rightarrow> string option \<Rightarrow> string list option \<Rightarrow> u32 \<Rightarrow> u32 \<Rightarrow> oc_ace_res list" where
  "oc_sec_ace_find_resource start ace h rt i w =
     find_res (if start = [] then resources ace else tl start) h rt i w"

section \<open>Finding the entries of a subject\<close>

primrec find_ace :: "oc_sec_ace list \<Rightarrow> oc_ace_subject \<Rightarrow> int \<Rightarrow> u16 \<Rightarrow> oc_sec_ace list" where
  "find_ace [] sub n perm = []"
| "find_ace (a # as) sub n perm =
     (if n \<noteq> - 1 \<and> aceid a \<noteq> n then find_ace as sub n perm
      else if perm \<noteq> 0 \<and> permission a \<noteq> perm then find_ace as sub n perm
      else if subject a = sub then a # as
      else find_ace as sub n perm)"

definition oc_sec_acl_find_subject ::
  "oc_sec_ace list \<Rightarrow> oc_ace_subject \<Rightarrow> int \<Rightarrow> u16 \<Rightarrow> sec \<Rightarrow> nat \<Rightarrow> oc_sec_ace list" where
  "oc_sec_acl_find_subject start sub n perm s device =
     find_ace (if start = [] then subjects (aclist s device) else tl start) sub n perm"

lemma length_find_res: "length (find_res rs h rt i w) \<le> length rs"
  by (induction rs) auto

lemma length_find_ace: "length (find_ace as sub n perm) \<le> length as"
  by (induction as) auto

section \<open>Permissions\<close>

text \<open>\<open>while (res != NULL) { permission |= ace->permission; res = find(res, ...); }\<close>\<close>

function permission_loop ::
  "oc_ace_res list \<Rightarrow> oc_sec_ace \<Rightarrow> string option \<Rightarrow> string list option \<Rightarrow> u32 \<Rightarrow> u32 \<Rightarrow> u16 \<Rightarrow> u16" where
  "permission_loop res ace h rt i w perm =
     (if res \<noteq> [] then
        permission_loop (oc_sec_ace_find_resource res ace h rt i w) ace h rt i w (perm OR permission ace)
      else perm)"
  by pat_completeness auto
termination
  by (relation "measure (\<lambda>(res, _). length res)")
    (auto simp: oc_sec_ace_find_resource_def neq_Nil_conv intro!: le_imp_less_Suc length_find_res)

declare permission_loop.simps [simp del]

definition wildcard_of :: "oc_resource \<Rightarrow> bool \<Rightarrow> bool \<Rightarrow> u32" where
  "wildcard_of resource is_DCR is_public =
     (if \<not> is_DCR then
        if properties resource AND OC_DISCOVERABLE \<noteq> 0 then
          if is_public then OC_ACE_WC_ALL_PUBLIC OR OC_ACE_WC_ALL_SECURED else OC_ACE_WC_ALL_SECURED
        else OC_ACE_WC_ALL
      else 0)"

definition oc_ace_get_permission :: "oc_sec_ace \<Rightarrow> oc_resource \<Rightarrow> u32 \<Rightarrow> bool \<Rightarrow> bool \<Rightarrow> u16" where
  "oc_ace_get_permission ace resource iface_mask is_DCR is_public =
     (let wc = wildcard_of resource is_DCR is_public;
          res = oc_sec_ace_find_resource [] ace (Some (uri resource)) (Some (rtypes resource)) iface_mask wc
      in permission_loop res ace (Some (uri resource)) (Some (rtypes resource)) iface_mask wc 0)"

text \<open>
  The loop over the entries of a subject, which the source has four times:
  \<open>do { match = find_subject(match, ...); if (match) permission |= ...; } while (match);\<close>
\<close>

function subject_loop ::
  "oc_sec_ace list \<Rightarrow> oc_ace_subject \<Rightarrow> sec \<Rightarrow> nat \<Rightarrow> (oc_sec_ace \<Rightarrow> u16) \<Rightarrow> u16 \<Rightarrow> u16" where
  "subject_loop match sub s device get perm =
     (let match' = oc_sec_acl_find_subject match sub (- 1) 0 s device
      in if match' \<noteq> [] then subject_loop match' sub s device get (perm OR get (hd match')) else perm)"
  by pat_completeness auto
termination
proof (relation "measure (\<lambda>(match, sub, s, device, _).
    if match = [] then Suc (length (subjects (aclist s device))) else length match)")
  fix match sub s device get perm x
  assume x: "x = oc_sec_acl_find_subject match sub (- 1) 0 s device" "x \<noteq> []"
  have "length x \<le> length (if match = [] then subjects (aclist s device) else tl match)"
    unfolding x oc_sec_acl_find_subject_def by (rule length_find_ace)
  with x(2) show "((x, sub, s, device, get, perm OR get (hd x)), match, sub, s, device, get, perm)
      \<in> measure (\<lambda>(match, sub, s, device, _).
           if match = [] then Suc (length (subjects (aclist s device))) else length match)"
    by (cases match) auto
qed simp

declare subject_loop.simps [simp del]

definition get_role_permissions :: "oc_sec_cred \<Rightarrow> oc_resource \<Rightarrow> u32 \<Rightarrow> sec \<Rightarrow> nat \<Rightarrow> bool \<Rightarrow> bool \<Rightarrow> u16" where
  "get_role_permissions role_cred resource iface_mask s device is_DCR is_public =
     subject_loop [] (SUBJECT_ROLE (cred_role role_cred) (cred_authority role_cred)) s device
       (\<lambda>ace. oc_ace_get_permission ace resource iface_mask is_DCR is_public) 0"

section \<open>The decision\<close>

text \<open>The loop over the asserted roles of a peer with a certificate: invalid ones are freed.\<close>

primrec roles_loop :: "(oc_sec_cred \<Rightarrow> bool) \<Rightarrow> (oc_sec_cred \<Rightarrow> u16) \<Rightarrow> oc_sec_cred list \<Rightarrow> u16 \<Rightarrow> u16 \<times> oc_sec_cred list" where
  "roles_loop valid get [] perm = (perm, [])"
| "roles_loop valid get (r # rs) perm =
     (if \<not> valid r then roles_loop valid get rs perm
      else case roles_loop valid get rs (perm OR get r) of (p, kept) \<Rightarrow> (p, r # kept))"

definition is_resource_owner :: "sec \<Rightarrow> oc_resource \<Rightarrow> nat \<Rightarrow> uuid \<Rightarrow> bool" where
  "is_resource_owner s resource device u \<longleftrightarrow>
     (if u = acl_rowneruuid (aclist s device) \<and> uri resource = ''/oic/sec/acl2'' then True
      else if u = doxm_rowneruuid (doxm s device) \<and> uri resource = ''/oic/sec/doxm'' then True
      else if u = pstat_rowneruuid (pstat s device) \<and> uri resource = ''/oic/sec/pstat'' then True
      else if u = cred_rowneruuid (devices s device) \<and> uri resource = ''/oic/sec/cred'' then True
      else False)"

definition method_allowed :: "oc_method \<Rightarrow> u16 \<Rightarrow> bool" where
  "method_allowed meth perm \<longleftrightarrow> perm \<noteq> 0 \<and>
     (case meth of
        OC_GET \<Rightarrow> perm AND OC_PERM_RETRIEVE \<noteq> 0 \<or> perm AND OC_PERM_NOTIFY \<noteq> 0
      | OC_PUT \<Rightarrow> perm AND OC_PERM_CREATE \<noteq> 0 \<or> perm AND OC_PERM_UPDATE \<noteq> 0
      | OC_POST \<Rightarrow> perm AND OC_PERM_CREATE \<noteq> 0 \<or> perm AND OC_PERM_UPDATE \<noteq> 0
      | OC_DELETE \<Rightarrow> perm AND OC_PERM_DELETE \<noteq> 0)"

definition put_peer :: "sec \<Rightarrow> oc_tls_peer list \<Rightarrow> oc_tls_peer \<Rightarrow> sec" where
  "put_peer s here p =
     s\<lparr>tls_peers := take (length (tls_peers s) - length here) (tls_peers s) @ p # tl here\<rparr>"

text \<open>What an authenticated peer gets by its UUID and its roles; expired roles are dropped.\<close>

definition peer_permissions ::
  "(oc_sec_cred \<Rightarrow> bool) \<Rightarrow> sec \<Rightarrow> oc_resource \<Rightarrow> u32 \<Rightarrow> nat \<Rightarrow> bool \<Rightarrow> bool \<Rightarrow> oc_tls_peer list \<Rightarrow> u16 \<times> sec" where
  "peer_permissions valid s resource iface_mask device is_DCR is_public peer =
     (let perm = subject_loop [] (SUBJECT_UUID (peer_uuid (hd peer))) s device
                   (\<lambda>ace. oc_ace_get_permission ace resource iface_mask is_DCR is_public) 0
      in if uses_psk (hd peer) then
           case oc_sec_find_cred s (peer_uuid (hd peer)) OC_CREDTYPE_PSK OC_CREDUSAGE_NULL device of
             Some c \<Rightarrow>
               if length (cred_role c) > 0
               then (perm OR get_role_permissions c resource iface_mask s device is_DCR is_public, s)
               else (perm, s)
           | None \<Rightarrow> (perm, s)
         else
           case roles_loop valid (\<lambda>c. get_role_permissions c resource iface_mask s device is_DCR is_public)
               (roles (hd peer)) perm of
             (perm, kept) \<Rightarrow> (perm, put_peer s peer ((hd peer)\<lparr>roles := kept\<rparr>)))"

definition oc_sec_check_acl ::
  "(oc_sec_cred \<Rightarrow> bool) \<Rightarrow> sec \<Rightarrow> oc_method \<Rightarrow> oc_resource \<Rightarrow> u32 \<Rightarrow> oc_endpoint \<Rightarrow> bool \<times> sec" where
  "oc_sec_check_acl valid s meth resource iface_mask endpoint =
     (let device = edevice endpoint;
          is_DCR = oc_core_is_DCR resource (rdevice resource);
          is_public = (properties resource AND OC_SECURE = 0);
          get = (\<lambda>ace. oc_ace_get_permission ace resource iface_mask is_DCR is_public);
          peer = oc_tls_get_peer s endpoint
      in if \<not> is_DCR \<and> dos_s (pstat s device) \<noteq> OC_DOS_RFNOP then (False, s)
         else if peer \<noteq> [] \<and> is_resource_owner s resource device (peer_uuid (hd peer)) then (True, s)
         else
           let (perm, s) = (if peer \<noteq> [] then peer_permissions valid s resource iface_mask device is_DCR is_public peer
                            else (0, s));
               perm = (if flags endpoint AND SECURED \<noteq> 0
                       then subject_loop [] (SUBJECT_CONN OC_CONN_AUTH_CRYPT) s device get perm else perm);
               perm = subject_loop [] (SUBJECT_CONN OC_CONN_ANON_CLEAR) s device get perm
           in (method_allowed meth perm, s))"

section \<open>The loops as sums of permission bits\<close>

definition ors :: "u16 list \<Rightarrow> u16" where
  "ors xs = foldr (OR) xs 0"

lemma ors_simps [simp]: "ors [] = 0" "ors (x # xs) = x OR ors xs"
  by (simp_all add: ors_def)

lemma or_and_nonzero: "(x OR y) AND m \<noteq> 0 \<longleftrightarrow> x AND m \<noteq> 0 \<or> y AND m \<noteq> 0" for x y m :: u16
  by (auto simp: bit_eq_iff bit_simps)

lemma ors_and_nonzero: "ors xs AND m \<noteq> 0 \<longleftrightarrow> (\<exists>x \<in> set xs. x AND m \<noteq> 0)"
  by (induction xs) (auto simp: or_and_nonzero)

lemma find_res_Nil_iff: "find_res rs h rt i w = [] \<longleftrightarrow> \<not> (\<exists>r \<in> set rs. res_match r h rt i w)"
  by (induction rs) auto

lemma permission_loop_eq:
  "permission_loop res ace h rt i w perm = (if res = [] then perm else perm OR permission ace)"
  by (induction res ace h rt i w perm rule: permission_loop.induct)
    (subst permission_loop.simps, simp add: or.assoc)

definition entry_matches :: "oc_sec_ace \<Rightarrow> oc_resource \<Rightarrow> u32 \<Rightarrow> bool \<Rightarrow> bool \<Rightarrow> bool" where
  "entry_matches ace resource iface_mask is_DCR is_public \<longleftrightarrow>
     (\<exists>r \<in> set (resources ace). res_match r (Some (uri resource)) (Some (rtypes resource)) iface_mask
        (wildcard_of resource is_DCR is_public))"

lemma get_permission_eq:
  "oc_ace_get_permission ace resource i d p = (if entry_matches ace resource i d p then permission ace else 0)"
  by (simp add: oc_ace_get_permission_def permission_loop_eq oc_sec_ace_find_resource_def
      find_res_Nil_iff entry_matches_def Let_def)

lemma find_ace_any: "find_ace as sub (- 1) 0 = dropWhile (\<lambda>a. subject a \<noteq> sub) as"
  by (induction as) auto

lemma filter_dropWhile:
  "dropWhile (\<lambda>x. \<not> P x) xs = y # ys \<Longrightarrow> filter P xs = y # filter P ys"
  by (induction xs) (auto split: if_splits)

lemma subject_loop_eq:
  "subject_loop match sub s device get perm =
     perm OR ors (map get (filter (\<lambda>a. subject a = sub)
       (if match = [] then subjects (aclist s device) else tl match)))"
proof (induction match sub s device get perm rule: subject_loop.induct)
  case (1 match sub s device get perm)
  let ?as = "if match = [] then subjects (aclist s device) else tl match"
  let ?m = "oc_sec_acl_find_subject match sub (- 1) 0 s device"
  have m: "?m = dropWhile (\<lambda>a. subject a \<noteq> sub) ?as"
    by (simp add: oc_sec_acl_find_subject_def find_ace_any)
  show ?case
  proof (cases ?m)
    case Nil
    then have "filter (\<lambda>a. subject a = sub) ?as = []" using m by (auto simp: filter_empty_conv)
    with Nil show ?thesis by (subst subject_loop.simps) (simp del: if_split)
  next
    case (Cons a as)
    then have "filter (\<lambda>a. subject a = sub) ?as = a # filter (\<lambda>a. subject a = sub) as"
      using filter_dropWhile [of "\<lambda>a. subject a = sub" ?as a as] m by simp
    with Cons 1 show ?thesis by (subst subject_loop.simps) (simp del: if_split add: or.assoc)
  qed
qed

lemma roles_loop_eq:
  "roles_loop valid get rs perm = (perm OR ors (map get (filter valid rs)), filter valid rs)"
  by (induction rs arbitrary: perm) (auto simp: or.assoc)

section \<open>The policy\<close>

text \<open>The subjects a request speaks for.\<close>

definition peer_subjects :: "(oc_sec_cred \<Rightarrow> bool) \<Rightarrow> sec \<Rightarrow> nat \<Rightarrow> oc_tls_peer \<Rightarrow> oc_ace_subject set" where
  "peer_subjects valid s device p =
     insert (SUBJECT_UUID (peer_uuid p))
       (if uses_psk p then
          {SUBJECT_ROLE (cred_role c) (cred_authority c) | c.
             oc_sec_find_cred s (peer_uuid p) OC_CREDTYPE_PSK OC_CREDUSAGE_NULL device = Some c \<and> cred_role c \<noteq> []}
        else {SUBJECT_ROLE (cred_role c) (cred_authority c) | c. c \<in> set (roles p) \<and> valid c})"

definition request_subjects :: "(oc_sec_cred \<Rightarrow> bool) \<Rightarrow> sec \<Rightarrow> oc_endpoint \<Rightarrow> oc_ace_subject set" where
  "request_subjects valid s endpoint =
     (case oc_tls_get_peer s endpoint of
        [] \<Rightarrow> {}
      | p # _ \<Rightarrow> peer_subjects valid s (edevice endpoint) p) \<union>
     (if flags endpoint AND SECURED \<noteq> 0 then {SUBJECT_CONN OC_CONN_AUTH_CRYPT} else {}) \<union>
     {SUBJECT_CONN OC_CONN_ANON_CLEAR}"

definition method_mask :: "oc_method \<Rightarrow> u16" where
  "method_mask meth =
     (case meth of
        OC_GET \<Rightarrow> OC_PERM_RETRIEVE OR OC_PERM_NOTIFY
      | OC_PUT \<Rightarrow> OC_PERM_CREATE OR OC_PERM_UPDATE
      | OC_POST \<Rightarrow> OC_PERM_CREATE OR OC_PERM_UPDATE
      | OC_DELETE \<Rightarrow> OC_PERM_DELETE)"

lemma method_allowed_iff: "method_allowed meth p \<longleftrightarrow> p AND method_mask meth \<noteq> 0"
proof -
  have "p AND (a OR b) \<noteq> 0 \<longleftrightarrow> p AND a \<noteq> 0 \<or> p AND b \<noteq> 0" for a b :: u16
    by (auto simp: bit_eq_iff bit_simps)
  then show ?thesis
    unfolding method_allowed_def method_mask_def by (cases meth) (auto simp only: oc_method.case and_zero_eq zero_and_eq)
qed

text \<open>One entry grants the method on the resource.\<close>

definition entry_grants :: "oc_sec_ace \<Rightarrow> oc_method \<Rightarrow> oc_resource \<Rightarrow> u32 \<Rightarrow> bool" where
  "entry_grants ace meth resource iface_mask \<longleftrightarrow>
     entry_matches ace resource iface_mask (oc_core_is_DCR resource (rdevice resource))
       (properties resource AND OC_SECURE = 0) \<and>
     permission ace AND method_mask meth \<noteq> 0"

lemma granted_bits:
  "ors (map (\<lambda>a. oc_ace_get_permission a resource iface_mask (oc_core_is_DCR resource (rdevice resource))
       (properties resource AND OC_SECURE = 0)) (filter (\<lambda>a. subject a = sub) as)) AND method_mask meth \<noteq> 0 \<longleftrightarrow>
   (\<exists>a \<in> set as. subject a = sub \<and> entry_grants a meth resource iface_mask)"
  by (auto simp: ors_and_nonzero get_permission_eq entry_grants_def)

lemma peer_permissions_bits:
  fixes resource iface_mask
  defines "d \<equiv> oc_core_is_DCR resource (rdevice resource)" and "u \<equiv> properties resource AND OC_SECURE = 0"
  shows "aclist (snd (peer_permissions valid s resource iface_mask device d u (p # ps))) = aclist s"
    and "fst (peer_permissions valid s resource iface_mask device d u (p # ps)) AND method_mask meth \<noteq> 0 \<longleftrightarrow>
      (\<exists>a \<in> set (subjects (aclist s device)). subject a \<in> peer_subjects valid s device p \<and>
         entry_grants a meth resource iface_mask)"
proof -
  show "aclist (snd (peer_permissions valid s resource iface_mask device d u (p # ps))) = aclist s"
    by (simp add: peer_permissions_def Let_def put_peer_def split: option.split prod.split)
  note bits = granted_bits [of resource iface_mask, folded d_def u_def]
  have one: "oc_ace_get_permission a resource iface_mask d u AND method_mask meth \<noteq> 0 \<longleftrightarrow>
      entry_grants a meth resource iface_mask" for a
    by (simp add: get_permission_eq entry_grants_def d_def u_def)
  have role: "get_role_permissions c resource iface_mask s device d u AND method_mask meth \<noteq> 0 \<longleftrightarrow>
      (\<exists>a \<in> set (subjects (aclist s device)). subject a = SUBJECT_ROLE (cred_role c) (cred_authority c) \<and>
         entry_grants a meth resource iface_mask)" for c
    by (simp add: get_role_permissions_def subject_loop_eq bits del: not_None_eq)
  show "fst (peer_permissions valid s resource iface_mask device d u (p # ps)) AND method_mask meth \<noteq> 0 \<longleftrightarrow>
      (\<exists>a \<in> set (subjects (aclist s device)). subject a \<in> peer_subjects valid s device p \<and>
         entry_grants a meth resource iface_mask)"
  proof (cases "uses_psk p")
    case True
    then show ?thesis
      by (cases "oc_sec_find_cred s (peer_uuid p) OC_CREDTYPE_PSK OC_CREDUSAGE_NULL device")
        (auto simp: peer_permissions_def peer_subjects_def subject_loop_eq or_and_nonzero bits role Let_def)
  next
    case False
    then show ?thesis
      by (auto simp: peer_permissions_def peer_subjects_def subject_loop_eq roles_loop_eq or_and_nonzero
          ors_and_nonzero one role Let_def)
  qed
qed

lemma check_acl_iff:
  "fst (oc_sec_check_acl valid s meth resource iface_mask endpoint) \<longleftrightarrow>
     (oc_core_is_DCR resource (rdevice resource) \<or> dos_s (pstat s (edevice endpoint)) = OC_DOS_RFNOP) \<and>
     ((\<exists>p ps. oc_tls_get_peer s endpoint = p # ps \<and>
         is_resource_owner s resource (edevice endpoint) (peer_uuid p)) \<or>
      (\<exists>ace \<in> set (subjects (aclist s (edevice endpoint))).
         subject ace \<in> request_subjects valid s endpoint \<and> entry_grants ace meth resource iface_mask))"
proof -
  define d where "d \<longleftrightarrow> oc_core_is_DCR resource (rdevice resource)"
  define u where "u \<longleftrightarrow> properties resource AND OC_SECURE = 0"
  define get where "get = (\<lambda>ace. oc_ace_get_permission ace resource iface_mask d u)"
  have bits: "ors (map get (filter (\<lambda>a. subject a = sub) as)) AND method_mask meth \<noteq> 0 \<longleftrightarrow>
      (\<exists>a \<in> set as. subject a = sub \<and> entry_grants a meth resource iface_mask)" for sub as
    by (simp only: get_def d_def u_def granted_bits)
  let ?dev = "edevice endpoint" and ?peer = "oc_tls_get_peer s endpoint"
  obtain perm s' where ps: "(if ?peer \<noteq> [] then peer_permissions valid s resource iface_mask ?dev d u ?peer
      else (0, s)) = (perm, s')" by fastforce
  have s': "aclist s' = aclist s"
    and perm: "perm AND method_mask meth \<noteq> 0 \<longleftrightarrow>
      (\<exists>p qs. ?peer = p # qs \<and> (\<exists>a \<in> set (subjects (aclist s ?dev)). subject a \<in> peer_subjects valid s ?dev p \<and>
         entry_grants a meth resource iface_mask))"
    using ps peer_permissions_bits(1) [of valid s resource iface_mask ?dev, folded d_def u_def]
      peer_permissions_bits(2) [of valid s resource iface_mask ?dev _ _ meth, folded d_def u_def]
    by (cases ?peer; simp; metis fst_conv snd_conv)+
  let ?G = "\<lambda>sub. \<exists>a \<in> set (subjects (aclist s ?dev)). subject a = sub \<and> entry_grants a meth resource iface_mask"
  have conn: "method_allowed meth (subject_loop [] (SUBJECT_CONN OC_CONN_ANON_CLEAR) s' ?dev get
        (if flags endpoint AND SECURED \<noteq> 0
         then subject_loop [] (SUBJECT_CONN OC_CONN_AUTH_CRYPT) s' ?dev get perm else perm)) \<longleftrightarrow>
      perm AND method_mask meth \<noteq> 0 \<or>
      flags endpoint AND SECURED \<noteq> 0 \<and> ?G (SUBJECT_CONN OC_CONN_AUTH_CRYPT) \<or> ?G (SUBJECT_CONN OC_CONN_ANON_CLEAR)"
    by (cases "flags endpoint AND SECURED = 0")
      (simp_all only: subject_loop_eq method_allowed_iff or_and_nonzero s' bits if_True if_False simp_thms disj_assoc)
  have "fst (oc_sec_check_acl valid s meth resource iface_mask endpoint) \<longleftrightarrow>
      (d \<or> dos_s (pstat s ?dev) = OC_DOS_RFNOP) \<and>
      (?peer \<noteq> [] \<and> is_resource_owner s resource ?dev (peer_uuid (hd ?peer)) \<or>
       perm AND method_mask meth \<noteq> 0 \<or>
       flags endpoint AND SECURED \<noteq> 0 \<and> ?G (SUBJECT_CONN OC_CONN_AUTH_CRYPT) \<or> ?G (SUBJECT_CONN OC_CONN_ANON_CLEAR))"
    unfolding oc_sec_check_acl_def Let_def d_def [symmetric] u_def [symmetric] ps get_def [symmetric] prod.case
      conn [symmetric] by simp
  then show ?thesis
    unfolding perm d_def by (cases ?peer) (auto simp: request_subjects_def)
qed

text \<open>C3: The access decision is the policy: a request is allowed exactly when the device is in
  normal operation or the resource is a device configuration resource, and the peer owns the
  security resource or some entry whose subject is the peer, one of its roles or its kind of
  connection names the resource and carries a permission of the method.\<close>

theorem oc_sec_check_acl_policy:
  "fst (oc_sec_check_acl valid s meth resource iface_mask endpoint) \<longleftrightarrow>
     (oc_core_is_DCR resource (rdevice resource) \<or> dos_s (pstat s (edevice endpoint)) = OC_DOS_RFNOP) \<and>
     ((\<exists>p ps. oc_tls_get_peer s endpoint = p # ps \<and>
         is_resource_owner s resource (edevice endpoint) (peer_uuid p)) \<or>
      (\<exists>ace \<in> set (subjects (aclist s (edevice endpoint))).
         subject ace \<in> request_subjects valid s endpoint \<and> entry_grants ace meth resource iface_mask))"
  by (rule check_acl_iff)

definition demo_resource :: oc_resource where
  "demo_resource = \<lparr>uri = ''/light'', rtypes = [''oic.r.light''], rinterfaces = 0x22,
     properties = OC_DISCOVERABLE OR OC_SECURE, rdevice = 0, core_index = None\<rparr>"

definition demo_sec :: sec where
  "demo_sec = \<lparr>num_devices = 1, core_resources = (\<lambda>_. demo_resource),
     aclist = (\<lambda>_. \<lparr>subjects = [\<lparr>resources = [\<lparr>href = [], interfaces = 0, types = [], wildcard = OC_ACE_WC_ALL_SECURED\<rparr>],
       subject = SUBJECT_CONN OC_CONN_AUTH_CRYPT, aceid = 1, permission = OC_PERM_RETRIEVE\<rparr>], acl_rowneruuid = nil_id\<rparr>),
     ace_free = 10, res_free = 10,
     pstat = (\<lambda>_. \<lparr>dos_s = OC_DOS_RFNOP, dos_p = False, isop = True, cm = 0, tm = 0, om = 3, sm = 4, pstat_rowneruuid = nil_id\<rparr>),
     doxm = (\<lambda>_. \<lparr>oxmsel = 0, sct = 9, owned = True, devowneruuid = nil_id, deviceuuid = nil_id, doxm_rowneruuid = nil_id\<rparr>),
     devices = (\<lambda>_. \<lparr>creds = [], cred_rowneruuid = nil_id\<rparr>), tls_peers = [],
     sp = (\<lambda>_. \<lparr>current_profile = 2, supported_profiles = 2, sp_credid = - 1\<rparr>),
     sp_mfg_default = (\<lambda>_. \<lparr>current_profile = 2, supported_profiles = 2, sp_credid = - 1\<rparr>),
     device_di = (\<lambda>_. nil_id), device_piid = (\<lambda>_. nil_id), platform_pi = nil_id, set_post_otm_acl = True,
     random_numbers = (\<lambda>_. 0), random_pos = 0\<rparr>"

theorem oc_sec_check_acl_policy_witness:
  "fst (oc_sec_check_acl (\<lambda>_. True) demo_sec OC_GET demo_resource 0
      \<lparr>edevice = 0, flags = SECURED OR IPV6, address = [], port = 0, interface_index = 0, ep_version = 0\<rparr>) \<and>
   \<not> fst (oc_sec_check_acl (\<lambda>_. True) demo_sec OC_DELETE demo_resource 0
      \<lparr>edevice = 0, flags = SECURED OR IPV6, address = [], port = 0, interface_index = 0, ep_version = 0\<rparr>)"
  unfolding oc_sec_check_acl_policy
  by (simp add: demo_sec_def demo_resource_def oc_tls_get_peer_def request_subjects_def entry_grants_def
      entry_matches_def method_mask_def res_match_def href_match_def wildcard_of_def oc_core_is_DCR_def)

text \<open>Wildcard entries apply as the comment in the code says: \<open>*\<close> to every resource that is
  not a device configuration resource, \<open>+\<close> to the discoverable ones, and \<open>-\<close> to the discoverable
  ones with an unsecured endpoint.\<close>

theorem wildcard_entry_match:
  assumes "href r = []" and "types r = []" and "interfaces r = 0"
    and "wildcard r \<in> {0, OC_ACE_WC_ALL, OC_ACE_WC_ALL_SECURED, OC_ACE_WC_ALL_PUBLIC}"
  shows "res_match r (Some h) (Some rt) i (wildcard_of resource is_DCR is_public) \<longleftrightarrow>
    \<not> is_DCR \<and> (wildcard r = OC_ACE_WC_ALL \<or>
      properties resource AND OC_DISCOVERABLE \<noteq> 0 \<and>
        (wildcard r = OC_ACE_WC_ALL_SECURED \<or> wildcard r = OC_ACE_WC_ALL_PUBLIC \<and> is_public))"
  using assms by (auto simp: res_match_def href_match_def wildcard_of_def)

theorem wildcard_entry_match_witness:
  "res_match \<lparr>href = [], interfaces = 0, types = [], wildcard = OC_ACE_WC_ALL_SECURED\<rparr> (Some ''/light'') (Some [])
     0x02 (wildcard_of demo_resource False False)"
  using wildcard_entry_match [of "\<lparr>href = [], interfaces = 0, types = [], wildcard = OC_ACE_WC_ALL_SECURED\<rparr>"
      "''/light''" "[]" "0x02" demo_resource False False] by (simp add: demo_resource_def)

text \<open>A \<open>*\<close> among the types of an entry never matches, so an entry whose only type is \<open>*\<close> grants
  nothing.\<close>

lemma type_star_never_matches:
  "types r = [''*''] \<Longrightarrow> \<not> res_match r h (Some rt) i w"
  by (auto simp: res_match_def list_ex_iff split: prod.splits)

end
