(* ===== verification/Sec_Acl_Update.thy ===== *)
theory Sec_Acl_Update
  imports Sec_Acl
begin

text \<open>
  Provisioning the access control list: the operations of \<open>src/security/oc_acl.c\<close> that change it,
  from a single resource entry to the decoding of a whole payload. \<open>None\<close> stands for a memory
  error of the C code: a UUID text that is too short or has too many digits, a value read as a
  string that is none, a member of the subject union read after another one was written; and
  for the search for a fresh id that does not end.
\<close>

section \<open>Entry ids\<close>

definition unique_aceid :: "int \<Rightarrow> sec \<Rightarrow> nat \<Rightarrow> bool" where
  "unique_aceid n s device \<longleftrightarrow> list_all (\<lambda>a. aceid a \<noteq> n) (subjects (aclist s device))"

partial_function (option) get_new_aceid :: "sec \<Rightarrow> nat \<Rightarrow> (int \<times> sec) option" where
  "get_new_aceid s device =
     (let n = uint (drop_bit 1 (fst (oc_random_value s)));
          s = snd (oc_random_value s)
      in if unique_aceid n s device then Some (n, s) else get_new_aceid s device)"

declare get_new_aceid.simps [code]

section \<open>Adding a resource entry\<close>

definition set_subjects :: "sec \<Rightarrow> nat \<Rightarrow> oc_sec_ace list \<Rightarrow> sec" where
  "set_subjects s device as = s\<lparr>aclist := (aclist s)(device := (aclist s device)\<lparr>subjects := as\<rparr>)\<rparr>"

text \<open>The entry at \<open>here\<close>, a suffix of the list, is replaced.\<close>

definition put_ace :: "sec \<Rightarrow> nat \<Rightarrow> oc_sec_ace list \<Rightarrow> oc_sec_ace list \<Rightarrow> sec" where
  "put_ace s device here as =
     (let all = subjects (aclist s device)
      in set_subjects s device (take (length all - length here) all @ as @ tl here))"

definition new_res ::
  "sec \<Rightarrow> nat \<Rightarrow> oc_sec_ace list \<Rightarrow> string option \<Rightarrow> u32 \<Rightarrow> string list option \<Rightarrow> u32 \<Rightarrow> oc_ace_res option \<times> sec" where
  "new_res s device here h wc rt iface_mask =
     (if res_free s = 0 then (None, s)
      else
        let res = \<lparr>href = (case h of Some h \<Rightarrow> h | None \<Rightarrow> []), interfaces = iface_mask,
                   types = (case rt of Some rt \<Rightarrow> rt | None \<Rightarrow> []),
                   wildcard = (if wc \<noteq> OC_ACE_NO_WC then wc else 0)\<rparr>;
            s = s\<lparr>res_free := res_free s - 1\<rparr>
        in (Some res, put_ace s device here [(hd here)\<lparr>resources := resources (hd here) @ [res]\<rparr>]))"

definition oc_sec_ace_get_res ::
  "sec \<Rightarrow> oc_ace_subject \<Rightarrow> string option \<Rightarrow> u32 \<Rightarrow> string list option \<Rightarrow> u32 \<Rightarrow> int \<Rightarrow> u16 \<Rightarrow> nat \<Rightarrow> bool \<Rightarrow>
   (oc_ace_res option \<times> sec) option" where
  "oc_sec_ace_get_res s sub h wc rt iface_mask n perm device create = do {
     let ace = oc_sec_acl_find_subject [] sub n perm s device;
     if ace \<noteq> [] then
       let res = oc_sec_ace_find_resource [] (hd ace) h rt iface_mask wc
       in if res = [] \<and> create then Some (new_res s device ace h wc rt iface_mask)
          else Some (if res = [] then None else Some (hd res), s)
     else if create then
       if ace_free s = 0 then Some (None, s)
       else do {
         let s = s\<lparr>ace_free := ace_free s - 1\<rparr>;
         (n, s) \<leftarrow> (if n = - 1 then get_new_aceid s device else Some (n, s));
         let ace = \<lparr>resources = [], subject = sub, aceid = n, permission = perm\<rparr>;
         let s = set_subjects s device (subjects (aclist s device) @ [ace]);
         Some (new_res s device [ace] h wc rt iface_mask)
       }
     else Some (None, s)
   }"

definition oc_sec_ace_update_res ::
  "sec \<Rightarrow> oc_ace_subject \<Rightarrow> int \<Rightarrow> u16 \<Rightarrow> string option \<Rightarrow> u32 \<Rightarrow> string list option \<Rightarrow> u32 \<Rightarrow> nat \<Rightarrow>
   (bool \<times> sec) option" where
  "oc_sec_ace_update_res s sub n perm h wc rt iface_mask device = do {
     (res, s) \<leftarrow> oc_sec_ace_get_res s sub h wc rt iface_mask n perm device True;
     Some (res \<noteq> None, s)
   }"

section \<open>Removing entries\<close>

text \<open>The resources that stay and the number of blocks freed.\<close>

primrec free_res_loop :: "string option \<Rightarrow> oc_ace_res list \<Rightarrow> oc_ace_res list \<times> nat" where
  "free_res_loop h [] = ([], 0)"
| "free_res_loop h (r # rs) =
     (case free_res_loop h rs of (kept, n) \<Rightarrow>
        if h = None \<or> h = Some (href r) then (kept, n + 1) else (r # kept, n))"

text \<open>The entry at \<open>here\<close> afterwards is the suffix returned: empty when the entry was freed.\<close>

definition oc_ace_free_resources ::
  "sec \<Rightarrow> nat \<Rightarrow> oc_sec_ace list \<Rightarrow> string \<Rightarrow> sec \<times> oc_sec_ace list" where
  "oc_ace_free_resources s device here h =
     (case free_res_loop (Some h) (resources (hd here)) of (kept, n) \<Rightarrow>
        let s = s\<lparr>res_free := res_free s + n\<rparr>; ace = (hd here)\<lparr>resources := kept\<rparr>
        in if kept = [] then (put_ace (s\<lparr>ace_free := ace_free s + 1\<rparr>) device here [], [])
           else (put_ace s device here [ace], ace # tl here))"

text \<open>An entry that is off the list already is freed with all its resources.\<close>

definition free_ace :: "sec \<Rightarrow> oc_sec_ace \<Rightarrow> sec" where
  "free_ace s ace =
     s\<lparr>res_free := res_free s + snd (free_res_loop None (resources ace)), ace_free := ace_free s + 1\<rparr>"

primrec split_aceid :: "int \<Rightarrow> oc_sec_ace list \<Rightarrow> (oc_sec_ace \<times> oc_sec_ace list) option" where
  "split_aceid n [] = None"
| "split_aceid n (a # as) =
     (if aceid a = n then Some (a, as)
      else case split_aceid n as of Some (b, bs) \<Rightarrow> Some (b, a # bs) | None \<Rightarrow> None)"

definition oc_acl_remove_ace :: "int \<Rightarrow> sec \<Rightarrow> nat \<Rightarrow> bool \<times> sec" where
  "oc_acl_remove_ace n s device =
     (case split_aceid n (subjects (aclist s device)) of
        Some (ace, as) \<Rightarrow> (True, free_ace (set_subjects s device as) ace)
      | None \<Rightarrow> (False, s))"

primrec clear_loop :: "sec \<Rightarrow> nat \<Rightarrow> oc_sec_ace list \<Rightarrow> sec" where
  "clear_loop s device [] = s"
| "clear_loop s device (a # as) = clear_loop (free_ace (set_subjects s device as) a) device as"

definition oc_sec_clear_acl :: "sec \<Rightarrow> nat \<Rightarrow> sec" where
  "oc_sec_clear_acl s device = clear_loop s device (subjects (aclist s device))"

definition oc_sec_acl_free :: "sec \<Rightarrow> sec" where
  "oc_sec_acl_free s = fold (\<lambda>device s. oc_sec_clear_acl s device) [0..<num_devices s] s"

definition oc_sec_acl_init :: "sec \<Rightarrow> sec" where
  "oc_sec_acl_init s = fold (\<lambda>device s. set_subjects s device []) [0..<num_devices s] s"

section \<open>Factory default and the end of ownership transfer\<close>

primrec default_loop :: "nat \<Rightarrow> nat list \<Rightarrow> sec \<Rightarrow> sec option" where
  "default_loop device [] s = Some s"
| "default_loop device (i # is) s = do {
     let resource = oc_core_get_resource_by_index s i device;
     if length (uri resource) = 0 then default_loop device is s
     else do {
       (_, s) \<leftarrow> (if i < OCF_SEC_DOXM \<or> i > OCF_SEC_CRED then
           oc_sec_ace_update_res s (SUBJECT_CONN OC_CONN_ANON_CLEAR) 1 2 (Some (uri resource)) OC_ACE_NO_WC
             (Some (rtypes resource)) (rinterfaces resource) device
         else Some (True, s));
       (_, s) \<leftarrow> (if i \<ge> OCF_SEC_DOXM \<and> i < OCF_D then
           oc_sec_ace_update_res s (SUBJECT_CONN OC_CONN_ANON_CLEAR) 2 14 (Some (uri resource)) OC_ACE_NO_WC
             (Some (rtypes resource)) (rinterfaces resource) device
         else Some (True, s));
       default_loop device is s
     }
   }"

definition oc_sec_acl_default :: "sec \<Rightarrow> nat \<Rightarrow> sec option" where
  "oc_sec_acl_default s device = do {
     let s = oc_sec_clear_acl s device;
     s \<leftarrow> default_loop device [0..<OC_NUM_CORE_RESOURCES_PER_DEVICE] s;
     Some (s\<lparr>aclist := (aclist s)(device := (aclist s device)\<lparr>acl_rowneruuid := nil_id\<rparr>)\<rparr>)
   }"

function post_otm_loop :: "sec \<Rightarrow> nat \<Rightarrow> oc_sec_ace list \<Rightarrow> sec" where
  "post_otm_loop s device here =
     (let anon = oc_sec_acl_find_subject here (SUBJECT_CONN OC_CONN_ANON_CLEAR) (- 1) 14 s device;
          (s, anon) = (if anon \<noteq> [] then oc_ace_free_resources s device anon ''/oic/sec/acl2'' else (s, anon));
          (s, anon) = (if anon \<noteq> [] then oc_ace_free_resources s device anon ''/oic/sec/cred'' else (s, anon))
      in if anon \<noteq> [] then post_otm_loop s device anon else s)"
  by pat_completeness auto
termination
proof (relation "measure (\<lambda>(s, device, here).
    if here = [] then Suc (length (subjects (aclist s device))) else length here)")
  have len: "length (snd (oc_ace_free_resources s device here h)) \<le> length here" if "here \<noteq> []" for s device here h
    using that by (auto simp: oc_ace_free_resources_def Let_def split: prod.split)
  fix s device here x p t y q u z
  assume x: "x = oc_sec_acl_find_subject here (SUBJECT_CONN OC_CONN_ANON_CLEAR) (- 1) 14 s device"
    and 1: "p = (if x \<noteq> [] then oc_ace_free_resources s device x ''/oic/sec/acl2'' else (s, x))" "(t, y) = p"
    and 2: "q = (if y \<noteq> [] then oc_ace_free_resources t device y ''/oic/sec/cred'' else (t, y))" "(u, z) = q" "z \<noteq> []"
  show "((u, device, z), s, device, here) \<in> measure (\<lambda>(s, device, here).
      if here = [] then Suc (length (subjects (aclist s device))) else length here)"
  proof -
    have y: "y \<noteq> []" "length z \<le> length y"
      using 2 len [of y t device "''/oic/sec/cred''"] by (auto split: if_splits) (metis snd_conv)
    moreover have "x \<noteq> []" "length y \<le> length x"
      using 1 y(1) len [of x s device "''/oic/sec/acl2''"] by (auto split: if_splits) (metis snd_conv)
    moreover have "length x \<le> length (if here = [] then subjects (aclist s device) else tl here)"
      unfolding x oc_sec_acl_find_subject_def by (rule length_find_ace)
    ultimately show ?thesis using 2(3) by (cases here) auto
  qed
qed simp

declare post_otm_loop.simps [simp del]

definition oc_sec_set_post_otm_acl :: "sec \<Rightarrow> nat \<Rightarrow> sec" where
  "oc_sec_set_post_otm_acl s device = post_otm_loop s device []"

section \<open>Decoding a payload\<close>

definition oc_ri_get_interface_mask :: "string \<Rightarrow> u32" where
  "oc_ri_get_interface_mask f =
     (if f = ''oic.if.baseline'' then 0x02 else 0) OR (if f = ''oic.if.ll'' then 0x04 else 0) OR
     (if f = ''oic.if.b'' then 0x08 else 0) OR (if f = ''oic.if.r'' then 0x10 else 0) OR
     (if f = ''oic.if.rw'' then 0x20 else 0) OR (if f = ''oic.if.a'' then 0x40 else 0) OR
     (if f = ''oic.if.s'' then 0x80 else 0)"

primrec if_loop :: "string list \<Rightarrow> u32 \<Rightarrow> u32" where
  "if_loop [] m = m"
| "if_loop (f # fs) m = (if f = ''*'' then m OR 0xFE else if_loop fs (m OR oc_ri_get_interface_mask f))"

text \<open>The fields of one object of the array \<open>resources\<close>.\<close>

record res_fields =
  f_href :: "string option"
  f_wc :: u32
  f_iface :: u32
  f_rt :: "string list option"

definition starts_with :: "string \<Rightarrow> char \<Rightarrow> bool" where
  "starts_with v c \<longleftrightarrow> (case v of [] \<Rightarrow> False | d # _ \<Rightarrow> d = c)"

primrec decode_res :: "oc_rep list \<Rightarrow> res_fields \<Rightarrow> res_fields" where
  "decode_res [] f = f"
| "decode_res (r # rs) f =
     decode_res rs
       (case rep_value r of
          REP_STRING v \<Rightarrow>
            if rep_name r = ''href'' then f\<lparr>f_href := Some v\<rparr>
            else if rep_name r = ''wc'' then
              let f = (if starts_with v CHR ''*'' then f\<lparr>f_wc := OC_ACE_WC_ALL\<rparr> else f);
                  f = (if starts_with v CHR ''+'' then f\<lparr>f_wc := OC_ACE_WC_ALL_SECURED\<rparr> else f)
              in if starts_with v CHR ''-'' then f\<lparr>f_wc := OC_ACE_WC_ALL_PUBLIC\<rparr> else f
            else f
        | REP_STRING_ARRAY vs \<Rightarrow>
            if rep_name r = ''if'' then f\<lparr>f_iface := if_loop vs (f_iface f)\<rparr>
            else if rep_name r \<in> {''rt'', ''Rt'', ''rT'', ''RT''} then f\<lparr>f_rt := Some vs\<rparr>
            else f
        | _ \<Rightarrow> f)"

text \<open>The subject union: what a member holds after the writes so far.\<close>

definition uuid_member :: "oc_ace_subject \<Rightarrow> string \<Rightarrow> uuid option" where
  "uuid_member sub v =
     (case sub of
        SUBJECT_UUID u \<Rightarrow> oc_str_to_uuid (c_str v) u
      | _ \<Rightarrow> if oc_str_to_uuid (c_str v) nil_id = oc_str_to_uuid (c_str v) (replicate 16 0xFF)
             then oc_str_to_uuid (c_str v) nil_id else None)"

definition role_member :: "oc_ace_subject \<Rightarrow> string \<Rightarrow> oc_ace_subject" where
  "role_member sub v = (case sub of SUBJECT_ROLE r a \<Rightarrow> SUBJECT_ROLE v a | _ \<Rightarrow> SUBJECT_ROLE v [])"

definition authority_member :: "oc_ace_subject \<Rightarrow> string \<Rightarrow> oc_ace_subject option" where
  "authority_member sub v =
     (case sub of
        SUBJECT_ROLE r a \<Rightarrow> Some (SUBJECT_ROLE r v)
      | SUBJECT_UUID u \<Rightarrow> if u = nil_id then Some (SUBJECT_ROLE [] v) else None
      | SUBJECT_CONN c \<Rightarrow> None)"

definition conn_member :: "oc_ace_subject \<Rightarrow> string \<Rightarrow> oc_ace_subject option" where
  "conn_member sub v =
     (if v = ''auth-crypt'' then Some (SUBJECT_CONN OC_CONN_AUTH_CRYPT)
      else if v = ''anon-clear'' then Some (SUBJECT_CONN OC_CONN_ANON_CLEAR)
      else case sub of
             SUBJECT_CONN c \<Rightarrow> Some (SUBJECT_CONN c)
           | SUBJECT_UUID u \<Rightarrow> if u = nil_id then Some (SUBJECT_CONN OC_CONN_AUTH_CRYPT) else None
           | SUBJECT_ROLE r a \<Rightarrow> None)"

text \<open>\<open>sub->value.string\<close> without a look at the type.\<close>

definition value_string :: "oc_rep \<Rightarrow> string option" where
  "value_string r = (case rep_value r of REP_STRING v \<Rightarrow> Some v | _ \<Rightarrow> None)"

primrec decode_subject :: "oc_rep list \<Rightarrow> oc_ace_subject \<Rightarrow> oc_ace_subject option" where
  "decode_subject [] sub = Some sub"
| "decode_subject (r # rs) sub = do {
     sub \<leftarrow>
       (if rep_name r = ''uuid'' then do {
          v \<leftarrow> value_string r; u \<leftarrow> uuid_member sub v; Some (SUBJECT_UUID u) }
        else if rep_name r = ''role'' then do { v \<leftarrow> value_string r; Some (role_member sub v) }
        else if rep_name r = ''authority'' then do { v \<leftarrow> value_string r; authority_member sub v }
        else if rep_name r = ''conntype'' then do { v \<leftarrow> value_string r; conn_member sub v }
        else Some sub);
     decode_subject rs sub
   }"

record ace_fields =
  a_subject :: oc_ace_subject
  a_permission :: u16
  a_aceid :: int
  a_resources :: "oc_rep list list"

primrec decode_fields :: "oc_rep list \<Rightarrow> ace_fields \<Rightarrow> ace_fields option" where
  "decode_fields [] f = Some f"
| "decode_fields (r # rs) f = do {
     f \<leftarrow>
       (case rep_value r of
          REP_INT n \<Rightarrow>
            Some (if rep_name r = ''permission'' then f\<lparr>a_permission := word_of_int n\<rparr>
                  else if rep_name r = ''aceid'' then f\<lparr>a_aceid := n\<rparr> else f)
        | REP_OBJECT_ARRAY os \<Rightarrow> Some (if rep_name r = ''resources'' then f\<lparr>a_resources := os\<rparr> else f)
        | REP_OBJECT os \<Rightarrow> do { sub \<leftarrow> decode_subject os (a_subject f); Some (f\<lparr>a_subject := sub\<rparr>) }
        | _ \<Rightarrow> Some f);
     decode_fields rs f
   }"

primrec add_resources :: "oc_rep list list \<Rightarrow> ace_fields \<Rightarrow> sec \<Rightarrow> nat \<Rightarrow> sec option" where
  "add_resources [] a s device = Some s"
| "add_resources (o' # os) a s device = do {
     let f = decode_res o' \<lparr>f_href = None, f_wc = OC_ACE_NO_WC, f_iface = 0, f_rt = None\<rparr>;
     (_, s) \<leftarrow> oc_sec_ace_update_res s (a_subject a) (a_aceid a) (a_permission a) (f_href f) (f_wc f) (f_rt f)
                 (f_iface f) device;
     add_resources os a s device
   }"

definition decode_ace :: "oc_rep list \<Rightarrow> sec \<Rightarrow> nat \<Rightarrow> sec option" where
  "decode_ace rep s device = do {
     a \<leftarrow> decode_fields rep
            \<lparr>a_subject = SUBJECT_UUID nil_id, a_permission = 0, a_aceid = - 1, a_resources = []\<rparr>;
     let s = (if a_aceid a \<noteq> - 1 \<and> \<not> unique_aceid (a_aceid a) s device
              then snd (oc_acl_remove_ace (a_aceid a) s device) else s);
     add_resources (a_resources a) a s device
   }"

primrec decode_aces :: "oc_rep list list \<Rightarrow> sec \<Rightarrow> nat \<Rightarrow> sec option" where
  "decode_aces [] s device = Some s"
| "decode_aces (o' # os) s device = do { s \<leftarrow> decode_ace o' s device; decode_aces os s device }"

text \<open>The first pass over the payload: what may be set in the current state.\<close>

definition acl_rejects :: "oc_rep \<Rightarrow> bool \<Rightarrow> int \<Rightarrow> bool" where
  "acl_rejects r from_storage st \<longleftrightarrow>
     (case rep_value r of
        REP_STRING v \<Rightarrow> rep_name r = ''rowneruuid'' \<and> \<not> from_storage \<and> (st = OC_DOS_RFNOP \<or> st = OC_DOS_RFPRO)
      | REP_OBJECT_ARRAY os \<Rightarrow> \<not> from_storage \<and> st = OC_DOS_RFNOP
      | _ \<Rightarrow> False)"

primrec decode_acl_loop :: "oc_rep list \<Rightarrow> sec \<Rightarrow> nat \<Rightarrow> sec option" where
  "decode_acl_loop [] s device = Some s"
| "decode_acl_loop (r # rs) s device = do {
     s \<leftarrow>
       (case rep_value r of
          REP_STRING v \<Rightarrow>
            if rep_name r = ''rowneruuid'' then do {
              u \<leftarrow> oc_str_to_uuid (c_str v) (acl_rowneruuid (aclist s device));
              Some (s\<lparr>aclist := (aclist s)(device := (aclist s device)\<lparr>acl_rowneruuid := u\<rparr>)\<rparr>)
            }
            else Some s
        | REP_OBJECT_ARRAY os \<Rightarrow> decode_aces os s device
        | _ \<Rightarrow> Some s);
     decode_acl_loop rs s device
   }"

definition oc_sec_decode_acl :: "oc_rep list \<Rightarrow> bool \<Rightarrow> sec \<Rightarrow> nat \<Rightarrow> (bool \<times> sec) option" where
  "oc_sec_decode_acl rep from_storage s device =
     (if list_ex (\<lambda>r. acl_rejects r from_storage (dos_s (pstat s device))) rep then Some (False, s)
      else do { s \<leftarrow> decode_acl_loop rep s device; Some (True, s) })"

section \<open>Request handlers\<close>

datatype oc_status = OC_STATUS_OK | OC_STATUS_CREATED | OC_STATUS_CHANGED | OC_STATUS_DELETED | OC_STATUS_NOT_MODIFIED
  | OC_STATUS_BAD_REQUEST | OC_STATUS_UNAUTHORIZED | OC_STATUS_BAD_OPTION | OC_STATUS_FORBIDDEN | OC_STATUS_NOT_FOUND
  | OC_STATUS_METHOD_NOT_ALLOWED | OC_STATUS_NOT_ACCEPTABLE | OC_STATUS_REQUEST_ENTITY_TOO_LARGE
  | OC_STATUS_UNSUPPORTED_MEDIA_TYPE | OC_STATUS_INTERNAL_SERVER_ERROR | OC_STATUS_NOT_IMPLEMENTED
  | OC_STATUS_BAD_GATEWAY | OC_STATUS_SERVICE_UNAVAILABLE | OC_STATUS_GATEWAY_TIMEOUT | OC_STATUS_PROXYING_NOT_SUPPORTED

text \<open>The handlers return the status they send; what the store writes to disk is left out.\<close>

definition post_acl :: "oc_rep list \<Rightarrow> sec \<Rightarrow> nat \<Rightarrow> (oc_status \<times> sec) option" where
  "post_acl payload s device = do {
     (ok, s) \<leftarrow> oc_sec_decode_acl payload False s device;
     Some (if ok then OC_STATUS_CHANGED else OC_STATUS_BAD_REQUEST, s)
   }"

definition digit :: "char \<Rightarrow> nat option" where
  "digit c = (let n = of_char c :: nat in if 48 \<le> n \<and> n \<le> 57 then Some (n - 48) else None)"

primrec digits :: "string \<Rightarrow> nat \<Rightarrow> nat" where
  "digits [] n = n"
| "digits (c # cs) n = (case digit c of Some d \<Rightarrow> digits cs (10 * n + d) | None \<Rightarrow> n)"

text \<open>What \<open>strtoul\<close> makes of a sign and a number: a number out of range is \<open>ULONG_MAX\<close>.\<close>

definition ulong_of :: "bool \<Rightarrow> nat \<Rightarrow> u64" where
  "ulong_of negative n = (if n \<ge> 2 ^ 64 then - 1 else if negative then - of_nat n else of_nat n)"

text \<open>\<open>strtoul(s, NULL, 10)\<close> with a 64-bit \<open>unsigned long\<close>: white space, a sign, digits.\<close>

definition strtoul :: "string \<Rightarrow> u64" where
  "strtoul q =
     (let q = dropWhile (\<lambda>c. c \<in> {CHR '' '', CHR 0x09, CHR 0x0A, CHR 0x0B, CHR 0x0C, CHR 0x0D}) q
      in case q of
           [] \<Rightarrow> 0
         | c # cs \<Rightarrow> if c = CHR ''-'' then ulong_of True (digits cs 0)
                     else if c = CHR ''+'' then ulong_of False (digits cs 0)
                     else ulong_of False (digits q 0))"

definition delete_acl :: "string option \<Rightarrow> sec \<Rightarrow> nat \<Rightarrow> oc_status \<times> sec" where
  "delete_acl query s device =
     (if dos_s (pstat s device) = OC_DOS_RFNOP then (OC_STATUS_FORBIDDEN, s)
      else
        let (success, s) =
          (case query of
             Some q \<Rightarrow>
               let n = sint (ucast (strtoul q) :: u32)
               in if n \<noteq> 0 then oc_acl_remove_ace n s device else (False, s)
           | None \<Rightarrow> (True, oc_sec_clear_acl s device))
        in (if success then OC_STATUS_DELETED else OC_STATUS_NOT_FOUND, s))"

end
