(* ===== verification/Sec_Ownership.thy ===== *)
theory Sec_Ownership
  imports Sec_Acl_Update
begin

text \<open>
  Ownership of a device: the resource \<open>/oic/sec/doxm\<close> (\<open>src/security/oc_doxm.c\<close>), security profiles
  (\<open>oc_sp.c\<close>), and what a reset does to credentials (\<open>oc_cred.c\<close>) and asserted roles
  (\<open>oc_roles.c\<close>). Removing a credential also tells the TLS layer and the client's role list, which
  are outside this state.
\<close>

section \<open>Identifiers\<close>

definition gen_uuid :: "sec \<Rightarrow> uuid \<times> sec" where
  "gen_uuid s = (oc_gen_uuid (\<lambda>i. random_numbers s (random_pos s + i)), s\<lparr>random_pos := random_pos s + 4\<rparr>)"

definition oc_core_regen_unique_ids :: "sec \<Rightarrow> nat \<Rightarrow> sec" where
  "oc_core_regen_unique_ids s device =
     (let (u, s) = gen_uuid s;
          s = s\<lparr>doxm := (doxm s)(device := (doxm s device)\<lparr>deviceuuid := u\<rparr>)\<rparr>;
          s = s\<lparr>device_di := (device_di s)(device := u)\<rparr>;
          (u, s) = gen_uuid s;
          s = s\<lparr>device_piid := (device_piid s)(device := u)\<rparr>;
          (u, s) = gen_uuid s
      in s\<lparr>platform_pi := u\<rparr>)"

definition nil_uuid :: "uuid \<Rightarrow> bool" where
  "nil_uuid u \<longleftrightarrow> list_all (\<lambda>b. b = 0) (take 16 u)"

section \<open>Device ownership\<close>

definition set_doxm :: "sec \<Rightarrow> nat \<Rightarrow> oc_sec_doxm \<Rightarrow> sec" where
  "set_doxm s device d = s\<lparr>doxm := (doxm s)(device := d)\<rparr>"

definition oc_sec_doxm_default :: "sec \<Rightarrow> nat \<Rightarrow> sec" where
  "oc_sec_doxm_default s device =
     (let s = set_doxm s device ((doxm s device)\<lparr>oxmsel := 0, sct := 9, owned := False,
                devowneruuid := nil_id, doxm_rowneruuid := nil_id\<rparr>)
      in oc_core_regen_unique_ids s device)"

text \<open>The first pass of the decoder: may every property be set in this state?\<close>

definition doxm_rejects :: "oc_rep \<Rightarrow> bool \<Rightarrow> int \<Rightarrow> bool" where
  "doxm_rejects r from_storage st \<longleftrightarrow>
     (case rep_value r of
        REP_BOOL b \<Rightarrow> if rep_name r = ''owned'' then \<not> from_storage \<and> st \<noteq> OC_DOS_RFOTM else True
      | REP_INT n \<Rightarrow>
          if rep_name r = ''oxmsel'' then \<not> from_storage \<and> st \<noteq> OC_DOS_RFOTM
          else \<not> (from_storage \<and> rep_name r = ''sct'')
      | REP_STRING v \<Rightarrow>
          if rep_name r = ''deviceuuid'' then \<not> from_storage \<and> st \<noteq> OC_DOS_RFOTM
          else if rep_name r = ''devowneruuid'' then \<not> from_storage \<and> st \<noteq> OC_DOS_RFOTM
          else if rep_name r = ''rowneruuid'' then \<not> from_storage \<and> st \<noteq> OC_DOS_RFOTM \<and> st \<noteq> OC_DOS_SRESET
          else True
      | REP_INT_ARRAY ns \<Rightarrow> \<not> from_storage \<and> rep_name r = ''oxms''
      | _ \<Rightarrow> \<not> (rep_name r = ''rt'' \<or> rep_name r = ''if'') \<and> rep_name r \<noteq> ''oxms'')"

definition decode_doxm_one :: "oc_rep \<Rightarrow> bool \<Rightarrow> sec \<Rightarrow> nat \<Rightarrow> sec option" where
  "decode_doxm_one r from_storage s device =
     (case rep_value r of
        REP_BOOL b \<Rightarrow> Some (if rep_name r = ''owned'' then set_doxm s device ((doxm s device)\<lparr>owned := b\<rparr>) else s)
      | REP_INT n \<Rightarrow>
          Some (if rep_name r = ''oxmsel'' then set_doxm s device ((doxm s device)\<lparr>oxmsel := n\<rparr>)
                else if from_storage \<and> rep_name r = ''sct'' then set_doxm s device ((doxm s device)\<lparr>sct := n\<rparr>)
                else s)
      | REP_STRING v \<Rightarrow>
          if rep_name r = ''deviceuuid'' then do {
            u \<leftarrow> oc_str_to_uuid (c_str v) (deviceuuid (doxm s device));
            let s = set_doxm s device ((doxm s device)\<lparr>deviceuuid := u\<rparr>);
            Some (s\<lparr>device_di := (device_di s)(device := u)\<rparr>)
          }
          else if rep_name r = ''devowneruuid'' then do {
            u \<leftarrow> oc_str_to_uuid (c_str v) (devowneruuid (doxm s device));
            let s = set_doxm s device ((doxm s device)\<lparr>devowneruuid := u\<rparr>);
            Some (if \<not> from_storage \<and> \<not> nil_uuid u then oc_core_regen_unique_ids s device else s)
          }
          else if rep_name r = ''rowneruuid'' then do {
            u \<leftarrow> oc_str_to_uuid (c_str v) (doxm_rowneruuid (doxm s device));
            Some (set_doxm s device ((doxm s device)\<lparr>doxm_rowneruuid := u\<rparr>))
          }
          else Some s
      | _ \<Rightarrow> Some s)"

primrec decode_doxm_loop :: "oc_rep list \<Rightarrow> bool \<Rightarrow> sec \<Rightarrow> nat \<Rightarrow> sec option" where
  "decode_doxm_loop [] from_storage s device = Some s"
| "decode_doxm_loop (r # rs) from_storage s device = do {
     s \<leftarrow> decode_doxm_one r from_storage s device;
     decode_doxm_loop rs from_storage s device
   }"

definition oc_sec_decode_doxm :: "oc_rep list \<Rightarrow> bool \<Rightarrow> sec \<Rightarrow> nat \<Rightarrow> (bool \<times> sec) option" where
  "oc_sec_decode_doxm rep from_storage s device =
     (if list_ex (\<lambda>r. doxm_rejects r from_storage (dos_s (pstat s device))) rep then Some (False, s)
      else do { s \<leftarrow> decode_doxm_loop rep from_storage s device; Some (True, s) })"

definition post_doxm :: "oc_rep list \<Rightarrow> sec \<Rightarrow> nat \<Rightarrow> (oc_status \<times> sec) option" where
  "post_doxm payload s device = do {
     (ok, s) \<leftarrow> oc_sec_decode_doxm payload False s device;
     Some (if ok then OC_STATUS_CHANGED else OC_STATUS_BAD_REQUEST, s)
   }"

section \<open>Credentials and roles\<close>

abbreviation (input) "OC_CREDUSAGE_MFG_TRUSTCA \<equiv> 16 :: int"
abbreviation (input) "OC_CREDUSAGE_MFG_CERT \<equiv> 32 :: int"

primrec clear_creds_loop :: "oc_sec_cred list \<Rightarrow> oc_sec_cred list" where
  "clear_creds_loop [] = []"
| "clear_creds_loop (c # cs) =
     (if credusage c \<noteq> OC_CREDUSAGE_MFG_TRUSTCA \<and> credusage c \<noteq> OC_CREDUSAGE_MFG_CERT
      then clear_creds_loop cs else c # clear_creds_loop cs)"

definition oc_sec_clear_creds :: "sec \<Rightarrow> nat \<Rightarrow> sec" where
  "oc_sec_clear_creds s device =
     s\<lparr>devices := (devices s)(device := (devices s device)\<lparr>creds := clear_creds_loop (creds (devices s device))\<rparr>)\<rparr>"

definition oc_sec_cred_default :: "sec \<Rightarrow> nat \<Rightarrow> sec" where
  "oc_sec_cred_default s device =
     (let s = oc_sec_clear_creds s device
      in s\<lparr>devices := (devices s)(device := (devices s device)\<lparr>cred_rowneruuid := nil_id\<rparr>)\<rparr>)"

text \<open>\<open>oc_sec_free_roles\<close> on the peers with roles for the device.\<close>

definition free_roles :: "nat \<Rightarrow> oc_tls_peer \<Rightarrow> oc_tls_peer" where
  "free_roles device p = (if roles_device p = device then p\<lparr>roles := []\<rparr> else p)"

definition oc_sec_free_roles_for_device :: "sec \<Rightarrow> nat \<Rightarrow> sec" where
  "oc_sec_free_roles_for_device s device =
     s\<lparr>tls_peers := map (free_roles device) (tls_peers s)\<rparr>"

section \<open>Security profiles\<close>

abbreviation (input) "OC_SP_BASELINE \<equiv> 0x02 :: u32"
abbreviation (input) "OC_SP_BLACK \<equiv> 0x04 :: u32"
abbreviation (input) "OC_SP_BLUE \<equiv> 0x08 :: u32"
abbreviation (input) "OC_SP_PURPLE \<equiv> 0x10 :: u32"

definition oc_sec_sp_default :: "sec \<Rightarrow> nat \<Rightarrow> sec" where
  "oc_sec_sp_default s device = s\<lparr>sp := (sp s)(device := sp_mfg_default s device)\<rparr>"

definition oc_pki_set_security_profile :: "sec \<Rightarrow> nat \<Rightarrow> u32 \<Rightarrow> u32 \<Rightarrow> int \<Rightarrow> sec" where
  "oc_pki_set_security_profile s device supported current mfg_credid =
     (let m = sp_mfg_default s device;
          m = m\<lparr>supported_profiles := supported_profiles m OR supported, current_profile := current, sp_credid := mfg_credid\<rparr>
      in s\<lparr>sp_mfg_default := (sp_mfg_default s)(device := m), sp := (sp s)(device := m)\<rparr>)"

definition string_to_sp :: "string \<Rightarrow> u32" where
  "string_to_sp v =
     (if v = ''1.3.6.1.4.1.51414.0.0.1.0'' then OC_SP_BASELINE
      else if v = ''1.3.6.1.4.1.51414.0.0.2.0'' then OC_SP_BLACK
      else if v = ''1.3.6.1.4.1.51414.0.0.3.0'' then OC_SP_BLUE
      else if v = ''1.3.6.1.4.1.51414.0.0.4.0'' then OC_SP_PURPLE
      else 0)"

definition set_sp :: "sec \<Rightarrow> nat \<Rightarrow> oc_sec_sp \<Rightarrow> sec" where
  "set_sp s device x = s\<lparr>sp := (sp s)(device := x)\<rparr>"

primrec decode_sp_loop :: "oc_rep list \<Rightarrow> sec \<Rightarrow> nat \<Rightarrow> bool \<times> sec" where
  "decode_sp_loop [] s device = (True, s)"
| "decode_sp_loop (r # rs) s device =
     (case rep_value r of
        REP_STRING v \<Rightarrow>
          if rep_name r = ''currentprofile'' then
            if string_to_sp v AND supported_profiles (sp s device) = 0 then (False, s)
            else decode_sp_loop rs (set_sp s device ((sp s device)\<lparr>current_profile := string_to_sp v\<rparr>)) device
          else decode_sp_loop rs s device
      | REP_STRING_ARRAY vs \<Rightarrow>
          if rep_name r = ''supportedprofiles'' then
            decode_sp_loop rs (set_sp s device
              ((sp s device)\<lparr>supported_profiles := fold (\<lambda>v p. p OR string_to_sp v) vs 0\<rparr>)) device
          else decode_sp_loop rs s device
      | REP_INT n \<Rightarrow>
          if rep_name r = ''credid'' then decode_sp_loop rs (set_sp s device ((sp s device)\<lparr>sp_credid := n\<rparr>)) device
          else decode_sp_loop rs s device
      | _ \<Rightarrow> (False, s))"

definition oc_sec_decode_sp :: "oc_rep list \<Rightarrow> sec \<Rightarrow> nat \<Rightarrow> bool \<times> sec" where
  "oc_sec_decode_sp rep s device =
     (if dos_s (pstat s device) = OC_DOS_RFNOP then (False, s) else decode_sp_loop rep s device)"

definition post_sp :: "oc_rep list \<Rightarrow> sec \<Rightarrow> nat \<Rightarrow> oc_status \<times> sec" where
  "post_sp payload s device =
     (case oc_sec_decode_sp payload s device of
        (ok, s) \<Rightarrow> (if ok then OC_STATUS_CHANGED else OC_STATUS_BAD_REQUEST, s))"

end
