(* ===== verification/Sec_Acl_Inv.thy ===== *)
theory Sec_Acl_Inv
  imports Sec_Acl_Update
begin

text \<open>
  What provisioning keeps: entry ids stay distinct, no block of the two pools is lost, other
  devices are not touched. The operations are related to the list of entry heads (id, subject,
  permission) they leave behind; \<open>keeps\<close> collects what holds of every one of them.
\<close>

section \<open>Frame\<close>

definition heads :: "oc_sec_ace list \<Rightarrow> (int \<times> oc_ace_subject \<times> u16) list" where
  "heads as = map (\<lambda>a. (aceid a, subject a, permission a)) as"

definition res_count :: "oc_sec_ace list \<Rightarrow> nat" where
  "res_count as = sum_list (map (\<lambda>a. length (resources a)) as)"

abbreviation (input) "subs s device \<equiv> subjects (aclist s device)"

definition frame :: "sec \<Rightarrow> _" where
  "frame s = (num_devices s, core_resources s, pstat s, doxm s, devices s, tls_peers s, sp s, sp_mfg_default s,
     device_di s, device_piid s, platform_pi s, set_post_otm_acl s)"

text \<open>The operation kept both pools balanced and left everything but the list of one device.\<close>

definition balanced :: "nat \<Rightarrow> sec \<Rightarrow> sec \<Rightarrow> bool" where
  "balanced device s s' \<longleftrightarrow> frame s' = frame s \<and> (\<forall>d. d \<noteq> device \<longrightarrow> aclist s' d = aclist s d) \<and>
     length (subs s' device) + ace_free s' = length (subs s device) + ace_free s \<and>
     res_count (subs s' device) + res_free s' = res_count (subs s device) + res_free s"

lemma balanced_refl [simp]: "balanced device s s"
  by (simp add: balanced_def)

lemma balanced_trans [trans]: "balanced device s t \<Longrightarrow> balanced device t u \<Longrightarrow> balanced device s u"
  by (simp add: balanced_def)

lemma heads_simps [simp]:
  "heads [] = []" "heads (a # as) = (aceid a, subject a, permission a) # heads as" "heads (as @ bs) = heads as @ heads bs"
  "length (heads as) = length as"
  by (simp_all add: heads_def)

lemma res_count_simps [simp]:
  "res_count [] = 0" "res_count (a # as) = length (resources a) + res_count as"
  "res_count (as @ bs) = res_count as + res_count bs"
  by (simp_all add: res_count_def)

lemma map_aceid_heads: "map aceid as = map fst (heads as)"
  by (simp add: heads_def)

lemma set_subjects_simps [simp]:
  "aclist (set_subjects s device as) = (aclist s)(device := (aclist s device)\<lparr>subjects := as\<rparr>)"
  "frame (set_subjects s device as) = frame s" "ace_free (set_subjects s device as) = ace_free s"
  "res_free (set_subjects s device as) = res_free s" "num_devices (set_subjects s device as) = num_devices s"
  by (simp_all add: set_subjects_def frame_def)

lemma frame_simps [simp]:
  "frame (s\<lparr>ace_free := n\<rparr>) = frame s" "frame (s\<lparr>res_free := n\<rparr>) = frame s" "frame (s\<lparr>random_pos := n\<rparr>) = frame s"
  "frame (s\<lparr>aclist := f\<rparr>) = frame s"
  by (simp_all add: frame_def)

lemma find_ace_split: "\<exists>pre. as = pre @ find_ace as sub n perm"
proof (induction as)
  case (Cons a as)
  then obtain pre where "as = pre @ find_ace as sub n perm" by blast
  then have "a # as = (a # pre) @ find_ace as sub n perm" by simp
  moreover have "a # as = [] @ a # as" by simp
  moreover have "find_ace (a # as) sub n perm = a # as \<or> find_ace (a # as) sub n perm = find_ace as sub n perm"
    by simp
  ultimately show ?case by metis
qed simp

lemma find_ace_hd:
  "find_ace as sub n perm = a # bs \<Longrightarrow>
   subject a = sub \<and> (n \<noteq> - 1 \<longrightarrow> aceid a = n) \<and> (perm \<noteq> 0 \<longrightarrow> permission a = perm)"
  by (induction as) (auto split: if_splits)

lemma find_ace_Nil:
  "find_ace as sub n perm = [] \<Longrightarrow> a \<in> set as \<Longrightarrow>
   \<not> (subject a = sub \<and> (n = - 1 \<or> aceid a = n) \<and> (perm = 0 \<or> permission a = perm))"
  by (induction as) (auto split: if_splits)

lemma put_ace_split:
  "subs s device = pre @ here \<Longrightarrow> put_ace s device here as = set_subjects s device (pre @ as @ tl here)"
  by (simp add: put_ace_def)

section \<open>Adding entries\<close>

lemma get_new_aceid_fresh:
  assumes "get_new_aceid s device = Some (n, t)"
  shows "unique_aceid n s device \<and> (\<exists>k. t = s\<lparr>random_pos := k\<rparr>)"
proof -
  let ?P = "\<lambda>s device r. unique_aceid (fst r) s device \<and> (\<exists>k. snd r = s\<lparr>random_pos := k\<rparr>)"
  have pos: "unique_aceid m (s\<lparr>random_pos := k\<rparr>) device = unique_aceid m s device" for m k s device
    by (simp add: unique_aceid_def)
  have "?P s device (n, t)"
  proof (rule get_new_aceid.raw_induct [where P = ?P, OF _ assms])
    fix f s device r
    assume ih: "\<And>s device r. f s device = Some r \<Longrightarrow> ?P s device r"
      and r: "(let n = uint (drop_bit 1 (fst (oc_random_value s))); s = snd (oc_random_value s)
        in if unique_aceid n s device then Some (n, s) else f s device) = Some r"
    show "?P s device r"
    proof (cases "unique_aceid (uint (drop_bit 1 (fst (oc_random_value s)))) s device")
      case True
      then have "r = (uint (drop_bit 1 (fst (oc_random_value s))), s\<lparr>random_pos := random_pos s + 1\<rparr>)"
        using r by (simp add: oc_random_value_def pos Let_def)
      with True show ?thesis by (metis fst_conv snd_conv)
    next
      case False
      then have "f (s\<lparr>random_pos := random_pos s + 1\<rparr>) device = Some r"
        using r by (simp add: oc_random_value_def pos Let_def)
      from ih [OF this] show ?thesis unfolding pos by (metis sec.update_convs(17) sec.surjective)
    qed
  qed
  then show ?thesis by simp
qed

lemma new_res_balanced:
  assumes "subs s device = pre @ a # post"
  shows "balanced device s (snd (new_res s device (a # post) h wc rt i)) \<and>
    heads (subs (snd (new_res s device (a # post) h wc rt i)) device) = heads (subs s device)"
  using assms by (auto simp: new_res_def Let_def put_ace_split [of _ device pre] balanced_def)

text \<open>Either the list of heads stays, or one new entry is appended, with the given id or a fresh
  one.\<close>

lemma get_res_heads:
  assumes "oc_sec_ace_get_res s sub h wc rt i n perm device create = Some (r, t)"
  shows "balanced device s t \<and>
    (heads (subs t device) = heads (subs s device) \<or>
     (\<exists>m. heads (subs t device) = heads (subs s device) @ [(m, sub, perm)] \<and>
        find_ace (subs s device) sub n perm = [] \<and> (if n = - 1 then unique_aceid m s device else m = n)))"
proof (cases "find_ace (subs s device) sub n perm")
  case (Cons a post)
  obtain pre where "subs s device = pre @ a # post"
    using find_ace_split [of "subs s device" sub n perm] Cons by auto
  then show ?thesis
    using assms Cons new_res_balanced [of s device pre a post h wc rt i]
    by (auto simp: oc_sec_ace_get_res_def oc_sec_acl_find_subject_def Let_def split: if_splits)
next
  case Nil
  show ?thesis
  proof (cases "create \<and> ace_free s \<noteq> 0")
    case False
    with assms Nil show ?thesis
      by (auto simp: oc_sec_ace_get_res_def oc_sec_acl_find_subject_def Let_def split: if_splits)
  next
    case True
    then obtain m s1 where m: "(if n = - 1 then get_new_aceid (s\<lparr>ace_free := ace_free s - 1\<rparr>) device
        else Some (n, s\<lparr>ace_free := ace_free s - 1\<rparr>)) = Some (m, s1)"
      and t: "new_res (set_subjects s1 device (subs s1 device @ [\<lparr>resources = [], subject = sub, aceid = m, permission = perm\<rparr>]))
          device [\<lparr>resources = [], subject = sub, aceid = m, permission = perm\<rparr>] h wc rt i = (r, t)"
      using assms Nil by (auto simp: oc_sec_ace_get_res_def oc_sec_acl_find_subject_def Let_def bind_eq_Some_conv
          simp del: One_nat_def)
    have s1: "frame s1 = frame s" "aclist s1 = aclist s" "ace_free s1 = ace_free s - 1" "res_free s1 = res_free s"
      and fresh: "if n = - 1 then unique_aceid m s device else m = n"
      using m get_new_aceid_fresh [of "s\<lparr>ace_free := ace_free s - 1\<rparr>" device m s1]
      by (auto simp: unique_aceid_def split: if_splits)
    let ?a = "\<lparr>resources = [], subject = sub, aceid = m, permission = perm\<rparr>"
    let ?s = "set_subjects s1 device (subs s1 device @ [?a])"
    have "balanced device ?s t" "heads (subs t device) = heads (subs ?s device)"
      using new_res_balanced [of ?s device "subs s1 device" ?a "[]" h wc rt i] t by auto
    moreover have "balanced device s ?s" using s1 True by (auto simp: balanced_def)
    ultimately show ?thesis
      using s1 fresh Nil balanced_trans by auto
  qed
qed

text \<open>All entries with the given id have the given subject and permission.\<close>

definition owned_id :: "int \<Rightarrow> oc_ace_subject \<Rightarrow> u16 \<Rightarrow> sec \<Rightarrow> nat \<Rightarrow> bool" where
  "owned_id n sub perm s device \<longleftrightarrow> n = - 1 \<or> (\<forall>a \<in> set (subs s device). aceid a = n \<longrightarrow> subject a = sub \<and> permission a = perm)"

definition ids_ok :: "sec \<Rightarrow> nat \<Rightarrow> bool" where
  "ids_ok s device \<longleftrightarrow> distinct (map aceid (subs s device))"

lemma owned_id_heads:
  "owned_id n sub perm s device \<longleftrightarrow> n = - 1 \<or> (\<forall>x \<in> set (heads (subs s device)). fst x = n \<longrightarrow> snd x = (sub, perm))"
  by (auto simp: owned_id_def heads_def)

lemma update_res_ids:
  assumes "oc_sec_ace_update_res s sub n perm h wc rt i device = Some (b, t)" and "owned_id n sub perm s device"
  shows "balanced device s t" and "ids_ok s device \<Longrightarrow> ids_ok t device" and "owned_id n sub perm t device"
    and "m \<noteq> n \<Longrightarrow> n \<noteq> - 1 \<Longrightarrow> owned_id m sub' perm' s device \<Longrightarrow> owned_id m sub' perm' t device"
proof -
  obtain r where r: "oc_sec_ace_get_res s sub h wc rt i n perm device True = Some (r, t)"
    using assms(1) by (auto simp: oc_sec_ace_update_res_def bind_eq_Some_conv)
  show "balanced device s t" using get_res_heads [OF r] by simp
  consider "heads (subs t device) = heads (subs s device)"
    | k where "heads (subs t device) = heads (subs s device) @ [(k, sub, perm)]"
        "find_ace (subs s device) sub n perm = []" "if n = - 1 then unique_aceid k s device else k = n"
    using get_res_heads [OF r] by blast
  then have "(ids_ok s device \<longrightarrow> ids_ok t device) \<and> owned_id n sub perm t device \<and>
      (m \<noteq> n \<longrightarrow> n \<noteq> - 1 \<longrightarrow> owned_id m sub' perm' s device \<longrightarrow> owned_id m sub' perm' t device)"
  proof cases
    case 1
    with assms(2) show ?thesis by (simp add: ids_ok_def map_aceid_heads owned_id_heads)
  next
    case 2
    have "k \<notin> set (map aceid (subs s device))"
      using 2(2,3) assms(2) find_ace_Nil [OF 2(2)]
      by (auto simp: unique_aceid_def list_all_iff owned_id_def split: if_splits)
    with 2 assms(2) show ?thesis
      by (auto simp: ids_ok_def map_aceid_heads owned_id_heads split: if_splits)
  qed
  then show "ids_ok s device \<Longrightarrow> ids_ok t device" "owned_id n sub perm t device"
    "m \<noteq> n \<Longrightarrow> n \<noteq> - 1 \<Longrightarrow> owned_id m sub' perm' s device \<Longrightarrow> owned_id m sub' perm' t device"
    by blast+
qed

section \<open>Removing entries\<close>

lemma free_res_loop_eq:
  "free_res_loop None rs = ([], length rs)"
  "free_res_loop (Some h) rs = (filter (\<lambda>r. href r \<noteq> h) rs, length (filter (\<lambda>r. href r = h) rs))"
  by (induction rs) auto

lemma split_aceid_Some:
  "split_aceid n as = Some (a, bs) \<Longrightarrow> \<exists>pre post. as = pre @ a # post \<and> bs = pre @ post \<and> aceid a = n"
proof (induction as arbitrary: bs)
  case (Cons x as)
  show ?case
  proof (cases "aceid x = n")
    case True
    with Cons.prems show ?thesis by (intro exI [of _ "[]"] exI [of _ as]) auto
  next
    case False
    then obtain cs where cs: "split_aceid n as = Some (a, cs)" "bs = x # cs"
      using Cons.prems by (auto split: option.splits)
    from Cons.IH [OF cs(1)] obtain pre post where "as = pre @ a # post" "cs = pre @ post" "aceid a = n" by blast
    with cs(2) show ?thesis by (intro exI [of _ "x # pre"] exI [of _ post]) auto
  qed
qed simp

lemma split_aceid_None: "split_aceid n as = None \<longleftrightarrow> n \<notin> set (map aceid as)"
  by (induction as) (auto split: option.splits)

lemma free_ace_simps [simp]:
  "aclist (free_ace s a) = aclist s" "frame (free_ace s a) = frame s" "ace_free (free_ace s a) = Suc (ace_free s)"
  "res_free (free_ace s a) = res_free s + length (resources a)" "num_devices (free_ace s a) = num_devices s"
  by (simp_all add: free_ace_def free_res_loop_eq frame_def)

lemma remove_ace:
  shows "balanced device s (snd (oc_acl_remove_ace n s device))"
    and "ids_ok s device \<Longrightarrow> ids_ok (snd (oc_acl_remove_ace n s device)) device \<and>
           n \<notin> set (map aceid (subs (snd (oc_acl_remove_ace n s device)) device)) \<and>
           (\<forall>m. m \<noteq> n \<longrightarrow> m \<in> set (map aceid (subs s device)) \<longrightarrow>
              m \<in> set (map aceid (subs (snd (oc_acl_remove_ace n s device)) device)))"
    and "fst (oc_acl_remove_ace n s device) \<longleftrightarrow> n \<in> set (map aceid (subs s device))"
proof -
  note none = split_aceid_None [of n "subs s device"]
  show "balanced device s (snd (oc_acl_remove_ace n s device))"
    using split_aceid_Some [of n "subs s device"]
    by (cases "split_aceid n (subs s device)") (fastforce simp: oc_acl_remove_ace_def balanced_def)+
  show "fst (oc_acl_remove_ace n s device) \<longleftrightarrow> n \<in> set (map aceid (subs s device))"
    using none by (cases "split_aceid n (subs s device)") (auto simp: oc_acl_remove_ace_def)
  assume "ids_ok s device"
  with none show "ids_ok (snd (oc_acl_remove_ace n s device)) device \<and>
           n \<notin> set (map aceid (subs (snd (oc_acl_remove_ace n s device)) device)) \<and>
           (\<forall>m. m \<noteq> n \<longrightarrow> m \<in> set (map aceid (subs s device)) \<longrightarrow>
              m \<in> set (map aceid (subs (snd (oc_acl_remove_ace n s device)) device)))"
    using split_aceid_Some [of n "subs s device"]
    by (cases "split_aceid n (subs s device)") (fastforce simp: oc_acl_remove_ace_def ids_ok_def)+
qed

lemma clear_loop:
  "subs s device = as \<Longrightarrow> balanced device s (clear_loop s device as) \<and> subs (clear_loop s device as) device = []"
proof (induction as arbitrary: s)
  case (Cons a as)
  have "balanced device s (free_ace (set_subjects s device as) a)"
    using Cons.prems by (auto simp: balanced_def)
  moreover have "subs (free_ace (set_subjects s device as) a) device = as" by simp
  ultimately show ?case using Cons.IH balanced_trans by fastforce
qed simp

lemma clear_acl:
  "balanced device s (oc_sec_clear_acl s device)" "subs (oc_sec_clear_acl s device) device = []"
  using clear_loop [of s device] by (simp_all add: oc_sec_clear_acl_def)

section \<open>Decoding\<close>

text \<open>Everything an operation on one device's list keeps.\<close>

definition keeps :: "nat \<Rightarrow> sec \<Rightarrow> sec \<Rightarrow> bool" where
  "keeps device s t \<longleftrightarrow> balanced device s t \<and> (ids_ok s device \<longrightarrow> ids_ok t device)"

lemma keeps_refl [simp]: "keeps device s s"
  by (simp add: keeps_def)

lemma keeps_trans: "keeps device s t \<Longrightarrow> keeps device t u \<Longrightarrow> keeps device s u"
  using balanced_trans by (auto simp: keeps_def)

lemma keeps_remove_ace: "keeps device s (snd (oc_acl_remove_ace n s device))"
  using remove_ace by (simp add: keeps_def)

lemma keeps_clear_acl: "keeps device s (oc_sec_clear_acl s device)"
  using clear_acl by (simp add: keeps_def ids_ok_def)

lemma keeps_rowneruuid:
  "keeps device s (s\<lparr>aclist := (aclist s)(device := (aclist s device)\<lparr>acl_rowneruuid := u\<rparr>)\<rparr>)"
  by (simp add: keeps_def balanced_def ids_ok_def)

lemma keeps_update_res:
  "oc_sec_ace_update_res s sub n perm h wc rt i device = Some (b, t) \<Longrightarrow> owned_id n sub perm s device \<Longrightarrow>
   keeps device s t"
  using update_res_ids(1,2) by (simp add: keeps_def)

lemma keeps_add_resources:
  "add_resources os a s device = Some t \<Longrightarrow> owned_id (a_aceid a) (a_subject a) (a_permission a) s device \<Longrightarrow>
   keeps device s t"
proof (induction os arbitrary: s)
  case (Cons x xs)
  then obtain h wc rt i b u where u: "oc_sec_ace_update_res s (a_subject a) (a_aceid a) (a_permission a) h wc rt i device = Some (b, u)"
    and rest: "add_resources xs a u device = Some t"
    by (auto simp: bind_eq_Some_conv Let_def)
  show ?case
    using keeps_trans [OF keeps_update_res [OF u Cons.prems(2)] Cons.IH [OF rest update_res_ids(3) [OF u Cons.prems(2)]]] .
qed simp

lemma keeps_decode_ace:
  assumes "decode_ace rep s device = Some t" and "ids_ok s device"
  shows "keeps device s t"
proof -
  obtain a where a: "add_resources (a_resources a) a
      (if a_aceid a \<noteq> - 1 \<and> \<not> unique_aceid (a_aceid a) s device
       then snd (oc_acl_remove_ace (a_aceid a) s device) else s) device = Some t"
    using assms(1) unfolding decode_ace_def Let_def bind_eq_Some_conv by blast
  let ?s = "if a_aceid a \<noteq> - 1 \<and> \<not> unique_aceid (a_aceid a) s device
       then snd (oc_acl_remove_ace (a_aceid a) s device) else s"
  have "owned_id (a_aceid a) (a_subject a) (a_permission a) ?s device"
    using remove_ace(2) [OF assms(2), of "a_aceid a"]
    by (force simp: owned_id_def unique_aceid_def list_all_iff)
  moreover have "keeps device s ?s" by (simp add: keeps_remove_ace)
  ultimately show ?thesis using keeps_add_resources [OF a] keeps_trans by blast
qed

lemma keeps_decode_aces: "decode_aces os s device = Some t \<Longrightarrow> ids_ok s device \<Longrightarrow> keeps device s t"
proof (induction os arbitrary: s)
  case (Cons x xs)
  then obtain u where u: "decode_ace x s device = Some u" "decode_aces xs u device = Some t"
    by (auto simp: bind_eq_Some_conv)
  have k: "keeps device s u" using keeps_decode_ace [OF u(1) Cons.prems(2)] .
  with Cons.prems(2) have "ids_ok u device" by (simp add: keeps_def)
  with Cons.IH [OF u(2)] k show ?case using keeps_trans by blast
qed simp

lemma keeps_decode_acl_loop: "decode_acl_loop rep s device = Some t \<Longrightarrow> ids_ok s device \<Longrightarrow> keeps device s t"
proof (induction rep arbitrary: s)
  case (Cons r rs)
  then obtain u where u: "decode_acl_loop rs u device = Some t" and
    first: "u = s \<or> (\<exists>v. u = s\<lparr>aclist := (aclist s)(device := (aclist s device)\<lparr>acl_rowneruuid := v\<rparr>)\<rparr>) \<or>
      (\<exists>os. decode_aces os s device = Some u)"
    by (auto simp: bind_eq_Some_conv split: rep_value.splits if_splits)
  have k: "keeps device s u"
    using first keeps_rowneruuid keeps_decode_aces Cons.prems(2) by (elim disjE exE) simp_all
  with Cons.prems(2) have "ids_ok u device" by (simp add: keeps_def)
  with Cons.IH [OF u] k show ?case using keeps_trans by blast
qed simp

lemma keeps_decode_acl:
  "oc_sec_decode_acl rep fs s device = Some (b, t) \<Longrightarrow> ids_ok s device \<Longrightarrow> keeps device s t"
  using keeps_decode_acl_loop by (auto simp: oc_sec_decode_acl_def bind_eq_Some_conv split: if_splits)

section \<open>The default list\<close>

definition default_ids :: "sec \<Rightarrow> nat \<Rightarrow> bool" where
  "default_ids s device \<longleftrightarrow> owned_id 1 (SUBJECT_CONN OC_CONN_ANON_CLEAR) 2 s device \<and>
     owned_id 2 (SUBJECT_CONN OC_CONN_ANON_CLEAR) 14 s device"

lemma keeps_default_loop: "default_loop device is s = Some t \<Longrightarrow> default_ids s device \<Longrightarrow> keeps device s t"
proof (induction "is" arbitrary: s)
  case (Cons i xs)
  show ?case
  proof (cases "length (uri (oc_core_get_resource_by_index s i device)) = 0")
    case True
    with Cons show ?thesis by simp
  next
    case False
    let ?r = "oc_core_get_resource_by_index s i device"
    let ?up = "\<lambda>n p s. oc_sec_ace_update_res s (SUBJECT_CONN OC_CONN_ANON_CLEAR) n p (Some (uri ?r)) OC_ACE_NO_WC
             (Some (rtypes ?r)) (rinterfaces ?r) device"
    obtain b u c v where u: "(if i < OCF_SEC_DOXM \<or> i > OCF_SEC_CRED then ?up 1 2 s else Some (True, s)) = Some (b, u)"
      and v: "(if i \<ge> OCF_SEC_DOXM \<and> i < OCF_D then ?up 2 14 u else Some (True, u)) = Some (c, v)"
      and t: "default_loop device xs v = Some t"
      using Cons.prems(1) False by (auto simp: Let_def bind_eq_Some_conv simp del: One_nat_def)
    have ku: "keeps device s u" "default_ids u device"
      using u Cons.prems(2) update_res_ids [of s "SUBJECT_CONN OC_CONN_ANON_CLEAR" 1 2]
      by (auto simp: default_ids_def keeps_def split: if_splits)
    have kv: "keeps device u v" "default_ids v device"
      using v ku(2) update_res_ids [of u "SUBJECT_CONN OC_CONN_ANON_CLEAR" 2 14]
      by (auto simp: default_ids_def keeps_def split: if_splits)
    show ?thesis using keeps_trans [OF ku(1) keeps_trans [OF kv(1) Cons.IH [OF t kv(2)]]] .
  qed
qed simp

lemma keeps_acl_default: "oc_sec_acl_default s device = Some t \<Longrightarrow> keeps device s t"
proof -
  assume "oc_sec_acl_default s device = Some t"
  then obtain u where u: "default_loop device [0..<OC_NUM_CORE_RESOURCES_PER_DEVICE] (oc_sec_clear_acl s device) = Some u"
    and t: "t = u\<lparr>aclist := (aclist u)(device := (aclist u device)\<lparr>acl_rowneruuid := nil_id\<rparr>)\<rparr>"
    by (auto simp: oc_sec_acl_default_def Let_def bind_eq_Some_conv)
  have "default_ids (oc_sec_clear_acl s device) device"
    using clear_acl(2) [of s device] by (simp add: default_ids_def owned_id_def)
  with keeps_default_loop [OF u] keeps_clear_acl keeps_rowneruuid t keeps_trans show ?thesis by metis
qed

section \<open>The end of ownership transfer\<close>

abbreviation (input) "ANON \<equiv> SUBJECT_CONN OC_CONN_ANON_CLEAR"

definition opened :: "oc_sec_ace \<Rightarrow> bool" where
  "opened a \<longleftrightarrow> subject a = ANON \<and> permission a = 14"

definition provisioning_href :: "oc_ace_res \<Rightarrow> bool" where
  "provisioning_href r \<longleftrightarrow> href r = ''/oic/sec/acl2'' \<or> href r = ''/oic/sec/cred''"

definition strip :: "oc_sec_ace \<Rightarrow> oc_sec_ace" where
  "strip a = (if opened a then a\<lparr>resources := filter (\<lambda>r. \<not> provisioning_href r) (resources a)\<rparr> else a)"

lemma find_opened: "find_ace as ANON (- 1) 14 = dropWhile (\<lambda>a. \<not> opened a) as"
  by (induction as) (auto simp: opened_def)

lemma free_resources_step:
  assumes "subs s device = pre @ a # post" and "filter (\<lambda>r. href r \<noteq> h) (resources a) \<noteq> []"
  defines "b \<equiv> a\<lparr>resources := filter (\<lambda>r. href r \<noteq> h) (resources a)\<rparr>"
  shows "snd (oc_ace_free_resources s device (a # post) h) = b # post"
    and "subs (fst (oc_ace_free_resources s device (a # post) h)) device = pre @ b # post"
  using assms put_ace_split [of _ device pre "a # post"]
  by (simp_all add: oc_ace_free_resources_def free_res_loop_eq Let_def)

lemma post_otm_loop_strips:
  "subs s device = pre @ (if here = [] then subs s device else tl here) \<Longrightarrow>
   \<forall>a \<in> set (subs s device). opened a \<longrightarrow> resources (strip a) \<noteq> [] \<Longrightarrow>
   subs (post_otm_loop s device here) device = pre @ map strip (if here = [] then subs s device else tl here)"
proof (induction s device here arbitrary: pre rule: post_otm_loop.induct)
  case (1 s device here)
  let ?rest = "if here = [] then subs s device else tl here"
  have f: "oc_sec_acl_find_subject here ANON (- 1) 14 s device = dropWhile (\<lambda>a. \<not> opened a) ?rest"
    by (simp add: oc_sec_acl_find_subject_def find_opened)
  show ?case
  proof (cases "dropWhile (\<lambda>a. \<not> opened a) ?rest")
    case Nil
    then have "map strip ?rest = ?rest" by (intro map_idI) (auto simp: strip_def)
    with Nil f "1.prems"(1) show ?thesis by (subst post_otm_loop.simps) (simp del: if_split)
  next
    case (Cons a post)
    define mid where "mid = takeWhile (\<lambda>a. \<not> opened a) ?rest"
    have rest: "?rest = mid @ a # post" using Cons takeWhile_dropWhile_id [of "\<lambda>a. \<not> opened a" ?rest] by (simp add: mid_def)
    have a: "opened a" using Cons by (metis dropWhile_eq_Cons_conv)
    have mid: "map strip mid = mid" by (intro map_idI) (auto simp: strip_def mid_def dest: set_takeWhileD)
    have subs: "subs s device = (pre @ mid) @ a # post" using "1.prems"(1) rest by simp
    let ?h1 = "''/oic/sec/acl2''" and ?h2 = "''/oic/sec/cred''"
    let ?a1 = "a\<lparr>resources := filter (\<lambda>r. href r \<noteq> ?h1) (resources a)\<rparr>"
    have strip: "strip a = ?a1\<lparr>resources := filter (\<lambda>r. href r \<noteq> ?h2) (resources ?a1)\<rparr>"
      using a by (simp add: strip_def provisioning_href_def)
    have ne: "resources (strip a) \<noteq> []" using "1.prems"(2) subs a by simp
    then have ne1: "filter (\<lambda>r. href r \<noteq> ?h1) (resources a) \<noteq> []" "filter (\<lambda>r. href r \<noteq> ?h2) (resources ?a1) \<noteq> []"
      unfolding strip by (auto simp: filter_empty_conv)
    obtain s1 where s1: "oc_ace_free_resources s device (a # post) ?h1 = (s1, ?a1 # post)"
      "subs s1 device = (pre @ mid) @ ?a1 # post"
      using free_resources_step [OF subs ne1(1)] by (metis prod.collapse)
    obtain s2 where s2: "oc_ace_free_resources s1 device (?a1 # post) ?h2 = (s2, strip a # post)"
      "subs s2 device = (pre @ mid) @ strip a # post"
      using free_resources_step [OF s1(2) ne1(2)] unfolding strip [symmetric] by (metis prod.collapse)
    have ne2: "\<forall>x \<in> set (subs s2 device). opened x \<longrightarrow> resources (strip x) \<noteq> []"
      using "1.prems"(2) subs s2(2) ne by (auto simp: strip_def opened_def)
    have "subs (post_otm_loop s2 device (strip a # post)) device = (pre @ mid @ [strip a]) @ map strip post"
    proof -
      have 1: "(s1, ?a1 # post) = (if a # post \<noteq> [] then oc_ace_free_resources s device (a # post) ?h1 else (s, a # post))"
        and 2: "(s2, strip a # post) = (if ?a1 # post \<noteq> [] then oc_ace_free_resources s1 device (?a1 # post) ?h2
           else (s1, ?a1 # post))"
        using s1(1) s2(1) by simp_all
      show ?thesis
        using "1.IH" [OF f [unfolded Cons, symmetric] refl 1 refl 2, of "pre @ mid @ [strip a]"] s2(2) ne2 by simp
    qed
    then show ?thesis
      using Cons f s1 s2 mid rest by (subst post_otm_loop.simps) (simp del: if_split)
  qed
qed

lemma frame_put_ace [simp]: "frame (put_ace s device here as) = frame s"
  by (simp add: put_ace_def Let_def)

lemma frame_free_resources: "frame (fst (oc_ace_free_resources s device here h)) = frame s"
  by (simp add: oc_ace_free_resources_def Let_def split: prod.split)

lemma frame_post_otm_loop: "frame (post_otm_loop s device here) = frame s"
proof (induction s device here rule: post_otm_loop.induct)
  case (1 s device here)
  show ?case
    using "1.IH" frame_free_resources
    by (subst post_otm_loop.simps) (auto simp: Let_def split: prod.split, (metis fst_conv)+)
qed

lemma res_match_href: "res_match r h rt i w \<Longrightarrow> fst (href_match h r)"
  by (cases "href_match h r") (auto simp: res_match_def split: option.splits if_splits)

section \<open>Properties\<close>

text \<open>The invariant of the access control lists of all devices: ids are distinct on each list and
  the blocks of both pools are either free or in use.\<close>

definition acl_inv :: "nat \<Rightarrow> nat \<Rightarrow> sec \<Rightarrow> bool" where
  "acl_inv A R s \<longleftrightarrow> (\<forall>d < num_devices s. ids_ok s d) \<and>
     ace_free s + (\<Sum>d < num_devices s. length (subs s d)) = A \<and>
     res_free s + (\<Sum>d < num_devices s. res_count (subs s d)) = R"

lemma sum_one_changed:
  fixes f g :: "nat \<Rightarrow> nat"
  assumes "d < n" and "\<And>i. i \<noteq> d \<Longrightarrow> g i = f i"
  shows "(\<Sum>i<n. g i) + f d = (\<Sum>i<n. f i) + g d"
proof -
  have "(\<Sum>i \<in> {..<n} - {d}. g i) = (\<Sum>i \<in> {..<n} - {d}. f i)" using assms(2) by (intro sum.cong) auto
  then show ?thesis using assms(1) by (simp add: sum.remove [of "{..<n}" d])
qed

lemma keeps_acl_inv:
  assumes "keeps device s t" and "device < num_devices s" and "acl_inv A R s"
  shows "acl_inv A R t"
proof -
  have n: "num_devices t = num_devices s" and other: "d \<noteq> device \<Longrightarrow> aclist t d = aclist s d" for d
    using assms(1) by (auto simp: keeps_def balanced_def frame_def)
  have "(\<Sum>d < num_devices s. length (subs t d)) + length (subs s device) =
      (\<Sum>d < num_devices s. length (subs s d)) + length (subs t device)"
    "(\<Sum>d < num_devices s. res_count (subs t d)) + res_count (subs s device) =
      (\<Sum>d < num_devices s. res_count (subs s d)) + res_count (subs t device)"
    using other by (intro sum_one_changed [OF assms(2)]; simp)+
  moreover have "ids_ok t d" if "d < num_devices s" for d
    using assms(1,3) that other by (cases "d = device") (auto simp: acl_inv_def keeps_def ids_ok_def)
  ultimately show ?thesis
    using assms(1,3) n by (auto simp: acl_inv_def keeps_def balanced_def)
qed

text \<open>C25: Posting a payload, deleting entries and restoring the default list keep the invariant of
  the access control lists: ids stay distinct, whatever ids the payload names, and no pool block
  is lost or counted twice.\<close>

theorem acl_inv_preserved:
  assumes "acl_inv A R s" and "device < num_devices s"
  shows "(\<forall>st t. post_acl payload s device = Some (st, t) \<longrightarrow> acl_inv A R t) \<and>
    acl_inv A R (snd (delete_acl query s device)) \<and>
    (\<forall>t. oc_sec_acl_default s device = Some t \<longrightarrow> acl_inv A R t)"
proof (intro conjI allI impI)
  have ids: "ids_ok s device" using assms by (simp add: acl_inv_def)
  show "acl_inv A R t" if "post_acl payload s device = Some (st, t)" for st t
    using that keeps_acl_inv [OF keeps_decode_acl [OF _ ids] assms(2,1)]
    by (auto simp: post_acl_def bind_eq_Some_conv)
  show "acl_inv A R t" if "oc_sec_acl_default s device = Some t" for t
    using keeps_acl_inv [OF keeps_acl_default [OF that] assms(2,1)] .
  show "acl_inv A R (snd (delete_acl query s device))"
    using keeps_acl_inv [OF keeps_clear_acl assms(2,1)] keeps_acl_inv [OF keeps_remove_ace assms(2,1)] assms(1)
    by (auto simp: delete_acl_def Let_def split: option.split prod.split)
       (metis snd_conv)+
qed

theorem acl_inv_preserved_witness:
  "acl_inv 11 11 (snd (delete_acl (Some ''1'') demo_sec 0))"
proof -
  have "acl_inv 11 11 demo_sec" "0 < num_devices demo_sec"
    by (simp_all add: acl_inv_def demo_sec_def ids_ok_def)
  from acl_inv_preserved [OF this, of "[]" "Some ''1''"] show ?thesis by blast
qed


definition opened_ace :: oc_sec_ace where
  "opened_ace = \<lparr>resources = map (\<lambda>h. \<lparr>href = h, interfaces = 0, types = [], wildcard = 0\<rparr>)
       [''/oic/sec/doxm'', ''/oic/sec/acl2'', ''/oic/sec/cred''], subject = ANON, aceid = 2, permission = 14\<rparr>"

definition otm_sec :: sec where
  "otm_sec = set_subjects demo_sec 0 [opened_ace]"


text \<open>The provisioning state guards the list: in normal operation a posted payload with entries
  or an owner is refused and nothing changes, and deleting entries is forbidden; an owner alone
  is also refused while the device is ready for provisioning.\<close>

theorem acl_guarded_by_state:
  assumes "dos_s (pstat s device) = OC_DOS_RFNOP \<and>
      (\<exists>r \<in> set payload. (\<exists>os. rep_value r = REP_OBJECT_ARRAY os) \<or> rep_name r = ''rowneruuid'' \<and> (\<exists>v. rep_value r = REP_STRING v))
    \<or> dos_s (pstat s device) = OC_DOS_RFPRO \<and>
      (\<exists>r \<in> set payload. rep_name r = ''rowneruuid'' \<and> (\<exists>v. rep_value r = REP_STRING v))"
  shows "post_acl payload s device = Some (OC_STATUS_BAD_REQUEST, s) \<and>
    (dos_s (pstat s device) = OC_DOS_RFNOP \<longrightarrow> delete_acl query s device = (OC_STATUS_FORBIDDEN, s))"
  using assms
  by (fastforce simp: post_acl_def oc_sec_decode_acl_def list_ex_iff acl_rejects_def delete_acl_def)

theorem acl_guarded_by_state_witness:
  "post_acl [Rep ''aclist2'' (REP_OBJECT_ARRAY [])] demo_sec 0 = Some (OC_STATUS_BAD_REQUEST, demo_sec)"
  using acl_guarded_by_state [of demo_sec 0 "[Rep ''aclist2'' (REP_OBJECT_ARRAY [])]"] by (simp add: demo_sec_def)

text \<open>A posted entry for the resources \<open>+\<close> and \<open>/hidden\<close> loses \<open>/hidden\<close>: without a wildcard the
  search for an existing resource is made with the value -1, which matches every wildcard.\<close>

lemma posted_href_lost:
  "map_option (\<lambda>(st, t). (st, map (\<lambda>a. map href (resources a)) (subs t 0)))
     (post_acl [Rep ''aclist2'' (REP_OBJECT_ARRAY [[
        Rep ''subject'' (REP_OBJECT [Rep ''conntype'' (REP_STRING ''auth-crypt'')]), Rep ''permission'' (REP_INT 2),
        Rep ''aceid'' (REP_INT 5),
        Rep ''resources'' (REP_OBJECT_ARRAY [[Rep ''wc'' (REP_STRING ''+'')], [Rep ''href'' (REP_STRING ''/hidden'')]])]])]
       (set_subjects (demo_sec\<lparr>pstat := (\<lambda>_. (pstat demo_sec 0)\<lparr>dos_s := OC_DOS_RFPRO\<rparr>)\<rparr>) 0 []) 0)
   = Some (OC_STATUS_CHANGED, [[[]]])"
  by (simp add: demo_sec_def post_acl_def oc_sec_decode_acl_def acl_rejects_def decode_ace_def value_string_def
      conn_member_def unique_aceid_def set_subjects_def oc_sec_ace_update_res_def oc_sec_ace_get_res_def oc_sec_acl_find_subject_def
      oc_sec_ace_find_resource_def new_res_def put_ace_def starts_with_def res_match_def href_match_def Let_def)

end
