(* ===== verification/Sec_Pstat.thy ===== *)
theory Sec_Pstat
  imports Sec_Ownership Sec_Acl_Inv
begin

text \<open>
  The provisioning state machine: \<open>src/security/oc_pstat.c\<close>. A device is reset (\<open>RESET\<close>), ready for
  ownership transfer (\<open>RFOTM\<close>), for provisioning (\<open>RFPRO\<close>), for normal operation (\<open>RFNOP\<close>) or
  soft-reset (\<open>SRESET\<close>); a posted state is checked against the ownership data and then installed.
  Requests to the security resources are the steps of a transition system, and its reachable
  states satisfy the invariant of the last section.
\<close>

section \<open>Transitions\<close>

definition valid_transition :: "sec \<Rightarrow> nat \<Rightarrow> int \<Rightarrow> bool" where
  "valid_transition s device state \<longleftrightarrow>
     (let cur = dos_s (pstat s device)
      in if cur = OC_DOS_RESET then True
         else if cur = OC_DOS_RFOTM then state \<noteq> OC_DOS_SRESET
         else if cur = OC_DOS_RFPRO then state \<noteq> OC_DOS_RFOTM
         else if cur = OC_DOS_RFNOP then state \<noteq> OC_DOS_RFOTM
         else if cur = OC_DOS_SRESET then \<not> (state = OC_DOS_RFOTM \<or> state = OC_DOS_RFNOP)
         else True)"

text \<open>The part of the check that \<open>RFPRO\<close>, \<open>RFNOP\<close> and \<open>SRESET\<close> share.\<close>

definition not_provisioned :: "oc_sec_pstat \<Rightarrow> sec \<Rightarrow> nat \<Rightarrow> bool" where
  "not_provisioned ps s device \<longleftrightarrow>
     \<not> owned (doxm s device) \<or> nil_uuid (devowneruuid (doxm s device)) \<or> nil_uuid (deviceuuid (doxm s device)) \<or>
     nil_uuid (pstat_rowneruuid ps) \<or> nil_uuid (doxm_rowneruuid (doxm s device)) \<or>
     nil_uuid (acl_rowneruuid (aclist s device)) \<or> nil_uuid (cred_rowneruuid (devices s device)) \<or>
     oc_sec_find_creds_for_subject s (pstat_rowneruuid ps) device = None \<or>
     oc_sec_find_creds_for_subject s (doxm_rowneruuid (doxm s device)) device = None \<or>
     oc_sec_find_creds_for_subject s (acl_rowneruuid (aclist s device)) device = None \<or>
     oc_sec_find_creds_for_subject s (cred_rowneruuid (devices s device)) device = None"

text \<open>Success, the state and the caller's copy \<open>ps\<close> afterwards.\<close>

definition install :: "bool \<Rightarrow> oc_sec_pstat \<Rightarrow> sec \<Rightarrow> nat \<Rightarrow> bool \<times> oc_sec_pstat \<times> sec" where
  "install err ps s device =
     (if err then (False, ps, s)
      else let ps = ps\<lparr>dos_p := False\<rparr> in (True, ps, s\<lparr>pstat := (pstat s)(device := ps)\<rparr>))"

definition enter_rfotm :: "oc_sec_pstat \<Rightarrow> sec \<Rightarrow> nat \<Rightarrow> bool \<times> oc_sec_pstat \<times> sec" where
  "enter_rfotm ps s device =
     (let ps = ps\<lparr>dos_p := True, dos_s := OC_DOS_RFOTM, cm := 2, tm := 0\<rparr>
      in install (owned (doxm s device) \<or> \<not> nil_uuid (devowneruuid (doxm s device)) \<or> isop ps \<or>
                  cm ps AND 0xC3 \<noteq> 2 \<or> tm ps AND 0xC3 \<noteq> 0) ps s device)"

definition oc_pstat_handle_state :: "oc_sec_pstat \<Rightarrow> sec \<Rightarrow> nat \<Rightarrow> (bool \<times> oc_sec_pstat \<times> sec) option" where
  "oc_pstat_handle_state ps s device =
     (if dos_s ps = OC_DOS_RESET then do {
        let ps = ps\<lparr>dos_p := True, isop := False, cm := 1, tm := 2, om := 3, sm := 4, pstat_rowneruuid := nil_id\<rparr>;
        let s = oc_sec_doxm_default s device;
        let s = oc_sec_cred_default s device;
        s \<leftarrow> oc_sec_acl_default s device;
        let s = oc_sec_free_roles_for_device s device;
        let s = oc_sec_sp_default s device;
        let s = s\<lparr>set_post_otm_acl := True\<rparr>;
        let ps = ps\<lparr>dos_p := False\<rparr>;
        Some (enter_rfotm ps s device)
      }
      else if dos_s ps = OC_DOS_RFOTM then Some (enter_rfotm ps s device)
      else if dos_s ps = OC_DOS_RFPRO then
        let ps = ps\<lparr>dos_p := True, cm := 0, tm := 0, isop := False\<rparr>
        in Some (install (isop ps \<or> cm ps AND 0xC3 \<noteq> 0 \<or> tm ps AND 0xC3 \<noteq> 0 \<or> not_provisioned ps s device) ps s device)
      else if dos_s ps = OC_DOS_RFNOP then
        let ps = ps\<lparr>dos_p := True, cm := 0, tm := 0, isop := True\<rparr>
        in Some (install (\<not> isop ps \<or> cm ps AND 0xC3 \<noteq> 0 \<or> tm ps AND 0xC3 \<noteq> 0 \<or> not_provisioned ps s device) ps s device)
      else if dos_s ps = OC_DOS_SRESET then
        let ps = ps\<lparr>dos_p := True, cm := 1, tm := 0, isop := False\<rparr>
        in Some (install (isop ps \<or> cm ps \<noteq> 1 \<or> tm ps AND 0xC3 \<noteq> 0 \<or> not_provisioned ps s device) ps s device)
      else Some (False, ps, s))"

definition oc_sec_is_operational :: "sec \<Rightarrow> nat \<Rightarrow> bool" where
  "oc_sec_is_operational s device \<longleftrightarrow> isop (pstat s device)"

text \<open>Here \<open>ps\<close> points to the installed state itself, so it is changed on failure too.\<close>

definition oc_sec_pstat_default :: "sec \<Rightarrow> nat \<Rightarrow> sec option" where
  "oc_sec_pstat_default s device = do {
     (_, ps, s) \<leftarrow> oc_pstat_handle_state ((pstat s device)\<lparr>dos_s := OC_DOS_RESET\<rparr>) s device;
     Some (s\<lparr>pstat := (pstat s)(device := ps)\<rparr>)
   }"

section \<open>Decoding a posted state\<close>

text \<open>\<open>None\<close> is a memory error of the UUID text, \<open>Some None\<close> the return of false.\<close>

primrec decode_dos :: "oc_rep list \<Rightarrow> bool \<Rightarrow> oc_sec_pstat \<Rightarrow> bool \<Rightarrow> (oc_sec_pstat \<times> bool) option" where
  "decode_dos [] from_storage ps tr = Some (ps, tr)"
| "decode_dos (d # ds) from_storage ps tr =
     (case rep_value d of
        REP_INT n \<Rightarrow> if rep_name d = ''s'' then decode_dos ds from_storage (ps\<lparr>dos_s := n\<rparr>) True else None
      | _ \<Rightarrow> if \<not> from_storage \<and> rep_name d = ''p'' then None else decode_dos ds from_storage ps tr)"

definition decode_pstat_one ::
  "oc_rep \<Rightarrow> bool \<Rightarrow> oc_sec_pstat \<Rightarrow> bool \<Rightarrow> (oc_sec_pstat \<times> bool) option option" where
  "decode_pstat_one r from_storage ps tr =
     (case rep_value r of
        REP_OBJECT ds \<Rightarrow> if rep_name r = ''dos'' then Some (decode_dos ds from_storage ps tr) else Some None
      | REP_BOOL b \<Rightarrow> if from_storage \<and> rep_name r = ''isop'' then Some (Some (ps\<lparr>isop := b\<rparr>, tr)) else Some None
      | REP_INT n \<Rightarrow>
          if from_storage \<and> take 2 (rep_name r) = ''cm'' then Some (Some (ps\<lparr>cm := n\<rparr>, tr))
          else if take 2 (rep_name r) = ''tm'' then Some (Some (ps\<lparr>tm := n\<rparr>, tr))
          else if take 2 (rep_name r) = ''om'' then Some (Some (ps\<lparr>om := n\<rparr>, tr))
          else if from_storage \<and> take 2 (rep_name r) = ''sm'' then Some (Some (ps\<lparr>sm := n\<rparr>, tr))
          else Some None
      | REP_STRING v \<Rightarrow>
          if (from_storage \<or> dos_s ps \<noteq> OC_DOS_RFPRO \<and> dos_s ps \<noteq> OC_DOS_RFNOP) \<and> rep_name r = ''rowneruuid''
          then do { u \<leftarrow> oc_str_to_uuid (c_str v) (pstat_rowneruuid ps); Some (Some (ps\<lparr>pstat_rowneruuid := u\<rparr>, tr)) }
          else Some None
      | _ \<Rightarrow> if rep_name r = ''rt'' \<or> rep_name r = ''if'' then Some (Some (ps, tr)) else Some None)"

primrec decode_pstat_loop ::
  "oc_rep list \<Rightarrow> bool \<Rightarrow> oc_sec_pstat \<Rightarrow> bool \<Rightarrow> (oc_sec_pstat \<times> bool) option option" where
  "decode_pstat_loop [] from_storage ps tr = Some (Some (ps, tr))"
| "decode_pstat_loop (r # rs) from_storage ps tr = do {
     res \<leftarrow> decode_pstat_one r from_storage ps tr;
     case res of None \<Rightarrow> Some None | Some (ps, tr) \<Rightarrow> decode_pstat_loop rs from_storage ps tr
   }"

definition oc_sec_decode_pstat :: "oc_rep list \<Rightarrow> bool \<Rightarrow> sec \<Rightarrow> nat \<Rightarrow> (bool \<times> sec) option" where
  "oc_sec_decode_pstat rep from_storage s device = do {
     res \<leftarrow> decode_pstat_loop rep from_storage (pstat s device) False;
     case res of
       None \<Rightarrow> Some (False, s)
     | Some (ps, transition_state) \<Rightarrow>
         if from_storage \<or> valid_transition s device (dos_s ps) then
           if \<not> from_storage \<and> transition_state then do {
             (ok, ps, s) \<leftarrow> oc_pstat_handle_state ps s device;
             Some (ok, if ok \<and> dos_s ps = OC_DOS_RFNOP \<and> set_post_otm_acl s
                       then (oc_sec_set_post_otm_acl s device)\<lparr>set_post_otm_acl := False\<rparr> else s)
           }
           else Some (True, s\<lparr>pstat := (pstat s)(device := ps)\<rparr>)
         else Some (False, s)
   }"

definition post_pstat :: "oc_rep list \<Rightarrow> sec \<Rightarrow> nat \<Rightarrow> (oc_status \<times> sec) option" where
  "post_pstat payload s device = do {
     (ok, s) \<leftarrow> oc_sec_decode_pstat payload False s device;
     Some (if ok then OC_STATUS_CHANGED else OC_STATUS_BAD_REQUEST, s)
   }"

text \<open>The reset of all devices hands the same \<open>ps\<close> to one device after the other.\<close>

primrec reset_loop :: "nat list \<Rightarrow> oc_sec_pstat \<Rightarrow> sec \<Rightarrow> sec option" where
  "reset_loop [] ps s = Some s"
| "reset_loop (d # ds) ps s = do {
     (_, ps, s) \<leftarrow> oc_pstat_handle_state ps s d;
     reset_loop ds ps s
   }"

definition oc_sec_reset :: "sec \<Rightarrow> sec option" where
  "oc_sec_reset s = reset_loop [0..<num_devices s]
     \<lparr>dos_s = OC_DOS_RESET, dos_p = False, isop = False, cm = 0, tm = 0, om = 0, sm = 0, pstat_rowneruuid = nil_id\<rparr> s"

section \<open>Steps of the security layer\<close>

text \<open>The requests to the security resources and the access checks of all requests, in any order.\<close>

inductive sec_step :: "sec \<Rightarrow> sec \<Rightarrow> bool" where
  pstat: "sec_step s t" if "post_pstat payload s device = Some (st, t)" "device < num_devices s"
| doxm: "sec_step s t" if "post_doxm payload s device = Some (st, t)" "device < num_devices s"
| acl: "sec_step s t" if "post_acl payload s device = Some (st, t)" "device < num_devices s"
| delete: "sec_step s t" if "delete_acl query s device = (st, t)" "device < num_devices s"
| sp: "sec_step s t" if "post_sp payload s device = (st, t)" "device < num_devices s"
| check: "sec_step s t" if "oc_sec_check_acl valid s meth resource iface_mask ep = (b, t)"

inductive_cases sec_stepE: "sec_step s t"

section \<open>What the operations leave alone\<close>

text \<open>Closing the list after the ownership transfer keeps ids, pools and owner.\<close>

lemma free_resources_keeps:
  assumes "subs s device = pre @ a # post"
  shows "keeps device s (fst (oc_ace_free_resources s device (a # post) h)) \<and>
    acl_rowneruuid (aclist (fst (oc_ace_free_resources s device (a # post) h)) device) = acl_rowneruuid (aclist s device) \<and>
    (snd (oc_ace_free_resources s device (a # post) h) = [] \<or>
     (\<exists>b. snd (oc_ace_free_resources s device (a # post) h) = b # post \<and>
        subs (fst (oc_ace_free_resources s device (a # post) h)) device = pre @ b # post))"
proof -
  have len: "length (filter (\<lambda>r. href r \<noteq> h) rs) + length (filter (\<lambda>r. href r = h) rs) = length rs" for rs
    by (induction rs) auto
  show ?thesis
  proof (cases "filter (\<lambda>r. href r \<noteq> h) (resources a) = []")
    case True
    with len [of "resources a"] assms put_ace_split [of _ device pre "a # post"] show ?thesis
      by (auto simp: oc_ace_free_resources_def free_res_loop_eq Let_def keeps_def balanced_def ids_ok_def)
  next
    case False
    with len [of "resources a"] assms put_ace_split [of _ device pre "a # post"] show ?thesis
      by (auto simp: oc_ace_free_resources_def free_res_loop_eq Let_def keeps_def balanced_def ids_ok_def)
  qed
qed

definition keeps_owner :: "nat \<Rightarrow> sec \<Rightarrow> sec \<Rightarrow> bool" where
  "keeps_owner device s t \<longleftrightarrow> keeps device s t \<and>
     acl_rowneruuid (aclist t device) = acl_rowneruuid (aclist s device)"

lemma keeps_owner_trans: "keeps_owner d s t \<Longrightarrow> keeps_owner d t u \<Longrightarrow> keeps_owner d s u"
  using keeps_trans by (auto simp: keeps_owner_def)

lemma post_otm_loop_keeps:
  "(here \<noteq> [] \<longrightarrow> (\<exists>pre. subs s device = pre @ here)) \<Longrightarrow> keeps_owner device s (post_otm_loop s device here)"
proof (induction s device here rule: post_otm_loop.induct)
  case (1 s device here)
  let ?h1 = "''/oic/sec/acl2''" and ?h2 = "''/oic/sec/cred''"
  let ?rest = "if here = [] then subs s device else tl here"
  obtain anon where anon: "oc_sec_acl_find_subject here ANON (- 1) 14 s device = anon" by blast
  obtain pre where "subs s device = pre @ ?rest"
  proof (cases here)
    case Nil
    then show ?thesis using that [of "[]"] by simp
  next
    case (Cons x xs)
    then obtain p where "subs s device = p @ x # xs" using "1.prems" by auto
    then show ?thesis using that [of "p @ [x]"] Cons by simp
  qed
  moreover obtain q where "?rest = q @ anon"
    using find_ace_split [of ?rest ANON "- 1" 14] anon by (auto simp only: oc_sec_acl_find_subject_def)
  ultimately obtain pre' where pre': "subs s device = pre' @ anon" using that [of "pre @ q"] by (simp only: append.assoc)
  show ?case
  proof (cases anon)
    case Nil
    with anon show ?thesis by (subst post_otm_loop.simps) (simp add: keeps_owner_def)
  next
    case (Cons a post)
    obtain s1 r1 where s1: "oc_ace_free_resources s device (a # post) ?h1 = (s1, r1)" by fastforce
    have k1: "keeps_owner device s s1" and r1: "r1 = [] \<or> (\<exists>b. r1 = b # post \<and> subs s1 device = pre' @ b # post)"
      using free_resources_keeps [of s device pre' a post ?h1] pre' Cons s1 by (auto simp: keeps_owner_def)
    show ?thesis
    proof (cases r1)
      case Nil
      with anon Cons s1 k1 show ?thesis by (subst post_otm_loop.simps) simp
    next
      case (Cons b post')
      with r1 have b: "r1 = b # post" "subs s1 device = pre' @ b # post" by auto
      obtain s2 r2 where s2: "oc_ace_free_resources s1 device (b # post) ?h2 = (s2, r2)" by fastforce
      have k2: "keeps_owner device s1 s2" and r2: "r2 = [] \<or> (\<exists>c. r2 = c # post \<and> subs s2 device = pre' @ c # post)"
        using free_resources_keeps [OF b(2), of ?h2] s2 by (auto simp: keeps_owner_def)
      have step: "post_otm_loop s device here = (if r2 \<noteq> [] then post_otm_loop s2 device r2 else s2)"
        using anon \<open>anon = a # post\<close> s1 b(1) s2 by (subst post_otm_loop.simps) simp
      have 1: "(s1, r1) = (if a # post \<noteq> [] then oc_ace_free_resources s device (a # post) ?h1 else (s, a # post))"
        and 2: "(s2, r2) = (if r1 \<noteq> [] then oc_ace_free_resources s1 device r1 ?h2 else (s1, r1))"
        using s1 s2 b(1) by simp_all
      have "keeps_owner device s2 (post_otm_loop s2 device r2)" if "r2 \<noteq> []"
        using "1.IH" [OF anon [unfolded \<open>anon = a # post\<close>, symmetric] refl 1 refl 2 that] r2 by blast
      with k1 k2 step keeps_owner_trans show ?thesis by metis
    qed
  qed
qed

lemma set_post_otm_keeps: "keeps_owner device s (oc_sec_set_post_otm_acl s device)"
  using post_otm_loop_keeps [of "[]"] by (simp add: oc_sec_set_post_otm_acl_def)

text \<open>The part of the state the invariant of the lists speaks about.\<close>

definition acl_part :: "sec \<Rightarrow> _" where
  "acl_part s = (num_devices s, aclist s, ace_free s, res_free s)"

lemma acl_inv_part: "acl_part t = acl_part s \<Longrightarrow> acl_inv A R t = acl_inv A R s"
  by (simp add: acl_part_def acl_inv_def ids_ok_def)

lemma regen_unique_ids [simp]:
  "acl_part (oc_core_regen_unique_ids s d) = acl_part s" "pstat (oc_core_regen_unique_ids s d) = pstat s"
  "e \<noteq> d \<Longrightarrow> doxm (oc_core_regen_unique_ids s d) e = doxm s e"
  "owned (doxm (oc_core_regen_unique_ids s d) d) = owned (doxm s d)"
  "devowneruuid (doxm (oc_core_regen_unique_ids s d) d) = devowneruuid (doxm s d)"
  "doxm_rowneruuid (doxm (oc_core_regen_unique_ids s d) d) = doxm_rowneruuid (doxm s d)"
  "devices (oc_core_regen_unique_ids s d) = devices s" "tls_peers (oc_core_regen_unique_ids s d) = tls_peers s"
  by (auto simp: oc_core_regen_unique_ids_def gen_uuid_def acl_part_def)

lemma set_doxm_simps [simp]:
  "acl_part (set_doxm s d x) = acl_part s" "pstat (set_doxm s d x) = pstat s" "doxm (set_doxm s d x) = (doxm s)(d := x)"
  by (simp_all add: set_doxm_def acl_part_def)

lemma acl_part_other [simp]:
  "acl_part (s\<lparr>device_di := x\<rparr>) = acl_part s" "acl_part (s\<lparr>pstat := p\<rparr>) = acl_part s"
  "acl_part (s\<lparr>set_post_otm_acl := b\<rparr>) = acl_part s" "acl_part (s\<lparr>tls_peers := ps\<rparr>) = acl_part s"
  "acl_part (s\<lparr>sp := q\<rparr>) = acl_part s" "acl_part (s\<lparr>devices := v\<rparr>) = acl_part s"
  by (simp_all add: acl_part_def)

text \<open>Posting to doxm: other devices keep their data; outside \<open>RFOTM\<close> only the resource owner can
  change, and in \<open>RFNOP\<close> not even that.\<close>

definition same_ownership :: "oc_sec_doxm \<Rightarrow> oc_sec_doxm \<Rightarrow> bool" where
  "same_ownership x y \<longleftrightarrow> owned x = owned y \<and> devowneruuid x = devowneruuid y \<and> deviceuuid x = deviceuuid y"

lemma decode_doxm_one_effect:
  assumes "decode_doxm_one r False s device = Some t" and "\<not> doxm_rejects r False st"
  shows "acl_part t = acl_part s \<and> pstat t = pstat s \<and> (\<forall>e. e \<noteq> device \<longrightarrow> doxm t e = doxm s e) \<and>
    (st \<noteq> OC_DOS_RFOTM \<longrightarrow> same_ownership (doxm t device) (doxm s device)) \<and>
    (st = OC_DOS_RFNOP \<longrightarrow> doxm t = doxm s)"
  using assms
  by (auto simp: decode_doxm_one_def doxm_rejects_def same_ownership_def bind_eq_Some_conv Let_def
      split: rep_value.splits if_splits)

lemma decode_doxm_loop_effect:
  "decode_doxm_loop rep False s device = Some t \<Longrightarrow> \<forall>r \<in> set rep. \<not> doxm_rejects r False st \<Longrightarrow>
   acl_part t = acl_part s \<and> pstat t = pstat s \<and> (\<forall>e. e \<noteq> device \<longrightarrow> doxm t e = doxm s e) \<and>
    (st \<noteq> OC_DOS_RFOTM \<longrightarrow> same_ownership (doxm t device) (doxm s device)) \<and>
    (st = OC_DOS_RFNOP \<longrightarrow> doxm t = doxm s)"
proof (induction rep arbitrary: s)
  case (Cons r rs)
  then obtain u where u: "decode_doxm_one r False s device = Some u" "decode_doxm_loop rs False u device = Some t"
    by (auto simp: bind_eq_Some_conv)
  have "\<not> doxm_rejects r False st" using Cons.prems(2) by simp
  from decode_doxm_one_effect [OF u(1) this] Cons.IH [OF u(2)] Cons.prems(2) show ?case
    by (simp add: same_ownership_def)
qed (simp add: same_ownership_def)

lemma post_doxm_effect:
  assumes "post_doxm payload s device = Some (st, t)"
  shows "acl_part t = acl_part s \<and> pstat t = pstat s \<and> (\<forall>e. e \<noteq> device \<longrightarrow> doxm t e = doxm s e) \<and>
    (dos_s (pstat s device) \<noteq> OC_DOS_RFOTM \<longrightarrow> same_ownership (doxm t device) (doxm s device)) \<and>
    (dos_s (pstat s device) = OC_DOS_RFNOP \<longrightarrow> doxm t = doxm s)"
proof -
  obtain b where b: "oc_sec_decode_doxm payload False s device = Some (b, t)"
    using assms by (auto simp: post_doxm_def bind_eq_Some_conv)
  show ?thesis
  proof (cases "list_ex (\<lambda>r. doxm_rejects r False (dos_s (pstat s device))) payload")
    case True
    with b show ?thesis by (simp add: oc_sec_decode_doxm_def same_ownership_def)
  next
    case False
    then have "decode_doxm_loop payload False s device = Some t"
      using b by (auto simp: oc_sec_decode_doxm_def bind_eq_Some_conv)
    moreover have "\<forall>r \<in> set payload. \<not> doxm_rejects r False (dos_s (pstat s device))"
      using False by (simp add: list_ex_iff)
    ultimately show ?thesis by (rule decode_doxm_loop_effect)
  qed
qed

text \<open>In normal operation a posted access control list changes nothing.\<close>

lemma decode_acl_loop_idle:
  "\<forall>r \<in> set rep. \<not> acl_rejects r False OC_DOS_RFNOP \<Longrightarrow> decode_acl_loop rep s device = Some s"
  by (induction rep) (auto simp: acl_rejects_def split: rep_value.splits)

lemma post_acl_rfnop:
  "dos_s (pstat s device) = OC_DOS_RFNOP \<Longrightarrow> post_acl payload s device = Some (st, t) \<Longrightarrow> t = s"
  using decode_acl_loop_idle [of payload s device]
  by (auto simp: post_acl_def oc_sec_decode_acl_def bind_eq_Some_conv list_ex_iff split: if_splits)

section \<open>Resetting a device\<close>

text \<open>The state of a device right after a reset.\<close>

definition factory_state :: "sec \<Rightarrow> nat \<Rightarrow> bool" where
  "factory_state s device \<longleftrightarrow>
     dos_s (pstat s device) = OC_DOS_RFOTM \<and> \<not> isop (pstat s device) \<and> \<not> owned (doxm s device) \<and>
     nil_uuid (devowneruuid (doxm s device)) \<and> nil_uuid (doxm_rowneruuid (doxm s device)) \<and>
     nil_uuid (pstat_rowneruuid (pstat s device)) \<and> nil_uuid (acl_rowneruuid (aclist s device)) \<and>
     nil_uuid (cred_rowneruuid (devices s device)) \<and>
     (\<forall>c \<in> set (creds (devices s device)).
        credusage c = OC_CREDUSAGE_MFG_TRUSTCA \<or> credusage c = OC_CREDUSAGE_MFG_CERT) \<and>
     (\<forall>p \<in> set (tls_peers s). roles_device p = device \<longrightarrow> roles p = [])"

lemma nil_uuid_nil_id [simp]: "nil_uuid nil_id"
  by (simp add: nil_uuid_def nil_id_def list_all_iff)

lemma clear_creds_loop_mfg:
  "c \<in> set (clear_creds_loop cs) \<Longrightarrow> credusage c = OC_CREDUSAGE_MFG_TRUSTCA \<or> credusage c = OC_CREDUSAGE_MFG_CERT"
  by (induction cs) (auto split: if_splits)

lemma acl_default_owner: "oc_sec_acl_default s device = Some t \<Longrightarrow> acl_rowneruuid (aclist t device) = nil_id"
  by (auto simp: oc_sec_acl_default_def Let_def bind_eq_Some_conv)

lemma cred_default_simps [simp]:
  "acl_part (oc_sec_cred_default s d) = acl_part s" "pstat (oc_sec_cred_default s d) = pstat s"
  "doxm (oc_sec_cred_default s d) = doxm s"
  "cred_rowneruuid (devices (oc_sec_cred_default s d) d) = nil_id"
  "creds (devices (oc_sec_cred_default s d) d) = clear_creds_loop (creds (devices s d))"
  by (simp_all add: oc_sec_cred_default_def oc_sec_clear_creds_def Let_def acl_part_def)

lemma doxm_default_simps [simp]:
  "acl_part (oc_sec_doxm_default s d) = acl_part s" "pstat (oc_sec_doxm_default s d) = pstat s"
  "\<not> owned (doxm (oc_sec_doxm_default s d) d)" "devowneruuid (doxm (oc_sec_doxm_default s d) d) = nil_id"
  "doxm_rowneruuid (doxm (oc_sec_doxm_default s d) d) = nil_id"
  "e \<noteq> d \<Longrightarrow> doxm (oc_sec_doxm_default s d) e = doxm s e"
  by (simp_all add: oc_sec_doxm_default_def)

lemma keeps_frameD:
  assumes "keeps d s t"
  shows "pstat t = pstat s" "doxm t = doxm s" "devices t = devices s" "tls_peers t = tls_peers s"
    "num_devices t = num_devices s" "e \<noteq> d \<Longrightarrow> aclist t e = aclist s e" "set_post_otm_acl t = set_post_otm_acl s"
  using assms by (auto simp: keeps_def balanced_def frame_def)

definition others :: "nat \<Rightarrow> sec \<Rightarrow> sec \<Rightarrow> bool" where
  "others d s t \<longleftrightarrow> num_devices t = num_devices s \<and>
     (\<forall>e. e \<noteq> d \<longrightarrow> pstat t e = pstat s e \<and> doxm t e = doxm s e \<and> aclist t e = aclist s e)"

lemma freed_roles: "\<forall>p \<in> set (map (free_roles d) ps). roles_device p = d \<longrightarrow> roles p = []"
proof -
  have "roles_device (free_roles d q) = d \<longrightarrow> roles (free_roles d q) = []" for q
    by (cases "roles_device q = d") (simp_all add: free_roles_def)
  then show ?thesis by (simp only: set_map ball_simps) blast
qed

lemma enter_rfotm_ok:
  assumes "\<not> owned (doxm s d)" and "nil_uuid (devowneruuid (doxm s d))" and "\<not> isop ps"
  defines "ps' \<equiv> ps\<lparr>dos_s := OC_DOS_RFOTM, cm := 2, tm := 0, dos_p := False\<rparr>"
  shows "enter_rfotm ps s d = (True, ps', s\<lparr>pstat := (pstat s)(d := ps')\<rparr>)"
  using assms by (cases ps) (simp add: enter_rfotm_def install_def Let_def)

lemma handle_reset:
  assumes "dos_s ps = OC_DOS_RESET" and "oc_pstat_handle_state ps s device = Some (ok, ps', t)"
    and "acl_inv A R s" and "device < num_devices s"
  shows "ok \<and> ps' = pstat t device \<and> \<not> dos_p (pstat t device) \<and> factory_state t device \<and> acl_inv A R t \<and> others device s t"
proof -
  let ?s1 = "oc_sec_cred_default (oc_sec_doxm_default s device) device"
  obtain s2 where s2: "oc_sec_acl_default ?s1 device = Some s2"
    and t: "enter_rfotm (ps\<lparr>isop := False, cm := 1, tm := 2, om := 3, sm := 4, pstat_rowneruuid := nil_id, dos_p := False\<rparr>)
      ((oc_sec_sp_default (oc_sec_free_roles_for_device s2 device) device)\<lparr>set_post_otm_acl := True\<rparr>) device = (ok, ps', t)"
    using assms(1,2) by (auto simp: oc_pstat_handle_state_def Let_def bind_eq_Some_conv)
  let ?s3 = "(oc_sec_sp_default (oc_sec_free_roles_for_device s2 device) device)\<lparr>set_post_otm_acl := True\<rparr>"
  have part1: "acl_part ?s1 = acl_part s" by simp
  have inv: "acl_inv A R s2"
    using keeps_acl_inv [OF keeps_acl_default [OF s2], of A R] acl_inv_part [OF part1] assms(3,4) part1
    by (simp add: acl_part_def)
  have part3: "acl_part ?s3 = acl_part s2"
    by (simp add: oc_sec_sp_default_def oc_sec_free_roles_for_device_def)
  note k = keeps_frameD [OF keeps_acl_default [OF s2]]
  have f3: "doxm ?s3 = doxm s2" "devices ?s3 = devices s2" "aclist ?s3 = aclist s2" "num_devices ?s3 = num_devices s2"
    "pstat ?s3 = pstat s2"
    "tls_peers ?s3 = map (free_roles device) (tls_peers s2)"
    by (simp_all add: oc_sec_sp_default_def oc_sec_free_roles_for_device_def)
  let ?ps = "ps\<lparr>isop := False, cm := 1, tm := 2, om := 3, sm := 4, pstat_rowneruuid := nil_id, dos_p := False\<rparr>"
  define ps2 where "ps2 = ?ps\<lparr>dos_s := OC_DOS_RFOTM, cm := 2, tm := 0, dos_p := False\<rparr>"
  have "enter_rfotm ?ps ?s3 device = (True, ps2, ?s3\<lparr>pstat := (pstat ?s3)(device := ps2)\<rparr>)"
    unfolding ps2_def by (rule enter_rfotm_ok) (use k f3 in simp_all)
  then have tt: "ok" "ps' = ps2" "t = ?s3\<lparr>pstat := (pstat ?s3)(device := ps2)\<rparr>"
    using t by simp_all
  have te: "pstat t = (pstat s)(device := ps2)" "doxm t = doxm (oc_sec_doxm_default s device)" "devices t = devices ?s1"
    "aclist t = aclist s2" "num_devices t = num_devices s2"
    "tls_peers t = map (free_roles device) (tls_peers s2)"
    unfolding tt(3) using f3 by (simp_all add: k)
  have "\<forall>c \<in> set (creds (devices ?s1 device)).
      credusage c = OC_CREDUSAGE_MFG_TRUSTCA \<or> credusage c = OC_CREDUSAGE_MFG_CERT"
    unfolding cred_default_simps(5) by (blast dest: clear_creds_loop_mfg)
  moreover have "\<forall>p \<in> set (map (free_roles device) (tls_peers s2)).
      roles_device p = device \<longrightarrow> roles p = []"
    by (rule freed_roles)
  moreover have "nil_uuid (acl_rowneruuid (aclist s2 device))" by (simp add: acl_default_owner [OF s2])
  ultimately have "factory_state t device"
    unfolding factory_state_def te by (simp only: fun_upd_same) (simp add: ps2_def)
  moreover have "acl_inv A R t"
    using inv acl_inv_part [OF part3] by (simp add: tt(3) acl_inv_part [OF acl_part_other(2)])
  moreover have "others device s t"
    using part1 by (simp add: others_def te k(5,6) acl_part_def)
  ultimately show ?thesis using tt(1,2) by (simp add: te(1) ps2_def)
qed

section \<open>The invariant of the state machine\<close>

text \<open>A device is operational exactly in \<open>RFNOP\<close>; outside \<open>RFOTM\<close> it is owned and has both
  identities; in \<open>RFNOP\<close> the resource owners are set.\<close>

definition dev_ok :: "sec \<Rightarrow> nat \<Rightarrow> bool" where
  "dev_ok s d \<longleftrightarrow>
     dos_s (pstat s d) \<in> {OC_DOS_RFOTM, OC_DOS_RFPRO, OC_DOS_RFNOP, OC_DOS_SRESET} \<and> \<not> dos_p (pstat s d) \<and>
     (oc_sec_is_operational s d \<longleftrightarrow> dos_s (pstat s d) = OC_DOS_RFNOP) \<and>
     (dos_s (pstat s d) \<noteq> OC_DOS_RFOTM \<longrightarrow>
        owned (doxm s d) \<and> \<not> nil_uuid (devowneruuid (doxm s d)) \<and> \<not> nil_uuid (deviceuuid (doxm s d))) \<and>
     (dos_s (pstat s d) = OC_DOS_RFNOP \<longrightarrow>
        \<not> nil_uuid (pstat_rowneruuid (pstat s d)) \<and> \<not> nil_uuid (doxm_rowneruuid (doxm s d)) \<and>
        \<not> nil_uuid (acl_rowneruuid (aclist s d)))"

definition sec_inv :: "nat \<Rightarrow> nat \<Rightarrow> sec \<Rightarrow> bool" where
  "sec_inv A R s \<longleftrightarrow> acl_inv A R s \<and> (\<forall>d < num_devices s. dev_ok s d)"

lemma dev_ok_cong:
  "pstat t d = pstat s d \<Longrightarrow> doxm t d = doxm s d \<Longrightarrow> aclist t d = aclist s d \<Longrightarrow> dev_ok t d = dev_ok s d"
  by (simp add: dev_ok_def oc_sec_is_operational_def)

lemma sec_invI:
  assumes "sec_inv A R s" and "acl_inv A R t" and "others d s t" and "dev_ok t d"
  shows "sec_inv A R t"
  unfolding sec_inv_def
proof (intro conjI allI impI)
  fix e assume "e < num_devices t"
  with assms(1,3,4) show "dev_ok t e"
    using dev_ok_cong [of t e s] by (cases "e = d") (auto simp: sec_inv_def others_def)
qed (use assms(2) in simp)

text \<open>A transition other than a reset installs its copy or changes nothing.\<close>

lemma handle_no_reset:
  assumes "dos_s ps \<noteq> OC_DOS_RESET" and "oc_pstat_handle_state ps s d = Some (ok, ps', t)"
  shows "if ok then t = s\<lparr>pstat := (pstat s)(d := ps')\<rparr> \<and> dos_s ps' = dos_s ps \<and> dev_ok t d \<and>
      (dos_s ps \<noteq> OC_DOS_RFOTM \<longrightarrow> \<not> not_provisioned ps s d)
    else t = s"
  using assms
  by (auto simp: oc_pstat_handle_state_def enter_rfotm_def install_def Let_def not_provisioned_def dev_ok_def
      oc_sec_is_operational_def split: if_splits)

text \<open>Without a new state the decoder changes neither the state nor the operational flag.\<close>

lemma decode_dos_post:
  "decode_dos ds False ps tr = Some (ps', tr') \<Longrightarrow>
   isop ps' = isop ps \<and> dos_p ps' = dos_p ps \<and> pstat_rowneruuid ps' = pstat_rowneruuid ps \<and>
   (\<not> tr' \<longrightarrow> dos_s ps' = dos_s ps \<and> \<not> tr)"
  by (induction ds arbitrary: ps tr) (fastforce split: rep_value.splits if_splits)+

lemma decode_pstat_post:
  "decode_pstat_loop rep False ps tr = Some (Some (ps', tr')) \<Longrightarrow>
   isop ps' = isop ps \<and> dos_p ps' = dos_p ps \<and>
   (\<not> tr' \<longrightarrow> \<not> tr \<and> dos_s ps' = dos_s ps \<and> (dos_s ps = OC_DOS_RFNOP \<longrightarrow> pstat_rowneruuid ps' = pstat_rowneruuid ps))"
proof (induction rep arbitrary: ps tr)
  case (Cons r rs)
  then obtain ps1 tr1 where 1: "decode_pstat_one r False ps tr = Some (Some (ps1, tr1))"
    and 2: "decode_pstat_loop rs False ps1 tr1 = Some (Some (ps', tr'))"
    by (auto simp: bind_eq_Some_conv split: option.splits)
  have "isop ps1 = isop ps \<and> dos_p ps1 = dos_p ps \<and>
      (\<not> tr1 \<longrightarrow> \<not> tr \<and> dos_s ps1 = dos_s ps \<and> (dos_s ps = OC_DOS_RFNOP \<longrightarrow> pstat_rowneruuid ps1 = pstat_rowneruuid ps))"
    using 1 decode_dos_post
    by (fastforce simp: decode_pstat_one_def bind_eq_Some_conv split: rep_value.splits if_splits)
  with Cons.IH [OF 2] show ?case by auto
qed auto

lemma post_pstat_cases:
  assumes "post_pstat payload s d = Some (st, t)"
  obtains (refused) "t = s" "st = OC_STATUS_BAD_REQUEST"
    | (data) ps where "decode_pstat_loop payload False (pstat s d) False = Some (Some (ps, False))"
        "t = s\<lparr>pstat := (pstat s)(d := ps)\<rparr>"
    | (transition) ps ok ps' u where "valid_transition s d (dos_s ps)" "isop ps = isop (pstat s d)"
        "oc_pstat_handle_state ps s d = Some (ok, ps', u)" "st = (if ok then OC_STATUS_CHANGED else OC_STATUS_BAD_REQUEST)"
        "t = (if ok \<and> dos_s ps' = OC_DOS_RFNOP \<and> set_post_otm_acl u
              then (oc_sec_set_post_otm_acl u d)\<lparr>set_post_otm_acl := False\<rparr> else u)"
proof -
  obtain ok where ok: "oc_sec_decode_pstat payload False s d = Some (ok, t)"
    "st = (if ok then OC_STATUS_CHANGED else OC_STATUS_BAD_REQUEST)"
    using assms by (auto simp: post_pstat_def bind_eq_Some_conv)
  then obtain res where res: "decode_pstat_loop payload False (pstat s d) False = Some res"
    by (auto simp: oc_sec_decode_pstat_def bind_eq_Some_conv)
  show thesis
  proof (cases res)
    case None
    with ok res refused show thesis by (simp add: oc_sec_decode_pstat_def)
  next
    case (Some x)
    obtain ps tr where x: "x = (ps, tr)" by fastforce
    consider "\<not> valid_transition s d (dos_s ps)" | "valid_transition s d (dos_s ps)" "tr" | "valid_transition s d (dos_s ps)" "\<not> tr"
      by blast
    then show thesis
    proof cases
      case 1
      with ok res Some x refused show thesis by (simp add: oc_sec_decode_pstat_def)
    next
      case 2
      then obtain b ps' u where "oc_pstat_handle_state ps s d = Some (b, ps', u)"
        using ok res Some x by (auto simp: oc_sec_decode_pstat_def bind_eq_Some_conv)
      with 2 ok res Some x transition decode_pstat_post show thesis
        by (fastforce simp: oc_sec_decode_pstat_def)
    next
      case 3
      with ok res Some x data show thesis by (simp add: oc_sec_decode_pstat_def)
    qed
  qed
qed

lemma post_otm_after_transition:
  assumes "dev_ok u d" and "acl_inv A R u" and "d < num_devices u"
  defines "t \<equiv> (oc_sec_set_post_otm_acl u d)\<lparr>set_post_otm_acl := False\<rparr>"
  shows "acl_inv A R t" and "dev_ok t d" and "others d u t"
proof -
  let ?v = "oc_sec_set_post_otm_acl u d"
  have k: "keeps d u ?v" "acl_rowneruuid (aclist ?v d) = acl_rowneruuid (aclist u d)"
    using set_post_otm_keeps [of d u] by (simp_all add: keeps_owner_def)
  note f = keeps_frameD [OF k(1)]
  show "acl_inv A R t"
    using keeps_acl_inv [OF k(1) assms(3,2)] by (simp add: t_def acl_inv_part [OF acl_part_other(3)])
  show "dev_ok t d"
    using assms(1) k(2) f by (simp add: t_def dev_ok_def oc_sec_is_operational_def)
  show "others d u t" using f by (simp add: t_def others_def)
qed

lemma post_pstat_inv:
  assumes "post_pstat payload s d = Some (st, t)" and "d < num_devices s" and "sec_inv A R s"
  shows "sec_inv A R t"
proof -
  have s: "acl_inv A R s" "dev_ok s d" using assms(2,3) by (auto simp: sec_inv_def)
  from assms(1) show ?thesis
  proof (cases rule: post_pstat_cases)
    case refused
    with assms(3) show ?thesis by simp
  next
    case (data ps)
    have "dev_ok t d"
      using s(2) decode_pstat_post [OF data(1)] by (auto simp: data(2) dev_ok_def oc_sec_is_operational_def)
    moreover have "others d s t" by (simp add: data(2) others_def)
    moreover have "acl_inv A R t" using s(1) by (simp add: data(2) acl_inv_part [OF acl_part_other(2)])
    ultimately show ?thesis using sec_invI [OF assms(3)] by blast
  next
    case (transition ps ok ps' u)
    have u: "acl_inv A R u" "dev_ok u d" "others d s u"
    proof -
      show "acl_inv A R u" "dev_ok u d" "others d s u"
      proof (atomize (full), cases "dos_s ps = OC_DOS_RESET")
        case True
        from handle_reset [OF True transition(3) s(1) assms(2)]
        show "acl_inv A R u \<and> dev_ok u d \<and> others d s u"
          by (simp add: dev_ok_def factory_state_def oc_sec_is_operational_def)
      next
        case False
        from handle_no_reset [OF False transition(3)] s
        show "acl_inv A R u \<and> dev_ok u d \<and> others d s u"
          by (auto simp: others_def acl_inv_part [OF acl_part_other(2)] split: if_splits)
      qed
    qed
    have n: "d < num_devices u" using u(3) assms(2) by (simp add: others_def)
    have "acl_inv A R t \<and> dev_ok t d \<and> others d s t"
      using u post_otm_after_transition [OF u(2,1) n] by (auto simp: transition(5) others_def)
    then show ?thesis using sec_invI [OF assms(3)] by blast
  qed
qed

lemma sec_inv_same_data:
  assumes "sec_inv A R s" and "acl_part t = acl_part s" and "pstat t = pstat s" and "doxm t = doxm s"
  shows "sec_inv A R t"
  using assms acl_inv_part [OF assms(2)] dev_ok_cong [of t _ s]
  by (auto simp: sec_inv_def acl_part_def)

lemma decode_sp_loop_effect:
  "acl_part (snd (decode_sp_loop rep s d)) = acl_part s \<and> pstat (snd (decode_sp_loop rep s d)) = pstat s \<and>
   doxm (snd (decode_sp_loop rep s d)) = doxm s"
proof (induction rep arbitrary: s)
  case (Cons r rs)
  have "acl_part (set_sp s d x) = acl_part s" "pstat (set_sp s d x) = pstat s" "doxm (set_sp s d x) = doxm s" for x
    by (simp_all add: set_sp_def)
  with Cons.IH show ?case by (auto split: rep_value.split)
qed simp

lemma check_acl_effect:
  "acl_part (snd (oc_sec_check_acl v s m r i ep)) = acl_part s \<and> pstat (snd (oc_sec_check_acl v s m r i ep)) = pstat s \<and>
   doxm (snd (oc_sec_check_acl v s m r i ep)) = doxm s"
  by (auto simp: oc_sec_check_acl_def peer_permissions_def put_peer_def Let_def split: prod.split option.split)

lemma post_doxm_inv:
  assumes "post_doxm payload s d = Some (st, t)" and "d < num_devices s" and "sec_inv A R s"
  shows "sec_inv A R t"
proof -
  note e = post_doxm_effect [OF assms(1)]
  have "acl_inv A R t" using e assms(3) acl_inv_part [of t s] by (simp add: sec_inv_def)
  moreover have "others d s t" using e by (simp add: others_def acl_part_def)
  moreover have "dev_ok t d"
    using e assms(2,3) by (auto simp: sec_inv_def dev_ok_def oc_sec_is_operational_def same_ownership_def acl_part_def)
  ultimately show ?thesis using sec_invI [OF assms(3)] by blast
qed

lemma acl_change_inv:
  assumes "keeps d s t" and "d < num_devices s" and "sec_inv A R s"
    and "dos_s (pstat s d) = OC_DOS_RFNOP \<Longrightarrow> t = s"
  shows "sec_inv A R t"
proof -
  note f = keeps_frameD [OF assms(1)]
  have "acl_inv A R t" using keeps_acl_inv [OF assms(1,2)] assms(3) by (simp add: sec_inv_def)
  moreover have "others d s t" using f by (simp add: others_def)
  moreover have "dev_ok t d"
    using f assms(2-4) by (cases "dos_s (pstat s d) = OC_DOS_RFNOP") (auto simp: sec_inv_def dev_ok_def oc_sec_is_operational_def)
  ultimately show ?thesis using sec_invI [OF assms(3)] by blast
qed

lemma sec_step_inv:
  assumes "sec_step s t" and "sec_inv A R s"
  shows "sec_inv A R t"
  using assms
proof (induction rule: sec_step.induct)
  case (pstat payload s device st t)
  then show ?case using post_pstat_inv by blast
next
  case (doxm payload s device st t)
  then show ?case using post_doxm_inv by blast
next
  case (acl payload s device st t)
  then have "ids_ok s device" by (auto simp: sec_inv_def acl_inv_def)
  then have "keeps device s t"
    using acl(1) keeps_decode_acl by (auto simp: post_acl_def bind_eq_Some_conv)
  then show ?case using acl_change_inv acl post_acl_rfnop by blast
next
  case (delete query s device st t)
  have "keeps device s t" "dos_s (pstat s device) = OC_DOS_RFNOP \<Longrightarrow> t = s"
    using delete(1) keeps_clear_acl [of device s] keeps_remove_ace
    by (auto simp: delete_acl_def Let_def split: option.splits prod.splits if_splits) (metis snd_conv)+
  then show ?case using acl_change_inv delete by blast
next
  case (sp payload s device st t)
  have "t = snd (oc_sec_decode_sp payload s device)" using sp(1) by (auto simp: post_sp_def split: prod.splits)
  then show ?case
    using sec_inv_same_data [OF sp(3)] decode_sp_loop_effect [of payload s device] sp(3)
    by (auto simp: oc_sec_decode_sp_def)
next
  case (check valid s meth resource iface_mask ep b t)
  then show ?case
    using sec_inv_same_data [OF check(2)] check_acl_effect [of valid s meth resource iface_mask ep] by simp
qed

section \<open>Properties\<close>


definition owned_sec :: sec where
  "owned_sec = demo_sec\<lparr>
     aclist := (\<lambda>_. \<lparr>subjects = [], acl_rowneruuid = replicate 16 1\<rparr>),
     pstat := (\<lambda>_. (pstat demo_sec 0)\<lparr>pstat_rowneruuid := replicate 16 1\<rparr>),
     doxm := (\<lambda>_. (doxm demo_sec 0)\<lparr>devowneruuid := replicate 16 1, deviceuuid := replicate 16 2, doxm_rowneruuid := replicate 16 1\<rparr>)\<rparr>"

lemma owned_sec_inv: "sec_inv 10 10 owned_sec"
  by (simp add: sec_inv_def acl_inv_def ids_ok_def dev_ok_def oc_sec_is_operational_def owned_sec_def demo_sec_def
      nil_uuid_def numeral_eq_Suc)


text \<open>C9: Ownership is given up only by a full reset: if a posted state takes a device from
  provisioning, normal operation or soft reset to \<open>RFOTM\<close>, then all owner ids are cleared, only
  manufacturer credentials are left and the roles asserted to the device are gone; other
  devices keep state, ownership and access control list.\<close>

theorem rfotm_only_by_reset:
  assumes "post_pstat payload s d = Some (st, t)" and "sec_inv A R s" and "d < num_devices s"
    and "dos_s (pstat s d) \<noteq> OC_DOS_RFOTM" and "dos_s (pstat t d) = OC_DOS_RFOTM"
  shows "st = OC_STATUS_CHANGED \<and> factory_state t d \<and> others d s t"
  using assms(1)
proof (cases rule: post_pstat_cases)
  case refused
  with assms(4,5) show ?thesis by simp
next
  case (data ps)
  with assms(4,5) decode_pstat_post [OF data(1)] show ?thesis by simp
next
  case (transition ps ok ps' u)
  have inv: "acl_inv A R s" using assms(2) by (simp add: sec_inv_def)
  have cur: "dos_s (pstat s d) \<in> {OC_DOS_RFPRO, OC_DOS_RFNOP, OC_DOS_SRESET}"
    using assms(2-4) by (auto simp: sec_inv_def dev_ok_def)
  show ?thesis
  proof (cases "dos_s ps = OC_DOS_RESET")
    case True
    from handle_reset [OF True transition(3) inv assms(3)] transition(4,5) show ?thesis
      by (simp add: factory_state_def)
  next
    case False
    have "dos_s ps \<noteq> OC_DOS_RFOTM" using transition(1) cur by (auto simp: valid_transition_def Let_def)
    moreover have "pstat t d = pstat u d"
      using transition(5) keeps_frameD(1) set_post_otm_keeps [of d u] by (auto simp: keeps_owner_def)
    ultimately show ?thesis
      using handle_no_reset [OF False transition(3)] assms(4,5) by (auto split: if_splits)
  qed
qed

text \<open>The default list is always built: its entries have fixed ids.\<close>

lemma update_res_total: "n \<noteq> - 1 \<Longrightarrow> \<exists>b t. oc_sec_ace_update_res s sub n perm h wc rt i device = Some (b, t)"
  by (auto simp: oc_sec_ace_update_res_def oc_sec_ace_get_res_def Let_def split: prod.split)

lemma default_loop_total: "\<exists>t. default_loop device is s = Some t"
proof (induction "is" arbitrary: s)
  case (Cons i xs)
  let ?r = "oc_core_get_resource_by_index s i device"
  let ?up = "\<lambda>n p s. oc_sec_ace_update_res s (SUBJECT_CONN OC_CONN_ANON_CLEAR) n p (Some (uri ?r)) OC_ACE_NO_WC
           (Some (rtypes ?r)) (rinterfaces ?r) device"
  obtain b u where u: "(if i < OCF_SEC_DOXM \<or> i > OCF_SEC_CRED then ?up 1 2 s else Some (True, s)) = Some (b, u)"
    by (cases "i < OCF_SEC_DOXM \<or> i > OCF_SEC_CRED") (simp_all, metis update_res_total one_neq_neg_one)
  obtain c v where v: "(if i \<ge> OCF_SEC_DOXM \<and> i < OCF_D then ?up 2 14 u else Some (True, u)) = Some (c, v)"
    by (cases "i \<ge> OCF_SEC_DOXM \<and> i < OCF_D") (simp_all, use update_res_total [of 2 u] in fastforce)
  from Cons.IH [of s] Cons.IH [of v] show ?case
    unfolding default_loop.simps Let_def u Option.bind.bind_lunit prod.case v by simp
qed simp

lemma acl_default_total: "\<exists>t. oc_sec_acl_default s device = Some t"
  using default_loop_total [of device "[0..<OC_NUM_CORE_RESOURCES_PER_DEVICE]" "oc_sec_clear_acl s device"]
  by (auto simp: oc_sec_acl_default_def)

lemma handle_reset_total: "dos_s ps = OC_DOS_RESET \<Longrightarrow> \<exists>x. oc_pstat_handle_state ps s d = Some x"
  using acl_default_total [of "oc_sec_cred_default (oc_sec_doxm_default s d) d" d]
  by (auto simp: oc_pstat_handle_state_def Let_def simp del: split_paired_Ex)

abbreviation (input) "RESET_REQUEST \<equiv> [Rep ''dos'' (REP_OBJECT [Rep ''s'' (REP_INT OC_DOS_RESET)])]"

lemma post_reset:
  assumes "sec_inv A R s" and "d < num_devices s"
  shows "\<exists>t. post_pstat RESET_REQUEST s d = Some (OC_STATUS_CHANGED, t) \<and> factory_state t d \<and> others d s t"
proof -
  let ?ps = "(pstat s d)\<lparr>dos_s := OC_DOS_RESET\<rparr>"
  have "dos_s ?ps = OC_DOS_RESET" by simp
  then obtain ok ps' u where u: "oc_pstat_handle_state ?ps s d = Some (ok, ps', u)"
    using handle_reset_total by (metis prod_cases3)
  have acl: "acl_inv A R s" using assms(1) by (simp add: sec_inv_def)
  from handle_reset [OF _ u acl assms(2)]
  have h: "ok" "ps' = pstat u d" "factory_state u d" "others d s u" by simp_all
  have "valid_transition s d OC_DOS_RESET" by (simp add: valid_transition_def Let_def)
  with u h show ?thesis
    by (simp add: post_pstat_def oc_sec_decode_pstat_def decode_pstat_one_def factory_state_def)
qed

text \<open>C27: A reset can always be made: from every reachable state the request to enter \<open>RESET\<close> is
  accepted and leaves the device in its factory state, ready for ownership transfer; other
  devices are not affected.\<close>

theorem reset_always_possible:
  assumes "sec_inv A R s0" and "sec_step\<^sup>*\<^sup>* s0 s" and "d < num_devices s"
  shows "\<exists>t. post_pstat RESET_REQUEST s d = Some (OC_STATUS_CHANGED, t) \<and> factory_state t d \<and> others d s t"
proof (rule post_reset [OF _ assms(3)])
  show "sec_inv A R s" using assms(2,1) by (induction rule: rtranclp_induct) (auto intro: sec_step_inv)
qed

theorem reset_always_possible_witness:
  "\<exists>t. post_pstat RESET_REQUEST owned_sec 0 = Some (OC_STATUS_CHANGED, t) \<and> factory_state t 0"
  using reset_always_possible [OF owned_sec_inv rtranclp.rtrancl_refl, of 0]
  by (auto simp: owned_sec_def demo_sec_def)

theorem rfotm_only_by_reset_witness:
  "\<exists>t. post_pstat RESET_REQUEST owned_sec 0 = Some (OC_STATUS_CHANGED, t) \<and> factory_state t 0 \<and> others 0 owned_sec t"
proof -
  have n: "0 < num_devices owned_sec" "dos_s (pstat owned_sec 0) \<noteq> OC_DOS_RFOTM"
    by (simp_all add: owned_sec_def demo_sec_def)
  obtain t where t: "post_pstat RESET_REQUEST owned_sec 0 = Some (OC_STATUS_CHANGED, t)" "factory_state t 0"
    using post_reset [OF owned_sec_inv n(1)] by blast
  then have "dos_s (pstat t 0) = OC_DOS_RFOTM" by (simp add: factory_state_def)
  from rfotm_only_by_reset [OF t(1) owned_sec_inv n this] t(1) show ?thesis by blast
qed

text \<open>C37: The reset of all devices resets only the first one: the state handed from device to
  device has become \<open>RFOTM\<close> after the first, and an owned second device keeps its owner and state.\<close>

theorem oc_sec_reset_first_only:
  assumes "sec_inv A R s" and "num_devices s = 2" and "dos_s (pstat s 1) \<noteq> OC_DOS_RFOTM"
  shows "\<exists>t. oc_sec_reset s = Some t \<and> factory_state t 0 \<and> owned (doxm t 1) \<and> pstat t 1 = pstat s 1"
proof -
  let ?ps = "\<lparr>dos_s = OC_DOS_RESET, dos_p = False, isop = False, cm = 0, tm = 0, om = 0, sm = 0, pstat_rowneruuid = nil_id\<rparr>"
  obtain ok ps' u where u: "oc_pstat_handle_state ?ps s 0 = Some (ok, ps', u)"
    using handle_reset_total [of ?ps s 0] by (metis prod_cases3 oc_sec_pstat.select_convs(1))
  have "acl_inv A R s" using assms(1) by (simp add: sec_inv_def)
  from handle_reset [OF _ u this] assms(2)
  have h: "ps' = pstat u 0" "factory_state u 0" "others 0 s u" by simp_all
  have own: "owned (doxm u 1)" "pstat u 1 = pstat s 1"
    using assms h(3) by (auto simp: sec_inv_def dev_ok_def others_def)
  have "oc_pstat_handle_state ps' u 1 = Some (False, ps'\<lparr>dos_p := True, dos_s := OC_DOS_RFOTM, cm := 2, tm := 0\<rparr>, u)"
    using h(1,2) own(1) by (simp add: oc_pstat_handle_state_def factory_state_def enter_rfotm_def install_def Let_def)
  with u h(2) own assms(2) show ?thesis by (simp add: oc_sec_reset_def upt_rec)
qed

definition two_owned :: sec where
  "two_owned = owned_sec\<lparr>num_devices := 2\<rparr>"

theorem oc_sec_reset_first_only_witness:
  "\<exists>t. oc_sec_reset two_owned = Some t \<and> factory_state t 0 \<and> owned (doxm t 1)"
proof -
  have "sec_inv 10 10 two_owned"
    using owned_sec_inv
    by (auto simp: two_owned_def sec_inv_def acl_inv_def ids_ok_def dev_ok_def oc_sec_is_operational_def owned_sec_def demo_sec_def)
  from oc_sec_reset_first_only [OF this] show ?thesis
    by (auto simp: two_owned_def owned_sec_def demo_sec_def)
qed

end
