(* ===== verification/Net_Types.thy ===== *)
theory Net_Types
  imports Coap_Parse Coap_Serialize OC_Etimer OC_Memb Sec_Acl
begin

text \<open>
  The state of the messaging layer: message buffers (\<open>src/port/oc_connectivity.h\<close>), transactions,
  observers, block-wise buffers, client and timed callbacks, each kept in a static pool and on
  a list. A pool is its typed view: the addresses of its blocks and a heap of live objects; an
  access to an object that is not live is \<open>None\<close>. A list is the sequence of its elements, which
  is what the operations of \<open>OC_List\<close> implement. Timers are those of \<open>OC_Etimer\<close>; the timer
  inside an object has the object's address. Strings are kept by value.
\<close>

section \<open>Typed pools\<close>

text \<open>\<open>oc_memb_alloc\<close> and \<open>oc_memb_free\<close> for objects: the lowest free block, cleared to \<open>z\<close>.\<close>

definition alloc_obj :: "addr list \<Rightarrow> (addr \<Rightarrow> 'a option) \<Rightarrow> 'a \<Rightarrow> (addr \<Rightarrow> 'a option) \<times> addr option" where
  "alloc_obj B h z = (case find (\<lambda>a. h a = None) B of None \<Rightarrow> (h, None) | Some a \<Rightarrow> (h(a \<mapsto> z), Some a))"

definition free_obj :: "addr list \<Rightarrow> (addr \<Rightarrow> 'a option) \<Rightarrow> addr \<Rightarrow> (addr \<Rightarrow> 'a option)" where
  "free_obj B h a = (if a \<in> set B then h(a := None) else h)"

definition obj_room :: "addr list \<Rightarrow> (addr \<Rightarrow> 'a option) \<Rightarrow> nat" where
  "obj_room B h = length (filter (\<lambda>a. h a = None) B)"

lemma alloc_obj_cases:
  obtains "alloc_obj B h z = (h, None)" and "\<forall>a \<in> set B. h a \<noteq> None"
  | a where "alloc_obj B h z = (h(a \<mapsto> z), Some a)" and "a \<in> set B" and "h a = None"
proof (cases "find (\<lambda>a. h a = None) B")
  case None
  with that(1) show thesis by (auto simp: alloc_obj_def find_None_iff)
next
  case (Some a)
  with that(2) show thesis by (auto simp: alloc_obj_def find_Some_iff)
qed

lemma obj_room_upd:
  assumes "distinct B" and "a \<in> set B" and "h a = None"
  shows "obj_room B (h(a \<mapsto> z)) = obj_room B h - 1"
proof -
  have "filter (\<lambda>x. (h(a \<mapsto> z)) x = None) B = remove1 a (filter (\<lambda>x. h x = None) B)"
    using assms(1) by (auto simp: distinct_remove1_removeAll removeAll_filter_not_eq intro!: filter_cong)
  with assms show ?thesis by (simp add: obj_room_def length_remove1)
qed

text \<open>The typed view keeps the contract of the allocator.\<close>

definition pool_ok :: "addr list \<times> (addr \<Rightarrow> 'a option) \<Rightarrow> bool" where
  "pool_ok p \<longleftrightarrow> distinct (fst p) \<and> dom (snd p) \<subseteq> set (fst p)"

interpretation tp: block_pool pool_ok "\<lambda>p. dom (snd p)" "\<lambda>p. obj_room (fst p) (snd p)"
  "\<lambda>p. case alloc_obj (fst p) (snd p) z of (h, a) \<Rightarrow> ((fst p, h), a)"
  "\<lambda>p a. (fst p, free_obj (fst p) (snd p) a)" for z
proof unfold_locales
  fix p :: "addr list \<times> (addr \<Rightarrow> 'a option)"
  obtain B h where p: "p = (B, h)" by (cases p)
  assume "pool_ok p"
  then have ok: "distinct B" "dom h \<subseteq> set B" by (simp_all add: p pool_ok_def)
  show "(case alloc_obj (fst p) (snd p) z of (h, a) \<Rightarrow> ((fst p, h), a)) = (p, None)"
    if "obj_room (fst p) (snd p) = 0"
    by (rule alloc_obj_cases [of B h z]) (use that in \<open>auto simp: p obj_room_def filter_empty_conv\<close>)
  show "\<exists>p' a. (case alloc_obj (fst p) (snd p) z of (h, a) \<Rightarrow> ((fst p, h), a)) = (p', Some a) \<and>
      a \<notin> dom (snd p) \<and> pool_ok p' \<and> dom (snd p') = insert a (dom (snd p)) \<and>
      obj_room (fst p') (snd p') = obj_room (fst p) (snd p) - 1" if "0 < obj_room (fst p) (snd p)"
  proof (rule alloc_obj_cases [of B h z], goal_cases)
    case 1
    then have "obj_room B h = 0" by (simp add: obj_room_def)
    with that show ?thesis by (simp add: p)
  next
    case (2 a)
    have "obj_room B (h(a \<mapsto> z)) = obj_room B h - 1"
      using obj_room_upd [OF ok(1) 2(2), of h z] 2(3) by simp
    with 2 ok show ?thesis by (auto simp: p pool_ok_def)
  qed
  show "pool_ok (fst p, free_obj (fst p) (snd p) a) \<and>
      dom (snd (fst p, free_obj (fst p) (snd p) a)) = dom (snd p) - {a} \<and>
      obj_room (fst (fst p, free_obj (fst p) (snd p) a)) (snd (fst p, free_obj (fst p) (snd p) a)) =
        obj_room (fst p) (snd p) + 1" if "a \<in> dom (snd p)" for a
  proof -
    have a: "a \<in> set B" "h a \<noteq> None" using that ok(2) by (auto simp: p)
    have "obj_room B h = obj_room B (h(a := None)) - 1"
      using obj_room_upd [OF ok(1) a(1), of "h(a := None)" "the (h a)"] a(2) by (simp add: fun_upd_idem)
    moreover have "0 < obj_room B (h(a := None))"
      using a(1) by (auto simp: obj_room_def length_greater_0_conv filter_empty_conv)
    ultimately show ?thesis using a ok by (auto simp: p pool_ok_def free_obj_def)
  qed
qed

text \<open>Objects that are live exactly while they are on their list, without duplicates.\<close>

definition registry :: "addr list \<Rightarrow> (addr \<Rightarrow> 'a option) \<Rightarrow> addr list \<Rightarrow> bool" where
  "registry B h xs \<longleftrightarrow> distinct xs \<and> set xs = dom h \<and> dom h \<subseteq> set B"

lemma registry_add:
  "registry B h xs \<Longrightarrow> a \<in> set B \<Longrightarrow> h a = None \<Longrightarrow> registry B (h(a \<mapsto> v)) (xs @ [a])"
  by (auto simp: registry_def)

lemma registry_remove: "registry B h xs \<Longrightarrow> registry B (free_obj B h a) (remove1 a xs)"
  by (auto simp: registry_def free_obj_def dom_def)

lemma registry_upd: "registry B h xs \<Longrightarrow> a \<in> dom h \<Longrightarrow> registry B (h(a \<mapsto> v)) xs"
  by (auto simp: registry_def)

lemma registry_live: "registry B h xs \<Longrightarrow> a \<in> set xs \<longleftrightarrow> h a \<noteq> None"
  by (auto simp: registry_def)

lemma registry_free: "registry B h xs \<Longrightarrow> free_obj B h a = h(a := None)"
  by (auto simp: registry_def free_obj_def fun_eq_iff domIff)

section \<open>Objects\<close>

abbreviation (input) "DISCOVERY \<equiv> 0x01 :: u32"

definition OC_MAX_APP_DATA_SIZE :: nat where
  "OC_MAX_APP_DATA_SIZE = 2048"

definition OC_PDU_SIZE :: nat where
  "OC_PDU_SIZE = OC_MAX_APP_DATA_SIZE + COAP_MAX_HEADER_SIZE"

datatype msg_pool = Incoming | Outgoing

record oc_message =
  mpool :: msg_pool
  mendpoint :: oc_endpoint
  mlength :: nat
  mref :: u8
  mdata :: bytes
  encrypted :: u8

record coap_transaction =
  tmid :: u16
  retrans_counter :: u8
  tmessage :: addr

record coap_observer =
  oresource :: addr
  ourl :: bytes
  oendpoint :: oc_endpoint
  otoken_len :: u8
  otoken :: bytes
  last_mid :: u16
  oblock2_size :: u16
  obs_counter :: int

datatype oc_blockwise_role = OC_BLOCKWISE_CLIENT | OC_BLOCKWISE_SERVER

text \<open>\<open>betag\<close> and \<open>bobserve_seq\<close> are the members that only a response buffer has.\<close>

record oc_blockwise_state =
  bhref :: bytes
  bendpoint :: oc_endpoint
  bmethod :: u8
  brole :: oc_blockwise_role
  payload_size :: u32
  next_block_offset :: u32
  bref :: u8
  buffer :: bytes
  buri_query :: bytes
  bmid :: u16
  bclient_cb :: addr
  betag :: bytes
  bobserve_seq :: int

datatype oc_qos = HIGH_QOS | LOW_QOS

text \<open>\<open>cendpoint\<close> is the address of the endpoint; the handler and its argument are opaque.\<close>

record oc_client_cb =
  curi :: bytes
  cquery :: bytes
  cendpoint :: addr
  chandler :: nat
  cuser_data :: addr
  ctimestamp :: clock
  cqos :: oc_qos
  cdiscovery :: bool
  cmulticast :: bool
  cstop_multicast_receive :: bool
  cmethod :: u8
  cmid :: u16
  ctoken :: bytes
  ctoken_len :: u8
  cobserve_seq :: int

text \<open>The functions a timed callback may call; \<open>App\<close> stands for those of the application.\<close>

datatype oc_trigger = Oc_blockwise_request_timeout | Oc_blockwise_response_timeout
  | Oc_ri_remove_client_cb | Oc_observe_notification_delayed | Periodic_observe_handler
  | Oc_remove_ping_handler | Oc_tls_inactive | App nat

record oc_event_callback =
  callback :: oc_trigger
  cb_data :: addr

text \<open>The part of a TLS session the messaging layer deals with: the messages that wait for it. The
  contexts of mbedTLS are outside the model.\<close>

record tls_session =
  sendpoint :: oc_endpoint
  recv_q :: "addr list"
  send_q :: "addr list"

text \<open>The members the request layer uses; a handler is an opaque number with its user data, \<open>None\<close> the
  null pointer.\<close>

record net_resource = oc_resource +
  num_observers :: u8
  default_interface :: u32
  observe_period_seconds :: u16
  get_handler :: "nat option"
  put_handler :: "nat option"
  post_handler :: "nat option"
  delete_handler :: "nat option"

record coap_separate =
  ptype :: coap_message_type
  ptoken_len :: u8
  ptoken :: bytes
  pblock2_size :: u16
  pobserve :: int
  pendpoint :: oc_endpoint
  pmethod :: u8
  puri :: bytes

datatype tcp_csm_state = CSM_NONE | CSM_SENT | CSM_DONE | CSM_ERROR

text \<open>\<open>resources\<close> are the resources by address: those of the application are on the list
  \<open>app_resources\<close>, collections on \<open>collections\<close> with the resources of their links (null for none). A separate response is known by the address of the
  application's handle, which has a list of waiting requests and is active or not. \<open>history\<close>,
  \<open>history_dev\<close> and \<open>history_idx\<close> are the static variables of the CoAP engine.\<close>

text \<open>What the network port is asked to do: \<open>oc_send_buffer\<close>, \<open>oc_send_discovery_request\<close> and
  \<open>oc_connectivity_end_session\<close>.\<close>

datatype net_output = Send oc_endpoint bytes | Discovery oc_endpoint bytes | End_Session oc_endpoint

record net =
  et :: etimers
  clk :: clock
  random :: "nat \<Rightarrow> u32"
  drawn :: nat
  msgs :: "addr \<Rightarrow> oc_message option"
  trans :: "addr \<Rightarrow> coap_transaction option"
  transactions_list :: "addr list"
  transaction_handler_process :: addr
  observers :: "addr \<Rightarrow> coap_observer option"
  observers_list :: "addr list"
  observe_counter :: int
  resources :: "addr \<Rightarrow> net_resource"
  requests :: "addr \<Rightarrow> oc_blockwise_state option"
  oc_blockwise_requests :: "addr list"
  responses :: "addr \<Rightarrow> oc_blockwise_state option"
  oc_blockwise_responses :: "addr list"
  event_cbs :: "addr \<Rightarrow> oc_event_callback option"
  timed_callbacks :: "addr list"
  observe_callbacks :: "addr list"
  ccbs :: "addr \<Rightarrow> oc_client_cb option"
  client_cbs :: "addr list"
  sessions :: "addr \<Rightarrow> tls_session option"
  session_list :: "addr list"
  current_mid :: u16
  tcp_sessions :: "(oc_endpoint \<times> tcp_csm_state) list"
  outputs :: "net_output list"
  app_resources :: "addr list"
  collections :: "addr list"
  col_links :: "addr \<Rightarrow> addr list"
  separates :: "addr \<Rightarrow> coap_separate option"
  sep_requests :: "addr \<Rightarrow> addr list"
  sep_active :: "addr \<Rightarrow> u8"
  history :: "u16 list"
  history_dev :: "u8 list"
  history_idx :: u8
  security :: sec

section \<open>Static objects\<close>

text \<open>The pools and processes are static: their addresses are fixed and do not overlap. The sizes
  are those of \<open>src/port/linux/oc_config.h\<close>.\<close>

definition oc_incoming_buffers :: "addr list" where "oc_incoming_buffers = [100, 101, 102]"
definition oc_outgoing_buffers :: "addr list" where "oc_outgoing_buffers = [200, 201, 202]"
definition transactions_memb :: "addr list" where "transactions_memb = [300, 301, 302]"
definition observers_memb :: "addr list" where "observers_memb = [400..<407]"
definition oc_blockwise_request_states_s :: "addr list" where "oc_blockwise_request_states_s = [500, 501, 502]"
definition oc_blockwise_response_states_s :: "addr list" where "oc_blockwise_response_states_s = [600, 601, 602]"
definition event_callbacks_s :: "addr list" where "event_callbacks_s = [700..<735]"
definition client_cbs_s :: "addr list" where "client_cbs_s = [800, 801, 802, 803]"
definition tls_peers_s :: "addr list" where "tls_peers_s = [900]"
definition separate_requests :: "addr list" where "separate_requests = [950, 951, 952]"

abbreviation (input) "timed_callback_events \<equiv> 2 :: addr"
abbreviation (input) "coap_engine \<equiv> 3 :: addr"
abbreviation (input) "message_buffer_handler \<equiv> 4 :: addr"
abbreviation (input) "oc_tls_handler \<equiv> 5 :: addr"

lemmas pool_defs = oc_incoming_buffers_def oc_outgoing_buffers_def transactions_memb_def observers_memb_def
  oc_blockwise_request_states_s_def oc_blockwise_response_states_s_def event_callbacks_s_def client_cbs_s_def tls_peers_s_def
  separate_requests_def

datatype oc_event = INBOUND_NETWORK_EVENT | UDP_TO_TLS_EVENT | INIT_TLS_CONN_EVENT | RI_TO_TLS_EVENT
  | INBOUND_RI_EVENT | OUTBOUND_NETWORK_EVENT | TLS_READ_DECRYPTED_DATA | TLS_WRITE_APPLICATION_DATA
  | INTERFACE_DOWN | INTERFACE_UP

text \<open>The numbers that \<open>allocate_events\<close> draws right after \<open>oc_process_init\<close>.\<close>

primrec oc_events :: "oc_event \<Rightarrow> u8" where
  "oc_events INBOUND_NETWORK_EVENT = 0x8a"
| "oc_events UDP_TO_TLS_EVENT = 0x8b"
| "oc_events INIT_TLS_CONN_EVENT = 0x8c"
| "oc_events RI_TO_TLS_EVENT = 0x8d"
| "oc_events INBOUND_RI_EVENT = 0x8e"
| "oc_events OUTBOUND_NETWORK_EVENT = 0x8f"
| "oc_events TLS_READ_DECRYPTED_DATA = 0x90"
| "oc_events TLS_WRITE_APPLICATION_DATA = 0x91"
| "oc_events INTERFACE_DOWN = 0x92"
| "oc_events INTERFACE_UP = 0x93"

section \<open>Services of the port\<close>

definition net_random :: "net \<Rightarrow> net \<times> u32" where
  "net_random s = (s\<lparr>drawn := drawn s + 1\<rparr>, random s (drawn s))"

definition net_mid :: "net \<Rightarrow> net \<times> u16" where
  "net_mid s = (let (m, r) = coap_get_mid (current_mid s) in (s\<lparr>current_mid := m\<rparr>, r))"

definition post_event :: "net \<Rightarrow> addr \<Rightarrow> oc_event \<Rightarrow> addr \<Rightarrow> net \<times> nat" where
  "post_event s p e d =
     (case oc_process_post (ring (sch (et s))) \<lparr>ev = oc_events e, data = d, receiver = p\<rparr> of (r, ret) \<Rightarrow>
        (s\<lparr>et := (et s)\<lparr>sch := (sch (et s))\<lparr>ring := r\<rparr>\<rparr>\<rparr>, ret))"

text \<open>\<open>OC_PROCESS_CONTEXT_BEGIN\<close> and \<open>OC_PROCESS_CONTEXT_END\<close> around an operation on timers.\<close>

definition in_context :: "addr \<Rightarrow> (etimers \<Rightarrow> etimers option) \<Rightarrow> net \<Rightarrow> net option" where
  "in_context p f s = do {
     let tmp_current = oc_process_current (sch (et s));
     let e = (et s)\<lparr>sch := (sch (et s))\<lparr>oc_process_current := p\<rparr>\<rparr>;
     e \<leftarrow> f e;
     Some (s\<lparr>et := e\<lparr>sch := (sch e)\<lparr>oc_process_current := tmp_current\<rparr>\<rparr>\<rparr>)
   }"

section \<open>The initial state\<close>

definition init_etimers :: etimers where
  "init_etimers = \<lparr>timerlist = NULL_PTR, tnext = (\<lambda>_. NULL_PTR), timer = (\<lambda>_. \<lparr>start = 0, interval = 0\<rparr>),
     tproc = (\<lambda>_. NULL_PTR), next_expiration = 0,
     sch = \<lparr>ring = init_ring 10, lastevent = 0x94, oc_process_list = 5, oc_process_current = 3,
       pnext = (\<lambda>p. p - 1), state = (\<lambda>_. 1), has_thread = (\<lambda>_. True), needspoll = (\<lambda>_. False),
       pt = (\<lambda>_. 0), poll_requested = False, world = ()\<rparr>\<rparr>"

text \<open>The state after initialisation, with one resource \<open>/a\<close>.\<close>

definition init_net :: net where
  "init_net = \<lparr>et = init_etimers, clk = 1000, random = (\<lambda>i. of_nat i), drawn = 0, msgs = (\<lambda>_. None), trans = (\<lambda>_. None),
     transactions_list = [], transaction_handler_process = coap_engine, observers = (\<lambda>_. None), observers_list = [],
     observe_counter = 3,
     resources = (\<lambda>_. \<lparr>uri = ''/a'', rtypes = [''t''], rinterfaces = 0, properties = 0, rdevice = 0, core_index = None,
       num_observers = 0, default_interface = 0x02, observe_period_seconds = 0, get_handler = None, put_handler = None,
       post_handler = None, delete_handler = None\<rparr>),
     requests = (\<lambda>_. None), oc_blockwise_requests = [], responses = (\<lambda>_. None), oc_blockwise_responses = [],
     event_cbs = (\<lambda>_. None), timed_callbacks = [], observe_callbacks = [], ccbs = (\<lambda>_. None), client_cbs = [],
     sessions = (\<lambda>_. None), session_list = [], current_mid = 0, tcp_sessions = [], outputs = [],
     app_resources = [], collections = [], col_links = (\<lambda>_. []), separates = (\<lambda>_. None), sep_requests = (\<lambda>_. []), sep_active = (\<lambda>_. 0),
     history = replicate 250 0, history_dev = replicate 250 0, history_idx = 0, security = demo_sec\<rparr>"

end
