(* ===== verification/Net_Buffer.thy ===== *)
theory Net_Buffer
  imports Net_Types
begin

text \<open>
  Message buffers: \<open>src/api/oc_buffer.c\<close>. A buffer is allocated with one reference, passed between
  processes in events and freed with its last reference. The message buffer process hands
  incoming messages to TLS or CoAP and outgoing ones to TLS or the network. Whether a TLS
  session is established is a parameter \<open>connected\<close>. \<open>None\<close> is an access to a buffer that is
  not live.
\<close>

section \<open>Operations\<close>

definition zero_endpoint :: oc_endpoint where
  "zero_endpoint = \<lparr>edevice = 0, flags = 0, address = replicate 16 0, port = 0, interface_index = 0, ep_version = 0\<rparr>"

definition zero_message :: oc_message where
  "zero_message = \<lparr>mpool = Incoming, mendpoint = zero_endpoint, mlength = 0, mref = 0,
     mdata = replicate OC_PDU_SIZE 0, encrypted = 0\<rparr>"

primrec pool_blocks :: "msg_pool \<Rightarrow> addr list" where
  "pool_blocks Incoming = oc_incoming_buffers"
| "pool_blocks Outgoing = oc_outgoing_buffers"

definition allocate_message :: "net \<Rightarrow> msg_pool \<Rightarrow> net \<times> addr option" where
  "allocate_message s pool =
     (case alloc_obj (pool_blocks pool) (msgs s) zero_message of
        (h, None) \<Rightarrow> (s, None)
      | (h, Some a) \<Rightarrow>
          (s\<lparr>msgs := h(a \<mapsto> zero_message\<lparr>mpool := pool, mlength := 0, mref := 1,
               mendpoint := zero_endpoint\<lparr>interface_index := - 1\<rparr>, encrypted := 0\<rparr>)\<rparr>, Some a))"

definition oc_allocate_message_from_pool :: "net \<Rightarrow> msg_pool option \<Rightarrow> net \<times> addr option" where
  "oc_allocate_message_from_pool s pool =
     (case pool of Some p \<Rightarrow> allocate_message s p | None \<Rightarrow> (s, None))"

definition oc_allocate_message :: "net \<Rightarrow> net \<times> addr option" where
  "oc_allocate_message s = allocate_message s Incoming"

definition oc_internal_allocate_outgoing_message :: "net \<Rightarrow> net \<times> addr option" where
  "oc_internal_allocate_outgoing_message s = allocate_message s Outgoing"

definition set_msg :: "net \<Rightarrow> addr \<Rightarrow> oc_message \<Rightarrow> net" where
  "set_msg s a m = s\<lparr>msgs := (msgs s)(a \<mapsto> m)\<rparr>"

definition oc_message_add_ref :: "net \<Rightarrow> addr \<Rightarrow> net option" where
  "oc_message_add_ref s a =
     (if a \<noteq> NULL_PTR then do { m \<leftarrow> msgs s a; Some (set_msg s a (m\<lparr>mref := mref m + 1\<rparr>)) } else Some s)"

definition oc_message_unref :: "net \<Rightarrow> addr \<Rightarrow> net option" where
  "oc_message_unref s a =
     (if a \<noteq> NULL_PTR then do {
        m \<leftarrow> msgs s a;
        let m = m\<lparr>mref := mref m - 1\<rparr>;
        let s = set_msg s a m;
        if mref m \<le> 0 then Some (s\<lparr>msgs := free_obj (pool_blocks (mpool m)) (msgs s) a\<rparr>) else Some s
      }
      else Some s)"

definition oc_recv_message :: "net \<Rightarrow> addr \<Rightarrow> net option" where
  "oc_recv_message s a =
     (case post_event s message_buffer_handler INBOUND_NETWORK_EVENT a of (s, ret) \<Rightarrow>
        if ret = OC_PROCESS_ERR_FULL then oc_message_unref s a else Some s)"

definition oc_send_message :: "net \<Rightarrow> addr \<Rightarrow> net option" where
  "oc_send_message s a =
     (case post_event s message_buffer_handler OUTBOUND_NETWORK_EVENT a of (s, ret) \<Rightarrow>
        if ret = OC_PROCESS_ERR_FULL
        then do { m \<leftarrow> msgs s a; Some (set_msg s a (m\<lparr>mref := mref m - 1\<rparr>)) } else Some s)"

definition send_output :: "net \<Rightarrow> net_output \<Rightarrow> net" where
  "send_output s out = s\<lparr>outputs := outputs s @ [out]\<rparr>"

text \<open>One pass of the loop of \<open>message_buffer_handler\<close>.\<close>

definition message_buffer_event :: "(oc_endpoint \<Rightarrow> bool) \<Rightarrow> net \<Rightarrow> u8 \<Rightarrow> addr \<Rightarrow> net option" where
  "message_buffer_event connected s e d =
     (if e = oc_events INBOUND_NETWORK_EVENT then do {
        m \<leftarrow> msgs s d;
        if encrypted m = 1 then Some (fst (post_event s oc_tls_handler UDP_TO_TLS_EVENT d))
        else Some (fst (post_event s coap_engine INBOUND_RI_EVENT d))
      }
      else if e = oc_events OUTBOUND_NETWORK_EVENT then do {
        m \<leftarrow> msgs s d;
        if flags (mendpoint m) AND DISCOVERY \<noteq> 0 then
          oc_message_unref (send_output s (Discovery (mendpoint m) (take (mlength m) (mdata m)))) d
        else if flags (mendpoint m) AND SECURED \<noteq> 0 then
          if \<not> connected (mendpoint m) then Some (fst (post_event s oc_tls_handler INIT_TLS_CONN_EVENT d))
          else Some (fst (post_event s oc_tls_handler RI_TO_TLS_EVENT d))
        else oc_message_unref (send_output s (Send (mendpoint m) (take (mlength m) (mdata m)))) d
      }
      else Some s)"

section \<open>Reference counting\<close>

text \<open>
  The references to a buffer: events in the queue that carry it, transactions that own it, and
  references held elsewhere (a local variable, a TLS queue), given by \<open>ext\<close>. The counter
  of a live buffer is their number; nothing refers to a free block.
\<close>

abbreviation "evq s \<equiv> queue (ring (sch (et s)))"
abbreviation "evring s \<equiv> ring (sch (et s))"

definition is_msg_event :: "event_data \<Rightarrow> bool" where
  "is_msg_event e \<longleftrightarrow> ev e \<in> {0x8a, 0x8b, 0x8c, 0x8d, 0x8e, 0x8f}"

definition queued :: "event_data list \<Rightarrow> addr \<Rightarrow> nat" where
  "queued q a = length (filter (\<lambda>e. is_msg_event e \<and> data e = a) q)"

definition held :: "(addr \<Rightarrow> coap_transaction option) \<Rightarrow> addr list \<Rightarrow> addr \<Rightarrow> nat" where
  "held h ts a = length (filter (\<lambda>t. map_option tmessage (h t) = Some a) ts)"

definition refs :: "net \<Rightarrow> addr \<Rightarrow> nat" where
  "refs s a = queued (evq s) a + held (trans s) (transactions_list s) a"

definition msg_counts :: "net \<Rightarrow> (addr \<Rightarrow> nat) \<Rightarrow> addr \<Rightarrow> bool" where
  "msg_counts s ext a \<longleftrightarrow>
     (case msgs s a of
        Some m \<Rightarrow> unat (mref m) = ext a + refs s a \<and> a \<in> set (pool_blocks (mpool m)) \<and> length (mdata m) = OC_PDU_SIZE
      | None \<Rightarrow> ext a + refs s a = 0)"

definition refs_ok :: "net \<Rightarrow> (addr \<Rightarrow> nat) \<Rightarrow> bool" where
  "refs_ok s ext \<longleftrightarrow> ring_ok (evring s) \<and> (\<forall>a. msg_counts s ext a)"

lemma unat_u8_inc: "unat (x :: u8) < 255 \<Longrightarrow> unat (x + 1) = unat x + 1"
  by (simp add: unat_word_ariths)

lemma unat_u8_dec: "0 < unat (x :: u8) \<Longrightarrow> unat (x - 1) = unat x - 1"
  by (simp add: unat_sub word_le_nat_alt)

lemma pool_blocks_nonnull: "a \<in> set (pool_blocks p) \<Longrightarrow> a \<noteq> NULL_PTR"
  by (cases p) (auto simp: pool_defs)

lemma refs_ok_live:
  assumes "refs_ok s ext" and "0 < ext a"
  obtains m where "msgs s a = Some m" and "unat (mref m) = ext a + refs s a"
    and "a \<in> set (pool_blocks (mpool m))" and "a \<noteq> NULL_PTR" and "length (mdata m) = OC_PDU_SIZE"
proof (cases "msgs s a")
  case None
  with assms show thesis by (auto simp: refs_ok_def msg_counts_def dest!: spec [of _ a])
next
  case (Some m)
  with assms(1) have "unat (mref m) = ext a + refs s a" "a \<in> set (pool_blocks (mpool m))" "length (mdata m) = OC_PDU_SIZE"
    by (auto simp: refs_ok_def msg_counts_def dest!: spec [of _ a])
  with that Some show thesis by (simp add: pool_blocks_nonnull)
qed

lemma refs_same: "et s' = et s \<Longrightarrow> trans s' = trans s \<Longrightarrow> transactions_list s' = transactions_list s \<Longrightarrow> refs s' a = refs s a"
  by (simp add: refs_def)

lemma set_msg_simps [simp]:
  "msgs (set_msg s a m) = (msgs s)(a \<mapsto> m)" "et (set_msg s a m) = et s" "trans (set_msg s a m) = trans s"
  "transactions_list (set_msg s a m) = transactions_list s"
  by (simp_all add: set_msg_def)

text \<open>Changing one buffer and one external count.\<close>

lemma refs_ok_upd:
  assumes "refs_ok s ext" and "et s' = et s" and "trans s' = trans s" and "transactions_list s' = transactions_list s"
    and "msgs s' = (msgs s)(a := v)" and "msg_counts s' (ext(a := n)) a"
  shows "refs_ok s' (ext(a := n))"
proof -
  have "msg_counts s' (ext(a := n)) b" if "b \<noteq> a" for b
  proof -
    have "msg_counts s ext b" using assms(1) by (simp add: refs_ok_def)
    with that show ?thesis by (simp add: msg_counts_def assms(5) refs_same [OF assms(2-4)] split: option.splits)
  qed
  with assms(6) have "\<forall>b. msg_counts s' (ext(a := n)) b" by metis
  with assms(1,2) show ?thesis by (simp add: refs_ok_def)
qed

lemma allocate_message_refs:
  assumes "refs_ok s ext" and "allocate_message s pool = (s', Some a)"
  shows "refs_ok s' (ext(a := 1))" and "msgs s a = None" and "ext a = 0" and "msgs s' = (msgs s)(a := msgs s' a)"
    and "s' = s\<lparr>msgs := msgs s'\<rparr>" and "a \<in> set (pool_blocks pool)"
    and "msgs s' a = Some (zero_message\<lparr>mpool := pool, mlength := 0, mref := 1,
      mendpoint := zero_endpoint\<lparr>interface_index := - 1\<rparr>, encrypted := 0\<rparr>)"
proof -
  have a: "a \<in> set (pool_blocks pool)" "msgs s a = None"
    and s': "s' = s\<lparr>msgs := (msgs s)(a \<mapsto> zero_message\<lparr>mpool := pool, mlength := 0, mref := 1,
      mendpoint := zero_endpoint\<lparr>interface_index := - 1\<rparr>, encrypted := 0\<rparr>)\<rparr>"
    using assms(2) by (auto simp: allocate_message_def intro: alloc_obj_cases [of "pool_blocks pool" "msgs s" zero_message])
  have "ext a + refs s a = 0" using assms(1) a(2) by (auto simp: refs_ok_def msg_counts_def dest!: spec [of _ a])
  moreover have "refs s' a = refs s a" by (rule refs_same) (simp_all add: s')
  ultimately have "msg_counts s' (ext(a := 1)) a" using a by (simp add: msg_counts_def s' zero_message_def)
  then show "refs_ok s' (ext(a := 1))" by (rule refs_ok_upd [OF assms(1), rotated 4]) (simp_all add: s')
  show "msgs s a = None" "ext a = 0" "a \<in> set (pool_blocks pool)" using a \<open>ext a + refs s a = 0\<close> by auto
  show "msgs s' = (msgs s)(a := msgs s' a)" "s' = s\<lparr>msgs := msgs s'\<rparr>"
    "msgs s' a = Some (zero_message\<lparr>mpool := pool, mlength := 0, mref := 1,
      mendpoint := zero_endpoint\<lparr>interface_index := - 1\<rparr>, encrypted := 0\<rparr>)" by (simp_all add: s')
qed

lemma add_ref_refs:
  assumes "refs_ok s ext" and "msgs s a = Some m" and "ext a + refs s a < 255"
  shows "\<exists>s'. oc_message_add_ref s a = Some s' \<and> refs_ok s' (ext(a := ext a + 1)) \<and> s' = s\<lparr>msgs := msgs s'\<rparr> \<and>
     msgs s' = (msgs s)(a \<mapsto> m\<lparr>mref := mref m + 1\<rparr>)"
proof -
  have m: "unat (mref m) = ext a + refs s a" "a \<in> set (pool_blocks (mpool m))" "length (mdata m) = OC_PDU_SIZE"
    using assms(1,2) by (auto simp: refs_ok_def msg_counts_def dest!: spec [of _ a])
  let ?s = "set_msg s a (m\<lparr>mref := mref m + 1\<rparr>)"
  have "unat (mref m + 1) = unat (mref m) + 1" using assms(3) m(1) by (intro unat_u8_inc) simp
  then have "msg_counts ?s (ext(a := ext a + 1)) a"
    using m by (simp add: msg_counts_def refs_same [of ?s s])
  then have "refs_ok ?s (ext(a := ext a + 1))" by (rule refs_ok_upd [OF assms(1), rotated 4]) simp_all
  with assms(2) pool_blocks_nonnull [OF m(2)] show ?thesis by (auto simp: oc_message_add_ref_def set_msg_def)
qed

text \<open>A holder gives up its reference: the buffer is freed exactly with the last one.\<close>

lemma unref_refs:
  assumes "refs_ok s ext" and "0 < ext a"
  shows "\<exists>s'. oc_message_unref s a = Some s' \<and> refs_ok s' (ext(a := ext a - 1)) \<and> s' = s\<lparr>msgs := msgs s'\<rparr> \<and>
     (\<forall>b. b \<noteq> a \<longrightarrow> msgs s' b = msgs s b) \<and> (msgs s' a = None \<longleftrightarrow> ext a - 1 + refs s a = 0) \<and>
     (\<forall>m'. msgs s' a = Some m' \<longrightarrow> (\<exists>m. msgs s a = Some m \<and> m' = m\<lparr>mref := mref m - 1\<rparr>))"
proof (rule refs_ok_live [OF assms])
  fix m
  assume m: "msgs s a = Some m" "unat (mref m) = ext a + refs s a" "a \<in> set (pool_blocks (mpool m))" "a \<noteq> NULL_PTR"
    "length (mdata m) = OC_PDU_SIZE"
  let ?m = "m\<lparr>mref := mref m - 1\<rparr>"
  have dec: "unat (mref m - 1) = ext a - 1 + refs s a"
    using unat_u8_dec [of "mref m"] m(2) assms(2) by simp
  show ?thesis
  proof (cases "ext a - 1 + refs s a = 0")
    case True
    let ?s = "s\<lparr>msgs := (msgs s)(a := None)\<rparr>"
    have "mref m - 1 = 0" using dec True unsigned_eq_0_iff [of "mref m - 1"] by metis
    then have ret: "oc_message_unref s a = Some ?s"
      using m by (simp add: oc_message_unref_def set_msg_def free_obj_def)
    have "msg_counts ?s (ext(a := ext a - 1)) a"
      using True by (simp add: msg_counts_def refs_same [of ?s s])
    then have "refs_ok ?s (ext(a := ext a - 1))" by (rule refs_ok_upd [OF assms(1), rotated 4]) simp_all
    with ret True show ?thesis by simp
  next
    case False
    let ?s = "set_msg s a ?m"
    have "mref m - 1 \<noteq> 0" using dec False by (metis unsigned_0)
    then have ret: "oc_message_unref s a = Some ?s" using m by (simp add: oc_message_unref_def)
    have "msg_counts ?s (ext(a := ext a - 1)) a"
      using m dec by (simp add: msg_counts_def refs_same [of ?s s])
    then have "refs_ok ?s (ext(a := ext a - 1))" by (rule refs_ok_upd [OF assms(1), rotated 4]) simp_all
    with ret False m(1) show ?thesis by (simp add: set_msg_def)
  qed
qed

text \<open>Posting an event that carries a buffer.\<close>

lemma queued_snoc: "queued (q @ [e]) a = queued q a + (if is_msg_event e \<and> data e = a then 1 else 0)"
  by (simp add: queued_def)

definition posts :: "net \<Rightarrow> event_data \<Rightarrow> net \<Rightarrow> bool" where
  "posts s e s' \<longleftrightarrow> s' = s\<lparr>et := (et s)\<lparr>sch := (sch (et s))\<lparr>ring := put_event (evring s) e\<rparr>\<rparr>\<rparr>"

definition ring_full :: "net \<Rightarrow> bool" where
  "ring_full s \<longleftrightarrow> nevents (evring s) = numevents (evring s)"

lemma post_event_full: "ring_full s \<Longrightarrow> post_event s p e d = (s, OC_PROCESS_ERR_FULL)"
  by (simp add: post_event_def ring_full_def oc_process_post_def)

lemma post_event_room:
  "\<not> ring_full s \<Longrightarrow>
   \<exists>s'. post_event s p e d = (s', OC_PROCESS_ERR_OK) \<and> posts s \<lparr>ev = oc_events e, data = d, receiver = p\<rparr> s'"
  by (simp add: post_event_def ring_full_def oc_process_post_def posts_def)

lemma posts_queue:
  assumes "posts s e s'" and "ring_ok (evring s)" and "\<not> ring_full s"
  shows "evq s' = evq s @ [e]" and "ring_ok (evring s')" and "msgs s' = msgs s" and "trans s' = trans s"
    and "transactions_list s' = transactions_list s"
proof -
  have room: "nevents (evring s) < numevents (evring s)"
    using assms(2,3) by (auto simp: ring_ok_def ring_full_def)
  show "evq s' = evq s @ [e]" "ring_ok (evring s')"
    using put_event_queue [OF assms(2) room, of e] assms(1) by (simp_all add: posts_def)
  show "msgs s' = msgs s" "trans s' = trans s" "transactions_list s' = transactions_list s"
    using assms(1) by (simp_all add: posts_def)
qed

lemma posts_refs:
  assumes "posts s e s'" and ok: "refs_ok s ext" and "\<not> ring_full s" and "is_msg_event e" and "data e = a"
    and "0 < ext a"
  shows "refs_ok s' (ext(a := ext a - 1))"
proof -
  have "ring_ok (evring s)" using ok by (simp add: refs_ok_def)
  note q = posts_queue [OF assms(1) this assms(3)]
  have refs: "refs s' b = refs s b + (if b = a then 1 else 0)" for b
    using assms(4,5) by (auto simp: refs_def q queued_snoc)
  have "msg_counts s' (ext(a := ext a - 1)) b" for b
  proof -
    have "msg_counts s ext b" using ok by (simp add: refs_ok_def)
    with assms(6) show ?thesis by (auto simp: msg_counts_def q refs split: option.splits)
  qed
  with q(2) show ?thesis by (simp add: refs_ok_def)
qed

text \<open>Sending hands the sender's reference to the event; when the queue is full it is dropped.\<close>

lemma send_message_refs:
  assumes ok: "refs_ok s ext" and "0 < ext a"
  shows "\<exists>s'. oc_send_message s a = Some s' \<and> refs_ok s' (ext(a := ext a - 1)) \<and>
     trans s' = trans s \<and> transactions_list s' = transactions_list s \<and>
     (if ring_full s then (\<exists>m. msgs s a = Some m \<and> msgs s' = (msgs s)(a \<mapsto> m\<lparr>mref := mref m - 1\<rparr>) \<and> et s' = et s)
      else msgs s' = msgs s \<and> evq s' = evq s @ [\<lparr>ev = 0x8f, data = a, receiver = message_buffer_handler\<rparr>])"
proof (rule refs_ok_live [OF assms])
  fix m
  assume m: "msgs s a = Some m" "unat (mref m) = ext a + refs s a" "a \<in> set (pool_blocks (mpool m))" "a \<noteq> NULL_PTR"
    "length (mdata m) = OC_PDU_SIZE"
  show ?thesis
  proof (cases "ring_full s")
    case True
    let ?s = "set_msg s a (m\<lparr>mref := mref m - 1\<rparr>)"
    have "unat (mref m - 1) = ext a - 1 + refs s a"
      using unat_u8_dec [of "mref m"] m(2) assms(2) by simp
    then have "msg_counts ?s (ext(a := ext a - 1)) a"
      using m by (simp add: msg_counts_def refs_same [of ?s s])
    then have "refs_ok ?s (ext(a := ext a - 1))" by (rule refs_ok_upd [OF ok, rotated 4]) simp_all
    with True m(1) show ?thesis by (auto simp: oc_send_message_def post_event_full)
  next
    case False
    then obtain s' where s': "post_event s message_buffer_handler OUTBOUND_NETWORK_EVENT a = (s', OC_PROCESS_ERR_OK)"
      "posts s \<lparr>ev = 0x8f, data = a, receiver = message_buffer_handler\<rparr> s'"
      using post_event_room [OF False, of message_buffer_handler OUTBOUND_NETWORK_EVENT a] by auto
    have "refs_ok s' (ext(a := ext a - 1))"
      by (rule posts_refs [OF s'(2) ok False]) (simp_all add: is_msg_event_def assms(2))
    with s'(1) posts_queue [OF s'(2) _ False] ok False show ?thesis
      by (auto simp: oc_send_message_def refs_ok_def)
  qed
qed

text \<open>Taking an event off the queue: its reference passes to the receiver.\<close>

lemma next_event_refs:
  assumes ok: "refs_ok s ext" and "next_event (evring s) = Some (e, r)"
  defines "s' \<equiv> s\<lparr>et := (et s)\<lparr>sch := (sch (et s))\<lparr>ring := r\<rparr>\<rparr>\<rparr>"
  shows "refs_ok s' (if is_msg_event e then ext(data e := ext (data e) + 1) else ext)"
proof -
  have "ring_ok (evring s)" using ok by (simp add: refs_ok_def)
  with assms(2) have q: "evq s = e # queue r" "ring_ok r"
    using sq.deq_law [of "evring s"] by (auto split: list.splits)
  have refs: "refs s b = refs s' b + (if is_msg_event e \<and> data e = b then 1 else 0)" for b
    by (simp add: refs_def q s'_def queued_def)
  have msgs: "msgs s' = msgs s" by (simp add: s'_def)
  have "msg_counts s' (if is_msg_event e then ext(data e := ext (data e) + 1) else ext) b" for b
  proof -
    have "msg_counts s ext b" using ok by (simp add: refs_ok_def)
    then show ?thesis
      by (cases "is_msg_event e \<and> data e = b") (auto simp: msg_counts_def refs msgs split: option.splits)
  qed
  with q(2) show ?thesis by (simp add: refs_ok_def s'_def)
qed

lemma send_output_refs [simp]:
  "refs_ok (send_output s out) ext = refs_ok s ext" "msgs (send_output s out) = msgs s" "et (send_output s out) = et s"
  "refs (send_output s out) a = refs s a" "trans (send_output s out) = trans s"
  "transactions_list (send_output s out) = transactions_list s" "outputs (send_output s out) = outputs s @ [out]"
proof -
  have refs: "refs (send_output s out) a = refs s a" for a by (simp add: send_output_def refs_def)
  have "msg_counts (send_output s out) ext a = msg_counts s ext a" for a
    by (simp add: msg_counts_def refs send_output_def [THEN arg_cong, of msgs] split: option.split)
  then show "refs_ok (send_output s out) ext = refs_ok s ext" by (simp add: refs_ok_def send_output_def)
  show "refs (send_output s out) a = refs s a" by (rule refs)
qed (simp_all add: send_output_def)

text \<open>Where the message buffer process forwards a message to another process.\<close>

definition forwards :: "oc_message \<Rightarrow> u8 \<Rightarrow> bool" where
  "forwards m e \<longleftrightarrow> e = oc_events INBOUND_NETWORK_EVENT \<or>
     (e = oc_events OUTBOUND_NETWORK_EVENT \<and> flags (mendpoint m) AND DISCOVERY = 0 \<and> flags (mendpoint m) AND SECURED \<noteq> 0)"

lemma forward_step:
  assumes ok: "refs_ok s ext" and "0 < ext d" and "is_msg_event \<lparr>ev = oc_events e, data = d, receiver = p\<rparr>"
  shows "if ring_full s then fst (post_event s p e d) = s
     else refs_ok (fst (post_event s p e d)) (ext(d := ext d - 1)) \<and>
       evq (fst (post_event s p e d)) = evq s @ [\<lparr>ev = oc_events e, data = d, receiver = p\<rparr>] \<and>
       msgs (fst (post_event s p e d)) = msgs s"
proof (cases "ring_full s")
  case False
  obtain s' where s': "post_event s p e d = (s', OC_PROCESS_ERR_OK)"
    "posts s \<lparr>ev = oc_events e, data = d, receiver = p\<rparr> s'"
    using post_event_room [OF False] by blast
  have "refs_ok s' (ext(d := ext d - 1))"
    by (rule posts_refs [OF s'(2) ok False assms(3) _ assms(2)]) simp
  with s'(1) posts_queue [OF s'(2) _ False] ok False show ?thesis by (simp add: refs_ok_def)
qed (simp add: post_event_full)

lemma message_buffer_event_refs:
  assumes ok: "refs_ok s ext" and ext: "0 < ext d"
    and e: "e = oc_events INBOUND_NETWORK_EVENT \<or> e = oc_events OUTBOUND_NETWORK_EVENT" and m: "msgs s d = Some m"
  shows "\<exists>s'. message_buffer_event connected s e d = Some s' \<and>
     (if forwards m e \<and> ring_full s then s' = s else refs_ok s' (ext(d := ext d - 1)))"
proof -
  have post: "if ring_full s then fst (post_event s p e' d) = s
      else refs_ok (fst (post_event s p e' d)) (ext(d := ext d - 1))"
    if "oc_events e' \<in> {0x8a, 0x8b, 0x8c, 0x8d, 0x8e, 0x8f}" for p e'
  proof -
    have "is_msg_event \<lparr>ev = oc_events e', data = d, receiver = p\<rparr>" using that by (simp add: is_msg_event_def)
    from forward_step [OF ok ext this] show ?thesis by (simp split: if_splits)
  qed
  have out: "\<exists>s'. oc_message_unref (send_output s x) d = Some s' \<and> refs_ok s' (ext(d := ext d - 1))" for x
    using unref_refs [of "send_output s x" ext d] ok ext by auto
  show ?thesis
  proof (cases "e = oc_events INBOUND_NETWORK_EVENT")
    case True
    with m post [of UDP_TO_TLS_EVENT oc_tls_handler] post [of INBOUND_RI_EVENT coap_engine] show ?thesis
      by (simp add: message_buffer_event_def forwards_def split: if_splits)
  next
    case False
    with e m post [of INIT_TLS_CONN_EVENT oc_tls_handler] post [of RI_TO_TLS_EVENT oc_tls_handler] out show ?thesis
      by (auto simp: message_buffer_event_def forwards_def split: if_splits)
  qed
qed

section \<open>Properties\<close>


lemma init_net_refs: "refs_ok init_net (\<lambda>_. 0)"
  by (simp add: refs_ok_def msg_counts_def init_net_def init_etimers_def ring_ok_def init_ring_def refs_def queued_def
      queue_def held_def)


end
