(* ===== verification/Net_Timed.thy ===== *)
theory Net_Timed
  imports Net_Buffer
begin

text \<open>
  Timed callbacks of the resource layer (\<open>src/api/oc_ri.c\<close>): a callback with its argument and
  timer is allocated, put on a list and started in the context of the process
  \<open>timed_callback_events\<close>, and removed by argument and function.
\<close>

section \<open>Searching a list of objects\<close>

text \<open>A loop along a list that ends at the first element that satisfies \<open>P\<close>: \<open>None\<close> is an access
  to a dead object, \<open>Some None\<close> the end of the list.\<close>

primrec find_on :: "(addr \<Rightarrow> 'a option) \<Rightarrow> ('a \<Rightarrow> bool) \<Rightarrow> addr list \<Rightarrow> addr option option" where
  "find_on h P [] = Some None"
| "find_on h P (a # as) = do { x \<leftarrow> h a; if P x then Some (Some a) else find_on h P as }"

lemma find_on_live: "\<forall>a \<in> set xs. h a \<noteq> None \<Longrightarrow> find_on h P xs = Some (find (\<lambda>a. P (the (h a))) xs)"
  by (induction xs) auto

lemma find_on_registry: "registry B h xs \<Longrightarrow> find_on h P xs = Some (find (\<lambda>a. P (the (h a))) xs)"
  by (rule find_on_live) (simp add: registry_live)

section \<open>Operations\<close>

definition zero_callback :: oc_event_callback where
  "zero_callback = \<lparr>callback = App 0, cb_data = NULL_PTR\<rparr>"

text \<open>Clearing the memory of a block clears the timer in it.\<close>

definition zero_timer :: "etimers \<Rightarrow> addr \<Rightarrow> etimers" where
  "zero_timer e a = e\<lparr>tnext := (tnext e)(a := NULL_PTR), timer := (timer e)(a := \<lparr>start = 0, interval = 0\<rparr>),
     tproc := (tproc e)(a := NULL_PTR)\<rparr>"

definition oc_ri_add_timed_event_callback_ticks :: "net \<Rightarrow> addr \<Rightarrow> oc_trigger \<Rightarrow> clock \<Rightarrow> net option" where
  "oc_ri_add_timed_event_callback_ticks s d f ticks =
     (case alloc_obj event_callbacks_s (event_cbs s) zero_callback of
        (h, None) \<Rightarrow> Some s
      | (h, Some a) \<Rightarrow> do {
          let s = s\<lparr>event_cbs := h(a \<mapsto> \<lparr>callback = f, cb_data = d\<rparr>), et := zero_timer (et s) a\<rparr>;
          s \<leftarrow> in_context timed_callback_events (\<lambda>e. oc_etimer_set (clk s) e a ticks) s;
          Some (s\<lparr>timed_callbacks := timed_callbacks s @ [a]\<rparr>)
        })"

definition OC_CLOCK_SECOND :: clock where
  "OC_CLOCK_SECOND = 1000000"

definition oc_ri_add_timed_event_callback_seconds :: "net \<Rightarrow> addr \<Rightarrow> oc_trigger \<Rightarrow> clock \<Rightarrow> net option" where
  "oc_ri_add_timed_event_callback_seconds s d f seconds =
     oc_ri_add_timed_event_callback_ticks s d f (seconds * OC_CLOCK_SECOND)"

definition oc_ri_remove_timed_event_callback :: "net \<Rightarrow> addr \<Rightarrow> oc_trigger \<Rightarrow> net option" where
  "oc_ri_remove_timed_event_callback s d f = do {
     r \<leftarrow> find_on (event_cbs s) (\<lambda>c. cb_data c = d \<and> callback c = f) (timed_callbacks s);
     case r of
       None \<Rightarrow> Some s
     | Some a \<Rightarrow> do {
         s \<leftarrow> in_context timed_callback_events (\<lambda>e. oc_etimer_stop (clk s) e a) s;
         let s = s\<lparr>timed_callbacks := remove1 a (timed_callbacks s)\<rparr>;
         Some (s\<lparr>event_cbs := free_obj event_callbacks_s (event_cbs s) a\<rparr>)
       }
   }"

section \<open>Timers of the layer\<close>

text \<open>Running timers that lie in a pool of objects belong to live objects.\<close>

definition net_timers :: "net \<Rightarrow> addr list \<Rightarrow> bool" where
  "net_timers s ts \<longleftrightarrow> etimers_ok (et s) ts \<and>
     (\<forall>a \<in> set ts. (a \<in> set transactions_memb \<longrightarrow> trans s a \<noteq> None) \<and>
        (a \<in> set event_callbacks_s \<longrightarrow> event_cbs s a \<noteq> None))"

lemma update_time_sch: "update_time now s = Some s' \<Longrightarrow> sch s' = sch s"
  by (auto simp: update_time_def Let_def bind_eq_Some_conv split: if_splits)

lemma add_timer_sch: "add_timer now s a = Some s' \<Longrightarrow> sch s' = oc_process_poll (sch s) oc_etimer_process"
  by (auto simp: add_timer_def Let_def bind_eq_Some_conv oc_etimer_request_poll_def dest!: update_time_sch split: if_splits)

lemma oc_etimer_stop_sch: "oc_etimer_stop now s a = Some s' \<Longrightarrow> sch s' = sch s"
  by (auto simp: oc_etimer_stop_def Let_def bind_eq_Some_conv dest!: update_time_sch split: if_splits)

text \<open>What a timer operation leaves alone in the scheduler.\<close>

definition same_sched :: "etimers \<Rightarrow> etimers \<Rightarrow> bool" where
  "same_sched e e' \<longleftrightarrow> ring (sch e') = ring (sch e) \<and> oc_process_current (sch e') = oc_process_current (sch e)"

lemma etimers_ok_sch [simp]: "etimers_ok (e\<lparr>sch := x\<rparr>) ts = etimers_ok e ts"
  by (simp add: etimers_ok_def timers_def)

lemma etimers_ok_set_timer [simp]: "etimers_ok (set_timer e a t) ts = etimers_ok e ts"
  by (simp add: etimers_ok_def timers_def set_timer_def)

text \<open>Setting or restarting a timer in the context of a process.\<close>

lemma in_context_arm:
  assumes "etimers_ok (et s) ts" and "a \<noteq> NULL_PTR" and "p \<noteq> NULL_PTR"
  shows "\<exists>e'. in_context p (\<lambda>e. add_timer now (set_timer e a t) a) s = Some (s\<lparr>et := e'\<rparr>) \<and>
     etimers_ok e' (if a \<in> set ts then ts else a # ts) \<and> timer e' = (timer (et s))(a := t) \<and>
     tproc e' = (tproc (et s))(a := p) \<and> same_sched (et s) e'"
proof -
  let ?e = "set_timer ((et s)\<lparr>sch := (sch (et s))\<lparr>oc_process_current := p\<rparr>\<rparr>) a t"
  have "etimers_ok ?e ts" using assms(1) by simp
  moreover have "oc_process_current (sch ?e) \<noteq> NULL_PTR" using assms(3) by (simp add: set_timer_def)
  ultimately obtain e' where e': "add_timer now ?e a = Some e'" "etimers_ok e' (if a \<in> set ts then ts else a # ts)"
    "tproc e' = (tproc ?e)(a := oc_process_current (sch ?e))" "timer e' = timer ?e"
    using add_timer_ok [of ?e ts a now] assms(2) by metis
  with add_timer_sch [OF e'(1)] show ?thesis
    by (auto simp: in_context_def Let_def same_sched_def set_timer_def oc_process_poll_def)
qed

lemma in_context_set:
  assumes "etimers_ok (et s) ts" and "a \<noteq> NULL_PTR" and "p \<noteq> NULL_PTR"
  shows "\<exists>e'. in_context p (\<lambda>e. oc_etimer_set now e a iv) s = Some (s\<lparr>et := e'\<rparr>) \<and>
     etimers_ok e' (if a \<in> set ts then ts else a # ts) \<and>
     timer e' = (timer (et s))(a := \<lparr>start = now, interval = iv\<rparr>) \<and>
     tproc e' = (tproc (et s))(a := p) \<and> same_sched (et s) e'"
proof -
  have "oc_etimer_set now e a iv = add_timer now (set_timer e a \<lparr>start = now, interval = iv\<rparr>) a" for e
    by (cases "timer e a") (simp add: oc_etimer_set_def oc_timer_set_def)
  with in_context_arm [OF assms] show ?thesis by simp
qed

lemma in_context_stop:
  assumes "etimers_ok (et s) ts" and "a \<noteq> NULL_PTR"
  shows "\<exists>e'. in_context p (\<lambda>e. oc_etimer_stop now e a) s = Some (s\<lparr>et := e'\<rparr>) \<and>
     etimers_ok e' (remove1 a ts) \<and> timer e' = timer (et s) \<and> tproc e' = (tproc (et s))(a := NULL_PTR) \<and>
     same_sched (et s) e'"
proof -
  let ?e = "(et s)\<lparr>sch := (sch (et s))\<lparr>oc_process_current := p\<rparr>\<rparr>"
  have "etimers_ok ?e ts" using assms(1) by simp
  then obtain e' where e': "oc_etimer_stop now ?e a = Some e'" "etimers_ok e' (remove1 a ts)"
    "oc_etimer_expired e' a" "\<And>t. t \<noteq> a \<Longrightarrow> tproc e' t = tproc ?e t" "timer e' = timer ?e"
    using oc_etimer_stop_ok [of ?e ts a now] assms(2) by metis
  have "tproc e' = (tproc (et s))(a := NULL_PTR)" using e'(3,4) by (auto simp: oc_etimer_expired_def)
  with e' oc_etimer_stop_sch [OF e'(1)] show ?thesis by (auto simp: in_context_def Let_def same_sched_def)
qed

lemma zero_timer_ok:
  assumes "etimers_ok e ts" and "a \<notin> set ts"
  shows "etimers_ok (zero_timer e a) ts" and "timer (zero_timer e a) = (timer e)(a := \<lparr>start = 0, interval = 0\<rparr>)"
    and "tproc (zero_timer e a) = (tproc e)(a := NULL_PTR)" and "same_sched e (zero_timer e a)"
  using assms by (auto simp: etimers_ok_def timers_def zero_timer_def same_sched_def)

lemma event_callbacks_nonnull: "a \<in> set event_callbacks_s \<Longrightarrow> a \<noteq> NULL_PTR \<and> a \<notin> set transactions_memb"
  by (auto simp: pool_defs)

section \<open>Callbacks\<close>

text \<open>
  The callbacks on both lists are live and distinct, nothing else is live in the pool, and their
  timers, started by the process of timed callbacks, run or have expired.
\<close>

definition callbacks_ok :: "net \<Rightarrow> bool" where
  "callbacks_ok s \<longleftrightarrow> registry event_callbacks_s (event_cbs s) (timed_callbacks s @ observe_callbacks s)"

text \<open>Pending calls, in the order of the list.\<close>

definition pending :: "net \<Rightarrow> (addr \<times> oc_trigger) list" where
  "pending s = map (\<lambda>a. (cb_data (the (event_cbs s a)), callback (the (event_cbs s a)))) (timed_callbacks s)"

lemma registry_add_middle:
  "registry B h (xs @ ys) \<Longrightarrow> a \<in> set B \<Longrightarrow> h a = None \<Longrightarrow> registry B (h(a \<mapsto> v)) ((xs @ [a]) @ ys)"
  by (auto simp: registry_def)

text \<open>Operations on callbacks leave all other timers alone.\<close>

definition cb_sched :: "etimers \<Rightarrow> etimers \<Rightarrow> bool" where
  "cb_sched e e' \<longleftrightarrow> same_sched e e' \<and>
     (\<forall>a. a \<notin> set event_callbacks_s \<longrightarrow> timer e' a = timer e a \<and> tproc e' a = tproc e a)"

lemma cb_sched_refl [simp]: "cb_sched e e"
  by (simp add: cb_sched_def same_sched_def)

lemma cb_sched_trans: "cb_sched e e' \<Longrightarrow> cb_sched e' e'' \<Longrightarrow> cb_sched e e''"
  by (simp add: cb_sched_def same_sched_def)

definition timed_frame :: "net \<Rightarrow> net \<Rightarrow> bool" where
  "timed_frame s s' \<longleftrightarrow>
     s' = s\<lparr>et := et s', event_cbs := event_cbs s', timed_callbacks := timed_callbacks s'\<rparr> \<and> cb_sched (et s) (et s')"

lemma add_timed_ok:
  assumes ok: "callbacks_ok s" and ts: "net_timers s ts"
  shows "\<exists>s' ts'. oc_ri_add_timed_event_callback_ticks s d f ticks = Some s' \<and> callbacks_ok s' \<and> net_timers s' ts' \<and>
     timed_frame s s' \<and> pending s' = pending s @ (if obj_room event_callbacks_s (event_cbs s) = 0 then [] else [(d, f)])"
proof (rule alloc_obj_cases [of event_callbacks_s "event_cbs s" zero_callback], goal_cases)
  case 1
  then have "obj_room event_callbacks_s (event_cbs s) = 0" by (simp add: obj_room_def)
  with 1 ok ts show ?thesis
    by (auto simp: oc_ri_add_timed_event_callback_ticks_def timed_frame_def)
next
  case (2 a)
  let ?s = "s\<lparr>event_cbs := (event_cbs s)(a \<mapsto> \<lparr>callback = f, cb_data = d\<rparr>), et := zero_timer (et s) a\<rparr>"
  have a: "a \<notin> set ts" "a \<noteq> NULL_PTR" "a \<notin> set transactions_memb" "a \<notin> set (timed_callbacks s)"
    using ts ok 2(2,3) event_callbacks_nonnull by (auto simp: net_timers_def callbacks_ok_def registry_def)
  have e0: "etimers_ok (et s) ts" using ts by (simp add: net_timers_def)
  have room: "obj_room event_callbacks_s (event_cbs s) \<noteq> 0" using 2(2,3) by (auto simp: obj_room_def filter_empty_conv)
  have e1: "etimers_ok (et ?s) ts" using zero_timer_ok(1) [OF e0 a(1)] by simp
  obtain e' where e': "in_context timed_callback_events (\<lambda>e. oc_etimer_set (clk s) e a ticks) ?s = Some (?s\<lparr>et := e'\<rparr>)"
    "etimers_ok e' (a # ts)" "same_sched (et ?s) e'" "timer e' = (timer (et ?s))(a := \<lparr>start = clk s, interval = ticks\<rparr>)"
    "tproc e' = (tproc (et ?s))(a := timed_callback_events)"
    using in_context_set [OF e1 a(2), of timed_callback_events "clk s" ticks] a(1) by auto
  let ?s' = "?s\<lparr>et := e', timed_callbacks := timed_callbacks s @ [a]\<rparr>"
  have "oc_ri_add_timed_event_callback_ticks s d f ticks = Some ?s'"
    using 2(1) e'(1) by (simp add: oc_ri_add_timed_event_callback_ticks_def Let_def)
  moreover have "callbacks_ok ?s'"
    using ok registry_add_middle [of event_callbacks_s "event_cbs s", OF _ 2(2)] 2(3) by (simp add: callbacks_ok_def)
  moreover have "net_timers ?s' (a # ts)" using ts e'(2) a(3) by (auto simp: net_timers_def)
  moreover have "timed_frame s ?s'"
    using e'(3-5) zero_timer_ok(2-4) [OF e0 a(1)] 2(2) by (auto simp: timed_frame_def cb_sched_def same_sched_def)
  moreover have "pending ?s' = pending s @ [(d, f)]" using a(4) by (auto simp: pending_def)
  ultimately show ?thesis using room by auto
qed

lemma find_SomeD: "find P xs = Some a \<Longrightarrow> a \<in> set xs \<and> P a"
  by (auto simp: find_Some_iff)

lemma map_remove1: "find (\<lambda>x. g x = v) xs = Some a \<Longrightarrow> map g (remove1 a xs) = remove1 v (map g xs)"
proof (induction xs)
  case (Cons x xs)
  then show ?case by (cases "g x = v") (auto dest: find_SomeD)
qed simp

lemma remove_timed_ok:
  assumes ok: "callbacks_ok s" and ts: "net_timers s ts"
  shows "\<exists>s' ts'. oc_ri_remove_timed_event_callback s d f = Some s' \<and> callbacks_ok s' \<and> net_timers s' ts' \<and>
     timed_frame s s' \<and> pending s' = remove1 (d, f) (pending s)"
proof -
  have dist: "distinct (timed_callbacks s)" using ok by (simp add: callbacks_ok_def registry_def)
  have live: "\<forall>a \<in> set (timed_callbacks s). event_cbs s a \<noteq> None"
    using ok by (auto simp: callbacks_ok_def registry_def)
  let ?g = "\<lambda>a. (cb_data (the (event_cbs s a)), callback (the (event_cbs s a)))"
  have f: "find_on (event_cbs s) (\<lambda>c. cb_data c = d \<and> callback c = f) (timed_callbacks s) =
      Some (find (\<lambda>a. ?g a = (d, f)) (timed_callbacks s))"
    using find_on_live [OF live] by simp
  show ?thesis
  proof (cases "find (\<lambda>a. ?g a = (d, f)) (timed_callbacks s)")
    case None
    then have "remove1 (d, f) (pending s) = pending s"
      by (intro remove1_idem) (auto simp: pending_def find_None_iff)
    with None f ok ts show ?thesis
      by (auto simp: oc_ri_remove_timed_event_callback_def timed_frame_def)
  next
    case (Some a)
    note a = find_SomeD [OF Some]
    have a0: "a \<in> set event_callbacks_s" using a ok by (auto simp: callbacks_ok_def registry_def)
    note nn = event_callbacks_nonnull [OF a0]
    obtain e' where e': "in_context timed_callback_events (\<lambda>e. oc_etimer_stop (clk s) e a) s = Some (s\<lparr>et := e'\<rparr>)"
      "etimers_ok e' (remove1 a ts)" "same_sched (et s) e'" "timer e' = timer (et s)" "tproc e' = (tproc (et s))(a := NULL_PTR)"
      using in_context_stop [of s ts a timed_callback_events "clk s"] ts nn by (auto simp: net_timers_def)
    let ?s' = "s\<lparr>et := e', timed_callbacks := remove1 a (timed_callbacks s),
      event_cbs := free_obj event_callbacks_s (event_cbs s) a\<rparr>"
    have h: "event_cbs ?s' = (event_cbs s)(a := None)" using a0 by (simp add: free_obj_def)
    have ret: "oc_ri_remove_timed_event_callback s d f = Some ?s'"
      using f Some e'(1) by (simp add: oc_ri_remove_timed_event_callback_def Let_def)
    have cb: "callbacks_ok ?s'"
      using ok registry_remove [of event_callbacks_s "event_cbs s" "timed_callbacks s @ observe_callbacks s" a] a
      by (simp add: callbacks_ok_def remove1_append)
    have dts: "distinct ts" using ts path_distinct by (auto simp: net_timers_def etimers_ok_def timers_def)
    have nt: "net_timers ?s' (remove1 a ts)" using ts e'(2) h nn dts by (auto simp: net_timers_def)
    have "map (\<lambda>a. (cb_data (the (event_cbs ?s' a)), callback (the (event_cbs ?s' a)))) (remove1 a (timed_callbacks s)) =
        map ?g (remove1 a (timed_callbacks s))"
      using dist h by (intro map_cong) auto
    then have "pending ?s' = remove1 (d, f) (pending s)"
      using map_remove1 [OF Some] by (simp add: pending_def)
    moreover have "cb_sched (et s) e'" using e'(3-5) a0 by (auto simp: cb_sched_def)
    ultimately show ?thesis using ret cb nt by (intro exI [of _ ?s'] exI [of _ "remove1 a ts"]) (simp add: timed_frame_def)
  qed
qed

end
