(* ===== verification/Net_Blockwise.thy ===== *)
theory Net_Blockwise
  imports Net_Timed "HOL-Library.Sublist"
begin

text \<open>
  Block-wise transfers: \<open>src/api/oc_blockwise.c\<close>. A buffer holds the payload of a request or
  response while its blocks are sent or received; it is kept in one of two pools and lists and
  freed by a timeout, by its last user or by a scrub. A path is the sequence of its
  \<open>href_len\<close> bytes.
\<close>

section \<open>Buffers\<close>

text \<open>The static pool and list a function is called with.\<close>

datatype bw = Request | Response

primrec bw_pool :: "bw \<Rightarrow> addr list" where
  "bw_pool Request = oc_blockwise_request_states_s"
| "bw_pool Response = oc_blockwise_response_states_s"

primrec bw_heap :: "bw \<Rightarrow> net \<Rightarrow> addr \<Rightarrow> oc_blockwise_state option" where
  "bw_heap Request s = requests s"
| "bw_heap Response s = responses s"

primrec bw_list :: "bw \<Rightarrow> net \<Rightarrow> addr list" where
  "bw_list Request s = oc_blockwise_requests s"
| "bw_list Response s = oc_blockwise_responses s"

primrec set_bw :: "bw \<Rightarrow> net \<Rightarrow> (addr \<Rightarrow> oc_blockwise_state option) \<Rightarrow> addr list \<Rightarrow> net" where
  "set_bw Request s h l = s\<lparr>requests := h, oc_blockwise_requests := l\<rparr>"
| "set_bw Response s h l = s\<lparr>responses := h, oc_blockwise_responses := l\<rparr>"

primrec bw_timeout :: "bw \<Rightarrow> oc_trigger" where
  "bw_timeout Request = Oc_blockwise_request_timeout"
| "bw_timeout Response = Oc_blockwise_response_timeout"

definition zero_blockwise :: oc_blockwise_state where
  "zero_blockwise = \<lparr>bhref = [], bendpoint = zero_endpoint, bmethod = 0, brole = OC_BLOCKWISE_CLIENT,
     payload_size = 0, next_block_offset = 0, bref = 0, buffer = replicate OC_MAX_APP_DATA_SIZE 0,
     buri_query = [], bmid = 0, bclient_cb = NULL_PTR, betag = replicate COAP_ETAG_LEN 0, bobserve_seq = 0\<rparr>"

definition oc_blockwise_init_buffer ::
  "bw \<Rightarrow> net \<Rightarrow> bytes \<Rightarrow> oc_endpoint \<Rightarrow> u8 \<Rightarrow> oc_blockwise_role \<Rightarrow> net \<times> addr option" where
  "oc_blockwise_init_buffer b s hr endpoint meth role =
     (if length hr = 0 then (s, None)
      else case alloc_obj (bw_pool b) (bw_heap b s) zero_blockwise of
        (h, None) \<Rightarrow> (s, None)
      | (h, Some a) \<Rightarrow>
          (set_bw b s (h(a \<mapsto> zero_blockwise\<lparr>next_block_offset := 0, payload_size := 0, bref := 1, bmethod := meth,
             brole := role, bendpoint := endpoint, bhref := hr, bmid := 0, bclient_cb := NULL_PTR\<rparr>)) (bw_list b s),
           Some a))"

definition oc_blockwise_free_buffer :: "bw \<Rightarrow> net \<Rightarrow> addr \<Rightarrow> net option" where
  "oc_blockwise_free_buffer b s a =
     (if a = NULL_PTR then Some s
      else do {
        x \<leftarrow> bw_heap b s a;
        Some (set_bw b s (free_obj (bw_pool b) (bw_heap b s) a) (remove1 a (bw_list b s)))
      })"

definition oc_blockwise_timeout :: "bw \<Rightarrow> net \<Rightarrow> addr \<Rightarrow> net option" where
  "oc_blockwise_timeout b s a = oc_blockwise_free_buffer b s a"

definition OC_EXCHANGE_LIFETIME :: clock where
  "OC_EXCHANGE_LIFETIME = 247"

definition add_to_list :: "bw \<Rightarrow> net \<Rightarrow> addr \<Rightarrow> net" where
  "add_to_list b s a = set_bw b s (bw_heap b s) (bw_list b s @ [a])"

definition oc_blockwise_alloc_request_buffer ::
  "net \<Rightarrow> bytes \<Rightarrow> oc_endpoint \<Rightarrow> u8 \<Rightarrow> oc_blockwise_role \<Rightarrow> (net \<times> addr option) option" where
  "oc_blockwise_alloc_request_buffer s hr endpoint meth role =
     (case oc_blockwise_init_buffer Request s hr endpoint meth role of
        (s, None) \<Rightarrow> Some (s, None)
      | (s, Some a) \<Rightarrow> do {
          s \<leftarrow> oc_ri_add_timed_event_callback_seconds s a Oc_blockwise_request_timeout OC_EXCHANGE_LIFETIME;
          Some (add_to_list Request s a, Some a)
        })"

text \<open>The loop that draws the entity tag copies every random number to the start of the array.\<close>

function etag_loop :: "net \<Rightarrow> u32 \<Rightarrow> bytes \<Rightarrow> int \<Rightarrow> net \<times> bytes" where
  "etag_loop s r tag i =
     (if i > 0 then
        let tag = splice 0 (take (nat (min 4 i)) (u32_bytes r)) tag;
            (s, r) = net_random s
        in etag_loop s r tag (i - 4)
      else (s, tag))"
  by pat_completeness auto
termination by (relation "measure (\<lambda>(s, r, tag, i). nat i)") auto

declare etag_loop.simps [simp del]

definition oc_blockwise_alloc_response_buffer ::
  "net \<Rightarrow> bytes \<Rightarrow> oc_endpoint \<Rightarrow> u8 \<Rightarrow> oc_blockwise_role \<Rightarrow> (net \<times> addr option) option" where
  "oc_blockwise_alloc_response_buffer s hr endpoint meth role =
     (case oc_blockwise_init_buffer Response s hr endpoint meth role of
        (s, None) \<Rightarrow> Some (s, None)
      | (s, Some a) \<Rightarrow> do {
          x \<leftarrow> responses s a;
          let (s, r) = net_random s;
          let (s, tag) = etag_loop s r (betag x) (int COAP_ETAG_LEN);
          let s = s\<lparr>responses := (responses s)(a \<mapsto> x\<lparr>betag := tag, bobserve_seq := - 1\<rparr>)\<rparr>;
          s \<leftarrow> oc_ri_add_timed_event_callback_seconds s a Oc_blockwise_response_timeout OC_EXCHANGE_LIFETIME;
          Some (add_to_list Response s a, Some a)
        })"

definition oc_blockwise_free_bw :: "bw \<Rightarrow> net \<Rightarrow> addr \<Rightarrow> net option" where
  "oc_blockwise_free_bw b s a = do {
     s \<leftarrow> oc_ri_remove_timed_event_callback s a (bw_timeout b);
     oc_blockwise_timeout b s a
   }"

definition oc_blockwise_free_request_buffer :: "net \<Rightarrow> addr \<Rightarrow> net option" where
  "oc_blockwise_free_request_buffer = oc_blockwise_free_bw Request"

definition oc_blockwise_free_response_buffer :: "net \<Rightarrow> addr \<Rightarrow> net option" where
  "oc_blockwise_free_response_buffer = oc_blockwise_free_bw Response"

text \<open>The loops of the two scrub functions. The successor is read before a buffer is freed, so
  they visit the elements the list has at the start.\<close>

primrec scrub_loop :: "bw \<Rightarrow> (oc_blockwise_state \<Rightarrow> bool) \<Rightarrow> net \<Rightarrow> addr list \<Rightarrow> net option" where
  "scrub_loop b P s [] = Some s"
| "scrub_loop b P s (a # as) = do {
     x \<leftarrow> bw_heap b s a;
     s \<leftarrow> (if P x then oc_blockwise_free_bw b s a else Some s);
     scrub_loop b P s as
   }"

definition oc_blockwise_scrub_buffers_for_client_cb :: "net \<Rightarrow> addr \<Rightarrow> net option" where
  "oc_blockwise_scrub_buffers_for_client_cb s cb = do {
     s \<leftarrow> scrub_loop Request (\<lambda>x. bclient_cb x = cb) s (oc_blockwise_requests s);
     scrub_loop Response (\<lambda>x. bclient_cb x = cb) s (oc_blockwise_responses s)
   }"

definition oc_blockwise_scrub_buffers :: "net \<Rightarrow> net option" where
  "oc_blockwise_scrub_buffers s = do {
     s \<leftarrow> scrub_loop Request (\<lambda>x. bref x = 0) s (oc_blockwise_requests s);
     scrub_loop Response (\<lambda>x. bref x = 0) s (oc_blockwise_responses s)
   }"

section \<open>Searches\<close>

definition oc_blockwise_find_buffer_by_mid :: "bw \<Rightarrow> net \<Rightarrow> u16 \<Rightarrow> addr option option" where
  "oc_blockwise_find_buffer_by_mid b s m =
     find_on (bw_heap b s) (\<lambda>x. bmid x = m \<and> brole x = OC_BLOCKWISE_CLIENT) (bw_list b s)"

definition oc_blockwise_find_buffer_by_client_cb :: "bw \<Rightarrow> net \<Rightarrow> oc_endpoint \<Rightarrow> addr \<Rightarrow> addr option option" where
  "oc_blockwise_find_buffer_by_client_cb b s endpoint cb =
     find_on (bw_heap b s) (\<lambda>x. brole x = OC_BLOCKWISE_CLIENT \<and> bclient_cb x = cb \<and>
       oc_endpoint_compare endpoint (bendpoint x) = 0) (bw_list b s)"

text \<open>\<open>strncmp(a, b, n) == 0\<close>; \<open>b\<close> is terminated by a zero, \<open>a\<close> has \<open>n\<close> bytes.\<close>

fun strncmp_eq :: "bytes \<Rightarrow> bytes \<Rightarrow> nat \<Rightarrow> bool" where
  "strncmp_eq a b 0 = True"
| "strncmp_eq (x # a) (y # b) (Suc n) = (x = y \<and> (x = 0 \<or> strncmp_eq a b n))"
| "strncmp_eq a b (Suc n) = False"

definition oc_blockwise_find_buffer ::
  "bw \<Rightarrow> net \<Rightarrow> bytes \<Rightarrow> oc_endpoint \<Rightarrow> u8 \<Rightarrow> bytes \<Rightarrow> oc_blockwise_role \<Rightarrow> addr option option" where
  "oc_blockwise_find_buffer b s hr endpoint meth query role =
     find_on (bw_heap b s) (\<lambda>x. strncmp_eq hr (bhref x @ [0]) (length hr) \<and>
       oc_endpoint_compare (bendpoint x) endpoint = 0 \<and> bmethod x = meth \<and> brole x = role \<and>
       length query = length (buri_query x) \<and> query = take (length query) (buri_query x)) (bw_list b s)"

definition oc_blockwise_find_request_buffer_by_mid :: "net \<Rightarrow> u16 \<Rightarrow> addr option option" where
  "oc_blockwise_find_request_buffer_by_mid = oc_blockwise_find_buffer_by_mid Request"

definition oc_blockwise_find_response_buffer_by_mid :: "net \<Rightarrow> u16 \<Rightarrow> addr option option" where
  "oc_blockwise_find_response_buffer_by_mid = oc_blockwise_find_buffer_by_mid Response"

definition oc_blockwise_find_request_buffer_by_client_cb :: "net \<Rightarrow> oc_endpoint \<Rightarrow> addr \<Rightarrow> addr option option" where
  "oc_blockwise_find_request_buffer_by_client_cb = oc_blockwise_find_buffer_by_client_cb Request"

definition oc_blockwise_find_response_buffer_by_client_cb :: "net \<Rightarrow> oc_endpoint \<Rightarrow> addr \<Rightarrow> addr option option" where
  "oc_blockwise_find_response_buffer_by_client_cb = oc_blockwise_find_buffer_by_client_cb Response"

definition oc_blockwise_find_request_buffer ::
  "net \<Rightarrow> bytes \<Rightarrow> oc_endpoint \<Rightarrow> u8 \<Rightarrow> bytes \<Rightarrow> oc_blockwise_role \<Rightarrow> addr option option" where
  "oc_blockwise_find_request_buffer = oc_blockwise_find_buffer Request"

definition oc_blockwise_find_response_buffer ::
  "net \<Rightarrow> bytes \<Rightarrow> oc_endpoint \<Rightarrow> u8 \<Rightarrow> bytes \<Rightarrow> oc_blockwise_role \<Rightarrow> addr option option" where
  "oc_blockwise_find_response_buffer = oc_blockwise_find_buffer Response"

section \<open>Blocks\<close>

text \<open>The result is the position and length of the block in the buffer.\<close>

definition oc_blockwise_dispatch_block ::
  "oc_blockwise_state \<Rightarrow> u32 \<Rightarrow> u32 \<Rightarrow> oc_blockwise_state \<times> (u32 \<times> u32) option" where
  "oc_blockwise_dispatch_block x block_offset requested_block_size =
     (if block_offset < payload_size x then
        let n = (if payload_size x < requested_block_size then payload_size x
                 else min requested_block_size (payload_size x - block_offset))
        in (x\<lparr>next_block_offset := block_offset + n\<rparr>, Some (block_offset, n))
      else (x, None))"

definition oc_blockwise_handle_block ::
  "oc_blockwise_state \<Rightarrow> u32 \<Rightarrow> bytes \<Rightarrow> u32 \<Rightarrow> (oc_blockwise_state \<times> bool) option" where
  "oc_blockwise_handle_block x incoming_block_offset incoming_block incoming_block_size =
     (if incoming_block_offset \<ge> of_nat OC_MAX_APP_DATA_SIZE \<or>
         incoming_block_size > of_nat OC_MAX_APP_DATA_SIZE - incoming_block_offset \<or>
         incoming_block_offset > next_block_offset x
      then Some (x, False)
      else if next_block_offset x = incoming_block_offset then do {
        bs \<leftarrow> rd_slice incoming_block 0 (unat incoming_block_size);
        buf \<leftarrow> (if unat (next_block_offset x) + length bs \<le> length (buffer x)
               then Some (splice (unat (next_block_offset x)) bs (buffer x)) else None);
        Some (x\<lparr>buffer := buf, next_block_offset := next_block_offset x + incoming_block_size\<rparr>, True)
      }
      else Some (x, True))"

section \<open>Sending and receiving blocks\<close>

lemma u32_less: "(x :: u32) < y \<longleftrightarrow> unat x < unat y" and u32_le: "(x :: u32) \<le> y \<longleftrightarrow> unat x \<le> unat y"
  by (simp_all add: word_less_nat_alt word_le_nat_alt)

lemma unat_min: "unat (min (x :: u32) y) = min (unat x) (unat y)"
  by (simp add: min_def word_le_nat_alt)

lemma unat_of_nat_small: "n < 2 ^ 32 \<Longrightarrow> unat (of_nat n :: u32) = n"
  by (simp add: unat_of_nat_u32)

lemma unat_app_data: "unat (of_nat OC_MAX_APP_DATA_SIZE :: u32) = OC_MAX_APP_DATA_SIZE"
  by (simp add: unat_of_nat_small OC_MAX_APP_DATA_SIZE_def)

text \<open>A block at a multiple of the block size is what remains of the payload there.\<close>

lemma dispatch_block_aligned:
  assumes "unat req dvd unat off" and "off < payload_size x"
  shows "\<exists>n. oc_blockwise_dispatch_block x off req = (x\<lparr>next_block_offset := off + n\<rparr>, Some (off, n)) \<and>
     unat n = min (unat req) (unat (payload_size x) - unat off)"
proof (cases "payload_size x < req")
  case True
  with assms have "unat off < unat req" by (simp add: u32_less)
  with assms(1) have "unat off = 0" by (auto dest: dvd_imp_le)
  with assms(2) True show ?thesis by (auto simp: oc_blockwise_dispatch_block_def u32_less Let_def)
next
  case False
  with assms(2) show ?thesis
    by (simp add: oc_blockwise_dispatch_block_def unat_min unat_u32_diff less_imp_le Let_def)
qed

lemma handle_block_eq:
  fixes off :: u32
  assumes len: "length (buffer y) = OC_MAX_APP_DATA_SIZE" and inc: "unat n \<le> length inc"
  defines "o' \<equiv> unat off" and "nx \<equiv> unat (next_block_offset y)"
  shows "oc_blockwise_handle_block y off inc n = Some
     (if o' \<ge> OC_MAX_APP_DATA_SIZE \<or> unat n > OC_MAX_APP_DATA_SIZE - o' \<or> o' > nx then (y, False)
      else if nx = o' then (y\<lparr>buffer := splice nx (take (unat n) inc) (buffer y),
        next_block_offset := next_block_offset y + n\<rparr>, True)
      else (y, True))"
proof (cases "o' \<ge> OC_MAX_APP_DATA_SIZE")
  case True
  then show ?thesis by (simp add: oc_blockwise_handle_block_def u32_le unat_app_data o'_def)
next
  case False
  have "unat (of_nat OC_MAX_APP_DATA_SIZE - off) = OC_MAX_APP_DATA_SIZE - o'"
    using False by (subst unat_u32_diff) (simp_all add: u32_le unat_app_data o'_def)
  moreover have "next_block_offset y = off \<longleftrightarrow> nx = o'" by (simp add: nx_def o'_def unsigned_word_eqI word_unat_eq_iff)
  ultimately show ?thesis
    using False len inc
    by (auto simp: oc_blockwise_handle_block_def u32_le u32_less unat_app_data o'_def nx_def rd_slice_def)
qed

text \<open>The receiver holds a prefix of the payload that ends at a block boundary or is all of it.\<close>

definition holds_prefix :: "nat \<Rightarrow> bytes \<Rightarrow> oc_blockwise_state \<Rightarrow> bool" where
  "holds_prefix bs P y \<longleftrightarrow> length (buffer y) = OC_MAX_APP_DATA_SIZE \<and> unat (next_block_offset y) \<le> length P \<and>
     take (unat (next_block_offset y)) (buffer y) = take (unat (next_block_offset y)) P \<and>
     (unat (next_block_offset y) = length P \<or> bs dvd unat (next_block_offset y))"

text \<open>Block number \<open>k\<close> goes from the sender's buffer to the receiver's.\<close>

definition deliver_block :: "nat \<Rightarrow> oc_blockwise_state \<Rightarrow> oc_blockwise_state \<Rightarrow> nat \<Rightarrow> oc_blockwise_state option" where
  "deliver_block bs x y k =
     (case oc_blockwise_dispatch_block x (of_nat (k * bs)) (of_nat bs) of
        (x', None) \<Rightarrow> Some y
      | (x', Some (off, n)) \<Rightarrow> map_option fst (oc_blockwise_handle_block y off (drop (unat off) (buffer x)) n))"

primrec deliver_all :: "nat \<Rightarrow> oc_blockwise_state \<Rightarrow> oc_blockwise_state \<Rightarrow> nat list \<Rightarrow> oc_blockwise_state option" where
  "deliver_all bs x y [] = Some y"
| "deliver_all bs x y (k # ks) = do { y \<leftarrow> deliver_block bs x y k; deliver_all bs x y ks }"

definition sends :: "oc_blockwise_state \<Rightarrow> bytes \<Rightarrow> bool" where
  "sends x P \<longleftrightarrow> length (buffer x) = OC_MAX_APP_DATA_SIZE \<and> length P \<le> OC_MAX_APP_DATA_SIZE \<and>
     unat (payload_size x) = length P \<and> take (length P) (buffer x) = P"

lemma deliver_step:
  assumes x: "sends x P" and y: "holds_prefix bs P y" and bs: "0 < bs" "bs < 2 ^ 32" and k: "k * bs < 2 ^ 32"
  defines "nx \<equiv> unat (next_block_offset y)"
  shows "\<exists>y'. deliver_block bs x y k = Some y' \<and> holds_prefix bs P y' \<and>
     unat (next_block_offset y') = (if k * bs = nx then min (length P) (nx + bs) else nx)"
proof (cases "k * bs < length P")
  case False
  then have "oc_blockwise_dispatch_block x (of_nat (k * bs)) (of_nat bs) = (x, None)"
    using x k unat_of_nat_small [OF k] by (simp add: oc_blockwise_dispatch_block_def u32_less sends_def)
  then have "deliver_block bs x y k = Some y" by (simp add: deliver_block_def)
  with False y show ?thesis by (auto simp: nx_def holds_prefix_def)
next
  case True
  let ?off = "of_nat (k * bs) :: u32"
  have off: "unat ?off = k * bs" "unat (of_nat bs :: u32) = bs"
    using unat_of_nat_small [OF k] unat_of_nat_small [OF bs(2)] by auto
  obtain n where n: "oc_blockwise_dispatch_block x ?off (of_nat bs) = (x\<lparr>next_block_offset := ?off + n\<rparr>, Some (?off, n))"
    "unat n = min bs (length P - k * bs)"
    using dispatch_block_aligned [of "of_nat bs" ?off x] off True x by (auto simp: sends_def u32_less)
  have lens: "length (buffer x) = OC_MAX_APP_DATA_SIZE" "length (buffer y) = OC_MAX_APP_DATA_SIZE"
    "length P \<le> OC_MAX_APP_DATA_SIZE" "take (length P) (buffer x) = P" using x y by (simp_all add: sends_def holds_prefix_def)
  have inc: "unat n \<le> length (drop (unat ?off) (buffer x))" using n(2) off lens True by simp
  note h = handle_block_eq [OF lens(2) inc, of ?off, folded nx_def]
  have fits: "k * bs < OC_MAX_APP_DATA_SIZE" "unat n \<le> OC_MAX_APP_DATA_SIZE - k * bs" using n(2) True lens(3) by simp_all
  show ?thesis
  proof (cases "k * bs = nx")
    case False
    then have "deliver_block bs x y k = Some y" using n(1) h fits off by (simp add: deliver_block_def)
    with False y show ?thesis by (simp add: nx_def)
  next
    case eq: True
    define y' where "y' = y\<lparr>buffer := splice nx (take (unat n) (drop nx (buffer x))) (buffer y),
      next_block_offset := next_block_offset y + n\<rparr>"
    have d: "deliver_block bs x y k = Some y'" using n(1) h fits off eq by (simp add: deliver_block_def y'_def)
    have sum: "nx + unat n = min (length P) (nx + bs)" using n(2) True eq by (auto simp: min_def)
    have "nx + unat n < 2 ^ 32" using sum lens(3) by (simp add: OC_MAX_APP_DATA_SIZE_def)
    then have nx': "unat (next_block_offset y') = min (length P) (nx + bs)"
      using sum by (simp add: y'_def nx_def unat_word_ariths)
    have dx: "take (unat n) (drop nx (buffer x)) = take (unat n) (drop nx P)"
      using sum lens(4) by (metis (no_types, lifting) drop_take le_add_diff_inverse min.cobounded1 take_take min.absorb1 add_le_imp_le_diff add.commute)
    have "buffer y' = take nx (buffer y) @ take (unat n) (drop nx P) @ drop (nx + unat n) (buffer y)"
      using sum dx by (simp add: y'_def splice_def min_absorb2)
    moreover have "take nx (buffer y) = take nx P" using y by (simp add: holds_prefix_def nx_def)
    moreover have "length (take nx P @ take (unat n) (drop nx P)) = nx + unat n" using sum by simp
    ultimately have buf: "take (nx + unat n) (buffer y') = take (nx + unat n) P"
      by (metis append.assoc append_eq_conv_conj take_add)
    have "length (buffer y') = OC_MAX_APP_DATA_SIZE" using lens fits eq inc off by (simp add: y'_def)
    moreover have "min (length P) (nx + bs) = length P \<or> bs dvd min (length P) (nx + bs)"
      using eq by (auto simp: min_def)
    ultimately have "holds_prefix bs P y'" using buf nx' sum by (simp add: holds_prefix_def)
    with d nx' eq show ?thesis by auto
  qed
qed

lemma deliver_all_prefix:
  "sends x P \<Longrightarrow> holds_prefix bs P y \<Longrightarrow> 0 < bs \<Longrightarrow> bs < 2 ^ 32 \<Longrightarrow> \<forall>k \<in> set ks. k * bs < 2 ^ 32 \<Longrightarrow>
   \<exists>y'. deliver_all bs x y ks = Some y' \<and> holds_prefix bs P y' \<and>
     unat (next_block_offset y) \<le> unat (next_block_offset y')"
proof (induction ks arbitrary: y)
  case (Cons k ks)
  then obtain y1 where y1: "deliver_block bs x y k = Some y1" "holds_prefix bs P y1"
    "unat (next_block_offset y1) = (if k * bs = unat (next_block_offset y) then min (length P) (unat (next_block_offset y) + bs)
      else unat (next_block_offset y))"
    using deliver_step [of x P bs y k] by auto
  have "unat (next_block_offset y) \<le> unat (next_block_offset y1)"
    using y1(3) Cons.prems(2) by (simp add: holds_prefix_def)
  with Cons.IH [of y1] Cons.prems y1 show ?case by fastforce
qed auto

lemma deliver_all_complete:
  "sends x P \<Longrightarrow> holds_prefix bs P y \<Longrightarrow> 0 < bs \<Longrightarrow> bs < 2 ^ 32 \<Longrightarrow> \<forall>k \<in> set ks. k * bs < 2 ^ 32 \<Longrightarrow>
   unat (next_block_offset y) = min (length P) (i * bs) \<Longrightarrow> subseq [i..<m] ks \<Longrightarrow> length P \<le> m * bs \<Longrightarrow>
   \<exists>y'. deliver_all bs x y ks = Some y' \<and> unat (next_block_offset y') = length P"
proof (induction ks arbitrary: y i)
  case Nil
  then have "m \<le> i" by (cases "i < m") (auto simp: upt_conv_Cons)
  then have "m * bs \<le> i * bs" by simp
  with Nil show ?case by simp
next
  case (Cons k ks)
  obtain y1 where y1: "deliver_block bs x y k = Some y1" "holds_prefix bs P y1"
    "unat (next_block_offset y1) = (if k * bs = min (length P) (i * bs) then min (length P) (min (length P) (i * bs) + bs)
      else min (length P) (i * bs))"
    using deliver_step [of x P bs y k] Cons.prems by auto
  obtain j where j: "unat (next_block_offset y1) = min (length P) (j * bs)" "subseq [j..<m] ks"
  proof (cases "k = i \<and> i < m")
    case True
    then have "[i..<m] = i # [Suc i..<m]" by (simp add: upt_conv_Cons)
    with True Cons.prems(7) have "subseq [Suc i..<m] ks" by simp
    moreover have "unat (next_block_offset y1) = min (length P) (Suc i * bs)"
      using y1(3) True by (auto simp: min_def)
    ultimately show thesis using that by blast
  next
    case False
    then have "subseq [i..<m] ks" using Cons.prems(7) by (cases "i < m") (auto simp: upt_conv_Cons)
    moreover have "unat (next_block_offset y1) = min (length P) (i * bs)"
    proof (cases "k * bs = min (length P) (i * bs)")
      case True
      have "length P \<le> i * bs"
      proof (rule ccontr)
        assume "\<not> length P \<le> i * bs"
        with True Cons.prems(3) have "k = i" by (simp add: min_def)
        moreover have "i < m" using \<open>\<not> length P \<le> i * bs\<close> Cons.prems(8)
          by (metis mult_le_mono1 not_le order_trans)
        ultimately show False using False by simp
      qed
      with y1(3) show ?thesis by simp
    qed (use y1(3) in simp)
    ultimately show thesis using that by blast
  qed
  with Cons.IH [of y1 j] Cons.prems y1 show ?case by auto
qed

lemma fresh_holds_prefix: "length (buffer y) = OC_MAX_APP_DATA_SIZE \<Longrightarrow> next_block_offset y = 0 \<Longrightarrow> holds_prefix bs P y"
  by (simp add: holds_prefix_def)

section \<open>Properties of transfers\<close>

text \<open>C11: Block-wise transfer is correct under loss, repetition and reordering: whatever sequence
  of blocks of a payload reaches the receiver's empty buffer, no access leaves a buffer and the
  buffer holds a prefix of the payload; as soon as all blocks have come in their order, with
  any others in between, it holds the whole payload.\<close>

theorem oc_blockwise_transfer:
  assumes "sends x P" and "length (buffer y) = OC_MAX_APP_DATA_SIZE" and "next_block_offset y = 0"
    and "0 < bs" and "bs < 2 ^ 32" and "\<forall>k \<in> set ks. k * bs < 2 ^ 32"
  shows "\<exists>y'. deliver_all bs x y ks = Some y' \<and>
     take (unat (next_block_offset y')) (buffer y') = take (unat (next_block_offset y')) P \<and>
     (\<forall>m. subseq [0..<m] ks \<and> length P \<le> m * bs \<longrightarrow>
        unat (next_block_offset y') = length P \<and> take (length P) (buffer y') = P)"
proof -
  have y: "holds_prefix bs P y" using fresh_holds_prefix assms(2,3) by blast
  obtain y' where y': "deliver_all bs x y ks = Some y'" "holds_prefix bs P y'"
    using deliver_all_prefix [OF assms(1) y assms(4-6)] by auto
  have "unat (next_block_offset y') = length P" if "subseq [0..<m] ks" "length P \<le> m * bs" for m
    using deliver_all_complete [OF assms(1) y assms(4-6), of 0 m] that y'(1) assms(3) by simp
  with y' show ?thesis by (auto simp: holds_prefix_def)
qed

definition five_bytes :: oc_blockwise_state where
  "five_bytes = zero_blockwise\<lparr>buffer := splice 0 [1, 2, 3, 4, 5] (replicate OC_MAX_APP_DATA_SIZE 0), payload_size := 5\<rparr>"

lemma five_bytes_sends: "sends five_bytes [1, 2, 3, 4, 5]"
  by (simp add: sends_def five_bytes_def zero_blockwise_def OC_MAX_APP_DATA_SIZE_def splice_def)

theorem oc_blockwise_transfer_witness:
  "\<exists>y'. deliver_all 2 five_bytes zero_blockwise [0, 2, 0, 1, 7, 2, 1] = Some y' \<and> take 5 (buffer y') = [1, 2, 3, 4, 5]"
proof -
  let ?ks = "[0, 2, 0, 1, 7, 2, 1]"
  have z: "length (buffer zero_blockwise) = OC_MAX_APP_DATA_SIZE" "next_block_offset zero_blockwise = 0"
    by (simp_all add: zero_blockwise_def)
  have "subseq [0..<3] ?ks" by (simp add: upt_conv_Cons)
  moreover obtain y' where y': "deliver_all 2 five_bytes zero_blockwise ?ks = Some y'"
    "\<forall>m. subseq [0..<m] ?ks \<and> length [1 :: u8, 2, 3, 4, 5] \<le> m * 2 \<longrightarrow>
       unat (next_block_offset y') = length [1 :: u8, 2, 3, 4, 5] \<and> take (length [1 :: u8, 2, 3, 4, 5]) (buffer y') = [1, 2, 3, 4, 5]"
    using oc_blockwise_transfer [OF five_bytes_sends z, of 2 ?ks] by auto
  ultimately have "take (length [1 :: u8, 2, 3, 4, 5]) (buffer y') = [1, 2, 3, 4, 5]" using spec [OF y'(2), of 3] by simp
  with y'(1) show ?thesis by (auto simp: numeral_eq_Suc)
qed

section \<open>The invariant of the buffers\<close>

text \<open>
  Live buffers are exactly those on the two lists; the timeouts that are pending belong to
  live buffers, at most one to each, so that a timeout never meets a freed buffer. The sizes and
  offsets of a buffer stay inside its array.
\<close>

definition buffer_ok :: "oc_blockwise_state \<Rightarrow> bool" where
  "buffer_ok x \<longleftrightarrow> length (buffer x) = OC_MAX_APP_DATA_SIZE \<and> unat (payload_size x) \<le> OC_MAX_APP_DATA_SIZE \<and>
     unat (next_block_offset x) \<le> OC_MAX_APP_DATA_SIZE \<and> length (betag x) = COAP_ETAG_LEN"

definition is_timeout :: "addr \<times> oc_trigger \<Rightarrow> bool" where
  "is_timeout p \<longleftrightarrow> (\<exists>b. snd p = bw_timeout b)"

definition bw_inv :: "net \<Rightarrow> bool" where
  "bw_inv s \<longleftrightarrow> (\<forall>b. registry (bw_pool b) (bw_heap b s) (bw_list b s)) \<and> distinct (filter is_timeout (pending s)) \<and>
     (\<forall>b d. (d, bw_timeout b) \<in> set (pending s) \<longrightarrow> bw_heap b s d \<noteq> None) \<and>
     (\<forall>b a x. bw_heap b s a = Some x \<longrightarrow> buffer_ok x)"

definition bw_frame :: "net \<Rightarrow> net \<Rightarrow> bool" where
  "bw_frame s s' \<longleftrightarrow>
     s' = s\<lparr>et := et s', event_cbs := event_cbs s', timed_callbacks := timed_callbacks s', requests := requests s',
       oc_blockwise_requests := oc_blockwise_requests s', responses := responses s',
       oc_blockwise_responses := oc_blockwise_responses s', drawn := drawn s'\<rparr> \<and> cb_sched (et s) (et s')"

lemma bw_frame_refl [simp]: "bw_frame s s"
  by (simp add: bw_frame_def)

lemma bw_frame_trans: "bw_frame s s' \<Longrightarrow> bw_frame s' s'' \<Longrightarrow> bw_frame s s''"
  unfolding bw_frame_def using cb_sched_trans [of "et s" "et s'" "et s''"] by (cases s, cases s', cases s'') simp

lemma timed_frame_bw: "timed_frame s s' \<Longrightarrow> bw_frame s s'"
  unfolding timed_frame_def bw_frame_def by (cases s, cases s') simp

lemma set_bw_simps [simp]:
  "bw_heap c (set_bw b s h l) = (if c = b then h else bw_heap c s)"
  "bw_list c (set_bw b s h l) = (if c = b then l else bw_list c s)"
  "event_cbs (set_bw b s h l) = event_cbs s" "timed_callbacks (set_bw b s h l) = timed_callbacks s"
  "observe_callbacks (set_bw b s h l) = observe_callbacks s" "et (set_bw b s h l) = et s"
  "pending (set_bw b s h l) = pending s" "trans (set_bw b s h l) = trans s" "clk (set_bw b s h l) = clk s"
  by (cases b; cases c; simp add: pending_def)+

lemma set_bw_frame [simp]: "bw_frame s (set_bw b s h l)"
  by (cases b) (simp_all add: bw_frame_def)

lemma set_bw_ok [simp]:
  "callbacks_ok (set_bw b s h l) = callbacks_ok s" "net_timers (set_bw b s h l) ts = net_timers s ts"
  by (simp_all add: callbacks_ok_def net_timers_def)

lemma timed_frame_bw_heap: "timed_frame s s' \<Longrightarrow> bw_heap b s' = bw_heap b s \<and> bw_list b s' = bw_list b s"
  unfolding timed_frame_def by (cases s, cases s', cases b) simp_all

lemma bw_timeout_inj [simp]: "bw_timeout b = bw_timeout c \<longleftrightarrow> b = c"
  by (cases b; cases c) simp_all

lemma bw_pool_nonnull: "a \<in> set (bw_pool b) \<Longrightarrow> a \<noteq> NULL_PTR"
  by (cases b) (auto simp: pool_defs)

text \<open>Freeing a live buffer.\<close>

lemma free_bw_ok:
  assumes inv: "bw_inv s" and cb: "callbacks_ok s" and ts: "net_timers s ts" and a: "bw_heap b s a \<noteq> None"
  shows "\<exists>s' ts'. oc_blockwise_free_bw b s a = Some s' \<and> bw_inv s' \<and> callbacks_ok s' \<and> net_timers s' ts' \<and> bw_frame s s' \<and>
     bw_heap b s' = (bw_heap b s)(a := None) \<and> bw_list b s' = remove1 a (bw_list b s) \<and>
     (\<forall>c. c \<noteq> b \<longrightarrow> bw_heap c s' = bw_heap c s \<and> bw_list c s' = bw_list c s) \<and>
     pending s' = remove1 (a, bw_timeout b) (pending s)"
proof -
  have reg: "registry (bw_pool c) (bw_heap c s) (bw_list c s)" for c using inv by (simp add: bw_inv_def)
  have a0: "a \<in> set (bw_pool b)" using reg [of b] a by (auto simp: registry_def)
  obtain s1 ts1 where s1: "oc_ri_remove_timed_event_callback s a (bw_timeout b) = Some s1" "callbacks_ok s1"
    "net_timers s1 ts1" "timed_frame s s1" "pending s1 = remove1 (a, bw_timeout b) (pending s)"
    using remove_timed_ok [OF cb ts] by blast
  note h1 = timed_frame_bw_heap [OF s1(4)]
  let ?s = "set_bw b s1 ((bw_heap b s)(a := None)) (remove1 a (bw_list b s))"
  have ret: "oc_blockwise_free_bw b s a = Some ?s"
    using s1(1) a h1 bw_pool_nonnull [OF a0] registry_free [OF reg]
    by (auto simp: oc_blockwise_free_bw_def oc_blockwise_timeout_def oc_blockwise_free_buffer_def)
  have gone: "(a, bw_timeout b) \<notin> set (remove1 (a, bw_timeout b) (pending s))"
  proof
    assume "(a, bw_timeout b) \<in> set (remove1 (a, bw_timeout b) (pending s))"
    then have "(a, bw_timeout b) \<in> set (filter is_timeout (remove1 (a, bw_timeout b) (pending s)))"
      by (auto simp: is_timeout_def)
    moreover have "distinct (filter is_timeout (pending s))" using inv by (simp add: bw_inv_def)
    ultimately show False by (simp add: filter_remove1)
  qed
  have "bw_inv ?s"
    using inv gone registry_remove [OF reg, of b a] registry_free [OF reg] h1
    by (auto simp: bw_inv_def s1(5) filter_remove1 dest: notin_set_remove1)
  with ret s1(2,3) h1 bw_frame_trans [OF timed_frame_bw [OF s1(4)] set_bw_frame] s1(5) show ?thesis
    by (intro exI [of _ ?s] exI [of _ ts1]) simp
qed

text \<open>The common end of the two allocation functions.\<close>

lemma alloc_bw_ok:
  assumes inv: "bw_inv s" and cb: "callbacks_ok s" and ts: "net_timers s ts"
    and a: "a \<in> set (bw_pool b)" "bw_heap b s a = None" and x: "buffer_ok x"
  shows "\<exists>s2 ts'. oc_ri_add_timed_event_callback_seconds (set_bw b s ((bw_heap b s)(a \<mapsto> x)) (bw_list b s)) a (bw_timeout b) iv = Some s2 \<and>
     (let s' = add_to_list b s2 a in bw_inv s' \<and> callbacks_ok s' \<and> net_timers s' ts' \<and> bw_frame s s' \<and>
      bw_heap b s' = (bw_heap b s)(a \<mapsto> x) \<and> bw_list b s' = bw_list b s @ [a] \<and>
      (\<forall>c. c \<noteq> b \<longrightarrow> bw_heap c s' = bw_heap c s \<and> bw_list c s' = bw_list c s) \<and>
      pending s' = pending s @ (if obj_room event_callbacks_s (event_cbs s) = 0 then [] else [(a, bw_timeout b)]))"
proof -
  let ?s1 = "set_bw b s ((bw_heap b s)(a \<mapsto> x)) (bw_list b s)"
  have reg: "registry (bw_pool c) (bw_heap c s) (bw_list c s)" for c using inv by (simp add: bw_inv_def)
  have new: "(a, bw_timeout b) \<notin> set (pending s)" using inv a(2) unfolding bw_inv_def by blast
  obtain s2 ts2 where s2: "oc_ri_add_timed_event_callback_seconds ?s1 a (bw_timeout b) iv = Some s2"
    "callbacks_ok s2" "net_timers s2 ts2" "timed_frame ?s1 s2"
    "pending s2 = pending s @ (if obj_room event_callbacks_s (event_cbs s) = 0 then [] else [(a, bw_timeout b)])"
    using add_timed_ok [of ?s1 ts a "bw_timeout b" "iv * OC_CLOCK_SECOND"] cb ts
    by (auto simp: oc_ri_add_timed_event_callback_seconds_def)
  have h2: "bw_heap c s2 = bw_heap c ?s1" "bw_list c s2 = bw_list c ?s1" for c
    using timed_frame_bw_heap [OF s2(4)] by simp_all
  let ?s' = "add_to_list b s2 a"
  have h': "bw_heap b ?s' = (bw_heap b s)(a \<mapsto> x)" "bw_list b ?s' = bw_list b s @ [a]"
    "\<And>c. c \<noteq> b \<Longrightarrow> bw_heap c ?s' = bw_heap c s \<and> bw_list c ?s' = bw_list c s" "pending ?s' = pending s2"
    using h2 by (simp_all add: add_to_list_def)
  have "registry (bw_pool c) (bw_heap c ?s') (bw_list c ?s')" for c
    using registry_add [OF reg a, of x] reg [of c] h' by (cases "c = b") auto
  moreover have "bw_heap c ?s' d \<noteq> None" if "(d, bw_timeout c) \<in> set (pending ?s')" for c d
    using that h' inv s2(5) by (cases "c = b") (auto simp: bw_inv_def split: if_splits)
  moreover have "distinct (filter is_timeout (pending ?s'))"
    using inv new h'(4) s2(5) by (auto simp: bw_inv_def)
  moreover have "buffer_ok y" if "bw_heap c ?s' d = Some y" for c d y
    using that h' inv x by (cases "c = b") (auto simp: bw_inv_def split: if_splits)
  ultimately have "bw_inv ?s'" unfolding bw_inv_def by blast
  moreover have "bw_frame s ?s'"
    using bw_frame_trans [OF bw_frame_trans [OF set_bw_frame timed_frame_bw [OF s2(4)]] set_bw_frame]
    by (simp add: add_to_list_def)
  moreover have "callbacks_ok ?s'" "net_timers ?s' ts2" using s2(2,3) by (simp_all add: add_to_list_def)
  ultimately show ?thesis using s2(1,5) h' by (intro exI [of _ s2] exI [of _ ts2]) (simp add: Let_def)
qed

lemma etag_loop_drawn:
  "4 \<le> length tag \<Longrightarrow> \<exists>d tag'. etag_loop s r tag i = (s\<lparr>drawn := d\<rparr>, tag') \<and> length tag' = length tag"
proof (induction s r tag i rule: etag_loop.induct)
  case (1 s r tag i)
  show ?case
  proof (cases "i > 0")
    case True
    let ?tag = "splice 0 (take (nat (min 4 i)) (u32_bytes r)) tag"
    have len: "length ?tag = length tag" using 1(2) by (simp add: u32_bytes_def)
    obtain d tag' where "etag_loop (s\<lparr>drawn := Suc (drawn s)\<rparr>) (random s (drawn s)) ?tag (i - 4) =
        (s\<lparr>drawn := Suc (drawn s)\<rparr>\<lparr>drawn := d\<rparr>, tag')" "length tag' = length tag"
      using 1(1) [OF True refl refl, of "s\<lparr>drawn := Suc (drawn s)\<rparr>" "random s (drawn s)"] 1(2) len by (auto simp: net_random_def)
    with True show ?thesis by (subst etag_loop.simps) (auto simp: net_random_def)
  next
    case False
    then show ?thesis by (subst etag_loop.simps) (auto intro: exI [of _ "drawn s"])
  qed
qed

text \<open>The laws of both allocation functions.\<close>

definition bw_alloc :: "bw \<Rightarrow> net \<Rightarrow> bytes \<Rightarrow> oc_endpoint \<Rightarrow> u8 \<Rightarrow> oc_blockwise_role \<Rightarrow> (net \<times> addr option) option" where
  "bw_alloc b = (case b of Request \<Rightarrow> oc_blockwise_alloc_request_buffer | Response \<Rightarrow> oc_blockwise_alloc_response_buffer)"

definition new_buffer :: "oc_blockwise_state \<Rightarrow> bytes \<Rightarrow> oc_endpoint \<Rightarrow> u8 \<Rightarrow> oc_blockwise_role \<Rightarrow> bool" where
  "new_buffer x hr endpoint meth role \<longleftrightarrow> bhref x = hr \<and> bendpoint x = endpoint \<and> bmethod x = meth \<and> brole x = role \<and>
     payload_size x = 0 \<and> next_block_offset x = 0 \<and> bref x = 1 \<and> length (buffer x) = OC_MAX_APP_DATA_SIZE \<and>
     buri_query x = [] \<and> bclient_cb x = NULL_PTR \<and> length (betag x) = COAP_ETAG_LEN"

lemma new_buffer_ok: "new_buffer x hr endpoint meth role \<Longrightarrow> buffer_ok x"
  by (simp add: new_buffer_def buffer_ok_def)

lemma init_buffer_cases:
  obtains "oc_blockwise_init_buffer b s hr endpoint meth role = (s, None)"
      and "hr = [] \<or> obj_room (bw_pool b) (bw_heap b s) = 0"
  | a x where "oc_blockwise_init_buffer b s hr endpoint meth role =
      (set_bw b s ((bw_heap b s)(a \<mapsto> x)) (bw_list b s), Some a)"
      and "a \<in> set (bw_pool b)" and "bw_heap b s a = None" and "new_buffer x hr endpoint meth role" and "hr \<noteq> []"
proof (cases "hr = []")
  case True
  with that(1) show thesis by (simp add: oc_blockwise_init_buffer_def)
next
  case False
  show thesis
  proof (rule alloc_obj_cases [of "bw_pool b" "bw_heap b s" zero_blockwise], goal_cases)
    case 1
    with that(1) False show thesis by (simp add: oc_blockwise_init_buffer_def obj_room_def)
  next
    case (2 a)
    let ?x = "zero_blockwise\<lparr>next_block_offset := 0, payload_size := 0, bref := 1, bmethod := meth,
      brole := role, bendpoint := endpoint, bhref := hr, bmid := 0, bclient_cb := NULL_PTR\<rparr>"
    have "new_buffer ?x hr endpoint meth role" by (simp add: new_buffer_def zero_blockwise_def)
    with that(2) [of a ?x] 2 False show thesis by (simp add: oc_blockwise_init_buffer_def)
  qed
qed

lemma drawn_simps [simp]:
  "bw_heap b (s\<lparr>drawn := d\<rparr>) = bw_heap b s" "bw_list b (s\<lparr>drawn := d\<rparr>) = bw_list b s" "pending (s\<lparr>drawn := d\<rparr>) = pending s"
  "bw_inv (s\<lparr>drawn := d\<rparr>) = bw_inv s" "callbacks_ok (s\<lparr>drawn := d\<rparr>) = callbacks_ok s"
  "net_timers (s\<lparr>drawn := d\<rparr>) ts = net_timers s ts" "bw_frame s (s\<lparr>drawn := d\<rparr>)"
proof -
  show *: "bw_heap b (s\<lparr>drawn := d\<rparr>) = bw_heap b s" "bw_list b (s\<lparr>drawn := d\<rparr>) = bw_list b s" for b
    by (cases b; simp)+
  show p: "pending (s\<lparr>drawn := d\<rparr>) = pending s" by (simp add: pending_def)
  show "bw_inv (s\<lparr>drawn := d\<rparr>) = bw_inv s" by (simp add: bw_inv_def * p)
qed (simp_all add: callbacks_ok_def net_timers_def bw_frame_def)

lemma init_buffer_tag:
  "oc_blockwise_init_buffer Response s hr endpoint meth role = (s1, Some a) \<Longrightarrow> responses s1 a = Some x \<Longrightarrow> length (betag x) = COAP_ETAG_LEN"
  by (rule init_buffer_cases [of Response s hr endpoint meth role]) (auto simp: new_buffer_def)

lemma response_tag:
  "\<exists>d x'. length x' = COAP_ETAG_LEN \<and> oc_blockwise_alloc_response_buffer s hr endpoint meth role =
     (case oc_blockwise_init_buffer Response s hr endpoint meth role of
        (s1, None) \<Rightarrow> Some (s1, None)
      | (s1, Some a) \<Rightarrow> do {
          x \<leftarrow> responses s1 a;
          s2 \<leftarrow> oc_ri_add_timed_event_callback_seconds (s1\<lparr>drawn := d, responses := (responses s1)(a \<mapsto> x\<lparr>betag := x', bobserve_seq := - 1\<rparr>)\<rparr>)
            a Oc_blockwise_response_timeout OC_EXCHANGE_LIFETIME;
          Some (add_to_list Response s2 a, Some a)
        })"
proof (cases "oc_blockwise_init_buffer Response s hr endpoint meth role")
  case (Pair s1 r)
  show ?thesis
  proof (cases "\<exists>a x. r = Some a \<and> responses s1 a = Some x")
    case True
    then obtain a x where a: "r = Some a" "responses s1 a = Some x" by auto
    obtain d x' where "etag_loop (fst (net_random s1)) (snd (net_random s1)) (betag x) (int COAP_ETAG_LEN) =
        ((fst (net_random s1))\<lparr>drawn := d\<rparr>, x')" "length x' = COAP_ETAG_LEN"
      using etag_loop_drawn [of "betag x"] init_buffer_tag [of s hr endpoint meth role s1 a x] Pair a by fastforce
    then show ?thesis
      by (intro exI [of _ d] exI [of _ x'])
        (simp add: oc_blockwise_alloc_response_buffer_def Pair a net_random_def)
  next
    case False
    then show ?thesis
      by (intro exI [of _ 0] exI [of _ "replicate COAP_ETAG_LEN 0"], cases r)
        (auto simp: oc_blockwise_alloc_response_buffer_def Pair split: option.splits)
  qed
qed

lemma bw_alloc_ok:
  assumes inv: "bw_inv s" and cb: "callbacks_ok s" and ts: "net_timers s ts"
  shows "\<exists>s' r ts'. bw_alloc b s hr endpoint meth role = Some (s', r) \<and> bw_inv s' \<and> callbacks_ok s' \<and>
     net_timers s' ts' \<and> bw_frame s s' \<and> (r = None \<longleftrightarrow> hr = [] \<or> obj_room (bw_pool b) (bw_heap b s) = 0) \<and>
     (case r of
        None \<Rightarrow> s' = s \<and> (hr = [] \<or> obj_room (bw_pool b) (bw_heap b s) = 0)
      | Some a \<Rightarrow> bw_heap b s a = None \<and> bw_list b s' = bw_list b s @ [a] \<and>
          (\<exists>x. new_buffer x hr endpoint meth role \<and> bw_heap b s' = (bw_heap b s)(a \<mapsto> x)) \<and>
          (\<forall>c. c \<noteq> b \<longrightarrow> bw_heap c s' = bw_heap c s \<and> bw_list c s' = bw_list c s))"
proof (rule init_buffer_cases [of b s hr endpoint meth role], goal_cases)
  case 1
  then have "bw_alloc b s hr endpoint meth role = Some (s, None)"
    by (cases b) (simp_all add: bw_alloc_def oc_blockwise_alloc_request_buffer_def oc_blockwise_alloc_response_buffer_def)
  with 1 inv cb ts show ?thesis by (intro exI [of _ s] exI [of _ None] exI [of _ ts]) simp
next
  case (2 a x)
  obtain d y where y: "new_buffer y hr endpoint meth role" and
    ret: "bw_alloc b s hr endpoint meth role = do {
        s2 \<leftarrow> oc_ri_add_timed_event_callback_seconds
          (set_bw b (s\<lparr>drawn := d\<rparr>) ((bw_heap b s)(a \<mapsto> y)) (bw_list b s)) a (bw_timeout b) OC_EXCHANGE_LIFETIME;
        Some (add_to_list b s2 a, Some a)
      }"
  proof (cases b)
    case Request
    have "s = s\<lparr>drawn := drawn s\<rparr>" by simp
    with that [of x "drawn s"] 2 Request show thesis
      by (simp add: bw_alloc_def oc_blockwise_alloc_request_buffer_def)
  next
    case Response
    obtain d x' where x': "length x' = COAP_ETAG_LEN" and r: "oc_blockwise_alloc_response_buffer s hr endpoint meth role =
     (case oc_blockwise_init_buffer Response s hr endpoint meth role of
        (s1, None) \<Rightarrow> Some (s1, None)
      | (s1, Some a) \<Rightarrow> do {
          x \<leftarrow> responses s1 a;
          s2 \<leftarrow> oc_ri_add_timed_event_callback_seconds (s1\<lparr>drawn := d, responses := (responses s1)(a \<mapsto> x\<lparr>betag := x', bobserve_seq := - 1\<rparr>)\<rparr>)
            a Oc_blockwise_response_timeout OC_EXCHANGE_LIFETIME;
          Some (add_to_list Response s2 a, Some a)
        })"
      using response_tag by blast
    have "new_buffer (x\<lparr>betag := x', bobserve_seq := - 1\<rparr>) hr endpoint meth role" using 2(4) x' by (simp add: new_buffer_def)
    with that [of _ d] r 2 Response show thesis by (simp add: bw_alloc_def)
  qed
  let ?s = "s\<lparr>drawn := d\<rparr>"
  obtain s2 ts2 where s2: "oc_ri_add_timed_event_callback_seconds
        (set_bw b ?s ((bw_heap b ?s)(a \<mapsto> y)) (bw_list b ?s)) a (bw_timeout b) OC_EXCHANGE_LIFETIME = Some s2"
    "bw_inv (add_to_list b s2 a)" "callbacks_ok (add_to_list b s2 a)" "net_timers (add_to_list b s2 a) ts2"
    "bw_frame ?s (add_to_list b s2 a)" "bw_heap b (add_to_list b s2 a) = (bw_heap b s)(a \<mapsto> y)"
    "bw_list b (add_to_list b s2 a) = bw_list b s @ [a]"
    "\<forall>c. c \<noteq> b \<longrightarrow> bw_heap c (add_to_list b s2 a) = bw_heap c s \<and> bw_list c (add_to_list b s2 a) = bw_list c s"
    using alloc_bw_ok [of ?s ts a b y OC_EXCHANGE_LIFETIME] inv cb ts 2(2,3) new_buffer_ok [OF y] by (auto simp: Let_def)
  have "bw_frame s (add_to_list b s2 a)" by (rule bw_frame_trans [OF _ s2(5)]) simp
  moreover have "bw_alloc b s hr endpoint meth role = Some (add_to_list b s2 a, Some a)" using ret s2(1) by simp
  moreover have "obj_room (bw_pool b) (bw_heap b s) \<noteq> 0" using 2(2,3) by (auto simp: obj_room_def filter_empty_conv)
  ultimately show ?thesis using s2 y 2(3,5) by auto
qed

text \<open>A scrub frees exactly the buffers that satisfy the condition.\<close>

lemma scrub_loop_ok:
  "bw_inv s \<Longrightarrow> callbacks_ok s \<Longrightarrow> net_timers s ts \<Longrightarrow> distinct as \<Longrightarrow> \<forall>a \<in> set as. bw_heap b s a \<noteq> None \<Longrightarrow>
   \<exists>s' ts'. scrub_loop b P s as = Some s' \<and> bw_inv s' \<and> callbacks_ok s' \<and> net_timers s' ts' \<and> bw_frame s s' \<and>
     bw_heap b s' = (\<lambda>a. if a \<in> set as \<and> P (the (bw_heap b s a)) then None else bw_heap b s a) \<and>
     (\<forall>c. c \<noteq> b \<longrightarrow> bw_heap c s' = bw_heap c s \<and> bw_list c s' = bw_list c s)"
proof (induction as arbitrary: s ts)
  case Nil
  then show ?case by (intro exI [of _ s] exI [of _ ts]) simp
next
  case (Cons a as)
  obtain x where x: "bw_heap b s a = Some x" using Cons.prems(5) by auto
  obtain s1 ts1 where s1: "(if P x then oc_blockwise_free_bw b s a else Some s) = Some s1"
    "bw_inv s1" "callbacks_ok s1" "net_timers s1 ts1" "bw_frame s s1"
    "bw_heap b s1 = (if P x then (bw_heap b s)(a := None) else bw_heap b s)"
    "\<forall>c. c \<noteq> b \<longrightarrow> bw_heap c s1 = bw_heap c s \<and> bw_list c s1 = bw_list c s"
    using free_bw_ok [OF Cons.prems(1-3), of b a] x Cons.prems(1-3) bw_frame_refl by (cases "P x") auto
  have "\<forall>y \<in> set as. bw_heap b s1 y \<noteq> None" using s1(6) Cons.prems(4,5) by auto
  then obtain s2 ts2 where s2: "scrub_loop b P s1 as = Some s2" "bw_inv s2" "callbacks_ok s2" "net_timers s2 ts2"
    "bw_frame s1 s2" "bw_heap b s2 = (\<lambda>a. if a \<in> set as \<and> P (the (bw_heap b s1 a)) then None else bw_heap b s1 a)"
    "\<forall>c. c \<noteq> b \<longrightarrow> bw_heap c s2 = bw_heap c s1 \<and> bw_list c s2 = bw_list c s1"
    using Cons.IH [OF s1(2-4)] Cons.prems(4) by auto
  have "scrub_loop b P s (a # as) = Some s2" using x s1(1) s2(1) by simp
  moreover have "bw_heap b s2 = (\<lambda>y. if y \<in> set (a # as) \<and> P (the (bw_heap b s y)) then None else bw_heap b s y)"
    using s2(6) s1(6) x Cons.prems(4) by (auto simp: fun_eq_iff)
  moreover have "bw_frame s s2" by (rule bw_frame_trans [OF s1(5) s2(5)])
  ultimately show ?case using s2(2-4,7) s1(7) by (intro exI [of _ s2] exI [of _ ts2]) simp
qed

lemma scrub_both_ok:
  assumes inv: "bw_inv s" "callbacks_ok s" "net_timers s ts"
  shows "\<exists>s' ts'. do { s \<leftarrow> scrub_loop Request P s (oc_blockwise_requests s); scrub_loop Response P s (oc_blockwise_responses s) } = Some s' \<and>
     bw_inv s' \<and> callbacks_ok s' \<and> net_timers s' ts' \<and> bw_frame s s' \<and>
     (\<forall>b a. bw_heap b s' a = (case bw_heap b s a of None \<Rightarrow> None | Some x \<Rightarrow> if P x then None else Some x))"
proof -
  have reg: "distinct (bw_list b s) \<and> (\<forall>a \<in> set (bw_list b s). bw_heap b s a \<noteq> None)" if "bw_inv s" for b s
    using that by (auto simp: bw_inv_def registry_def)
  have dom: "a \<in> set (bw_list b s) \<longleftrightarrow> bw_heap b s a \<noteq> None" if "bw_inv s" for b s a
    using that by (auto simp: bw_inv_def registry_def)
  obtain s1 ts1 where s1: "scrub_loop Request P s (bw_list Request s) = Some s1" "bw_inv s1" "callbacks_ok s1"
    "net_timers s1 ts1" "bw_frame s s1" "bw_heap Request s1 = (\<lambda>a. if a \<in> set (bw_list Request s) \<and> P (the (bw_heap Request s a)) then None else bw_heap Request s a)"
    "bw_heap Response s1 = bw_heap Response s" "bw_list Response s1 = bw_list Response s"
    using scrub_loop_ok [OF inv, of "bw_list Request s" Request P] reg [OF inv(1), of Request] by auto
  obtain s2 ts2 where s2: "scrub_loop Response P s1 (bw_list Response s1) = Some s2" "bw_inv s2" "callbacks_ok s2"
    "net_timers s2 ts2" "bw_frame s1 s2" "bw_heap Response s2 = (\<lambda>a. if a \<in> set (bw_list Response s1) \<and> P (the (bw_heap Response s1 a)) then None else bw_heap Response s1 a)"
    "bw_heap Request s2 = bw_heap Request s1"
    using scrub_loop_ok [OF s1(2-4), of "bw_list Response s1" Response P] reg [OF s1(2), of Response] by auto
  have "bw_heap b s2 a = (case bw_heap b s a of None \<Rightarrow> None | Some x \<Rightarrow> if P x then None else Some x)" for b a
    using s1(6-8) s2(6,7) dom [OF inv(1), of a Request] dom [OF inv(1), of a Response]
    by (cases b) (auto split: option.splits)
  with s1 s2 bw_frame_trans [OF s1(5) s2(5)] show ?thesis by (intro exI [of _ s2] exI [of _ ts2]) simp
qed

section \<open>Properties of the buffers\<close>

text \<open>C22: Every operation on block-wise buffers keeps them consistent: no buffer is lost or freed
  twice, a timeout that is still pending belongs to a live buffer, allocation fails only for an
  empty path or a full pool, freeing removes exactly the buffer, and a scrub frees exactly the
  buffers nobody uses (or those of a client callback).\<close>

theorem oc_blockwise_buffers_ok:
  assumes "bw_inv s" and "callbacks_ok s" and "net_timers s ts"
  shows "(\<exists>s' r ts'. bw_alloc b s hr endpoint meth role = Some (s', r) \<and> bw_inv s' \<and> callbacks_ok s' \<and> net_timers s' ts' \<and>
       (r = None \<longleftrightarrow> hr = [] \<or> obj_room (bw_pool b) (bw_heap b s) = 0)) \<and>
     (bw_heap b s a \<noteq> None \<longrightarrow> (\<exists>s' ts'. oc_blockwise_free_bw b s a = Some s' \<and> bw_inv s' \<and> callbacks_ok s' \<and>
       net_timers s' ts' \<and> bw_heap b s' = (bw_heap b s)(a := None) \<and> (a, bw_timeout b) \<notin> set (pending s'))) \<and>
     (\<exists>s' ts'. oc_blockwise_scrub_buffers s = Some s' \<and> bw_inv s' \<and> callbacks_ok s' \<and> net_timers s' ts' \<and>
       (\<forall>b a. bw_heap b s' a = (case bw_heap b s a of None \<Rightarrow> None | Some x \<Rightarrow> if bref x = 0 then None else Some x))) \<and>
     (\<exists>s' ts'. oc_blockwise_scrub_buffers_for_client_cb s cb = Some s' \<and> bw_inv s' \<and> callbacks_ok s' \<and> net_timers s' ts' \<and>
       (\<forall>b a. bw_heap b s' a = (case bw_heap b s a of None \<Rightarrow> None | Some x \<Rightarrow> if bclient_cb x = cb then None else Some x)))"
proof (intro conjI impI)
  show "\<exists>s' r ts'. bw_alloc b s hr endpoint meth role = Some (s', r) \<and> bw_inv s' \<and> callbacks_ok s' \<and> net_timers s' ts' \<and>
      (r = None \<longleftrightarrow> hr = [] \<or> obj_room (bw_pool b) (bw_heap b s) = 0)"
    using bw_alloc_ok [OF assms, of b hr endpoint meth role] by (elim exE conjE, intro exI conjI)
  show "\<exists>s' ts'. oc_blockwise_free_bw b s a = Some s' \<and> bw_inv s' \<and> callbacks_ok s' \<and>
      net_timers s' ts' \<and> bw_heap b s' = (bw_heap b s)(a := None) \<and> (a, bw_timeout b) \<notin> set (pending s')"
    if live: "bw_heap b s a \<noteq> None"
  proof -
    obtain s' ts' where s': "oc_blockwise_free_bw b s a = Some s'" "bw_inv s'" "callbacks_ok s'" "net_timers s' ts'"
      "bw_heap b s' = (bw_heap b s)(a := None)"
      using free_bw_ok [OF assms live] by blast
    then have "(a, bw_timeout b) \<notin> set (pending s')" unfolding bw_inv_def by (metis fun_upd_same)
    with s' show ?thesis by blast
  qed
  show "\<exists>s' ts'. oc_blockwise_scrub_buffers s = Some s' \<and> bw_inv s' \<and> callbacks_ok s' \<and> net_timers s' ts' \<and>
      (\<forall>b a. bw_heap b s' a = (case bw_heap b s a of None \<Rightarrow> None | Some x \<Rightarrow> if bref x = 0 then None else Some x))"
    using scrub_both_ok [OF assms, of "\<lambda>x. bref x = 0"] unfolding oc_blockwise_scrub_buffers_def by blast
  show "\<exists>s' ts'. oc_blockwise_scrub_buffers_for_client_cb s cb = Some s' \<and> bw_inv s' \<and> callbacks_ok s' \<and> net_timers s' ts' \<and>
      (\<forall>b a. bw_heap b s' a = (case bw_heap b s a of None \<Rightarrow> None | Some x \<Rightarrow> if bclient_cb x = cb then None else Some x))"
    using scrub_both_ok [OF assms, of "\<lambda>x. bclient_cb x = cb"] unfolding oc_blockwise_scrub_buffers_for_client_cb_def by blast
qed

lemma init_net_ok: "bw_inv init_net" "callbacks_ok init_net" "net_timers init_net []"
proof -
  show "bw_inv init_net"
    unfolding bw_inv_def
  proof (intro conjI allI)
    show "registry (bw_pool b) (bw_heap b init_net) (bw_list b init_net)" for b
      by (cases b) (simp_all add: init_net_def registry_def)
    show "bw_heap b init_net a = Some x \<longrightarrow> buffer_ok x" for b a x by (cases b) (simp_all add: init_net_def)
  qed (simp_all add: init_net_def pending_def)
  show "callbacks_ok init_net" "net_timers init_net []"
    by (simp_all add: init_net_def callbacks_ok_def registry_def net_timers_def etimers_ok_def timers_def init_etimers_def)
qed

theorem oc_blockwise_buffers_ok_witness:
  "(\<exists>s' r ts'. bw_alloc Request init_net [97] zero_endpoint 1 OC_BLOCKWISE_SERVER = Some (s', r) \<and> bw_inv s' \<and>
     callbacks_ok s' \<and> net_timers s' ts' \<and> r \<noteq> None) \<and>
   (\<exists>s' ts'. oc_blockwise_scrub_buffers init_net = Some s' \<and> bw_inv s' \<and> callbacks_ok s' \<and> net_timers s' ts')"
proof (rule conjI)
  have "obj_room (bw_pool Request) (bw_heap Request init_net) \<noteq> 0"
    by (simp add: obj_room_def init_net_def pool_defs)
  moreover note oc_blockwise_buffers_ok [OF init_net_ok, of Request "[97]" zero_endpoint 1 OC_BLOCKWISE_SERVER 0 0]
  ultimately show "\<exists>s' r ts'. bw_alloc Request init_net [97] zero_endpoint 1 OC_BLOCKWISE_SERVER = Some (s', r) \<and> bw_inv s' \<and>
     callbacks_ok s' \<and> net_timers s' ts' \<and> r \<noteq> None"
    by (elim exE conjE, intro exI conjI) (assumption+, simp)
  show "\<exists>s' ts'. oc_blockwise_scrub_buffers init_net = Some s' \<and> bw_inv s' \<and> callbacks_ok s' \<and> net_timers s' ts'"
    using oc_blockwise_buffers_ok [OF init_net_ok, of Request "[97]" zero_endpoint 1 OC_BLOCKWISE_SERVER 0 0]
    by (elim exE conjE, intro exI conjI)
qed

lemma strncmp_eq_prefix: "0 \<notin> set a \<Longrightarrow> strncmp_eq a (b @ [0]) (length a) \<longleftrightarrow> prefix a b"
proof (induction a arbitrary: b)
  case (Cons x a)
  then show ?case by (cases b) auto
qed simp

text \<open>C39: The search for a buffer compares the path only up to its own length: it finds the first
  buffer of the peer, method, role and query whose path merely starts with the path that is
  looked for.\<close>

theorem oc_blockwise_find_buffer_prefix:
  assumes "bw_inv s" and "0 \<notin> set hr"
  shows "oc_blockwise_find_buffer b s hr endpoint meth query role =
     Some (find (\<lambda>a. let x = the (bw_heap b s a) in prefix hr (bhref x) \<and> oc_endpoint_compare (bendpoint x) endpoint = 0 \<and>
       bmethod x = meth \<and> brole x = role \<and> buri_query x = query) (bw_list b s))"
proof -
  have "registry (bw_pool b) (bw_heap b s) (bw_list b s)" using assms(1) by (simp add: bw_inv_def)
  moreover have "length query = length q \<and> query = take (length query) q \<longleftrightarrow> q = query" for q :: bytes by auto
  ultimately show ?thesis
    using strncmp_eq_prefix [OF assms(2)] by (simp add: oc_blockwise_find_buffer_def find_on_registry Let_def)
qed

definition lights_net :: net where
  "lights_net = set_bw Request init_net
     [500 \<mapsto> zero_blockwise\<lparr>bhref := [108, 105, 103, 104, 116], bendpoint := zero_endpoint\<lparr>flags := IPV6\<rparr>, brole := OC_BLOCKWISE_SERVER\<rparr>] [500]"

lemma lights_net_ok: "bw_inv lights_net"
  unfolding bw_inv_def
proof (intro conjI allI)
  show "registry (bw_pool b) (bw_heap b lights_net) (bw_list b lights_net)" for b
    by (cases b) (auto simp: lights_net_def init_net_def registry_def pool_defs)
  show "bw_heap b lights_net a = Some x \<longrightarrow> buffer_ok x" for b a x
    by (cases b) (auto simp: lights_net_def init_net_def buffer_ok_def zero_blockwise_def)
qed (simp_all add: lights_net_def init_net_def pending_def)

theorem oc_blockwise_find_buffer_prefix_witness:
  "oc_blockwise_find_buffer Request lights_net [108, 105] (zero_endpoint\<lparr>flags := IPV6\<rparr>) 0 [] OC_BLOCKWISE_SERVER = Some (Some 500)"
  using oc_blockwise_find_buffer_prefix [OF lights_net_ok, of "[108, 105]" Request "zero_endpoint\<lparr>flags := IPV6\<rparr>" 0 "[]" OC_BLOCKWISE_SERVER]
  by (simp add: lights_net_def init_net_def zero_blockwise_def zero_endpoint_def oc_endpoint_compare_def)

text \<open>C40: A block that is dispatched stays inside the payload except when the payload is smaller than
  the requested block and the offset is not zero; then it reaches beyond the payload by the
  offset.\<close>

theorem oc_blockwise_dispatch_block_bounds:
  assumes "off < payload_size x" and "oc_blockwise_dispatch_block x off req = (x', Some (off', n))"
  shows "off' = off \<and> x' = x\<lparr>next_block_offset := off + n\<rparr> \<and>
     (if payload_size x < req \<and> 0 < off then unat off + unat n = unat (payload_size x) + unat off
      else unat n = min (unat req) (unat (payload_size x) - unat off))"
proof (cases "payload_size x < req")
  case True
  with assms have n: "n = payload_size x" "off' = off" "x' = x\<lparr>next_block_offset := off + n\<rparr>"
    by (auto simp: oc_blockwise_dispatch_block_def Let_def)
  with True show ?thesis by (cases "off = 0") (simp_all add: u32_less word_gt_0)
next
  case False
  with assms have n: "n = min req (payload_size x - off)" "off' = off" "x' = x\<lparr>next_block_offset := off + n\<rparr>"
    by (auto simp: oc_blockwise_dispatch_block_def Let_def)
  with False assms(1) show ?thesis by (simp add: unat_min unat_u32_diff less_imp_le)
qed

theorem oc_blockwise_dispatch_block_bounds_witness:
  "unat (snd (the (snd (oc_blockwise_dispatch_block five_bytes 4 8)))) = 5"
  using oc_blockwise_dispatch_block_bounds [of 4 five_bytes 8 "five_bytes\<lparr>next_block_offset := 9\<rparr>" 4 5]
  by (simp add: five_bytes_def oc_blockwise_dispatch_block_def)

end
