(* ===== verification/Net_Client.thy ===== *)
theory Net_Client
  imports Net_Blockwise
begin

text \<open>
  Client callbacks of the resource layer (\<open>src/api/oc_ri.c\<close>): one for every outstanding request,
  found by message id or token. Freeing one also frees the block-wise buffers of its transfer.
\<close>

section \<open>Operations\<close>

definition zero_client_cb :: oc_client_cb where
  "zero_client_cb = \<lparr>curi = [], cquery = [], cendpoint = NULL_PTR, chandler = 0, cuser_data = NULL_PTR, ctimestamp = 0,
     cqos = HIGH_QOS, cdiscovery = False, cmulticast = False, cstop_multicast_receive = False, cmethod = 0, cmid = 0,
     ctoken = replicate COAP_TOKEN_LEN 0, ctoken_len = 0, cobserve_seq = 0\<rparr>"

definition free_client_cb :: "net \<Rightarrow> addr \<Rightarrow> net option" where
  "free_client_cb s cb = do {
     s \<leftarrow> oc_blockwise_scrub_buffers_for_client_cb s cb;
     let s = s\<lparr>client_cbs := remove1 cb (client_cbs s)\<rparr>;
     c \<leftarrow> ccbs s cb;
     Some (s\<lparr>ccbs := free_obj client_cbs_s (ccbs s) cb\<rparr>)
   }"

definition oc_ri_remove_client_cb :: "net \<Rightarrow> addr \<Rightarrow> net option" where
  "oc_ri_remove_client_cb s d = free_client_cb s d"

definition oc_ri_find_client_cb_by_mid :: "net \<Rightarrow> u16 \<Rightarrow> addr option option" where
  "oc_ri_find_client_cb_by_mid s m = find_on (ccbs s) (\<lambda>c. cmid c = m) (client_cbs s)"

definition oc_ri_find_client_cb_by_token :: "net \<Rightarrow> bytes \<Rightarrow> u8 \<Rightarrow> addr option option" where
  "oc_ri_find_client_cb_by_token s tok len =
     find_on (ccbs s) (\<lambda>c. ctoken_len c = len \<and> take (unat len) (ctoken c) = take (unat len) tok) (client_cbs s)"

definition oc_ri_remove_client_cb_by_mid :: "net \<Rightarrow> u16 \<Rightarrow> (net \<times> bool) option" where
  "oc_ri_remove_client_cb_by_mid s m = do {
     r \<leftarrow> find_on (ccbs s) (\<lambda>c. cmid c = m) (client_cbs s);
     case r of
       Some cb \<Rightarrow> do {
         s \<leftarrow> oc_ri_remove_timed_event_callback s cb Oc_ri_remove_client_cb;
         s \<leftarrow> free_client_cb s cb;
         Some (s, True)
       }
     | None \<Rightarrow> Some (s, False)
   }"

text \<open>The compared strings have the same length, so \<open>strncmp\<close> is equality up to a zero byte, of
  which paths have none.\<close>

definition oc_ri_get_client_cb :: "net \<Rightarrow> bytes \<Rightarrow> addr \<Rightarrow> u8 \<Rightarrow> addr option option" where
  "oc_ri_get_client_cb s ur endpoint meth =
     find_on (ccbs s) (\<lambda>c. length (curi c) = length ur \<and> strncmp_eq (curi c) (ur @ [0]) (length ur) \<and>
       cendpoint c = endpoint \<and> cmethod c = meth) (client_cbs s)"

text \<open>The loop that fills a token with random numbers, four bytes at a time.\<close>

primrec token_loop :: "nat \<Rightarrow> net \<Rightarrow> net \<times> bytes" where
  "token_loop 0 s = (s, [])"
| "token_loop (Suc k) s =
     (let (s, tok) = token_loop k s; (s, r) = net_random s in (s, tok @ u32_bytes r))"

definition oc_ri_alloc_client_cb ::
  "net \<Rightarrow> bytes \<Rightarrow> addr \<Rightarrow> u8 \<Rightarrow> bytes option \<Rightarrow> nat \<Rightarrow> oc_qos \<Rightarrow> addr \<Rightarrow> net \<times> addr option" where
  "oc_ri_alloc_client_cb s ur endpoint meth query handler qos user_data =
     (case alloc_obj client_cbs_s (ccbs s) zero_client_cb of
        (h, None) \<Rightarrow> (s, None)
      | (h, Some a) \<Rightarrow>
          let (s, m) = net_mid s;
              (s, tok) = token_loop 2 s
          in (s\<lparr>ccbs := h(a \<mapsto> zero_client_cb\<lparr>cmid := m, curi := ur, cmethod := meth, cqos := qos, chandler := handler,
                cuser_data := user_data, ctoken_len := 8, ctoken := tok, cdiscovery := False, ctimestamp := clk s,
                cobserve_seq := - 1, cendpoint := endpoint,
                cquery := (case query of Some q \<Rightarrow> if length q > 0 then q else [] | None \<Rightarrow> [])\<rparr>),
                client_cbs := client_cbs s @ [a]\<rparr>, Some a))"

text \<open>\<open>oc_list_pop\<close> takes the first callback off the list before it is freed.\<close>

primrec free_cbs_loop :: "net \<Rightarrow> addr list \<Rightarrow> net option" where
  "free_cbs_loop s [] = Some s"
| "free_cbs_loop s (cb # cbs) = do {
     s \<leftarrow> free_client_cb (s\<lparr>client_cbs := cbs\<rparr>) cb;
     free_cbs_loop s cbs
   }"

definition free_all_client_cbs :: "net \<Rightarrow> net option" where
  "free_all_client_cbs s = free_cbs_loop s (client_cbs s)"

section \<open>The invariant\<close>

text \<open>Callbacks are live exactly while they are on the list, and a block-wise buffer refers to no
  callback or to a live one.\<close>

definition cb_inv :: "net \<Rightarrow> bool" where
  "cb_inv s \<longleftrightarrow> registry client_cbs_s (ccbs s) (client_cbs s) \<and>
     (\<forall>b a x. bw_heap b s a = Some x \<longrightarrow> bclient_cb x = NULL_PTR \<or> ccbs s (bclient_cb x) \<noteq> None)"

lemma bw_frame_fields:
  assumes "bw_frame s s'"
  shows "ccbs s' = ccbs s" "client_cbs s' = client_cbs s" "msgs s' = msgs s" "trans s' = trans s"
    "transactions_list s' = transactions_list s" "observers s' = observers s" "observers_list s' = observers_list s"
    "resources s' = resources s" "observe_callbacks s' = observe_callbacks s" "outputs s' = outputs s" "clk s' = clk s"
    "transaction_handler_process s' = transaction_handler_process s" "random s' = random s" "tcp_sessions s' = tcp_sessions s"
    "current_mid s' = current_mid s" "sessions s' = sessions s" "session_list s' = session_list s" "cb_sched (et s) (et s')"
  using assms unfolding bw_frame_def by (cases s, cases s', simp)+

lemma timed_frame_fields:
  "timed_frame s s' \<Longrightarrow> ccbs s' = ccbs s \<and> client_cbs s' = client_cbs s"
  using bw_frame_fields(1,2) [OF timed_frame_bw] by blast

lemma free_client_cb_ok:
  assumes inv: "bw_inv s" "callbacks_ok s" "net_timers s ts" and cb: "cb_inv s" and live: "ccbs s c \<noteq> None"
  shows "\<exists>s' ts'. free_client_cb s c = Some s' \<and> bw_inv s' \<and> callbacks_ok s' \<and> net_timers s' ts' \<and> cb_inv s' \<and>
     ccbs s' = (ccbs s)(c := None) \<and> client_cbs s' = remove1 c (client_cbs s) \<and>
     bw_frame s (s'\<lparr>ccbs := ccbs s, client_cbs := client_cbs s\<rparr>)"
proof -
  obtain s1 ts1 where s1: "oc_blockwise_scrub_buffers_for_client_cb s c = Some s1" "bw_inv s1" "callbacks_ok s1"
    "net_timers s1 ts1" "bw_frame s s1"
    "\<forall>b a. bw_heap b s1 a = (case bw_heap b s a of None \<Rightarrow> None | Some x \<Rightarrow> if bclient_cb x = c then None else Some x)"
    using scrub_both_ok [OF inv, of "\<lambda>x. bclient_cb x = c"] unfolding oc_blockwise_scrub_buffers_for_client_cb_def by blast
  note f = bw_frame_fields [OF s1(5)]
  have reg: "registry client_cbs_s (ccbs s) (client_cbs s)" using cb by (simp add: cb_inv_def)
  let ?s = "s1\<lparr>client_cbs := remove1 c (client_cbs s), ccbs := (ccbs s)(c := None)\<rparr>"
  have ret: "free_client_cb s c = Some ?s"
    using s1(1) live f registry_free [OF reg] by (auto simp: free_client_cb_def)
  have h: "bw_heap b ?s = bw_heap b s1" "bw_list b ?s = bw_list b s1" "pending ?s = pending s1" for b
    by (cases b; simp add: pending_def)+
  have "bw_inv ?s" "callbacks_ok ?s" "net_timers ?s ts1"
    using s1(2-4) by (simp_all add: bw_inv_def h callbacks_ok_def net_timers_def)
  moreover have "registry client_cbs_s (ccbs ?s) (client_cbs ?s)"
    using registry_remove [OF reg, of c] registry_free [OF reg] by simp
  moreover have "bclient_cb x = NULL_PTR \<or> ccbs ?s (bclient_cb x) \<noteq> None" if "bw_heap b ?s a = Some x" for b a x
    using that s1(6) cb by (auto simp: h cb_inv_def split: option.splits if_splits)
  moreover have "bw_frame s (?s\<lparr>ccbs := ccbs s, client_cbs := client_cbs s\<rparr>)"
    using s1(5) f(1,2) by (simp add: bw_frame_def)
  ultimately show ?thesis using ret by (intro exI [of _ ?s] exI [of _ ts1]) (auto simp: cb_inv_def)
qed

definition cl_frame :: "net \<Rightarrow> net \<Rightarrow> bool" where
  "cl_frame s s' \<longleftrightarrow> bw_frame s (s'\<lparr>ccbs := ccbs s, client_cbs := client_cbs s\<rparr>)"

lemma bw_frame_cl: "bw_frame s s' \<Longrightarrow> cl_frame s s'"
  using bw_frame_fields(1,2) [of s s'] by (simp add: cl_frame_def bw_frame_def)

lemma cl_frame_trans: "cl_frame s s' \<Longrightarrow> cl_frame s' s'' \<Longrightarrow> cl_frame s s''"
  unfolding cl_frame_def bw_frame_def using cb_sched_trans [of "et s" "et s'" "et s''"] by (cases s, cases s', cases s'') simp

lemma cl_frame_fields:
  assumes "cl_frame s s'"
  shows "msgs s' = msgs s" "trans s' = trans s" "transactions_list s' = transactions_list s" "observers s' = observers s"
    "observers_list s' = observers_list s" "resources s' = resources s" "observe_callbacks s' = observe_callbacks s"
    "outputs s' = outputs s" "clk s' = clk s" "transaction_handler_process s' = transaction_handler_process s"
    "random s' = random s" "tcp_sessions s' = tcp_sessions s" "current_mid s' = current_mid s" "sessions s' = sessions s" "session_list s' = session_list s" "cb_sched (et s) (et s')"
  using bw_frame_fields(3-18) [of s "s'\<lparr>ccbs := ccbs s, client_cbs := client_cbs s\<rparr>"] assms by (simp_all add: cl_frame_def)

lemma remove_timed_bw:
  assumes "bw_inv s" "callbacks_ok s" "net_timers s ts" "cb_inv s"
  shows "\<exists>s' ts'. oc_ri_remove_timed_event_callback s d f = Some s' \<and> bw_inv s' \<and> callbacks_ok s' \<and> net_timers s' ts' \<and>
     cb_inv s' \<and> bw_frame s s' \<and> pending s' = remove1 (d, f) (pending s) \<and> (\<forall>b. bw_heap b s' = bw_heap b s)"
proof -
  obtain s' ts' where s': "oc_ri_remove_timed_event_callback s d f = Some s'" "callbacks_ok s'" "net_timers s' ts'"
    "timed_frame s s'" "pending s' = remove1 (d, f) (pending s)"
    using remove_timed_ok [OF assms(2,3)] by blast
  note h = timed_frame_bw_heap [OF s'(4)]
  have "bw_inv s'"
    using assms(1) h set_remove1_subset [of "(d, f)" "pending s"] unfolding bw_inv_def s'(5)
    by (simp add: filter_remove1) blast
  moreover have "cb_inv s'" using assms(4) h timed_frame_fields [OF s'(4)] by (simp add: cb_inv_def)
  ultimately show ?thesis using s' h timed_frame_bw [OF s'(4)] by (intro exI [of _ s'] exI [of _ ts']) simp
qed

text \<open>Removing a callback by message id removes the first one with that id, if there is one.\<close>

lemma remove_by_mid_ok:
  assumes inv: "bw_inv s" "callbacks_ok s" "net_timers s ts" "cb_inv s"
  shows "\<exists>s' ts' r. oc_ri_remove_client_cb_by_mid s m = Some (s', r) \<and> bw_inv s' \<and> callbacks_ok s' \<and> net_timers s' ts' \<and>
     cb_inv s' \<and> cl_frame s s' \<and> r = (find (\<lambda>c. cmid (the (ccbs s c)) = m) (client_cbs s) \<noteq> None) \<and>
     client_cbs s' = (case find (\<lambda>c. cmid (the (ccbs s c)) = m) (client_cbs s) of
       None \<Rightarrow> client_cbs s | Some c \<Rightarrow> remove1 c (client_cbs s))"
proof -
  have reg: "registry client_cbs_s (ccbs s) (client_cbs s)" using inv(4) by (simp add: cb_inv_def)
  note find = find_on_registry [OF reg, of "\<lambda>c. cmid c = m"]
  show ?thesis
  proof (cases "find (\<lambda>c. cmid (the (ccbs s c)) = m) (client_cbs s)")
    case None
    with find inv bw_frame_cl [OF bw_frame_refl] show ?thesis
      by (intro exI [of _ s] exI [of _ ts] exI [of _ False]) (simp add: oc_ri_remove_client_cb_by_mid_def)
  next
    case (Some c)
    have live: "ccbs s c \<noteq> None" using find_SomeD [OF Some] registry_live [OF reg] by simp
    obtain s1 ts1 where s1: "oc_ri_remove_timed_event_callback s c Oc_ri_remove_client_cb = Some s1" "bw_inv s1"
      "callbacks_ok s1" "net_timers s1 ts1" "cb_inv s1" "bw_frame s s1"
      using remove_timed_bw [OF inv] by blast
    note f1 = bw_frame_fields(1,2) [OF s1(6)]
    obtain s2 ts2 where s2: "free_client_cb s1 c = Some s2" "bw_inv s2" "callbacks_ok s2" "net_timers s2 ts2" "cb_inv s2"
      "client_cbs s2 = remove1 c (client_cbs s1)" "cl_frame s1 s2"
      using free_client_cb_ok [OF s1(2-5), of c] live f1 unfolding cl_frame_def by (metis (no_types, lifting))
    have "cl_frame s s2" by (rule cl_frame_trans [OF bw_frame_cl [OF s1(6)] s2(7)])
    with Some find s1(1) s2 f1 show ?thesis
      by (intro exI [of _ s2] exI [of _ ts2] exI [of _ True]) (simp add: oc_ri_remove_client_cb_by_mid_def)
  qed
qed

lemma init_cb_inv: "cb_inv init_net"
  unfolding cb_inv_def
proof (intro conjI allI impI)
  show "bclient_cb x = NULL_PTR \<or> ccbs init_net (bclient_cb x) \<noteq> None" if "bw_heap b init_net a = Some x" for b a x
    using that by (cases b) (simp_all add: init_net_def)
qed (simp add: init_net_def registry_def)

end
