(* ===== verification/Net_Observe.thy ===== *)
theory Net_Observe
  imports Net_Client
begin

text \<open>
  Observers (\<open>src/messaging/coap/observe.c\<close>): registration and removal. An observer belongs to a
  resource, which counts its observers, and is identified by endpoint and path, by endpoint
  and token, or by endpoint and the id of the last notification.
\<close>

section \<open>Operations\<close>

definition zero_observer :: coap_observer where
  "zero_observer = \<lparr>oresource = NULL_PTR, ourl = [], oendpoint = zero_endpoint, otoken_len = 0,
     otoken = replicate COAP_TOKEN_LEN 0, last_mid = 0, oblock2_size = 0, obs_counter = 0\<rparr>"

definition add_num_observers :: "net \<Rightarrow> addr \<Rightarrow> u8 \<Rightarrow> net" where
  "add_num_observers s r d =
     s\<lparr>resources := (resources s)(r := (resources s r)\<lparr>num_observers := num_observers (resources s r) + d\<rparr>)\<rparr>"

definition drop_observer :: "net \<Rightarrow> addr \<Rightarrow> net" where
  "drop_observer s a =
     s\<lparr>observers_list := remove1 a (observers_list s), observers := free_obj observers_memb (observers s) a\<rparr>"

definition coap_remove_observer_handle_by_uri :: "net \<Rightarrow> oc_endpoint \<Rightarrow> bytes \<Rightarrow> (net \<times> int) option" where
  "coap_remove_observer_handle_by_uri s endpoint ur = do {
     r \<leftarrow> find_on (observers s) (\<lambda>x. oc_endpoint_compare (oendpoint x) endpoint = 0 \<and> ourl x = ur) (observers_list s);
     case r of
       None \<Rightarrow> Some (s, 0)
     | Some a \<Rightarrow> do {
         x \<leftarrow> observers s a;
         Some (drop_observer (add_num_observers s (oresource x) (- 1)) a, 1)
       }
   }"

definition add_observer ::
  "net \<Rightarrow> addr \<Rightarrow> u16 \<Rightarrow> oc_endpoint \<Rightarrow> bytes \<Rightarrow> nat \<Rightarrow> bytes \<Rightarrow> (net \<times> int) option" where
  "add_observer s res block2 endpoint tok tok_len ur = do {
     (s, dup) \<leftarrow> coap_remove_observer_handle_by_uri s endpoint ur;
     case alloc_obj observers_memb (observers s) zero_observer of
       (h, Some a) \<Rightarrow> do {
         bs \<leftarrow> rd_slice tok 0 tok_len;
         let s = s\<lparr>observers := h(a \<mapsto> zero_observer\<lparr>ourl := ur, oendpoint := endpoint, otoken_len := of_nat tok_len,
           otoken := splice 0 bs (otoken zero_observer), last_mid := 0, obs_counter := observe_counter s, oresource := res,
           oblock2_size := block2\<rparr>)\<rparr>;
         let s = add_num_observers s res 1;
         Some (s\<lparr>observers_list := observers_list s @ [a]\<rparr>, dup)
       }
     | (h, None) \<Rightarrow> Some (s, - 1)
   }"

text \<open>The path of a resource without its leading slash.\<close>

definition res_path :: "net_resource \<Rightarrow> bytes" where
  "res_path r = tl (map of_char (uri r))"

abbreviation (input) "COAP_GET \<equiv> 1 :: u8"

definition coap_remove_observer :: "net \<Rightarrow> addr \<Rightarrow> net option" where
  "coap_remove_observer s a = do {
     x \<leftarrow> observers s a;
     rs \<leftarrow> oc_blockwise_find_response_buffer s (res_path (resources s (oresource x))) (oendpoint x) COAP_GET [] OC_BLOCKWISE_SERVER;
     s \<leftarrow> (case rs of
            Some b \<Rightarrow> do { y \<leftarrow> responses s b; Some (s\<lparr>responses := (responses s)(b \<mapsto> y\<lparr>bref := 0\<rparr>)\<rparr>) }
          | None \<Rightarrow> Some s);
     Some (drop_observer s a)
   }"

text \<open>A loop over the observers that reads the successor before it removes one: it visits the
  elements the list has at the start. With \<open>once\<close> it ends after the first removal.\<close>

primrec remove_loop_obs ::
  "(net \<Rightarrow> coap_observer \<Rightarrow> bool) \<Rightarrow> bool \<Rightarrow> net \<Rightarrow> int \<Rightarrow> addr list \<Rightarrow> (net \<times> int) option" where
  "remove_loop_obs P once s n [] = Some (s, n)"
| "remove_loop_obs P once s n (a # as) = do {
     x \<leftarrow> observers s a;
     if P s x then do {
       s \<leftarrow> coap_remove_observer (add_num_observers s (oresource x) (- 1)) a;
       if once then Some (s, n + 1) else remove_loop_obs P once s (n + 1) as
     }
     else remove_loop_obs P once s n as
   }"

primrec free_all_loop :: "net \<Rightarrow> addr list \<Rightarrow> net option" where
  "free_all_loop s [] = Some s"
| "free_all_loop s (a # as) = do { s \<leftarrow> coap_remove_observer s a; free_all_loop s as }"

definition coap_free_all_observers :: "net \<Rightarrow> net option" where
  "coap_free_all_observers s = free_all_loop s (observers_list s)"

definition coap_remove_observer_by_client :: "net \<Rightarrow> oc_endpoint \<Rightarrow> (net \<times> int) option" where
  "coap_remove_observer_by_client s endpoint =
     remove_loop_obs (\<lambda>s x. oc_endpoint_compare (oendpoint x) endpoint = 0) False s 0 (observers_list s)"

definition coap_remove_observer_by_token :: "net \<Rightarrow> oc_endpoint \<Rightarrow> bytes \<Rightarrow> nat \<Rightarrow> (net \<times> int) option" where
  "coap_remove_observer_by_token s endpoint tok tok_len =
     remove_loop_obs (\<lambda>s x. oc_endpoint_compare (oendpoint x) endpoint = 0 \<and> unat (otoken_len x) = tok_len \<and>
       take tok_len (otoken x) = take tok_len tok) True s 0 (observers_list s)"

definition coap_remove_observer_by_mid :: "net \<Rightarrow> oc_endpoint \<Rightarrow> u16 \<Rightarrow> (net \<times> int) option" where
  "coap_remove_observer_by_mid s endpoint m =
     remove_loop_obs (\<lambda>s x. oc_endpoint_compare (oendpoint x) endpoint = 0 \<and> last_mid x = m) True s 0 (observers_list s)"

definition coap_remove_observer_by_resource :: "net \<Rightarrow> addr \<Rightarrow> (net \<times> int) option" where
  "coap_remove_observer_by_resource s r =
     remove_loop_obs (\<lambda>s x. oresource x = r \<and> uri (resources s r) \<noteq> [] \<and> ourl x = res_path (resources s r)) False s 0 (observers_list s)"

text \<open>The request's path is the string its pointer and length denote in the receive buffer.\<close>

definition coap_observe_handler ::
  "net \<Rightarrow> bytes \<Rightarrow> coap_packet \<Rightarrow> coap_packet \<Rightarrow> addr \<Rightarrow> u16 \<Rightarrow> oc_endpoint \<Rightarrow> (net \<times> int) option" where
  "coap_observe_handler s rx req res r block2 endpoint =
     (if code req = COAP_GET \<and> code res < 128 \<and> IS_OPTION req COAP_OPTION_OBSERVE then
        if observe req = 0 then
          add_observer s r block2 endpoint (token req) (unat (token_len req)) (str_bytes rx (uri_path req) (uri_path_len req))
        else if observe req = 1 then
          coap_remove_observer_by_token s endpoint (token req) (unat (token_len req))
        else Some (s, - 1)
      else Some (s, - 1))"

section \<open>The invariant\<close>

definition obs_count :: "net \<Rightarrow> addr \<Rightarrow> nat" where
  "obs_count s r = length (filter (\<lambda>a. oresource (the (observers s a)) = r) (observers_list s))"

definition same_observer :: "coap_observer \<Rightarrow> coap_observer \<Rightarrow> bool" where
  "same_observer x y \<longleftrightarrow> oc_endpoint_compare (oendpoint x) (oendpoint y) = 0 \<and> ourl x = ourl y"

text \<open>Observers are live exactly while they are on the list, a resource knows the number of its
  observers, and no endpoint observes a path twice.\<close>

definition obs_inv :: "net \<Rightarrow> bool" where
  "obs_inv s \<longleftrightarrow> registry observers_memb (observers s) (observers_list s) \<and>
     (\<forall>r. unat (num_observers (resources s r)) = obs_count s r) \<and>
     (\<forall>a b x y. observers s a = Some x \<longrightarrow> observers s b = Some y \<longrightarrow> same_observer x y \<longrightarrow> a = b)"

lemma endpoint_compare_iff:
  "oc_endpoint_compare a b = 0 \<longleftrightarrow> flags a AND NOT MULTICAST = flags b AND NOT MULTICAST \<and> edevice a = edevice b \<and>
     address a = address b \<and> port a = port b \<and> (flags a AND IPV6 \<noteq> 0 \<or> flags a AND IPV4 \<noteq> 0)"
  unfolding oc_endpoint_compare_def by (cases "flags a AND IPV6 = 0"; cases "flags a AND IPV4 = 0"; simp; blast)

lemma flags_bits:
  fixes x y m :: u32
  assumes "x AND NOT MULTICAST = y AND NOT MULTICAST" and "m AND NOT MULTICAST = m"
  shows "x AND m = y AND m"
proof -
  have "z AND m = (z AND NOT MULTICAST) AND m" for z by (metis assms(2) and.assoc and.commute)
  with assms(1) show ?thesis by metis
qed

lemma ip_bits: "IPV6 AND NOT MULTICAST = IPV6" "IPV4 AND NOT MULTICAST = IPV4"
  by simp_all

lemma endpoint_compare_sym: "oc_endpoint_compare a b = 0 \<Longrightarrow> oc_endpoint_compare b a = 0"
  using flags_bits [of "flags a" "flags b", OF _ ip_bits(1)] flags_bits [of "flags a" "flags b", OF _ ip_bits(2)]
  by (simp only: endpoint_compare_iff)

lemma endpoint_compare_trans:
  "oc_endpoint_compare a e = 0 \<Longrightarrow> oc_endpoint_compare b e = 0 \<Longrightarrow> oc_endpoint_compare a b = 0"
  by (simp only: endpoint_compare_iff)

lemma add_num_observers_simps [simp]:
  "observers (add_num_observers s r d) = observers s" "observers_list (add_num_observers s r d) = observers_list s"
  "responses (add_num_observers s r d) = responses s" "obs_count (add_num_observers s r d) = obs_count s"
  "num_observers (resources (add_num_observers s r d) q) = num_observers (resources s q) + (if q = r then d else 0)"
  "uri (resources (add_num_observers s r d) q) = uri (resources s q)"
  "oc_blockwise_responses (add_num_observers s r d) = oc_blockwise_responses s"
  by (auto simp: add_num_observers_def obs_count_def fun_eq_iff)

lemma drop_observer_simps [simp]:
  "observers_list (drop_observer s a) = remove1 a (observers_list s)" "resources (drop_observer s a) = resources s"
  "responses (drop_observer s a) = responses s"
  by (simp_all add: drop_observer_def)

lemma obs_count_remove:
  assumes reg: "registry observers_memb (observers s) (observers_list s)" and x: "observers s a = Some x"
  shows "obs_count (drop_observer s a) r = obs_count s r - (if r = oresource x then 1 else 0)"
    and "r = oresource x \<Longrightarrow> 0 < obs_count s r"
proof -
  have dist: "distinct (observers_list s)" and a: "a \<in> set (observers_list s)"
    using reg x by (auto simp: registry_def)
  have h: "observers (drop_observer s a) = (observers s)(a := None)" using registry_free [OF reg] by (simp add: drop_observer_def)
  let ?P = "\<lambda>a. oresource (the (observers s a)) = r"
  have "filter (\<lambda>b. oresource (the (observers (drop_observer s a) b)) = r) (remove1 a (observers_list s)) =
      filter ?P (remove1 a (observers_list s))"
    using dist h by (intro filter_cong) auto
  also have "\<dots> = remove1 a (filter ?P (observers_list s))" by (rule filter_remove1)
  finally show "obs_count (drop_observer s a) r = obs_count s r - (if r = oresource x then 1 else 0)"
    using a x by (simp add: obs_count_def length_remove1)
  show "0 < obs_count s r" if "r = oresource x"
    using a x that by (auto simp: obs_count_def filter_empty_conv intro!: bexI [of _ a])
qed

text \<open>Removing one observer and counting it out keeps the invariant.\<close>

lemma obs_inv_drop:
  assumes inv: "obs_inv s" and x: "observers s a = Some x"
  shows "obs_inv (drop_observer (add_num_observers s (oresource x) (- 1)) a)"
proof -
  let ?s = "add_num_observers s (oresource x) (- 1)"
  have reg: "registry observers_memb (observers ?s) (observers_list ?s)" using inv by (simp add: obs_inv_def)
  note cnt = obs_count_remove [OF reg, of a x]
  have h: "observers (drop_observer ?s a) = (observers s)(a := None)" using registry_free [OF reg] by (simp add: drop_observer_def)
  have "unat (num_observers (resources (drop_observer ?s a) r)) = obs_count (drop_observer ?s a) r" for r
  proof (cases "r = oresource x")
    case True
    have "unat (num_observers (resources s r) - 1) = unat (num_observers (resources s r)) - 1"
      using cnt(2) [of r] x True inv by (intro unat_u8_dec) (simp add: obs_inv_def)
    then show ?thesis using cnt(1) [of r] x True inv by (simp add: obs_inv_def)
  next
    case False
    then show ?thesis using cnt(1) [of r] x inv by (simp add: obs_inv_def)
  qed
  moreover have "registry observers_memb (observers (drop_observer ?s a)) (observers_list (drop_observer ?s a))"
    using registry_remove [OF reg, of a] by (simp add: drop_observer_def)
  moreover have "\<forall>b c y z. observers (drop_observer ?s a) b = Some y \<longrightarrow> observers (drop_observer ?s a) c = Some z \<longrightarrow>
      same_observer y z \<longrightarrow> b = c"
    using inv by (auto simp: h obs_inv_def)
  ultimately show ?thesis by (simp add: obs_inv_def)
qed

section \<open>Removal\<close>

definition same_but_ref :: "(addr \<Rightarrow> oc_blockwise_state option) \<Rightarrow> (addr \<Rightarrow> oc_blockwise_state option) \<Rightarrow> bool" where
  "same_but_ref h h' \<longleftrightarrow> (\<forall>b. map_option (\<lambda>y. y\<lparr>bref := 0\<rparr>) (h b) = map_option (\<lambda>y. y\<lparr>bref := 0\<rparr>) (h' b))"

definition obs_frame :: "net \<Rightarrow> net \<Rightarrow> bool" where
  "obs_frame s s' \<longleftrightarrow>
     s' = s\<lparr>resources := resources s', observers := observers s', observers_list := observers_list s', responses := responses s'\<rparr> \<and>
     same_but_ref (responses s') (responses s) \<and>
     (\<forall>r. (resources s' r)\<lparr>num_observers := 0\<rparr> = (resources s r)\<lparr>num_observers := 0\<rparr>)"

lemma same_but_ref_refl [simp]: "same_but_ref h h"
  by (simp add: same_but_ref_def)

lemma obs_frame_refl [simp]: "obs_frame s s"
  by (simp add: obs_frame_def)

lemma obs_frame_trans: "obs_frame s s' \<Longrightarrow> obs_frame s' s'' \<Longrightarrow> obs_frame s s''"
  unfolding obs_frame_def same_but_ref_def by (cases s, cases s', cases s'') simp

lemma obs_frame_drop [simp]: "obs_frame s (drop_observer (add_num_observers s r d) a)"
  by (auto simp: obs_frame_def drop_observer_def add_num_observers_def)

lemma same_but_ref_dom: "same_but_ref h h' \<Longrightarrow> h b = None \<longleftrightarrow> h' b = None"
  unfolding same_but_ref_def by (metis map_option_is_None)

lemma same_but_ref_eq:
  assumes "same_but_ref h h'" and "h b = Some y"
  shows "\<exists>y'. h' b = Some y' \<and> y\<lparr>bref := 0\<rparr> = y'\<lparr>bref := 0\<rparr>"
proof -
  obtain y' where y': "h' b = Some y'" using same_but_ref_dom [OF assms(1), of b] assms(2) by auto
  with assms show ?thesis by (auto simp: same_but_ref_def dest!: spec [of _ b])
qed

lemma same_but_ref_cb: "same_but_ref h h' \<Longrightarrow> h b = Some y \<Longrightarrow> \<exists>y'. h' b = Some y' \<and> bclient_cb y' = bclient_cb y"
proof -
  assume *: "same_but_ref h h'" "h b = Some y"
  then obtain y' where y': "h' b = Some y'" using same_but_ref_dom [OF *(1), of b] by auto
  with * have "y\<lparr>bref := 0\<rparr> = y'\<lparr>bref := 0\<rparr>" by (auto simp: same_but_ref_def dest!: spec [of _ b])
  then have "bclient_cb (y\<lparr>bref := 0\<rparr>) = bclient_cb (y'\<lparr>bref := 0\<rparr>)" by simp
  with y' show ?thesis by simp
qed

lemma obs_frame_inv:
  assumes "obs_frame s s'"
  shows "bw_inv s \<Longrightarrow> bw_inv s'" and "callbacks_ok s \<Longrightarrow> callbacks_ok s'" and "net_timers s ts \<Longrightarrow> net_timers s' ts"
    and "cb_inv s \<Longrightarrow> cb_inv s'"
proof -
  have r: "same_but_ref (responses s') (responses s)" and eq: "s' = s\<lparr>resources := resources s', observers := observers s',
    observers_list := observers_list s', responses := responses s'\<rparr>"
    using assms by (simp_all add: obs_frame_def)
  have h: "requests s' = requests s" "bw_list b s' = bw_list b s" "pending s' = pending s" for b
    by (subst eq, cases b, simp_all add: pending_def)+
  have dom: "bw_heap b s' a = None \<longleftrightarrow> bw_heap b s a = None" for b a
    using same_but_ref_dom [OF r] h by (cases b) auto
  show "bw_inv s'" if "bw_inv s"
  proof -
    have "registry (bw_pool b) (bw_heap b s') (bw_list b s')" for b
      using that dom [of b] h(2) [of b] by (auto simp: bw_inv_def registry_def dom_def)
    moreover have "buffer_ok y" if "bw_heap b s' a = Some y" for b a y
    proof -
      have "same_but_ref (bw_heap b s') (bw_heap b s)" using r h(1) by (cases b) simp_all
      from same_but_ref_eq [OF this that] obtain y' where "bw_heap b s a = Some y'" "y\<lparr>bref := 0\<rparr> = y'\<lparr>bref := 0\<rparr>" by blast
      moreover from this have "buffer_ok y'" using \<open>bw_inv s\<close> unfolding bw_inv_def by blast
      ultimately show ?thesis by (cases y, cases y') (simp add: buffer_ok_def)
    qed
    ultimately show ?thesis using that by (simp add: bw_inv_def h dom)
  qed
  show "callbacks_ok s \<Longrightarrow> callbacks_ok s'" "net_timers s ts \<Longrightarrow> net_timers s' ts"
    by (subst eq, simp add: callbacks_ok_def net_timers_def)+
  show "cb_inv s'" if "cb_inv s"
  proof -
    have c: "ccbs s' = ccbs s" "client_cbs s' = client_cbs s" by (subst eq, simp)+
    have "bclient_cb x = NULL_PTR \<or> ccbs s (bclient_cb x) \<noteq> None" if "bw_heap b s' a = Some x" for b a x
      using that same_but_ref_cb [OF r, of a x] \<open>cb_inv s\<close> h(1) by (cases b) (fastforce simp: cb_inv_def dest: spec [of _ Request] spec [of _ Response])+
    with that c show ?thesis by (simp add: cb_inv_def)
  qed
qed

lemma remove_observer_shape:
  assumes "bw_inv s" and "observers s a = Some x"
  shows "\<exists>h. coap_remove_observer s a = Some (drop_observer (s\<lparr>responses := h\<rparr>) a) \<and> same_but_ref h (responses s)"
proof -
  have reg: "registry (bw_pool Response) (bw_heap Response s) (bw_list Response s)"
    using assms(1) unfolding bw_inv_def by blast
  obtain r where r: "oc_blockwise_find_response_buffer s (res_path (resources s (oresource x))) (oendpoint x) COAP_GET []
      OC_BLOCKWISE_SERVER = Some r" "\<forall>b. r = Some b \<longrightarrow> responses s b \<noteq> None"
    using find_on_registry [OF reg] registry_live [OF reg]
    by (auto simp: oc_blockwise_find_response_buffer_def oc_blockwise_find_buffer_def dest!: find_SomeD)
  show ?thesis
  proof (cases r)
    case None
    then show ?thesis using r assms(2)
      by (intro exI [of _ "responses s"]) (simp add: coap_remove_observer_def)
  next
    case (Some b)
    then obtain y where y: "responses s b = Some y" using r(2) by auto
    let ?h = "(responses s)(b \<mapsto> y\<lparr>bref := 0\<rparr>)"
    have "same_but_ref ?h (responses s)" using y by (simp add: same_but_ref_def)
    then show ?thesis using r Some y assms(2) by (intro exI [of _ ?h]) (simp add: coap_remove_observer_def)
  qed
qed

lemma remove_counted_ok:
  assumes "bw_inv s" and inv: "obs_inv s" and x: "observers s a = Some x"
  shows "\<exists>s'. coap_remove_observer (add_num_observers s (oresource x) (- 1)) a = Some s' \<and> obs_inv s' \<and> obs_frame s s' \<and>
     observers s' = (observers s)(a := None) \<and> observers_list s' = remove1 a (observers_list s)"
proof -
  let ?s = "add_num_observers s (oresource x) (- 1)"
  have "bw_inv ?s" by (rule obs_frame_inv(1) [OF _ assms(1)]) (auto simp: obs_frame_def add_num_observers_def)
  then obtain h where h: "coap_remove_observer ?s a = Some (drop_observer (?s\<lparr>responses := h\<rparr>) a)" "same_but_ref h (responses s)"
    using remove_observer_shape [of ?s a x] x by auto
  let ?s' = "drop_observer (?s\<lparr>responses := h\<rparr>) a"
  have reg: "registry observers_memb (observers s) (observers_list s)" using inv by (simp add: obs_inv_def)
  have eq: "?s' = (drop_observer ?s a)\<lparr>responses := h\<rparr>" by (simp add: drop_observer_def)
  have "obs_inv ?s'" using obs_inv_drop [OF inv x] unfolding eq by (simp add: obs_inv_def obs_count_def)
  moreover have "obs_frame s ?s'"
    unfolding eq using h(2) by (auto simp: obs_frame_def drop_observer_def add_num_observers_def)
  moreover have "observers ?s' = (observers s)(a := None)" "observers_list ?s' = remove1 a (observers_list s)"
    using registry_free [OF reg] by (simp_all add: drop_observer_def)
  ultimately show ?thesis using h(1) by blast
qed

text \<open>The loop that removes all observers with a property that does not depend on the counters.\<close>

lemma remove_all_ok:
  "bw_inv s \<Longrightarrow> obs_inv s \<Longrightarrow> distinct as \<Longrightarrow> \<forall>a \<in> set as. observers s a \<noteq> None \<Longrightarrow>
   (\<And>s' x. obs_frame s s' \<Longrightarrow> P s' x = P s x) \<Longrightarrow>
   \<exists>s'. remove_loop_obs P False s n as = Some (s', n + int (length (filter (\<lambda>a. P s (the (observers s a))) as))) \<and>
     obs_inv s' \<and> obs_frame s s' \<and>
     observers s' = (\<lambda>a. if a \<in> set as \<and> P s (the (observers s a)) then None else observers s a)"
proof (induction as arbitrary: s n)
  case Nil
  show ?case using Nil(2) by (intro exI [of _ s]) simp
next
  case (Cons a as)
  obtain x where x: "observers s a = Some x" using Cons.prems(4) by auto
  have rest: "distinct as" "\<forall>a \<in> set as. observers s a \<noteq> None" using Cons.prems(3,4) by simp_all
  show ?case
  proof (cases "P s x")
    case False
    obtain s' where s': "remove_loop_obs P False s n as = Some (s', n + int (length (filter (\<lambda>a. P s (the (observers s a))) as)))"
      "obs_inv s'" "obs_frame s s'" "observers s' = (\<lambda>a. if a \<in> set as \<and> P s (the (observers s a)) then None else observers s a)"
      using Cons.IH [OF Cons.prems(1,2) rest Cons.prems(5), of n] by blast
    with False x show ?thesis by (intro exI [of _ s']) (auto simp: fun_eq_iff)
  next
    case True
    obtain s1 where s1: "coap_remove_observer (add_num_observers s (oresource x) (- 1)) a = Some s1" "obs_inv s1" "obs_frame s s1"
      "observers s1 = (observers s)(a := None)"
      using remove_counted_ok [OF Cons.prems(1,2) x] by blast
    have P1: "P s1 y = P s y" for y by (rule Cons.prems(5) [OF s1(3)])
    have P2: "P s' y = P s1 y" if "obs_frame s1 s'" for s' y
      by (rule trans [OF Cons.prems(5) [OF obs_frame_trans [OF s1(3) that]] P1 [symmetric]])
    have rest1: "\<forall>a \<in> set as. observers s1 a \<noteq> None" using rest(2) Cons.prems(3) s1(4) by auto
    obtain s' where s': "remove_loop_obs P False s1 (n + 1) as =
        Some (s', n + 1 + int (length (filter (\<lambda>a. P s1 (the (observers s1 a))) as)))" "obs_inv s'" "obs_frame s1 s'"
      "observers s' = (\<lambda>a. if a \<in> set as \<and> P s1 (the (observers s1 a)) then None else observers s1 a)"
      using Cons.IH [OF obs_frame_inv(1) [OF s1(3) Cons.prems(1)] s1(2) rest(1) rest1 P2, of "n + 1"] by blast
    have "filter (\<lambda>a. P s1 (the (observers s1 a))) as = filter (\<lambda>a. P s (the (observers s a))) as"
      using Cons.prems(3) s1(4) by (intro filter_cong) (auto simp: P1)
    moreover have "observers s' = (\<lambda>b. if b \<in> set (a # as) \<and> P s (the (observers s b)) then None else observers s b)"
      using s'(4) s1(4) x True Cons.prems(3) by (auto simp: P1 fun_eq_iff)
    ultimately show ?thesis
      using s' s1(1) x True obs_frame_trans [OF s1(3) s'(3)] by (intro exI [of _ s']) simp
  qed
qed

text \<open>The loop that removes the first one.\<close>

lemma remove_first_ok:
  assumes "bw_inv s" and inv: "obs_inv s"
  shows "\<exists>s'. remove_loop_obs P True s 0 (observers_list s) =
     Some (s', case find (\<lambda>a. P s (the (observers s a))) (observers_list s) of None \<Rightarrow> 0 | Some a \<Rightarrow> 1) \<and>
     obs_inv s' \<and> obs_frame s s' \<and>
     observers s' = (case find (\<lambda>a. P s (the (observers s a))) (observers_list s) of
       None \<Rightarrow> observers s | Some a \<Rightarrow> (observers s)(a := None))"
proof -
  have "\<forall>a \<in> set as. observers s a \<noteq> None \<Longrightarrow>
     remove_loop_obs P True s n as =
       (case find (\<lambda>a. P s (the (observers s a))) as of
          None \<Rightarrow> Some (s, n)
        | Some a \<Rightarrow> do { s' \<leftarrow> coap_remove_observer (add_num_observers s (oresource (the (observers s a))) (- 1)) a; Some (s', n + 1) })"
    for as n by (induction as) auto
  moreover have live: "\<forall>a \<in> set (observers_list s). observers s a \<noteq> None" using inv by (auto simp: obs_inv_def registry_def)
  ultimately have eq: "remove_loop_obs P True s 0 (observers_list s) =
       (case find (\<lambda>a. P s (the (observers s a))) (observers_list s) of
          None \<Rightarrow> Some (s, 0)
        | Some a \<Rightarrow> do { s' \<leftarrow> coap_remove_observer (add_num_observers s (oresource (the (observers s a))) (- 1)) a; Some (s', 0 + 1) })"
    by blast
  show ?thesis
  proof (cases "find (\<lambda>a. P s (the (observers s a))) (observers_list s)")
    case None
    with eq inv show ?thesis by (intro exI [of _ s]) simp
  next
    case (Some a)
    then obtain x where x: "observers s a = Some x" using find_SomeD [OF Some] live by auto
    obtain s' where "coap_remove_observer (add_num_observers s (oresource x) (- 1)) a = Some s'" "obs_inv s'" "obs_frame s s'"
      "observers s' = (observers s)(a := None)"
      using remove_counted_ok [OF assms x] by blast
    with eq Some x show ?thesis by (intro exI [of _ s']) simp
  qed
qed

section \<open>Registration\<close>

lemma handle_by_uri_ok:
  assumes inv: "obs_inv s"
  shows "\<exists>s' n. coap_remove_observer_handle_by_uri s endpoint ur = Some (s', n) \<and> obs_inv s' \<and> obs_frame s s' \<and>
     n = (if \<exists>a x. observers s a = Some x \<and> oc_endpoint_compare (oendpoint x) endpoint = 0 \<and> ourl x = ur then 1 else 0) \<and>
     observers s' = (\<lambda>a. case observers s a of None \<Rightarrow> None
       | Some x \<Rightarrow> if oc_endpoint_compare (oendpoint x) endpoint = 0 \<and> ourl x = ur then None else Some x) \<and>
     observe_counter s' = observe_counter s"
proof -
  let ?P = "\<lambda>x. oc_endpoint_compare (oendpoint x) endpoint = 0 \<and> ourl x = ur"
  have reg: "registry observers_memb (observers s) (observers_list s)" using inv by (simp add: obs_inv_def)
  note find = find_on_registry [OF reg, of ?P]
  show ?thesis
  proof (cases "find (\<lambda>a. ?P (the (observers s a))) (observers_list s)")
    case None
    then have "\<forall>a \<in> set (observers_list s). \<not> ?P (the (observers s a))" by (auto simp: find_None_iff)
    then have no: "\<not> ?P x" if "observers s a = Some x" for a x
      using that registry_live [OF reg, of a] by (metis option.sel option.distinct(1))
    then have "observers s = (\<lambda>a. case observers s a of None \<Rightarrow> None | Some x \<Rightarrow> if ?P x then None else Some x)"
      by (auto simp: fun_eq_iff split: option.splits)
    with None find no inv show ?thesis
      by (intro exI [of _ s] exI [of _ "0 :: int"]) (auto simp: coap_remove_observer_handle_by_uri_def)
  next
    case (Some a)
    then obtain x where x: "observers s a = Some x" "?P x" using find_SomeD [OF Some] registry_live [OF reg, of a] by auto
    let ?s = "drop_observer (add_num_observers s (oresource x) (- 1)) a"
    have "same_observer y x" if "?P y" for y
      using endpoint_compare_trans that x(2) by (auto simp: same_observer_def)
    then have uniq: "\<not> ?P y" if "observers s b = Some y" "b \<noteq> a" for b y
      using inv that x(1) unfolding obs_inv_def by blast
    have h: "observers ?s = (observers s)(a := None)" using registry_free [OF reg, of a] by (simp add: drop_observer_def)
    have "observers ?s b = (case observers s b of None \<Rightarrow> None | Some y \<Rightarrow> if ?P y then None else Some y)" for b
    proof (cases "b = a")
      case True
      with x show ?thesis by (simp add: h)
    next
      case False
      with uniq [of b] show ?thesis by (cases "observers s b") (simp_all add: h)
    qed
    then have "observers ?s = (\<lambda>b. case observers s b of None \<Rightarrow> None | Some y \<Rightarrow> if ?P y then None else Some y)" by blast
    moreover have "coap_remove_observer_handle_by_uri s endpoint ur = Some (?s, 1)"
      using find Some x by (simp add: coap_remove_observer_handle_by_uri_def)
    moreover have "observe_counter ?s = observe_counter s" by (simp add: drop_observer_def add_num_observers_def)
    ultimately show ?thesis using obs_inv_drop [OF inv x(1)] x by (intro exI [of _ ?s] exI [of _ "1 :: int"]) auto
  qed
qed

lemma obs_count_bound: "registry observers_memb (observers s) (observers_list s) \<Longrightarrow> obs_count s r \<le> 7"
proof -
  assume reg: "registry observers_memb (observers s) (observers_list s)"
  have "length (observers_list s) = card (set (observers_list s))"
    using reg distinct_card [of "observers_list s"] by (auto simp: registry_def)
  also have "\<dots> \<le> card (set observers_memb)" using reg by (intro card_mono) (auto simp: registry_def)
  finally have "length (observers_list s) \<le> 7" by (simp add: pool_defs)
  moreover have "obs_count s r \<le> length (observers_list s)" by (simp add: obs_count_def)
  ultimately show ?thesis by simp
qed

text \<open>Putting a new observer on the list and counting it in.\<close>

lemma obs_inv_insert:
  assumes inv: "obs_inv s" and a: "a \<in> set observers_memb" "observers s a = None"
    and new: "\<And>b y. observers s b = Some y \<Longrightarrow> \<not> (oc_endpoint_compare (oendpoint y) (oendpoint x) = 0 \<and> ourl y = ourl x)"
  defines "s' \<equiv> (add_num_observers (s\<lparr>observers := (observers s)(a \<mapsto> x)\<rparr>) (oresource x) 1)\<lparr>observers_list := observers_list s @ [a]\<rparr>"
  shows "obs_inv s'" and "obs_frame s s'" and "observers s' = (observers s)(a \<mapsto> x)"
proof -
  have reg: "registry observers_memb (observers s) (observers_list s)" using inv by (simp add: obs_inv_def)
  show h: "observers s' = (observers s)(a \<mapsto> x)" by (simp add: s'_def add_num_observers_def)
  show "obs_frame s s'" by (simp add: s'_def obs_frame_def add_num_observers_def)
  have l: "observers_list s' = observers_list s @ [a]" by (simp add: s'_def)
  have notin: "a \<notin> set (observers_list s)" using reg a(2) by (auto simp: registry_def)
  have "filter (\<lambda>b. oresource (the (((observers s)(a \<mapsto> x)) b)) = r) (observers_list s) =
      filter (\<lambda>b. oresource (the (observers s b)) = r) (observers_list s)" for r
    using notin by (intro filter_cong) auto
  then have cnt: "obs_count s' r = obs_count s r + (if r = oresource x then 1 else 0)" for r
    by (simp add: obs_count_def h l)
  have "unat (num_observers (resources s' r)) = obs_count s' r" for r
  proof -
    have "unat (num_observers (resources s r)) = obs_count s r" using inv by (simp add: obs_inv_def)
    moreover have "obs_count s r < 255" using obs_count_bound [OF reg, of r] by simp
    moreover have "num_observers (resources s' r) = num_observers (resources s r) + (if r = oresource x then 1 else 0)"
      by (simp add: s'_def add_num_observers_def)
    ultimately show ?thesis
      using unat_u8_inc [of "num_observers (resources s r)"] by (cases "r = oresource x") (simp_all add: cnt)
  qed
  moreover have "registry observers_memb (observers s') (observers_list s')"
    using registry_add [OF reg a, of x] by (simp add: h l)
  moreover have "b = c" if "observers s' b = Some y" "observers s' c = Some z" "same_observer y z" for b c y z
  proof (cases "b = a \<or> c = a")
    case False
    then show ?thesis using that inv unfolding obs_inv_def by (simp add: h)
  next
    case True
    show ?thesis
    proof (rule ccontr)
      assume "b \<noteq> c"
      with True that show False
        using new [of b y] new [of c z] endpoint_compare_sym [of "oendpoint y" "oendpoint z"]
        by (auto simp: h same_observer_def split: if_splits)
    qed
  qed
  ultimately show "obs_inv s'" by (auto simp: obs_inv_def)
qed

lemma add_observer_ok:
  assumes inv: "obs_inv s" and tok: "tok_len \<le> length tok" and len: "tok_len \<le> COAP_TOKEN_LEN"
  shows "\<exists>s' n. add_observer s res b2 endpoint tok tok_len ur = Some (s', n) \<and> obs_inv s' \<and> obs_frame s s' \<and>
     (let others = (\<lambda>a. case observers s a of None \<Rightarrow> None
        | Some x \<Rightarrow> if oc_endpoint_compare (oendpoint x) endpoint = 0 \<and> ourl x = ur then None else Some x)
      in if n = - 1 then observers s' = observers s \<and> obj_room observers_memb (observers s) = 0
         else n = (if others = observers s then 0 else 1) \<and>
           (\<exists>a x. others a = None \<and> observers s' = others(a \<mapsto> x) \<and> oresource x = res \<and> oendpoint x = endpoint \<and> ourl x = ur \<and>
             otoken_len x = of_nat tok_len \<and> take tok_len (otoken x) = take tok_len tok))"
proof -
  define others where "others = (\<lambda>a. case observers s a of None \<Rightarrow> None
        | Some x \<Rightarrow> if oc_endpoint_compare (oendpoint x) endpoint = 0 \<and> ourl x = ur then None else Some x)"
  obtain s1 n where s1: "coap_remove_observer_handle_by_uri s endpoint ur = Some (s1, n)" "obs_inv s1" "obs_frame s s1"
    "n = (if \<exists>a x. observers s a = Some x \<and> oc_endpoint_compare (oendpoint x) endpoint = 0 \<and> ourl x = ur then 1 else 0)"
    "observers s1 = others" "observe_counter s1 = observe_counter s"
    using handle_by_uri_ok [OF inv, of endpoint ur, folded others_def] by blast
  have n: "n = (if others = observers s then 0 else 1)"
    using s1(4) by (auto simp: others_def fun_eq_iff split: option.splits)
  show ?thesis
  proof (rule alloc_obj_cases [of observers_memb "observers s1" zero_observer], goal_cases)
    case 1
    then have ret: "add_observer s res b2 endpoint tok tok_len ur = Some (s1, - 1)" using s1(1) by (simp add: add_observer_def)
    have "registry observers_memb (observers s) (observers_list s)" using inv by (simp add: obs_inv_def)
    then have "others = observers s"
      using 1(2) by (auto simp: s1(5) registry_def others_def fun_eq_iff dom_def split: option.splits if_splits)
    moreover from this have "obj_room observers_memb (observers s) = 0" using 1(2) s1(5) by (simp add: obj_room_def)
    ultimately show ?thesis using ret s1(2,3,5) by (intro exI [of _ s1] exI [of _ "- 1"]) (simp add: Let_def)
  next
    case (2 a)
    define x where "x = zero_observer\<lparr>ourl := ur, oendpoint := endpoint, otoken_len := of_nat tok_len,
      otoken := splice 0 (take tok_len tok) (otoken zero_observer), last_mid := 0, obs_counter := observe_counter s, oresource := res,
      oblock2_size := b2\<rparr>"
    let ?s' = "(add_num_observers (s1\<lparr>observers := (observers s1)(a \<mapsto> x)\<rparr>) (oresource x) 1)\<lparr>observers_list := observers_list s1 @ [a]\<rparr>"
    have ret: "add_observer s res b2 endpoint tok tok_len ur = Some (?s', n)"
      using s1(1,6) 2(1) tok by (simp add: add_observer_def rd_slice_def x_def)
    have "\<not> (oc_endpoint_compare (oendpoint y) (oendpoint x) = 0 \<and> ourl y = ourl x)" if "observers s1 b = Some y" for b y
      using that by (auto simp: s1(5) others_def x_def split: option.splits if_splits)
    note ins = obs_inv_insert [OF s1(2) 2(2,3) this]
    have "take tok_len (otoken x) = take tok_len tok"
      using len tok by (simp add: x_def splice_def zero_observer_def)
    moreover have "oresource x = res" "oendpoint x = endpoint" "ourl x = ur" "otoken_len x = of_nat tok_len" by (simp_all add: x_def)
    moreover have "n \<noteq> - 1" using n by simp
    ultimately show ?thesis
      using ret ins obs_frame_trans [OF s1(3) ins(2)] n 2(3) s1(5)
      by (intro exI [of _ ?s'] exI [of _ n]) (auto simp: others_def [symmetric] Let_def)
  qed
qed

section \<open>Properties\<close>

text \<open>C19: Registering an observer succeeds unless the pool is full and the pair of endpoint and path
  is new; it replaces the endpoint's previous observation of the path, leaves all others alone,
  and keeps the observers distinct and their numbers equal to the counters of the resources.\<close>

theorem coap_observe_registers:
  assumes "obs_inv s" and "tok_len \<le> length tok" and "tok_len \<le> COAP_TOKEN_LEN"
  shows "\<exists>s' n. add_observer s res b2 endpoint tok tok_len ur = Some (s', n) \<and> obs_inv s' \<and>
     (let others = (\<lambda>a. case observers s a of None \<Rightarrow> None
        | Some x \<Rightarrow> if oc_endpoint_compare (oendpoint x) endpoint = 0 \<and> ourl x = ur then None else Some x)
      in if n = - 1 then observers s' = observers s \<and> obj_room observers_memb (observers s) = 0
         else n = (if others = observers s then 0 else 1) \<and>
           (\<exists>a x. others a = None \<and> observers s' = others(a \<mapsto> x) \<and> oresource x = res \<and> oendpoint x = endpoint \<and> ourl x = ur \<and>
             otoken_len x = of_nat tok_len \<and> take tok_len (otoken x) = take tok_len tok))"
  using add_observer_ok [OF assms, of res b2 endpoint ur] by (elim exE conjE, intro exI conjI)

lemma init_obs_inv: "obs_inv init_net"
  by (simp add: obs_inv_def init_net_def registry_def obs_count_def)

theorem coap_observe_registers_witness:
  "\<exists>s'. add_observer init_net 9 512 zero_endpoint [1, 2] 2 [97] = Some (s', 0) \<and> obs_inv s' \<and>
     (\<exists>a x. observers s' = [a \<mapsto> x] \<and> ourl x = [97] \<and> take 2 (otoken x) = [1, 2])"
proof -
  have room: "obj_room observers_memb (observers init_net) \<noteq> 0" by (simp add: obj_room_def init_net_def pool_defs)
  have none: "observers init_net = Map.empty" by (simp add: init_net_def)
  have e: "(\<lambda>a. case observers init_net a of None \<Rightarrow> None
      | Some x \<Rightarrow> if oc_endpoint_compare (oendpoint x) zero_endpoint = 0 \<and> ourl x = [97] then None else Some x) = Map.empty"
    by (simp add: none)
  have p: "2 \<le> length [1 :: u8, 2]" "(2 :: nat) \<le> COAP_TOKEN_LEN" by simp_all
  obtain s' n where s': "add_observer init_net 9 512 zero_endpoint [1, 2] 2 [97] = Some (s', n)" "obs_inv s'"
    "if n = - 1 then observers s' = observers init_net \<and> obj_room observers_memb (observers init_net) = 0
     else n = (if Map.empty = observers init_net then 0 else 1) \<and>
       (\<exists>a x. (Map.empty :: addr \<Rightarrow> coap_observer option) a = None \<and> observers s' = [a \<mapsto> x] \<and> oresource x = 9 \<and>
         oendpoint x = zero_endpoint \<and> ourl x = [97] \<and> otoken_len x = of_nat 2 \<and> take 2 (otoken x) = take 2 [1, 2])"
    using coap_observe_registers [OF init_obs_inv p, of 9 512 zero_endpoint "[97]", unfolded e Let_def]
    by (elim exE conjE)
  have "n \<noteq> - 1" using s'(3) room by metis
  with s'(3) have "n = 0" and "\<exists>a x. observers s' = [a \<mapsto> x] \<and> ourl x = [97] \<and> take 2 (otoken x) = [1, 2]"
    by (simp_all add: none) blast
  with s'(1,2) show ?thesis by blast
qed

text \<open>C20: Removal of observers is exact: by client it removes all observers of the endpoint and
  returns their number; by token or message id it removes the first that matches, if any. The
  counters of the resources follow.\<close>

theorem coap_remove_observers_exact:
  assumes "bw_inv s" and "obs_inv s"
  shows "(\<exists>s'. coap_remove_observer_by_client s endpoint =
        Some (s', int (length (filter (\<lambda>a. oc_endpoint_compare (oendpoint (the (observers s a))) endpoint = 0) (observers_list s)))) \<and>
       obs_inv s' \<and> (\<forall>a. observers s' a = (case observers s a of None \<Rightarrow> None
         | Some x \<Rightarrow> if oc_endpoint_compare (oendpoint x) endpoint = 0 then None else Some x))) \<and>
     (\<exists>s' r. coap_remove_observer_by_mid s endpoint m = Some (s', if r = None then 0 else 1) \<and> obs_inv s' \<and>
       r = find (\<lambda>a. oc_endpoint_compare (oendpoint (the (observers s a))) endpoint = 0 \<and> last_mid (the (observers s a)) = m) (observers_list s) \<and>
       observers s' = (case r of None \<Rightarrow> observers s | Some a \<Rightarrow> (observers s)(a := None))) \<and>
     (\<exists>s' r. coap_remove_observer_by_token s endpoint tok n = Some (s', if r = None then 0 else 1) \<and> obs_inv s' \<and>
       r = find (\<lambda>a. oc_endpoint_compare (oendpoint (the (observers s a))) endpoint = 0 \<and> unat (otoken_len (the (observers s a))) = n \<and>
         take n (otoken (the (observers s a))) = take n tok) (observers_list s) \<and>
       observers s' = (case r of None \<Rightarrow> observers s | Some a \<Rightarrow> (observers s)(a := None)))"
proof (intro conjI)
  have reg: "registry observers_memb (observers s) (observers_list s)" using assms(2) by (simp add: obs_inv_def)
  have dist: "distinct (observers_list s)" and live: "\<forall>a \<in> set (observers_list s). observers s a \<noteq> None"
    using reg by (auto simp: registry_def)
  let ?P = "\<lambda>(s :: net) x. oc_endpoint_compare (oendpoint x) endpoint = 0"
  obtain s' where s': "remove_loop_obs ?P False s 0 (observers_list s) =
      Some (s', 0 + int (length (filter (\<lambda>a. ?P s (the (observers s a))) (observers_list s))))" "obs_inv s'"
    "observers s' = (\<lambda>a. if a \<in> set (observers_list s) \<and> ?P s (the (observers s a)) then None else observers s a)"
    using remove_all_ok [OF assms dist live, of ?P 0] by blast
  have "observers s' a = (case observers s a of None \<Rightarrow> None | Some x \<Rightarrow> if ?P s x then None else Some x)" for a
    using s'(3) registry_live [OF reg, of a] by (cases "observers s a") auto
  with s'(1,2) show "\<exists>s'. coap_remove_observer_by_client s endpoint =
        Some (s', int (length (filter (\<lambda>a. oc_endpoint_compare (oendpoint (the (observers s a))) endpoint = 0) (observers_list s)))) \<and>
       obs_inv s' \<and> (\<forall>a. observers s' a = (case observers s a of None \<Rightarrow> None
         | Some x \<Rightarrow> if oc_endpoint_compare (oendpoint x) endpoint = 0 then None else Some x))"
    by (intro exI [of _ s']) (simp add: coap_remove_observer_by_client_def)
next
  show "\<exists>s' r. coap_remove_observer_by_mid s endpoint m = Some (s', if r = None then 0 else 1) \<and> obs_inv s' \<and>
       r = find (\<lambda>a. oc_endpoint_compare (oendpoint (the (observers s a))) endpoint = 0 \<and> last_mid (the (observers s a)) = m) (observers_list s) \<and>
       observers s' = (case r of None \<Rightarrow> observers s | Some a \<Rightarrow> (observers s)(a := None))"
    using remove_first_ok [OF assms, of "\<lambda>s x. oc_endpoint_compare (oendpoint x) endpoint = 0 \<and> last_mid x = m"]
    by (auto simp: coap_remove_observer_by_mid_def split: option.splits)
  show "\<exists>s' r. coap_remove_observer_by_token s endpoint tok n = Some (s', if r = None then 0 else 1) \<and> obs_inv s' \<and>
       r = find (\<lambda>a. oc_endpoint_compare (oendpoint (the (observers s a))) endpoint = 0 \<and> unat (otoken_len (the (observers s a))) = n \<and>
         take n (otoken (the (observers s a))) = take n tok) (observers_list s) \<and>
       observers s' = (case r of None \<Rightarrow> observers s | Some a \<Rightarrow> (observers s)(a := None))"
    using remove_first_ok [OF assms, of "\<lambda>s x. oc_endpoint_compare (oendpoint x) endpoint = 0 \<and> unat (otoken_len x) = n \<and>
       take n (otoken x) = take n tok"]
    by (auto simp: coap_remove_observer_by_token_def split: option.splits)
qed

definition watched_net :: net where
  "watched_net = (add_num_observers init_net 9 1)\<lparr>observers := [400 \<mapsto> zero_observer\<lparr>oresource := 9, ourl := [97],
     oendpoint := zero_endpoint\<lparr>flags := IPV6\<rparr>\<rparr>], observers_list := [400]\<rparr>"

lemma watched_net_ok: "bw_inv watched_net" "obs_inv watched_net"
proof -
  have "obs_frame init_net watched_net" by (simp add: obs_frame_def watched_net_def add_num_observers_def)
  then show "bw_inv watched_net" by (rule obs_frame_inv(1)) (rule init_net_ok(1))
  show "obs_inv watched_net"
    by (auto simp: obs_inv_def registry_def obs_count_def watched_net_def add_num_observers_def init_net_def pool_defs
        zero_observer_def split: if_splits)
qed

theorem coap_remove_observers_exact_witness:
  "\<exists>s'. coap_remove_observer_by_client watched_net (zero_endpoint\<lparr>flags := IPV6\<rparr>) = Some (s', 1) \<and> observers s' 400 = None"
  using coap_remove_observers_exact [OF watched_net_ok, of "zero_endpoint\<lparr>flags := IPV6\<rparr>" 0 "[]" 0]
  by (auto simp: watched_net_def zero_observer_def zero_endpoint_def oc_endpoint_compare_def dest!: spec [of _ 400])

end
