(* ===== verification/Coap_Signal.thy ===== *)
theory Coap_Signal
  imports Coap_Message
begin

text \<open>
  The accessors of signal packets: \<open>src/messaging/coap/coap_signal.c\<close>. Each belongs to the code of
  one signal and refuses every other packet with 0. Options 2 and 4 have different meanings
  for different codes.
\<close>

section \<open>Accessors\<close>

definition coap_signal_get_max_msg_size :: "coap_packet \<Rightarrow> int \<times> u32 option" where
  "coap_signal_get_max_msg_size pkt =
     (if code pkt \<noteq> CSM_7_01 \<or> \<not> IS_OPTION pkt COAP_SIGNAL_OPTION_MAX_MSG_SIZE then (0, None)
      else (1, Some (max_msg_size pkt)))"

definition coap_signal_set_max_msg_size :: "coap_packet \<Rightarrow> u32 \<Rightarrow> coap_packet \<times> int" where
  "coap_signal_set_max_msg_size pkt n =
     (if code pkt \<noteq> CSM_7_01 then (pkt, 0)
      else (SET_OPTION (pkt\<lparr>max_msg_size := n\<rparr>) COAP_SIGNAL_OPTION_MAX_MSG_SIZE, 1))"

definition coap_signal_get_blockwise_transfer :: "coap_packet \<Rightarrow> int \<times> u8 option" where
  "coap_signal_get_blockwise_transfer pkt =
     (if code pkt \<noteq> CSM_7_01 \<or> \<not> IS_OPTION pkt COAP_SIGNAL_OPTION_BLOCKWISE_TRANSFER then (0, None)
      else (1, Some (blockwise_transfer pkt)))"

definition coap_signal_set_blockwise_transfer :: "coap_packet \<Rightarrow> u8 \<Rightarrow> coap_packet \<times> int" where
  "coap_signal_set_blockwise_transfer pkt v =
     (if code pkt \<noteq> CSM_7_01 \<or> v \<noteq> 0 \<and> v \<noteq> 1 then (pkt, 0)
      else (SET_OPTION (pkt\<lparr>blockwise_transfer := v\<rparr>) COAP_SIGNAL_OPTION_BLOCKWISE_TRANSFER, 1))"

definition coap_signal_get_custody :: "coap_packet \<Rightarrow> int \<times> u8 option" where
  "coap_signal_get_custody pkt =
     (if code pkt \<noteq> PING_7_02 \<and> code pkt \<noteq> PONG_7_03 \<or> \<not> IS_OPTION pkt COAP_SIGNAL_OPTION_CUSTODY then (0, None)
      else (1, Some (custody pkt)))"

definition coap_signal_set_custody :: "coap_packet \<Rightarrow> u8 \<Rightarrow> coap_packet \<times> int" where
  "coap_signal_set_custody pkt v =
     (if code pkt \<noteq> PING_7_02 \<and> code pkt \<noteq> PONG_7_03 \<or> v \<noteq> 0 \<and> v \<noteq> 1 then (pkt, 0)
      else (SET_OPTION (pkt\<lparr>custody := v\<rparr>) COAP_SIGNAL_OPTION_CUSTODY, 1))"

definition coap_signal_get_alt_addr :: "coap_packet \<Rightarrow> nat \<times> cptr option" where
  "coap_signal_get_alt_addr pkt =
     (if code pkt \<noteq> RELEASE_7_04 \<or> \<not> IS_OPTION pkt COAP_SIGNAL_OPTION_ALT_ADDR then (0, None)
      else (alt_addr_len pkt, Some (alt_addr pkt)))"

text \<open>\<open>None\<close> as the address is the null pointer.\<close>

definition coap_signal_set_alt_addr :: "coap_packet \<Rightarrow> cptr option \<Rightarrow> nat \<Rightarrow> coap_packet \<times> nat" where
  "coap_signal_set_alt_addr pkt addr addr_len =
     (case addr of
        None \<Rightarrow> (pkt, 0)
      | Some a \<Rightarrow>
          if code pkt \<noteq> RELEASE_7_04 \<or> addr_len \<le> 0 then (pkt, 0)
          else (SET_OPTION (pkt\<lparr>alt_addr := a, alt_addr_len := addr_len\<rparr>) COAP_SIGNAL_OPTION_ALT_ADDR, addr_len))"

definition coap_signal_get_hold_off :: "coap_packet \<Rightarrow> int \<times> u32 option" where
  "coap_signal_get_hold_off pkt =
     (if code pkt \<noteq> RELEASE_7_04 \<or> \<not> IS_OPTION pkt COAP_SIGNAL_OPTION_HOLD_OFF then (0, None)
      else (1, Some (hold_off pkt)))"

definition coap_signal_set_hold_off :: "coap_packet \<Rightarrow> u32 \<Rightarrow> coap_packet \<times> int" where
  "coap_signal_set_hold_off pkt n =
     (if code pkt \<noteq> RELEASE_7_04 then (pkt, 0)
      else (SET_OPTION (pkt\<lparr>hold_off := n\<rparr>) COAP_SIGNAL_OPTION_HOLD_OFF, 1))"

definition coap_signal_get_bad_csm :: "coap_packet \<Rightarrow> int \<times> u16 option" where
  "coap_signal_get_bad_csm pkt =
     (if code pkt \<noteq> ABORT_7_05 \<or> \<not> IS_OPTION pkt COAP_SIGNAL_OPTION_BAD_CSM then (0, None)
      else (1, Some (bad_csm_opt pkt)))"

definition coap_signal_set_bad_csm :: "coap_packet \<Rightarrow> u16 \<Rightarrow> coap_packet \<times> int" where
  "coap_signal_set_bad_csm pkt opt =
     (if code pkt \<noteq> ABORT_7_05 then (pkt, 0)
      else (SET_OPTION (pkt\<lparr>bad_csm_opt := opt\<rparr>) COAP_SIGNAL_OPTION_BAD_CSM, 1))"

lemmas signal_setters = coap_signal_set_max_msg_size_def coap_signal_set_blockwise_transfer_def
  coap_signal_set_custody_def coap_signal_set_alt_addr_def coap_signal_set_hold_off_def coap_signal_set_bad_csm_def

section \<open>Signals can be serialised\<close>

lemma signal_fields [simp]:
  "code (SET_OPTION p n) = code p" "token (SET_OPTION p n) = token p" "token_len (SET_OPTION p n) = token_len p"
  "payload_len (SET_OPTION p n) = payload_len p" "payload (SET_OPTION p n) = payload p"
  "transport_type (SET_OPTION p n) = transport_type p" "alt_addr (SET_OPTION p n) = alt_addr p"
  "alt_addr_len (SET_OPTION p n) = alt_addr_len p"
  by (simp_all add: SET_OPTION_def)

text \<open>Of a signal only the alternative address of a release refers to memory.\<close>

lemma signal_msg_ok:
  assumes "coap_check_signal_message pkt" and "code pkt \<noteq> RELEASE_7_04" and "unat (token_len pkt) \<le> length (token pkt)"
    and "unat (payload_len pkt) \<le> length (deref mem (payload pkt))"
  shows "msg_ok mem pkt"
  using assms by (simp add: msg_ok_def ser_ok_def)

end
