(* ===== verification/Net_Session.thy ===== *)
theory Net_Session
  imports Net_Observe Coap_Signal
begin

text \<open>
  Sessions and sending: the end of a TLS session (\<open>src/security/oc_tls.c\<close>,
  \<open>src/api/oc_session_events.c\<close>), signal messages sent without a transaction
  (\<open>src/messaging/coap/coap_signal.c\<close>) and \<open>coap_send_message\<close> (\<open>src/messaging/coap/coap.c\<close>).
  What mbedTLS writes to the network when a session is closed is a parameter \<open>close_notify\<close>.
  The roles of the peer, which \<open>oc_sec_free_roles\<close> drops, belong to the security state
  (\<open>Sec_Types\<close>).
\<close>

section \<open>TLS sessions\<close>

definition tls_session_of :: "net \<Rightarrow> oc_endpoint \<Rightarrow> addr option option" where
  "tls_session_of s endpoint = find_on (sessions s) (\<lambda>p. oc_endpoint_compare (sendpoint p) endpoint = 0) (session_list s)"

primrec unref_all :: "net \<Rightarrow> addr list \<Rightarrow> net option" where
  "unref_all s [] = Some s"
| "unref_all s (a # as) = do { s \<leftarrow> oc_message_unref s a; unref_all s as }"

text \<open>The session of a datagram endpoint ends by \<open>oc_handle_session\<close>, which removes its observers;
  for a TCP endpoint the port is asked to close the connection.\<close>

definition oc_tls_free_peer :: "net \<Rightarrow> addr \<Rightarrow> bool \<Rightarrow> net option" where
  "oc_tls_free_peer s p inactivity_cb = do {
     x \<leftarrow> sessions s p;
     s \<leftarrow> (if flags (sendpoint x) AND TCP \<noteq> 0 then Some (send_output s (End_Session (sendpoint x)))
          else map_option fst (coap_remove_observer_by_client s (sendpoint x)));
     s \<leftarrow> (if \<not> inactivity_cb then oc_ri_remove_timed_event_callback s p Oc_tls_inactive else Some s);
     s \<leftarrow> unref_all s (send_q x);
     s \<leftarrow> unref_all s (recv_q x);
     e \<leftarrow> oc_etimer_stop (clk s) (et s) p;
     Some (s\<lparr>et := e, session_list := remove1 p (session_list s), sessions := free_obj tls_peers_s (sessions s) p\<rparr>)
   }"

definition oc_tls_remove_peer :: "net \<Rightarrow> oc_endpoint \<Rightarrow> net option" where
  "oc_tls_remove_peer s endpoint = do {
     r \<leftarrow> tls_session_of s endpoint;
     case r of None \<Rightarrow> Some s | Some p \<Rightarrow> oc_tls_free_peer s p False
   }"

definition oc_tls_close_connection :: "(net \<Rightarrow> addr \<Rightarrow> bytes list) \<Rightarrow> net \<Rightarrow> oc_endpoint \<Rightarrow> net option" where
  "oc_tls_close_connection close_notify s endpoint = do {
     r \<leftarrow> tls_session_of s endpoint;
     case r of
       None \<Rightarrow> Some s
     | Some p \<Rightarrow> do {
         x \<leftarrow> sessions s p;
         let s = s\<lparr>outputs := outputs s @ map (Send (sendpoint x)) (close_notify s p)\<rparr>;
         oc_tls_free_peer s p False
       }
   }"

datatype oc_session_state = OC_SESSION_CONNECTED | OC_SESSION_DISCONNECTED

definition oc_handle_session :: "net \<Rightarrow> oc_endpoint \<Rightarrow> oc_session_state \<Rightarrow> net option" where
  "oc_handle_session s endpoint st =
     (if st = OC_SESSION_DISCONNECTED then do {
        (s, n) \<leftarrow> coap_remove_observer_by_client s endpoint;
        if flags endpoint AND SECURED \<noteq> 0 \<and> flags endpoint AND TCP \<noteq> 0 then oc_tls_remove_peer s endpoint else Some s
      }
      else Some s)"

section \<open>Signals and messages\<close>

definition coap_make_token :: "net \<Rightarrow> coap_packet \<Rightarrow> net \<times> coap_packet" where
  "coap_make_token s pkt =
     (let (s, tok) = token_loop (COAP_TOKEN_LEN div 4) s in (s, pkt\<lparr>token_len := of_nat COAP_TOKEN_LEN, token := tok\<rparr>))"

text \<open>\<open>coap_serialize_message\<close> into the data of a message.\<close>

definition serialize_into_message :: "net \<Rightarrow> addr \<Rightarrow> bytes \<Rightarrow> coap_packet \<Rightarrow> net option" where
  "serialize_into_message s a rx pkt = do {
     m \<leftarrow> msgs s a;
     (buf, n) \<leftarrow> coap_serialize_message rx pkt (Mem (mdata m));
     case buf of Mem bs \<Rightarrow> Some (set_msg s a (m\<lparr>mdata := bs, mlength := n\<rparr>)) | NULL \<Rightarrow> None | Overrun \<Rightarrow> None
   }"

definition set_endpoint :: "net \<Rightarrow> addr \<Rightarrow> oc_endpoint \<Rightarrow> net option" where
  "set_endpoint s a endpoint = do { m \<leftarrow> msgs s a; Some (set_msg s a (m\<lparr>mendpoint := endpoint\<rparr>)) }"

definition coap_send_signal_message :: "net \<Rightarrow> oc_endpoint \<Rightarrow> bytes \<Rightarrow> coap_packet \<Rightarrow> (net \<times> int) option" where
  "coap_send_signal_message s endpoint rx pkt =
     (case oc_internal_allocate_outgoing_message s of
        (s, None) \<Rightarrow> Some (s, 0)
      | (s, Some a) \<Rightarrow> do {
          s \<leftarrow> set_endpoint s a endpoint;
          s \<leftarrow> serialize_into_message s a rx pkt;
          s \<leftarrow> oc_send_message s a;
          Some (s, 1)
        })"

definition coap_send_csm_message :: "net \<Rightarrow> oc_endpoint \<Rightarrow> u32 \<Rightarrow> u8 \<Rightarrow> (net \<times> int) option" where
  "coap_send_csm_message s endpoint max_message_size blockwise_transfer_option =
     (let pkt = coap_tcp_init_message CSM_7_01;
          (s, pkt) = coap_make_token s pkt;
          (pkt, ret) = (if blockwise_transfer_option \<noteq> 0
                        then coap_signal_set_blockwise_transfer pkt blockwise_transfer_option else (pkt, 1));
          max_message_size = (if blockwise_transfer_option \<noteq> 0 then 1152 else max_message_size)
      in if ret = 0 then Some (s, 0)
         else case coap_signal_set_max_msg_size pkt max_message_size of (pkt, ret) \<Rightarrow>
           if ret = 0 then Some (s, 0) else coap_send_signal_message s endpoint [] pkt)"

text \<open>The CSM state of a connection, as the TCP port of Linux keeps it.\<close>

definition oc_tcp_get_csm_state :: "net \<Rightarrow> oc_endpoint \<Rightarrow> tcp_csm_state" where
  "oc_tcp_get_csm_state s endpoint =
     (case find (\<lambda>p. oc_endpoint_compare (fst p) endpoint = 0) (tcp_sessions s) of
        None \<Rightarrow> CSM_NONE | Some (ep, st) \<Rightarrow> st)"

primrec set_csm :: "(oc_endpoint \<times> tcp_csm_state) list \<Rightarrow> oc_endpoint \<Rightarrow> tcp_csm_state \<Rightarrow> (oc_endpoint \<times> tcp_csm_state) list" where
  "set_csm [] endpoint st = []"
| "set_csm (p # ps) endpoint st =
     (if oc_endpoint_compare (fst p) endpoint = 0 then (fst p, st) # ps else p # set_csm ps endpoint st)"

definition oc_tcp_update_csm_state :: "net \<Rightarrow> oc_endpoint \<Rightarrow> tcp_csm_state \<Rightarrow> net \<times> int" where
  "oc_tcp_update_csm_state s endpoint st =
     (case find (\<lambda>p. oc_endpoint_compare (fst p) endpoint = 0) (tcp_sessions s) of
        None \<Rightarrow> (s, - 1) | Some p \<Rightarrow> (s\<lparr>tcp_sessions := set_csm (tcp_sessions s) endpoint st\<rparr>, 0))"

definition coap_send_message :: "net \<Rightarrow> addr \<Rightarrow> net option" where
  "coap_send_message s a = do {
     m \<leftarrow> msgs s a;
     s \<leftarrow> (if flags (mendpoint m) AND TCP \<noteq> 0 \<and> ep_version (mendpoint m) = OCF_VER_1_0_0 \<and>
            oc_tcp_get_csm_state s (mendpoint m) = CSM_NONE
          then map_option fst (coap_send_csm_message s (mendpoint m) (of_nat OC_PDU_SIZE) 0) else Some s);
     oc_send_message s a
   }"

section \<open>The invariant of the layer\<close>

text \<open>The messages that wait in the queues of sessions.\<close>

definition tls_held :: "net \<Rightarrow> addr list" where
  "tls_held s = concat (map (\<lambda>p. case sessions s p of None \<Rightarrow> [] | Some x \<Rightarrow> send_q x @ recv_q x) (session_list s))"

text \<open>
  The registries of all pools, the timers and the callbacks. \<open>ext\<close> counts the references to
  messages that are neither in the event queue, nor of a transaction, nor in a queue of a session.
  The bounds keep the 8-bit reference counters from wrapping.
\<close>

definition state_inv :: "net \<Rightarrow> bool" where
  "state_inv s \<longleftrightarrow> (\<exists>ts. net_timers s ts) \<and> registry transactions_memb (trans s) (transactions_list s) \<and> bw_inv s \<and>
     callbacks_ok s \<and> cb_inv s \<and> obs_inv s \<and> registry tls_peers_s (sessions s) (session_list s) \<and>
     numevents (evring s) \<le> 100 \<and> transaction_handler_process s \<noteq> NULL_PTR \<and> (\<forall>a. count_list (tls_held s) a \<le> 50)"

definition all_refs :: "net \<Rightarrow> (addr \<Rightarrow> nat) \<Rightarrow> addr \<Rightarrow> nat" where
  "all_refs s ext a = ext a + count_list (tls_held s) a"

definition net_inv :: "net \<Rightarrow> (addr \<Rightarrow> nat) \<Rightarrow> bool" where
  "net_inv s ext \<longleftrightarrow> state_inv s \<and> refs_ok s (all_refs s ext) \<and> (\<forall>a. ext a \<le> 50)"

section \<open>What sending changes\<close>

definition send_frame :: "net \<Rightarrow> net \<Rightarrow> bool" where
  "send_frame s s' \<longleftrightarrow> (\<exists>r ms d. s' = s\<lparr>et := (et s)\<lparr>sch := (sch (et s))\<lparr>ring := r\<rparr>\<rparr>, msgs := ms, drawn := d\<rparr> \<and>
     numevents r = numevents (evring s))"

lemma send_frameE:
  assumes "send_frame s s'"
  obtains r ms d where "s' = s\<lparr>et := (et s)\<lparr>sch := (sch (et s))\<lparr>ring := r\<rparr>\<rparr>, msgs := ms, drawn := d\<rparr>"
    and "numevents r = numevents (evring s)"
  using assms unfolding send_frame_def by blast

lemma send_frameI:
  "s' = s\<lparr>et := (et s)\<lparr>sch := (sch (et s))\<lparr>ring := r\<rparr>\<rparr>, msgs := ms, drawn := d\<rparr> \<Longrightarrow>
   numevents r = numevents (evring s) \<Longrightarrow> send_frame s s'"
  unfolding send_frame_def by blast

lemma send_frame_refl [simp]: "send_frame s s"
  by (rule send_frameI [where r = "evring s" and ms = "msgs s" and d = "drawn s"]) simp_all

lemma send_frame_trans: "send_frame s s' \<Longrightarrow> send_frame s' s'' \<Longrightarrow> send_frame s s''"
  by (elim send_frameE) (auto simp: send_frame_def)

lemma send_frame_fields:
  assumes "send_frame s s'"
  shows "trans s' = trans s" "transactions_list s' = transactions_list s" "timer (et s') = timer (et s)"
    "tproc (et s') = tproc (et s)" "sessions s' = sessions s" "session_list s' = session_list s" "clk s' = clk s"
    "outputs s' = outputs s" "observers s' = observers s" "ccbs s' = ccbs s" "client_cbs s' = client_cbs s"
    "transaction_handler_process s' = transaction_handler_process s" "tls_held s' = tls_held s" "random s' = random s"
    "tcp_sessions s' = tcp_sessions s" "responses s' = responses s" "requests s' = requests s" "resources s' = resources s"
    "numevents (evring s') = numevents (evring s)"
  by (rule send_frameE [OF assms], simp add: tls_held_def)+

lemma send_frame_inv:
  assumes "send_frame s s'" and "state_inv s"
  shows "state_inv s'"
proof (rule send_frameE [OF assms(1)])
  fix r ms d
  assume eq: "s' = s\<lparr>et := (et s)\<lparr>sch := (sch (et s))\<lparr>ring := r\<rparr>\<rparr>, msgs := ms, drawn := d\<rparr>"
    and r: "numevents r = numevents (evring s)"
  have h: "bw_heap b s' = bw_heap b s" "bw_list b s' = bw_list b s" "pending s' = pending s" for b
    by (cases b; simp add: pending_def eq)+
  have "net_timers s' ts = net_timers s ts" "callbacks_ok s' = callbacks_ok s" for ts
    by (simp_all add: eq net_timers_def callbacks_ok_def)
  moreover have "bw_inv s' = bw_inv s" "cb_inv s' = cb_inv s"
    by (simp_all add: bw_inv_def cb_inv_def h) (simp_all add: eq)
  moreover have "obs_inv s' = obs_inv s" by (simp add: obs_inv_def obs_count_def eq)
  ultimately show ?thesis using assms(2) send_frame_fields(13) [OF assms(1)] by (simp add: state_inv_def) (simp add: eq r)
qed

lemma set_msg_frame [simp]: "send_frame s (set_msg s a m)"
  by (rule send_frameI [where r = "evring s" and ms = "(msgs s)(a \<mapsto> m)" and d = "drawn s"]) (simp_all add: set_msg_def)

lemma msgs_frame: "s' = s\<lparr>msgs := ms\<rparr> \<Longrightarrow> send_frame s s'"
  by (rule send_frameI [where r = "evring s" and ms = ms and d = "drawn s"]) simp_all

lemma put_event_numevents [simp]: "numevents (put_event r e) = numevents r"
  by (simp add: put_event_def Let_def)

lemma post_event_frame: "send_frame s (fst (post_event s p e d))"
  by (rule send_frameI [where r = "evring (fst (post_event s p e d))" and ms = "msgs s" and d = "drawn s"])
    (simp_all add: post_event_def oc_process_post_def)

lemma send_message_frame: "oc_send_message s a = Some s' \<Longrightarrow> send_frame s s'"
  using post_event_frame [of s message_buffer_handler OUTBOUND_NETWORK_EVENT a] send_frame_trans set_msg_frame
  by (fastforce simp: oc_send_message_def bind_eq_Some_conv split: prod.splits if_splits)

section \<open>Messages under the invariant\<close>

lemma net_inv_step:
  assumes "net_inv s ext" and "send_frame s s'" and "refs_ok s' ((all_refs s ext)(a := k + count_list (tls_held s) a))"
    and "k \<le> 50"
  shows "net_inv s' (ext(a := k))"
proof -
  have "all_refs s' (ext(a := k)) = (all_refs s ext)(a := k + count_list (tls_held s) a)"
    using send_frame_fields(13) [OF assms(2)] by (auto simp: all_refs_def)
  with assms send_frame_inv [OF assms(2)] show ?thesis by (simp add: net_inv_def)
qed

lemma refs_ok_cong:
  assumes "msgs s' = msgs s" and "trans s' = trans s" and "transactions_list s' = transactions_list s" and "evring s' = evring s"
  shows "refs_ok s' e = refs_ok s e"
proof -
  have "msg_counts s' e a = msg_counts s e a" for a
    using assms by (cases "msgs s a") (simp_all add: msg_counts_def refs_def)
  with assms(4) show ?thesis by (simp add: refs_ok_def)
qed

lemma net_inv_refs: "net_inv s ext \<Longrightarrow> refs_ok s (all_refs s ext)"
  by (simp add: net_inv_def)

lemma net_inv_ext: "net_inv s ext \<Longrightarrow> ext a \<le> 50"
  by (simp add: net_inv_def)

lemma refs_bound:
  assumes "net_inv s ext" and "ext a < 50"
  shows "all_refs s ext a + refs s a < 255"
proof -
  have st: "registry transactions_memb (trans s) (transactions_list s)" "numevents (evring s) \<le> 100" "count_list (tls_held s) a \<le> 50"
    and ring: "ring_ok (evring s)"
    using assms by (auto simp: net_inv_def state_inv_def refs_ok_def)
  have "queued (evq s) a \<le> length (evq s)" unfolding queued_def by (rule length_filter_le)
  also have "\<dots> \<le> 100" using ring st(2) by (auto simp: queue_def ring_ok_def)
  finally have q: "queued (evq s) a \<le> 100" .
  have "card (set (transactions_list s)) \<le> card (set transactions_memb)" using st(1) by (intro card_mono) (auto simp: registry_def)
  then have "length (transactions_list s) \<le> 3"
    using st(1) distinct_card [of "transactions_list s"] by (simp add: registry_def transactions_memb_def)
  then have "held (trans s) (transactions_list s) a \<le> 3"
    unfolding held_def by (rule le_trans [OF length_filter_le])
  with q st(3) assms(2) show ?thesis by (simp add: refs_def all_refs_def)
qed

lemma net_inv_allocate:
  assumes inv: "net_inv s ext" and "allocate_message s pool = (s', Some a)"
  shows "net_inv s' (ext(a := 1))" and "msgs s a = None" and "ext a = 0" and "send_frame s s'"
    and "\<exists>m. msgs s' = (msgs s)(a \<mapsto> m) \<and> mref m = 1 \<and> length (mdata m) = OC_PDU_SIZE \<and> mpool m = pool"
proof -
  note al = allocate_message_refs [OF net_inv_refs [OF inv] assms(2)]
  show "msgs s a = None" by (rule al(2))
  show 0: "ext a = 0" using al(3) by (simp add: all_refs_def)
  show f: "send_frame s s'" by (rule msgs_frame [OF al(5)])
  show "net_inv s' (ext(a := 1))"
    by (rule net_inv_step [OF inv f]) (use al(1,3) in \<open>simp_all add: all_refs_def\<close>)
  show "\<exists>m. msgs s' = (msgs s)(a \<mapsto> m) \<and> mref m = 1 \<and> length (mdata m) = OC_PDU_SIZE \<and> mpool m = pool"
    using al(4,7) by (auto simp: zero_message_def)
qed

text \<open>Writing the contents of a message.\<close>

lemma net_inv_set_msg:
  assumes inv: "net_inv s ext" and "msgs s a = Some m" and "mref m' = mref m" and "mpool m' = mpool m"
    and "length (mdata m') = length (mdata m)"
  shows "net_inv (set_msg s a m') ext"
proof -
  have ok: "refs_ok s (all_refs s ext)" by (rule net_inv_refs [OF inv])
  then have "msg_counts s (all_refs s ext) a" by (simp add: refs_ok_def)
  then have "msg_counts (set_msg s a m') (all_refs s ext) a"
    using assms(2-5) by (simp add: msg_counts_def refs_same [of "set_msg s a m'" s])
  then have "refs_ok (set_msg s a m') ((all_refs s ext)(a := all_refs s ext a))"
    by (intro refs_ok_upd [OF ok]) simp_all
  then have "net_inv (set_msg s a m') (ext(a := ext a))"
    using inv by (intro net_inv_step [OF inv set_msg_frame]) (simp_all add: all_refs_def net_inv_def)
  then show ?thesis by simp
qed

lemma net_inv_unref:
  assumes inv: "net_inv s ext" and "0 < ext a"
  shows "\<exists>s'. oc_message_unref s a = Some s' \<and> net_inv s' (ext(a := ext a - 1)) \<and> send_frame s s' \<and>
     (\<forall>b. b \<noteq> a \<longrightarrow> msgs s' b = msgs s b) \<and> evring s' = evring s"
proof -
  have "0 < all_refs s ext a" using assms(2) by (simp add: all_refs_def)
  from unref_refs [OF net_inv_refs [OF inv] this] obtain s' where s': "oc_message_unref s a = Some s'"
    "refs_ok s' ((all_refs s ext)(a := all_refs s ext a - 1))" "s' = s\<lparr>msgs := msgs s'\<rparr>" "\<forall>b. b \<noteq> a \<longrightarrow> msgs s' b = msgs s b"
    by blast
  note f = msgs_frame [OF s'(3)]
  have "net_inv s' (ext(a := ext a - 1))"
    by (rule net_inv_step [OF inv f]) (use s'(2) assms(2) net_inv_ext [OF inv, of a] in \<open>simp_all add: all_refs_def\<close>)
  moreover have "evring s' = evring s" by (subst s'(3)) simp
  ultimately show ?thesis using s' f by (intro exI [of _ s']) simp
qed

lemma net_inv_add_ref:
  assumes inv: "net_inv s ext" and m: "msgs s a = Some m" and "ext a < 50"
  shows "\<exists>s'. oc_message_add_ref s a = Some s' \<and> net_inv s' (ext(a := ext a + 1)) \<and> send_frame s s' \<and>
     msgs s' = (msgs s)(a \<mapsto> m\<lparr>mref := mref m + 1\<rparr>) \<and> evring s' = evring s"
proof -
  from add_ref_refs [OF net_inv_refs [OF inv] m refs_bound [OF inv assms(3)]] obtain s' where
    s': "oc_message_add_ref s a = Some s'" "refs_ok s' ((all_refs s ext)(a := all_refs s ext a + 1))"
    "s' = s\<lparr>msgs := msgs s'\<rparr>" "msgs s' = (msgs s)(a \<mapsto> m\<lparr>mref := mref m + 1\<rparr>)"
    by blast
  note f = msgs_frame [OF s'(3)]
  have "net_inv s' (ext(a := ext a + 1))"
    by (intro net_inv_step [OF inv f]) (use s'(2) assms(3) in \<open>simp_all add: all_refs_def\<close>)
  moreover have "evring s' = evring s" by (subst s'(3)) simp
  ultimately show ?thesis using s' f by (intro exI [of _ s']) simp
qed

lemma net_inv_send:
  assumes inv: "net_inv s ext" and "0 < ext a"
  shows "\<exists>s'. oc_send_message s a = Some s' \<and> net_inv s' (ext(a := ext a - 1)) \<and> send_frame s s' \<and>
     (\<forall>b. map_option mdata (msgs s' b) = map_option mdata (msgs s b) \<and>
        map_option mendpoint (msgs s' b) = map_option mendpoint (msgs s b)) \<and>
     (\<not> ring_full s \<longrightarrow> msgs s' = msgs s \<and> evq s' = evq s @ [\<lparr>ev = 0x8f, data = a, receiver = message_buffer_handler\<rparr>])"
proof -
  have "0 < all_refs s ext a" using assms(2) by (simp add: all_refs_def)
  from send_message_refs [OF net_inv_refs [OF inv] this] obtain s' where s': "oc_send_message s a = Some s'"
    "refs_ok s' ((all_refs s ext)(a := all_refs s ext a - 1))"
    "if ring_full s then (\<exists>m. msgs s a = Some m \<and> msgs s' = (msgs s)(a \<mapsto> m\<lparr>mref := mref m - 1\<rparr>) \<and> et s' = et s)
      else msgs s' = msgs s \<and> evq s' = evq s @ [\<lparr>ev = 0x8f, data = a, receiver = message_buffer_handler\<rparr>]"
    by blast
  note f = send_message_frame [OF s'(1)]
  have "net_inv s' (ext(a := ext a - 1))"
    by (rule net_inv_step [OF inv f]) (use s'(2) assms(2) net_inv_ext [OF inv, of a] in \<open>simp_all add: all_refs_def\<close>)
  then show ?thesis using s' f by (intro exI [of _ s']) (auto split: if_splits)
qed

text \<open>Serialising into a message, sending a signal and sending a message.\<close>

lemma serialize_into_message_ok:
  assumes inv: "net_inv s ext" and m: "msgs s a = Some m" and ok: "msg_ok rx pkt"
    and len: "unat (payload_len pkt) \<le> OC_MAX_APP_DATA_SIZE"
  shows "\<exists>bs n. serialize_into_message s a rx pkt = Some (set_msg s a (m\<lparr>mdata := bs, mlength := n\<rparr>)) \<and>
     coap_serialize_message rx pkt (Mem (mdata m)) = Some (Mem bs, n) \<and> length bs = OC_PDU_SIZE \<and>
     net_inv (set_msg s a (m\<lparr>mdata := bs, mlength := n\<rparr>)) ext"
proof -
  have "msg_counts s (all_refs s ext) a" using net_inv_refs [OF inv] by (simp add: refs_ok_def)
  with m have l: "length (mdata m) = OC_PDU_SIZE" by (simp add: msg_counts_def)
  then have "COAP_MAX_HEADER_SIZE + unat (payload_len pkt) \<le> length (mdata m)" using len by (simp add: OC_PDU_SIZE_def)
  from coap_serialize_total [OF ok this] obtain bs n where b:
    "coap_serialize_message rx pkt (Mem (mdata m)) = Some (Mem bs, n)" "length bs = length (mdata m)"
    by blast
  have "net_inv (set_msg s a (m\<lparr>mdata := bs, mlength := n\<rparr>)) ext" by (rule net_inv_set_msg [OF inv m]) (simp_all add: b(2))
  with b m l show ?thesis by (auto simp: serialize_into_message_def)
qed

lemma send_signal_ok:
  assumes inv: "net_inv s ext" and ok: "msg_ok rx pkt" and len: "unat (payload_len pkt) \<le> OC_MAX_APP_DATA_SIZE"
  shows "\<exists>s' n. coap_send_signal_message s endpoint rx pkt = Some (s', n) \<and> net_inv s' ext \<and> send_frame s s' \<and>
     (\<forall>b. msgs s b \<noteq> None \<longrightarrow> msgs s' b = msgs s b)"
proof (cases "allocate_message s Outgoing")
  case (Pair s1 r)
  show ?thesis
  proof (cases r)
    case None
    then have "s1 = s" using Pair by (auto simp: allocate_message_def split: prod.splits option.splits)
    with None Pair inv show ?thesis
      by (intro exI [of _ s]) (simp add: coap_send_signal_message_def oc_internal_allocate_outgoing_message_def)
  next
    case (Some a)
    note al = net_inv_allocate [OF inv Pair [unfolded Some]]
    obtain m where m: "msgs s1 = (msgs s)(a \<mapsto> m)" using al(5) by blast
    let ?s2 = "set_msg s1 a (m\<lparr>mendpoint := endpoint\<rparr>)"
    have inv2: "net_inv ?s2 (ext(a := 1))" by (rule net_inv_set_msg [OF al(1), of a m]) (simp_all add: m)
    obtain bs n where b: "serialize_into_message ?s2 a rx pkt =
        Some (set_msg ?s2 a (m\<lparr>mendpoint := endpoint, mdata := bs, mlength := n\<rparr>))"
      "net_inv (set_msg ?s2 a (m\<lparr>mendpoint := endpoint, mdata := bs, mlength := n\<rparr>)) (ext(a := 1))"
      using serialize_into_message_ok [OF inv2 _ ok len, of a "m\<lparr>mendpoint := endpoint\<rparr>"] by auto
    let ?s3 = "set_msg ?s2 a (m\<lparr>mendpoint := endpoint, mdata := bs, mlength := n\<rparr>)"
    obtain s' where s': "oc_send_message ?s3 a = Some s'" "net_inv s' (ext(a := 0))" "send_frame ?s3 s'"
      using net_inv_send [OF b(2), of a] by auto
    have "msgs s' b = msgs s b" if "msgs s b \<noteq> None" for b
      using that al(2) s'(1) m by (auto simp: oc_send_message_def post_event_def oc_process_post_def bind_eq_Some_conv
          split: prod.splits if_splits)
    moreover have "ext(a := 0) = ext" using al(3) by auto
    moreover have "send_frame s s'"
      using send_frame_trans [OF al(4) send_frame_trans [OF set_msg_frame send_frame_trans [OF set_msg_frame s'(3)]]] .
    moreover have "coap_send_signal_message s endpoint rx pkt = Some (s', 1)"
      using Pair Some m b(1) s'(1)
      by (simp add: coap_send_signal_message_def oc_internal_allocate_outgoing_message_def set_endpoint_def)
    ultimately show ?thesis using s'(2) by (intro exI [of _ s']) simp
  qed
qed

lemma token_loop_drawn: "\<exists>d tok. token_loop k s = (s\<lparr>drawn := d\<rparr>, tok) \<and> length tok = 4 * k"
proof (induction k)
  case 0
  show ?case by (rule exI [of _ "drawn s"]) simp
next
  case (Suc k)
  then show ?case by (auto simp: net_random_def u32_bytes_def)
qed

lemma drawn_frame: "send_frame s (s\<lparr>drawn := d\<rparr>)"
  by (rule send_frameI [where r = "evring s" and ms = "msgs s" and d = d]) simp_all

lemma net_inv_drawn: "net_inv (s\<lparr>drawn := d\<rparr>) ext = net_inv s ext"
proof -
  have f: "send_frame s (s\<lparr>drawn := d\<rparr>)" "send_frame (s\<lparr>drawn := d\<rparr>) s"
    using drawn_frame [of s d] drawn_frame [of "s\<lparr>drawn := d\<rparr>" "drawn s"] by simp_all
  have "refs_ok (s\<lparr>drawn := d\<rparr>) e = refs_ok s e" for e by (rule refs_ok_cong) simp_all
  moreover have "all_refs (s\<lparr>drawn := d\<rparr>) ext = all_refs s ext" by (simp add: all_refs_def tls_held_def fun_eq_iff)
  ultimately show ?thesis using send_frame_inv [OF f(1)] send_frame_inv [OF f(2)] by (auto simp: net_inv_def)
qed

lemma send_csm_ok:
  assumes inv: "net_inv s ext"
  shows "\<exists>s' n. coap_send_csm_message s endpoint sz bwt = Some (s', n) \<and> net_inv s' ext \<and> send_frame s s' \<and>
     (\<forall>b. msgs s b \<noteq> None \<longrightarrow> msgs s' b = msgs s b)"
proof -
  obtain d tok where t: "token_loop 2 s = (s\<lparr>drawn := d\<rparr>, tok)" "length tok = 8"
    using token_loop_drawn [of 2 s] by auto
  have inv': "net_inv (s\<lparr>drawn := d\<rparr>) ext" using inv by (simp add: net_inv_drawn)
  note f = drawn_frame [of s d]
  define pkt where "pkt = (coap_tcp_init_message CSM_7_01)\<lparr>token_len := of_nat COAP_TOKEN_LEN, token := tok\<rparr>"
  have pkt: "code pkt = CSM_7_01" "token_len pkt = 8" "token pkt = tok" "payload_len pkt = 0"
    by (simp_all add: pkt_def coap_tcp_init_message_def zero_packet_def)
  have ok: "msg_ok [] q \<and> unat (payload_len q) \<le> OC_MAX_APP_DATA_SIZE"
    if "code q = CSM_7_01" "token_len q = 8" "token q = tok" "payload_len q = 0" for q
    using that t(2) signal_msg_ok [of q "[]"] by (simp add: coap_check_signal_message_def)
  have send: "\<exists>s' n. coap_send_signal_message (s\<lparr>drawn := d\<rparr>) endpoint [] q = Some (s', n) \<and> net_inv s' ext \<and> send_frame s s' \<and>
      (\<forall>b. msgs s b \<noteq> None \<longrightarrow> msgs s' b = msgs s b)"
    if "code q = CSM_7_01" "token_len q = 8" "token q = tok" "payload_len q = 0" for q
    using send_signal_ok [OF inv', of "[]" q endpoint] ok [OF that] send_frame_trans [OF f] by fastforce
  have mt: "coap_make_token s (coap_tcp_init_message CSM_7_01) = (s\<lparr>drawn := d\<rparr>, pkt)"
    by (simp add: coap_make_token_def t pkt_def)
  have stop: "\<exists>s' n. Some (s\<lparr>drawn := d\<rparr>, 0) = Some (s', n) \<and> net_inv s' ext \<and> send_frame s s' \<and>
      (\<forall>b. msgs s b \<noteq> None \<longrightarrow> msgs s' b = msgs s b)"
    using inv' f by (intro exI [of _ "s\<lparr>drawn := d\<rparr>"]) simp
  show ?thesis
    using stop send pkt
    by (auto simp: coap_send_csm_message_def mt coap_signal_set_blockwise_transfer_def coap_signal_set_max_msg_size_def)
qed

lemma coap_send_message_udp: "msgs s a = Some m \<Longrightarrow> flags (mendpoint m) AND TCP = 0 \<Longrightarrow> coap_send_message s a = oc_send_message s a"
  by (simp add: coap_send_message_def)

lemma coap_send_message_ok:
  assumes inv: "net_inv s ext" and "0 < ext a"
  shows "\<exists>s'. coap_send_message s a = Some s' \<and> net_inv s' (ext(a := ext a - 1)) \<and> send_frame s s' \<and>
     (\<forall>b. msgs s b \<noteq> None \<longrightarrow> map_option mdata (msgs s' b) = map_option mdata (msgs s b) \<and>
        map_option mendpoint (msgs s' b) = map_option mendpoint (msgs s b))"
proof (rule refs_ok_live [OF net_inv_refs [OF inv], of a])
  show "0 < all_refs s ext a" using assms(2) by (simp add: all_refs_def)
next
  fix m
  assume m: "msgs s a = Some m"
  let ?csm = "flags (mendpoint m) AND TCP \<noteq> 0 \<and> ep_version (mendpoint m) = OCF_VER_1_0_0 \<and> oc_tcp_get_csm_state s (mendpoint m) = CSM_NONE"
  obtain s1 where s1: "(if ?csm then map_option fst (coap_send_csm_message s (mendpoint m) (of_nat OC_PDU_SIZE) 0) else Some s) = Some s1"
    "net_inv s1 ext" "send_frame s s1" "\<forall>b. msgs s b \<noteq> None \<longrightarrow> msgs s1 b = msgs s b"
  proof (cases ?csm)
    case True
    with send_csm_ok [OF inv, of "mendpoint m" "of_nat OC_PDU_SIZE" 0] that show thesis by auto
  next
    case False
    show thesis by (rule that [of s]) (simp_all only: False inv if_False send_frame_refl simp_thms)
  qed
  obtain s' where s': "oc_send_message s1 a = Some s'" "net_inv s' (ext(a := ext a - 1))" "send_frame s1 s'"
    "\<forall>b. map_option mdata (msgs s' b) = map_option mdata (msgs s1 b) \<and>
        map_option mendpoint (msgs s' b) = map_option mendpoint (msgs s1 b)"
    using net_inv_send [OF s1(2) assms(2)] by blast
  have "coap_send_message s a = Some s'" using m s1(1) s'(1) by (simp add: coap_send_message_def del: if_split)
  with s' s1(4) send_frame_trans [OF s1(3) s'(3)] show ?thesis by (intro exI [of _ s']) simp
qed

section \<open>Other components under the invariant\<close>

lemma net_inv_obs_frame:
  assumes inv: "net_inv s ext" and f: "obs_frame s s'" and obs: "obs_inv s'"
  shows "net_inv s' ext"
proof -
  have eq: "s' = s\<lparr>resources := resources s', observers := observers s', observers_list := observers_list s', responses := responses s'\<rparr>"
    using f by (simp add: obs_frame_def)
  have h: "et s' = et s" "msgs s' = msgs s" "trans s' = trans s" "transactions_list s' = transactions_list s" "sessions s' = sessions s"
    "session_list s' = session_list s" "transaction_handler_process s' = transaction_handler_process s"
    by (subst eq, simp)+
  have "refs_ok s' e = refs_ok s e" for e by (rule refs_ok_cong) (simp_all add: h)
  moreover have held: "tls_held s' = tls_held s" by (simp add: tls_held_def h)
  moreover have "all_refs s' ext = all_refs s ext" by (simp add: all_refs_def held fun_eq_iff)
  ultimately show ?thesis
    using inv obs obs_frame_inv [OF f] by (auto simp: net_inv_def state_inv_def h)
qed

lemma net_inv_cl_frame:
  assumes inv: "net_inv s ext" and f: "cl_frame s s'" and "bw_inv s'" "callbacks_ok s'" "net_timers s' ts" "cb_inv s'"
  shows "net_inv s' ext"
proof -
  note h = cl_frame_fields [OF f]
  have ring: "evring s' = evring s" using h(16) by (simp add: cb_sched_def same_sched_def)
  have "refs_ok s' e = refs_ok s e" for e by (rule refs_ok_cong) (simp_all add: h ring)
  moreover have held: "tls_held s' = tls_held s" by (simp add: tls_held_def h)
  moreover have "all_refs s' ext = all_refs s ext" by (simp add: all_refs_def held fun_eq_iff)
  moreover have "obs_inv s' = obs_inv s" by (simp add: obs_inv_def obs_count_def h)
  ultimately show ?thesis using inv assms(3-6) ring h by (auto simp: net_inv_def state_inv_def)
qed

lemma remove_observers_net:
  assumes inv: "net_inv s ext"
  shows "\<exists>s' n. coap_remove_observer_by_client s endpoint = Some (s', n) \<and> net_inv s' ext \<and> obs_frame s s' \<and>
     (\<forall>a. observers s' a = (case observers s a of None \<Rightarrow> None
         | Some x \<Rightarrow> if oc_endpoint_compare (oendpoint x) endpoint = 0 then None else Some x))"
proof -
  have st: "bw_inv s" "obs_inv s" using inv by (simp_all add: net_inv_def state_inv_def)
  have reg: "registry observers_memb (observers s) (observers_list s)" using st(2) by (simp add: obs_inv_def)
  have dist: "distinct (observers_list s)" and live: "\<forall>a \<in> set (observers_list s). observers s a \<noteq> None"
    using reg by (auto simp: registry_def)
  let ?P = "\<lambda>(s :: net) x. oc_endpoint_compare (oendpoint x) endpoint = 0"
  obtain s' n where s': "remove_loop_obs ?P False s 0 (observers_list s) = Some (s', n)" "obs_inv s'" "obs_frame s s'"
    "observers s' = (\<lambda>a. if a \<in> set (observers_list s) \<and> ?P s (the (observers s a)) then None else observers s a)"
    using remove_all_ok [OF st dist live, of ?P 0] by blast
  have "observers s' a = (case observers s a of None \<Rightarrow> None | Some x \<Rightarrow> if ?P s x then None else Some x)" for a
    using s'(4) registry_live [OF reg, of a] by (cases "observers s a") auto
  with s' net_inv_obs_frame [OF inv s'(3,2)] show ?thesis
    by (intro exI [of _ s'] exI [of _ n]) (simp add: coap_remove_observer_by_client_def)
qed

lemma remove_timed_net:
  assumes inv: "net_inv s ext"
  shows "\<exists>s'. oc_ri_remove_timed_event_callback s d f = Some s' \<and> net_inv s' ext \<and> bw_frame s s' \<and>
     (\<forall>b. bw_heap b s' = bw_heap b s)"
proof -
  obtain ts where st: "bw_inv s" "callbacks_ok s" "net_timers s ts" "cb_inv s" using inv by (auto simp: net_inv_def state_inv_def)
  obtain s' ts' where s': "oc_ri_remove_timed_event_callback s d f = Some s'" "bw_inv s'" "callbacks_ok s'" "net_timers s' ts'"
    "cb_inv s'" "bw_frame s s'" "\<forall>b. bw_heap b s' = bw_heap b s"
    using remove_timed_bw [OF st] by blast
  with net_inv_cl_frame [OF inv bw_frame_cl [OF s'(6)] s'(2-5)] show ?thesis by blast
qed

definition sub_msgs :: "(addr \<Rightarrow> oc_message option) \<Rightarrow> (addr \<Rightarrow> oc_message option) \<Rightarrow> bool" where
  "sub_msgs h' h \<longleftrightarrow> (\<forall>a m'. h' a = Some m' \<longrightarrow> (\<exists>m. h a = Some m \<and> mdata m' = mdata m \<and> mendpoint m' = mendpoint m))"

lemma sub_msgs_refl [simp]: "sub_msgs h h"
  by (simp add: sub_msgs_def)

lemma sub_msgs_trans: "sub_msgs h'' h' \<Longrightarrow> sub_msgs h' h \<Longrightarrow> sub_msgs h'' h"
  unfolding sub_msgs_def by metis

lemma unref_all_refs:
  "refs_ok s e \<Longrightarrow> \<forall>a. count_list as a \<le> e a \<Longrightarrow>
   \<exists>s' ms. unref_all s as = Some s' \<and> refs_ok s' (\<lambda>a. e a - count_list as a) \<and> s' = s\<lparr>msgs := ms\<rparr> \<and> sub_msgs ms (msgs s)"
proof (induction as arbitrary: s e)
  case Nil
  then show ?case by (intro exI [of _ s] exI [of _ "msgs s"]) simp
next
  case (Cons a as)
  have "0 < e a" using Cons.prems(2) by (auto dest!: spec [of _ a])
  then obtain s1 where s1: "oc_message_unref s a = Some s1" "refs_ok s1 (e(a := e a - 1))" "s1 = s\<lparr>msgs := msgs s1\<rparr>"
    "\<forall>b. b \<noteq> a \<longrightarrow> msgs s1 b = msgs s b" "\<forall>m'. msgs s1 a = Some m' \<longrightarrow> (\<exists>m. msgs s a = Some m \<and> m' = m\<lparr>mref := mref m - 1\<rparr>)"
    using unref_refs [OF Cons.prems(1)] by blast
  have sub: "sub_msgs (msgs s1) (msgs s)" unfolding sub_msgs_def
  proof (intro allI impI)
    fix b m' assume "msgs s1 b = Some m'"
    then show "\<exists>m. msgs s b = Some m \<and> mdata m' = mdata m \<and> mendpoint m' = mendpoint m"
      using s1(4,5) by (cases "b = a") auto
  qed
  have le: "\<forall>b. count_list as b \<le> (e(a := e a - 1)) b"
  proof
    fix b show "count_list as b \<le> (e(a := e a - 1)) b" using Cons.prems(2) by (auto dest: spec [of _ b])
  qed
  obtain s' ms where s': "unref_all s1 as = Some s'" "refs_ok s' (\<lambda>b. (e(a := e a - 1)) b - count_list as b)" "s' = s1\<lparr>msgs := ms\<rparr>"
    "sub_msgs ms (msgs s1)"
    using Cons.IH [OF s1(2) le] by blast
  have "(\<lambda>b. (e(a := e a - 1)) b - count_list as b) = (\<lambda>b. e b - count_list (a # as) b)" by (auto simp: fun_eq_iff)
  moreover have "s' = s\<lparr>msgs := ms\<rparr>" using s'(3) by (subst (asm) s1(3)) simp
  ultimately show ?case using s1(1) s' sub_msgs_trans [OF s'(4) sub] by (intro exI [of _ s'] exI [of _ ms]) simp
qed

lemma net_timers_stop:
  assumes "net_timers s ts" and "a \<noteq> NULL_PTR"
  shows "\<exists>e'. oc_etimer_stop now (et s) a = Some e' \<and> net_timers (s\<lparr>et := e'\<rparr>) (remove1 a ts) \<and> timer e' = timer (et s) \<and>
     tproc e' = (tproc (et s))(a := NULL_PTR) \<and> sch e' = sch (et s)"
proof -
  have "etimers_ok (et s) ts" using assms(1) by (simp add: net_timers_def)
  then obtain e' where e': "oc_etimer_stop now (et s) a = Some e'" "etimers_ok e' (remove1 a ts)"
    "oc_etimer_expired e' a" "\<And>t. t \<noteq> a \<Longrightarrow> tproc e' t = tproc (et s) t" "timer e' = timer (et s)"
    using oc_etimer_stop_ok [of "et s" ts a now] assms(2) by metis
  have "tproc e' = (tproc (et s))(a := NULL_PTR)" using e'(3,4) by (auto simp: oc_etimer_expired_def)
  moreover have "net_timers (s\<lparr>et := e'\<rparr>) (remove1 a ts)"
    using assms(1) e'(2) set_remove1_subset [of a ts] by (auto simp: net_timers_def)
  ultimately show ?thesis using e' oc_etimer_stop_sch [OF e'(1)] by blast
qed

section \<open>The end of a session\<close>

text \<open>What the end of a session leaves alone.\<close>

definition tls_frame :: "net \<Rightarrow> net \<Rightarrow> bool" where
  "tls_frame s s' \<longleftrightarrow> trans s' = trans s \<and> transactions_list s' = transactions_list s \<and> clk s' = clk s \<and> ccbs s' = ccbs s \<and>
     client_cbs s' = client_cbs s \<and> evring s' = evring s \<and> (\<forall>a. observers s' a = observers s a \<or> observers s' a = None) \<and>
     (\<forall>a \<in> set transactions_memb. timer (et s') a = timer (et s) a \<and> tproc (et s') a = tproc (et s) a) \<and>
     sub_msgs (msgs s') (msgs s)"

lemma tls_frame_refl [simp]: "tls_frame s s"
  by (simp add: tls_frame_def)

lemma tls_frame_trans: "tls_frame s s' \<Longrightarrow> tls_frame s' s'' \<Longrightarrow> tls_frame s s''"
  unfolding tls_frame_def using sub_msgs_trans [of "msgs s''" "msgs s'" "msgs s"] by metis

lemma net_inv_output: "net_inv (s\<lparr>outputs := xs\<rparr>) ext = net_inv s ext"
proof -
  have r: "refs_ok (s\<lparr>outputs := xs\<rparr>) e = refs_ok s e" for e by (rule refs_ok_cong) simp_all
  have h: "bw_heap b (s\<lparr>outputs := xs\<rparr>) = bw_heap b s" "bw_list b (s\<lparr>outputs := xs\<rparr>) = bw_list b s" for b
    by (cases b; simp)+
  show ?thesis
    by (simp add: net_inv_def state_inv_def all_refs_def [abs_def] r tls_held_def net_timers_def bw_inv_def cb_inv_def
        callbacks_ok_def pending_def obs_inv_def obs_count_def h)
qed

lemma count_list_concat_remove1:
  "p \<in> set xs \<Longrightarrow> count_list (concat (map g xs)) a = count_list (g p) a + count_list (concat (map g (remove1 p xs))) a"
  by (induction xs) auto

lemma tls_held_remove:
  assumes "registry tls_peers_s (sessions s) (session_list s)" and x: "sessions s p = Some x"
  defines "s' \<equiv> s\<lparr>session_list := remove1 p (session_list s), sessions := (sessions s)(p := None)\<rparr>"
  shows "count_list (tls_held s) a = count_list (send_q x @ recv_q x) a + count_list (tls_held s') a"
proof -
  let ?g = "\<lambda>p. case sessions s p of None \<Rightarrow> [] | Some x \<Rightarrow> send_q x @ recv_q x"
  have p: "p \<in> set (session_list s)" "distinct (session_list s)" using assms(1) x by (auto simp: registry_def)
  have "tls_held s' = concat (map ?g (remove1 p (session_list s)))"
    using p(2) unfolding tls_held_def s'_def by (intro arg_cong [of _ _ concat] map_cong) auto
  moreover have "?g p = send_q x @ recv_q x" using x by simp
  ultimately show ?thesis using count_list_concat_remove1 [OF p(1), of ?g a] by (simp only: tls_held_def)
qed

text \<open>The last steps: the queued messages are released, the timer stopped, the session freed.\<close>

lemma drop_session_ok:
  assumes inv: "net_inv s ext" and x: "sessions s p = Some x"
  shows "\<exists>s' s1 e'. unref_all s (send_q x) = Some s1 \<and> unref_all s1 (recv_q x) = Some s' \<and>
     oc_etimer_stop (clk s') (et s') p = Some e' \<and>
     (let s2 = s'\<lparr>et := e', session_list := remove1 p (session_list s'), sessions := free_obj tls_peers_s (sessions s') p\<rparr>
      in net_inv s2 ext \<and> tls_frame s s2)"
proof -
  obtain ts where ts: "net_timers s ts" and st: "registry tls_peers_s (sessions s) (session_list s)"
    using inv by (auto simp: net_inv_def state_inv_def)
  let ?n = "\<lambda>a. count_list (send_q x @ recv_q x) a"
  note cnt = tls_held_remove [OF st x]
  have le: "\<forall>a. count_list (send_q x) a \<le> all_refs s ext a" using cnt by (simp add: all_refs_def)
  obtain s1 ms1 where s1: "unref_all s (send_q x) = Some s1" "refs_ok s1 (\<lambda>a. all_refs s ext a - count_list (send_q x) a)"
    "s1 = s\<lparr>msgs := ms1\<rparr>" "sub_msgs ms1 (msgs s)" using unref_all_refs [OF net_inv_refs [OF inv] le] by blast
  have le1: "\<forall>a. count_list (recv_q x) a \<le> all_refs s ext a - count_list (send_q x) a" using cnt by (simp add: all_refs_def)
  obtain s' ms where s': "unref_all s1 (recv_q x) = Some s'"
    "refs_ok s' (\<lambda>a. all_refs s ext a - count_list (send_q x) a - count_list (recv_q x) a)" "s' = s1\<lparr>msgs := ms\<rparr>"
    "sub_msgs ms (msgs s1)"
    using unref_all_refs [OF s1(2) le1] by blast
  have eq: "s' = s\<lparr>msgs := ms\<rparr>" using s'(3) s1(3) by simp
  have p: "p \<noteq> NULL_PTR" "p \<in> set tls_peers_s" using st x by (auto simp: registry_def tls_peers_s_def)
  obtain e' where e': "oc_etimer_stop (clk s) (et s) p = Some e'" "net_timers (s\<lparr>et := e'\<rparr>) (remove1 p ts)" "sch e' = sch (et s)"
    "timer e' = timer (et s)" "tproc e' = (tproc (et s))(p := NULL_PTR)"
    using net_timers_stop [OF ts p(1)] by blast
  let ?h = "(sessions s)(p := None)"
  let ?s2 = "s\<lparr>msgs := ms, et := e', session_list := remove1 p (session_list s), sessions := ?h\<rparr>"
  have held: "tls_held ?s2 = tls_held (s\<lparr>session_list := remove1 p (session_list s), sessions := ?h\<rparr>)"
    by (simp add: tls_held_def)
  have "all_refs s ext a - count_list (send_q x) a - count_list (recv_q x) a = all_refs ?s2 ext a" for a
    using cnt [of a] held by (simp add: all_refs_def)
  with s'(2) have "refs_ok s' (all_refs ?s2 ext)" by simp
  moreover have "refs_ok ?s2 (all_refs ?s2 ext) = refs_ok s' (all_refs ?s2 ext)"
    by (rule refs_ok_cong) (simp_all add: eq e'(3))
  ultimately have refs: "refs_ok ?s2 (all_refs ?s2 ext)" by simp
  have h: "bw_heap b ?s2 = bw_heap b s" "bw_list b ?s2 = bw_list b s" for b by (cases b; simp)+
  have small: "count_list (tls_held ?s2) a \<le> 50" for a
  proof -
    have "count_list (tls_held s) a \<le> 50" using inv by (simp add: net_inv_def state_inv_def)
    with cnt [of a] held show ?thesis by simp
  qed
  have "registry tls_peers_s ?h (remove1 p (session_list s))"
    using registry_remove [OF st, of p] registry_free [OF st] by simp
  moreover have "net_timers ?s2 (remove1 p ts)" using e'(2) by (simp add: net_timers_def)
  ultimately have "net_inv ?s2 ext"
    using inv refs small e'(3) by (auto simp: net_inv_def state_inv_def bw_inv_def h cb_inv_def callbacks_ok_def pending_def
        obs_inv_def obs_count_def)
  moreover have "tls_frame s ?s2"
  proof -
    have "sub_msgs ms (msgs s)" using sub_msgs_trans [OF s'(4)] s1(3,4) by simp
    then show ?thesis using p(2) by (auto simp: tls_frame_def e'(3-5) pool_defs)
  qed
  ultimately show ?thesis
    using s1(1) s'(1) e'(1) p(2) by (intro exI [of _ s'] exI [of _ s1] exI [of _ e']) (simp add: eq free_obj_def)
qed

lemma free_peer_ok:
  assumes inv: "net_inv s ext" and x: "sessions s p = Some x"
  shows "\<exists>s'. oc_tls_free_peer s p b = Some s' \<and> net_inv s' ext \<and> tls_frame s s'"
proof -
  obtain s1 where s1: "(if flags (sendpoint x) AND TCP \<noteq> 0 then Some (send_output s (End_Session (sendpoint x)))
      else map_option fst (coap_remove_observer_by_client s (sendpoint x))) = Some s1"
    "net_inv s1 ext" "tls_frame s s1" "sessions s1 = sessions s"
  proof (cases "flags (sendpoint x) AND TCP \<noteq> 0")
    case True
    show thesis
      by (rule that [of "send_output s (End_Session (sendpoint x))"])
        (use True inv in \<open>simp_all add: send_output_def net_inv_output tls_frame_def\<close>)
  next
    case False
    obtain s1 n where s1: "coap_remove_observer_by_client s (sendpoint x) = Some (s1, n)" "net_inv s1 ext" "obs_frame s s1"
      "\<forall>a. observers s1 a = (case observers s a of None \<Rightarrow> None
         | Some y \<Rightarrow> if oc_endpoint_compare (oendpoint y) (sendpoint x) = 0 then None else Some y)"
      using remove_observers_net [OF inv] by blast
    have "observers s1 a = observers s a \<or> observers s1 a = None" for a using s1(4) by (cases "observers s a") auto
    moreover have eq: "s1 = s\<lparr>resources := resources s1, observers := observers s1, observers_list := observers_list s1, responses := responses s1\<rparr>"
      using s1(3) by (simp add: obs_frame_def)
    have "trans s1 = trans s" "transactions_list s1 = transactions_list s" "clk s1 = clk s" "ccbs s1 = ccbs s"
      "client_cbs s1 = client_cbs s" "et s1 = et s" "sessions s1 = sessions s" "msgs s1 = msgs s" by (subst eq, simp)+
    ultimately show thesis using that [of s1] s1(1,2) False by (simp add: tls_frame_def)
  qed
  obtain s2 where s2: "(if \<not> b then oc_ri_remove_timed_event_callback s1 p Oc_tls_inactive else Some s1) = Some s2"
    "net_inv s2 ext" "tls_frame s1 s2" "sessions s2 = sessions s1"
  proof (cases b)
    case False
    obtain s2 where "oc_ri_remove_timed_event_callback s1 p Oc_tls_inactive = Some s2" "net_inv s2 ext" "bw_frame s1 s2"
      using remove_timed_net [OF s1(2)] by blast
    with bw_frame_fields [of s1 s2] False that [of s2] event_callbacks_nonnull show thesis
      by (auto simp: tls_frame_def cb_sched_def same_sched_def)
  next
    case True
    with that [of s1] s1(2) show thesis by simp
  qed
  have x2: "sessions s2 p = Some x" using x s1(4) s2(4) by simp
  obtain s' s3 e' where s': "unref_all s2 (send_q x) = Some s3" "unref_all s3 (recv_q x) = Some s'"
    "oc_etimer_stop (clk s') (et s') p = Some e'"
    "let r = s'\<lparr>et := e', session_list := remove1 p (session_list s'), sessions := free_obj tls_peers_s (sessions s') p\<rparr>
      in net_inv r ext \<and> tls_frame s2 r"
    using drop_session_ok [OF s2(2) x2] by blast
  show ?thesis
    using x s1(1) s2(1) s' tls_frame_trans [OF s1(3) tls_frame_trans [OF s2(3)]]
    by (simp add: oc_tls_free_peer_def Let_def del: if_split)
qed

lemma tls_session_of_ok:
  assumes "net_inv s ext"
  shows "\<exists>r. tls_session_of s endpoint = Some r \<and> (\<forall>p. r = Some p \<longrightarrow> sessions s p \<noteq> None)"
proof -
  have reg: "registry tls_peers_s (sessions s) (session_list s)" using assms by (simp add: net_inv_def state_inv_def)
  show ?thesis
    using find_on_registry [OF reg] registry_live [OF reg] by (auto simp: tls_session_of_def dest!: find_SomeD)
qed

lemma close_connection_ok:
  assumes inv: "net_inv s ext"
  shows "\<exists>s'. oc_tls_close_connection close_notify s endpoint = Some s' \<and> net_inv s' ext \<and> tls_frame s s'"
proof -
  obtain r where r: "tls_session_of s endpoint = Some r" "\<forall>p. r = Some p \<longrightarrow> sessions s p \<noteq> None"
    using tls_session_of_ok [OF inv] by blast
  show ?thesis
  proof (cases r)
    case None
    with r inv show ?thesis by (intro exI [of _ s]) (simp add: oc_tls_close_connection_def)
  next
    case (Some p)
    then obtain x where x: "sessions s p = Some x" using r(2) by auto
    let ?s = "s\<lparr>outputs := outputs s @ map (Send (sendpoint x)) (close_notify s p)\<rparr>"
    obtain s' where "oc_tls_free_peer ?s p False = Some s'" "net_inv s' ext" "tls_frame ?s s'"
      using free_peer_ok [of ?s ext p x False] inv x by (auto simp: net_inv_output)
    with r Some x show ?thesis by (intro exI [of _ s']) (simp add: oc_tls_close_connection_def tls_frame_def)
  qed
qed

end
