(* ===== verification/Net_Transactions.thy ===== *)
theory Net_Transactions
  imports Net_Session
begin

text \<open>
  CoAP transactions: \<open>src/messaging/coap/transactions.c\<close>. A transaction owns one reference to
  its message. A confirmable message over UDP is sent again when its timer expires, with
  doubled interval, until it is acknowledged or \<open>COAP_MAX_RETRANSMIT\<close> is reached; every other
  message is sent once.
\<close>

section \<open>Operations\<close>

abbreviation (input) "COAP_MAX_RETRANSMIT \<equiv> 4 :: u8"

definition COAP_RESPONSE_TIMEOUT_TICKS :: clock where
  "COAP_RESPONSE_TIMEOUT_TICKS = OC_CLOCK_SECOND * 2"

text \<open>\<open>oc_random_value() % (oc_clock_time_t)COAP_RESPONSE_TIMEOUT_BACKOFF_MASK\<close> as the preprocessor
  expands it: the mask is not parenthesised, so its \<open>+ 1\<close> is added to the remainder. The
  factor 1.5 - 1.0 halves the timeout, and \<open>(long)\<close> cuts off the 0.5.\<close>

definition backoff :: "u32 \<Rightarrow> clock" where
  "backoff r = ucast r mod (OC_CLOCK_SECOND * 2 div 2) + 1"

definition zero_transaction :: coap_transaction where
  "zero_transaction = \<lparr>tmid = 0, retrans_counter = 0, tmessage = NULL_PTR\<rparr>"

definition coap_register_as_transaction_handler :: "net \<Rightarrow> net" where
  "coap_register_as_transaction_handler s = s\<lparr>transaction_handler_process := oc_process_current (sch (et s))\<rparr>"

definition coap_new_transaction :: "net \<Rightarrow> u16 \<Rightarrow> oc_endpoint \<Rightarrow> (net \<times> addr option) option" where
  "coap_new_transaction s m endpoint =
     (case alloc_obj transactions_memb (trans s) zero_transaction of
        (h, None) \<Rightarrow> Some (s, None)
      | (h, Some t) \<Rightarrow>
          let s = s\<lparr>trans := h, et := zero_timer (et s) t\<rparr>
          in case oc_internal_allocate_outgoing_message s of
               (s, None) \<Rightarrow> Some (s\<lparr>trans := free_obj transactions_memb (trans s) t\<rparr>, None)
             | (s, Some a) \<Rightarrow> do {
                 s \<leftarrow> set_endpoint s a endpoint;
                 Some (s\<lparr>trans := (trans s)(t \<mapsto> \<lparr>tmid = m, retrans_counter = 0, tmessage = a\<rparr>),
                   transactions_list := transactions_list s @ [t]\<rparr>, Some t)
               })"

definition coap_clear_transaction :: "net \<Rightarrow> addr \<Rightarrow> net option" where
  "coap_clear_transaction s t =
     (if t \<noteq> NULL_PTR then do {
        x \<leftarrow> trans s t;
        e \<leftarrow> oc_etimer_stop (clk s) (et s) t;
        s \<leftarrow> oc_message_unref (s\<lparr>et := e\<rparr>) (tmessage x);
        let s = s\<lparr>transactions_list := remove1 t (transactions_list s)\<rparr>;
        Some (s\<lparr>trans := free_obj transactions_memb (trans s) t\<rparr>)
      }
      else Some s)"

text \<open>The new interval: random at first, then doubled.\<close>

definition retrans_interval :: "net \<Rightarrow> addr \<Rightarrow> u8 \<Rightarrow> net \<times> clock" where
  "retrans_interval s t n =
     (if n = 0 then (let (s, r) = net_random s in (s, COAP_RESPONSE_TIMEOUT_TICKS + backoff r))
      else (s, push_bit 1 (interval (timer (et s) t))))"

definition is_confirmable :: "oc_message \<Rightarrow> bool option" where
  "is_confirmable m = do {
     b \<leftarrow> rd (mdata m) 0;
     Some (drop_bit 4 (0x30 AND b) = type_code COAP_TYPE_CON)
   }"

text \<open>A transaction that has been sent often enough: its peer is given up.\<close>

definition give_up :: "(net \<Rightarrow> addr \<Rightarrow> bytes list) \<Rightarrow> net \<Rightarrow> addr \<Rightarrow> coap_transaction \<Rightarrow> oc_endpoint \<Rightarrow> net option" where
  "give_up close_notify s t x endpoint = do {
     (s, _) \<leftarrow> coap_remove_observer_by_client s endpoint;
     s \<leftarrow> (if flags endpoint AND SECURED \<noteq> 0 then oc_tls_close_connection close_notify s endpoint else Some s);
     (s, _) \<leftarrow> oc_ri_remove_client_cb_by_mid s (tmid x);
     s \<leftarrow> oc_blockwise_scrub_buffers s;
     coap_clear_transaction s t
   }"

definition coap_send_transaction :: "(net \<Rightarrow> addr \<Rightarrow> bytes list) \<Rightarrow> net \<Rightarrow> addr \<Rightarrow> net option" where
  "coap_send_transaction close_notify s t = do {
     x \<leftarrow> trans s t;
     m \<leftarrow> msgs s (tmessage x);
     confirmable \<leftarrow> is_confirmable m;
     if flags (mendpoint m) AND TCP = 0 \<and> confirmable then
       if retrans_counter x < COAP_MAX_RETRANSMIT then do {
         let (s, iv) = retrans_interval s t (retrans_counter x);
         let s = s\<lparr>et := set_timer (et s) t ((timer (et s) t)\<lparr>interval := iv\<rparr>)\<rparr>;
         s \<leftarrow> in_context (transaction_handler_process s) (\<lambda>e. oc_etimer_restart (clk s) e t) s;
         s \<leftarrow> oc_message_add_ref s (tmessage x);
         coap_send_message s (tmessage x)
       }
       else give_up close_notify s t x (mendpoint m)
     else do {
       s \<leftarrow> oc_message_add_ref s (tmessage x);
       s \<leftarrow> coap_send_message s (tmessage x);
       coap_clear_transaction s t
     }
   }"

definition coap_get_transaction_by_mid :: "net \<Rightarrow> u16 \<Rightarrow> addr option option" where
  "coap_get_transaction_by_mid s m = find_on (trans s) (\<lambda>x. tmid x = m) (transactions_list s)"

text \<open>The loops read the successor before a transaction is sent or cleared, so they visit the
  elements the list has at the start.\<close>

primrec check_loop :: "(net \<Rightarrow> addr \<Rightarrow> bytes list) \<Rightarrow> net \<Rightarrow> addr list \<Rightarrow> net option" where
  "check_loop close_notify s [] = Some s"
| "check_loop close_notify s (t # ts) = do {
     x \<leftarrow> trans s t;
     s \<leftarrow> (if oc_etimer_expired (et s) t then
            coap_send_transaction close_notify (s\<lparr>trans := (trans s)(t \<mapsto> x\<lparr>retrans_counter := retrans_counter x + 1\<rparr>)\<rparr>) t
          else Some s);
     check_loop close_notify s ts
   }"

definition coap_check_transactions :: "(net \<Rightarrow> addr \<Rightarrow> bytes list) \<Rightarrow> net \<Rightarrow> net option" where
  "coap_check_transactions close_notify s = check_loop close_notify s (transactions_list s)"

primrec clear_loop :: "net \<Rightarrow> addr list \<Rightarrow> net option" where
  "clear_loop s [] = Some s"
| "clear_loop s (t # ts) = do { s \<leftarrow> coap_clear_transaction s t; clear_loop s ts }"

definition coap_free_all_transactions :: "net \<Rightarrow> net option" where
  "coap_free_all_transactions s = clear_loop s (transactions_list s)"

section \<open>The invariant\<close>

lemma state_inv_trans:
  assumes inv: "state_inv s" and s': "s' = s\<lparr>et := e, msgs := ms, trans := h, transactions_list := l, drawn := d\<rparr>"
    and "net_timers s' ts" and "registry transactions_memb h l" and "numevents (ring (sch e)) = numevents (evring s)"
  shows "state_inv s'"
proof -
  have b: "bw_heap b s' = bw_heap b s" "bw_list b s' = bw_list b s" "pending s' = pending s" for b
    by (cases b; simp add: s' pending_def)+
  have "bw_inv s' = bw_inv s" "cb_inv s' = cb_inv s" by (simp_all add: bw_inv_def cb_inv_def b) (simp_all add: s')
  moreover have "callbacks_ok s' = callbacks_ok s" "obs_inv s' = obs_inv s" "tls_held s' = tls_held s"
    by (simp_all add: s' callbacks_ok_def obs_inv_def obs_count_def tls_held_def)
  ultimately show ?thesis using inv assms(3-5) by (auto simp: state_inv_def) (auto simp: s')
qed

lemma held_remove:
  assumes "registry transactions_memb h l" and "h t = Some x"
  shows "held h l a = held (h(t := None)) (remove1 t l) a + (if tmessage x = a then 1 else 0)"
proof -
  have l: "distinct l" "t \<in> set l" using assms by (auto simp: registry_def)
  let ?P = "\<lambda>h t. map_option tmessage (h t) = Some a"
  have "filter (?P (h(t := None))) (remove1 t l) = filter (?P h) (remove1 t l)"
    using l(1) by (intro filter_cong) auto
  also have "\<dots> = remove1 t (filter (?P h) l)" by (rule filter_remove1)
  finally have "held (h(t := None)) (remove1 t l) a = length (remove1 t (filter (?P h) l))" by (simp only: held_def)
  moreover have "0 < length (filter (?P h) l)" if "tmessage x = a"
    using l(2) assms(2) that by (auto simp: filter_empty_conv)
  ultimately show ?thesis using l(2) assms(2) by (simp add: held_def length_remove1)
qed

lemma held_add: "t \<notin> set l \<Longrightarrow> held (h(t \<mapsto> x)) (l @ [t]) a = held h l a + (if tmessage x = a then 1 else 0)"
  by (simp add: held_def) (intro arg_cong [of _ _ length] filter_cong refl, auto)

text \<open>The message of a transaction is live.\<close>

lemma trans_message:
  assumes inv: "net_inv s ext" and x: "trans s t = Some x"
  obtains m where "msgs s (tmessage x) = Some m" and "length (mdata m) = OC_PDU_SIZE" and "tmessage x \<noteq> NULL_PTR"
proof -
  have "registry transactions_memb (trans s) (transactions_list s)" using inv by (simp add: net_inv_def state_inv_def)
  from held_remove [OF this x, of "tmessage x"] have "0 < refs s (tmessage x)" by (simp add: refs_def)
  moreover have "msg_counts s (all_refs s ext) (tmessage x)" using net_inv_refs [OF inv] by (simp add: refs_ok_def)
  ultimately show thesis using that pool_blocks_nonnull by (cases "msgs s (tmessage x)") (auto simp: msg_counts_def)
qed

lemma trans_addr:
  assumes "net_inv s ext" and "trans s t = Some x"
  shows "t \<in> set transactions_memb" "t \<noteq> NULL_PTR" "t \<in> set (transactions_list s)"
proof -
  have "registry transactions_memb (trans s) (transactions_list s)" using assms(1) by (simp add: net_inv_def state_inv_def)
  with assms(2) show "t \<in> set transactions_memb" "t \<in> set (transactions_list s)" by (auto simp: registry_def)
  then show "t \<noteq> NULL_PTR" by (auto simp: transactions_memb_def)
qed

lemma unref_trans:
  "oc_message_unref (s\<lparr>trans := h, transactions_list := l\<rparr>) a =
   map_option (\<lambda>s. s\<lparr>trans := h, transactions_list := l\<rparr>) (oc_message_unref s a)"
  by (cases "msgs s a") (simp_all add: oc_message_unref_def set_msg_def Let_def)

text \<open>Clearing a transaction.\<close>

lemma clear_transaction_ok:
  assumes inv: "net_inv s ext" and x: "trans s t = Some x"
  shows "\<exists>s' e ms. coap_clear_transaction s t = Some s' \<and> net_inv s' ext \<and>
     s' = s\<lparr>et := e, msgs := ms, trans := (trans s)(t := None), transactions_list := remove1 t (transactions_list s)\<rparr> \<and>
     sch e = sch (et s) \<and> timer e = timer (et s) \<and> tproc e = (tproc (et s))(t := NULL_PTR) \<and> sub_msgs ms (msgs s)"
proof -
  obtain ts where ts: "net_timers s ts" and reg: "registry transactions_memb (trans s) (transactions_list s)"
    using inv by (auto simp: net_inv_def state_inv_def)
  note t = trans_addr [OF inv x]
  obtain e where e: "oc_etimer_stop (clk s) (et s) t = Some e" "net_timers (s\<lparr>et := e\<rparr>) (remove1 t ts)"
    "timer e = timer (et s)" "tproc e = (tproc (et s))(t := NULL_PTR)" "sch e = sch (et s)"
    using net_timers_stop [OF ts t(2)] by blast
  let ?a = "tmessage x" and ?h = "(trans s)(t := None)" and ?l = "remove1 t (transactions_list s)"
  let ?s1 = "s\<lparr>et := e, trans := ?h, transactions_list := ?l\<rparr>"
  let ?e = "all_refs s ext"
  have "msg_counts ?s1 (?e(?a := ?e ?a + 1)) b" for b
  proof -
    have "msg_counts s ?e b" using net_inv_refs [OF inv] by (simp add: refs_ok_def)
    moreover have "refs s b = refs ?s1 b + (if ?a = b then 1 else 0)"
      using held_remove [OF reg x, of b] e(5) by (simp add: refs_def)
    ultimately show ?thesis by (auto simp: msg_counts_def split: option.splits)
  qed
  then have "refs_ok ?s1 (?e(?a := ?e ?a + 1))" using net_inv_refs [OF inv] e(5) by (simp add: refs_ok_def)
  from unref_refs [OF this, of ?a] obtain s2 where s2: "oc_message_unref ?s1 ?a = Some s2" "refs_ok s2 ?e" "s2 = ?s1\<lparr>msgs := msgs s2\<rparr>"
    "\<forall>b. b \<noteq> ?a \<longrightarrow> msgs s2 b = msgs s b" "\<forall>m'. msgs s2 ?a = Some m' \<longrightarrow> (\<exists>m. msgs s ?a = Some m \<and> m' = m\<lparr>mref := mref m - 1\<rparr>)"
    by auto
  have sub: "sub_msgs (msgs s2) (msgs s)" unfolding sub_msgs_def
  proof (intro allI impI)
    fix b m' assume "msgs s2 b = Some m'"
    then show "\<exists>m. msgs s b = Some m \<and> mdata m' = mdata m \<and> mendpoint m' = mendpoint m"
      using s2(4,5) by (cases "b = ?a") auto
  qed
  have "oc_message_unref ?s1 ?a = map_option (\<lambda>s. s\<lparr>trans := ?h, transactions_list := ?l\<rparr>) (oc_message_unref (s\<lparr>et := e\<rparr>) ?a)"
    using unref_trans [where s = "s\<lparr>et := e\<rparr>" and h = ?h and l = ?l and a = ?a] by simp
  then obtain s3 where s3: "oc_message_unref (s\<lparr>et := e\<rparr>) ?a = Some s3" "s2 = s3\<lparr>trans := ?h, transactions_list := ?l\<rparr>"
    using s2(1) by (cases "oc_message_unref (s\<lparr>et := e\<rparr>) ?a") simp_all
  have "trans s3 = trans s" "transactions_list s3 = transactions_list s"
    using s3(1) by (auto simp: oc_message_unref_def set_msg_def Let_def bind_eq_Some_conv split: if_splits)
  then have ret: "coap_clear_transaction s t = Some s2"
    using t x e(1) s3 registry_free [OF reg] by (simp add: coap_clear_transaction_def)
  have eq: "s2 = s\<lparr>et := e, msgs := msgs s2, trans := ?h, transactions_list := ?l\<rparr>" by (subst s2(3)) simp
  have "net_timers s2 (remove1 t ts)"
  proof -
    have "distinct ts" using ts path_distinct by (auto simp: net_timers_def etimers_ok_def timers_def)
    then show ?thesis using e(2) by (subst eq) (auto simp: net_timers_def)
  qed
  moreover have "registry transactions_memb ?h ?l" using registry_remove [OF reg, of t] registry_free [OF reg] by simp
  moreover have st: "state_inv s" using inv by (simp add: net_inv_def)
  ultimately have "state_inv s2"
    by (intro state_inv_trans [OF st, where e = e and ms = "msgs s2" and h = ?h and l = ?l and d = "drawn s"]) (subst eq, simp_all add: e(5))
  moreover have "all_refs s2 ext = ?e" by (subst eq) (simp add: all_refs_def [abs_def] tls_held_def)
  ultimately have "net_inv s2 ext" using s2(2) inv by (simp add: net_inv_def)
  with ret eq e sub show ?thesis by (intro exI [of _ s2] exI [of _ e] exI [of _ "msgs s2"]) simp
qed

text \<open>A new transaction.\<close>

definition fresh_trans :: "net \<Rightarrow> u16 \<Rightarrow> oc_endpoint \<Rightarrow> net \<Rightarrow> addr \<Rightarrow> bool" where
  "fresh_trans s m endpoint s' t \<longleftrightarrow> trans s t = None \<and> transactions_list s' = transactions_list s @ [t] \<and>
     (\<exists>a x. msgs s a = None \<and> msgs s' = (msgs s)(a \<mapsto> x) \<and> mendpoint x = endpoint \<and> mref x = 1 \<and>
        trans s' = (trans s)(t \<mapsto> \<lparr>tmid = m, retrans_counter = 0, tmessage = a\<rparr>))"

lemma held_other: "t \<notin> set l \<Longrightarrow> held (h(t := v)) l a = held h l a"
  unfolding held_def by (intro arg_cong [of _ _ length] filter_cong refl) auto

lemma zero_timer_sch [simp]: "sch (zero_timer e t) = sch e"
  by (simp add: zero_timer_def)

lemma new_transaction_room:
  fixes endpoint :: oc_endpoint and m :: u16
  assumes inv: "net_inv s ext" and t: "t \<in> set transactions_memb" "trans s t = None"
    and al: "allocate_message (s\<lparr>trans := (trans s)(t \<mapsto> zero_transaction), et := zero_timer (et s) t\<rparr>) Outgoing = (s2, Some a)"
  defines "s3 \<equiv> set_msg s2 a ((the (msgs s2 a))\<lparr>mendpoint := endpoint\<rparr>)"
  defines "s' \<equiv> s3\<lparr>trans := (trans s3)(t \<mapsto> \<lparr>tmid = m, retrans_counter = 0, tmessage = a\<rparr>), transactions_list := transactions_list s3 @ [t]\<rparr>"
  shows "net_inv s' ext \<and> fresh_trans s m endpoint s' t \<and> msgs s2 a \<noteq> None \<and> (\<exists>ms h l. s' = s\<lparr>et := zero_timer (et s) t, msgs := ms, trans := h, transactions_list := l\<rparr>)"
proof -
  obtain ts where ts: "net_timers s ts" and reg: "registry transactions_memb (trans s) (transactions_list s)" and st: "state_inv s"
    using inv by (auto simp: net_inv_def state_inv_def)
  have tl: "t \<notin> set (transactions_list s)" "t \<notin> set ts" using reg ts t by (auto simp: registry_def net_timers_def)
  let ?s1 = "s\<lparr>trans := (trans s)(t \<mapsto> zero_transaction), et := zero_timer (et s) t\<rparr>" and ?e = "all_refs s ext"
  have refs1: "refs ?s1 b = refs s b" for b using held_other [OF tl(1)] by (simp add: refs_def)
  have "msg_counts ?s1 ?e b" for b
    using net_inv_refs [OF inv] by (auto simp: refs_ok_def msg_counts_def refs1 dest!: spec [of _ b] split: option.splits)
  then have ok1: "refs_ok ?s1 ?e" using net_inv_refs [OF inv] by (simp add: refs_ok_def)
  note a = allocate_message_refs [OF ok1 al]
  define x where "x = the (msgs s2 a)"
  have x: "msgs s2 a = Some x" "mref x = 1" "mpool x = Outgoing" "length (mdata x) = OC_PDU_SIZE"
    by (simp_all add: x_def a(7) zero_message_def)
  have x3: "msgs s2 = (msgs s)(a \<mapsto> x)" using a(4) x(1) by simp
  let ?y = "x\<lparr>mendpoint := endpoint\<rparr>" and ?T = "\<lparr>tmid = m, retrans_counter = 0, tmessage = a\<rparr>"
  have s2: "s2 = ?s1\<lparr>msgs := (msgs s)(a \<mapsto> x)\<rparr>" by (subst a(5)) (simp add: x3)
  have s': "s' = s\<lparr>et := zero_timer (et s) t, msgs := (msgs s)(a \<mapsto> ?y), trans := (trans s)(t \<mapsto> ?T), transactions_list := transactions_list s @ [t]\<rparr>"
    unfolding s'_def s3_def set_msg_def x(1) option.sel by (simp add: s2)
  have "net_timers s' ts"
    using zero_timer_ok(1) [of "et s" ts t] ts tl(2) by (auto simp: s' net_timers_def)
  moreover have "registry transactions_memb ((trans s)(t \<mapsto> ?T)) (transactions_list s @ [t])" by (rule registry_add [OF reg t])
  ultimately have st': "state_inv s'"
    by (intro state_inv_trans [OF st, where e = "zero_timer (et s) t" and ms = "(msgs s)(a \<mapsto> ?y)" and d = "drawn s"]) (simp_all add: s')
  have refs': "refs s' b = refs s b + (if a = b then 1 else 0)" for b
    using held_add [OF tl(1), of "trans s" ?T b] by (simp add: s' refs_def)
  have "refs s a = 0" "?e a = 0"
    using net_inv_refs [OF inv] a(2) by (auto simp: refs_ok_def msg_counts_def dest!: spec [of _ a])
  then have "msg_counts s' ?e b" for b
    using net_inv_refs [OF inv] x a(6) refs' [of b] by (cases "b = a") (auto simp: refs_ok_def msg_counts_def s' dest!: spec [of _ b] split: option.splits)
  then have "refs_ok s' ?e" using net_inv_refs [OF inv] by (simp add: refs_ok_def s')
  moreover have "all_refs s' ext = ?e" by (simp add: s' all_refs_def [abs_def] tls_held_def)
  ultimately have "net_inv s' ext" using st' inv by (simp add: net_inv_def)
  moreover have "fresh_trans s m endpoint s' t"
    unfolding fresh_trans_def using t(2) a(2) x(2) by (intro conjI exI [of _ a] exI [of _ ?y]) (simp_all add: s')
  ultimately show ?thesis using x(1) s' by (intro conjI) (simp, simp, simp, blast)
qed

lemma allocate_message_None: "allocate_message s pool = (s', None) \<longleftrightarrow> s' = s \<and> obj_room (pool_blocks pool) (msgs s) = 0"
  by (rule alloc_obj_cases [of "pool_blocks pool" "msgs s" zero_message])
    (auto simp: allocate_message_def obj_room_def filter_empty_conv)

lemma new_transaction_ok:
  assumes inv: "net_inv s ext"
  shows "\<exists>s' r. coap_new_transaction s m endpoint = Some (s', r) \<and> net_inv s' ext \<and>
     (\<exists>e ms h l. s' = s\<lparr>et := e, msgs := ms, trans := h, transactions_list := l\<rparr> \<and> sch e = sch (et s)) \<and>
     (case r of None \<Rightarrow> (obj_room transactions_memb (trans s) = 0 \<or> obj_room oc_outgoing_buffers (msgs s) = 0) \<and>
          trans s' = trans s \<and> msgs s' = msgs s \<and> transactions_list s' = transactions_list s
      | Some t \<Rightarrow> fresh_trans s m endpoint s' t)"
proof (rule alloc_obj_cases [of transactions_memb "trans s" zero_transaction], goal_cases)
  case 1
  then have "obj_room transactions_memb (trans s) = 0" by (simp add: obj_room_def)
  moreover have "\<exists>e ms h l. s = s\<lparr>et := e, msgs := ms, trans := h, transactions_list := l\<rparr> \<and> sch e = sch (et s)"
    by (intro exI [of _ "et s"] exI [of _ "msgs s"] exI [of _ "trans s"] exI [of _ "transactions_list s"]) simp
  ultimately show ?thesis using 1(1) inv
    by (intro exI [of _ s] exI [of _ None]) (simp add: coap_new_transaction_def)
next
  case (2 t)
  let ?s1 = "s\<lparr>trans := (trans s)(t \<mapsto> zero_transaction), et := zero_timer (et s) t\<rparr>"
  show ?thesis
  proof (cases "allocate_message ?s1 Outgoing")
    case (Pair s2 r)
    show ?thesis
    proof (cases r)
      case None
      then have s2: "s2 = ?s1" "obj_room oc_outgoing_buffers (msgs s) = 0"
        using Pair allocate_message_None [of ?s1 Outgoing s2] by simp_all
      let ?s' = "s\<lparr>et := zero_timer (et s) t\<rparr>"
      have h: "((trans s)(t \<mapsto> zero_transaction))(t := None) = trans s" using 2(3) by (auto simp: fun_eq_iff)
      have ret: "coap_new_transaction s m endpoint = Some (?s', None)"
        using 2 Pair None s2(1) h by (simp add: coap_new_transaction_def oc_internal_allocate_outgoing_message_def free_obj_def)
      obtain ts where ts: "net_timers s ts" and reg: "registry transactions_memb (trans s) (transactions_list s)" and st: "state_inv s"
        using inv by (auto simp: net_inv_def state_inv_def)
      have "t \<notin> set ts" using ts 2(2,3) by (auto simp: net_timers_def)
      then have "net_timers ?s' ts" using zero_timer_ok(1) [of "et s" ts t] ts by (auto simp: net_timers_def)
      then have "state_inv ?s'" using reg
        by (intro state_inv_trans [OF st, where e = "zero_timer (et s) t" and ms = "msgs s" and h = "trans s" and
              l = "transactions_list s" and d = "drawn s"]) simp_all
      moreover have "refs_ok ?s' e = refs_ok s e" for e by (rule refs_ok_cong) simp_all
      ultimately have "net_inv ?s' ext" using inv by (simp add: net_inv_def all_refs_def [abs_def] tls_held_def)
      moreover have "\<exists>e ms h l. ?s' = s\<lparr>et := e, msgs := ms, trans := h, transactions_list := l\<rparr> \<and> sch e = sch (et s)"
        by (intro exI [of _ "zero_timer (et s) t"] exI [of _ "msgs s"] exI [of _ "trans s"] exI [of _ "transactions_list s"]) simp
      ultimately show ?thesis using ret s2(2) by (intro exI [of _ ?s'] exI [of _ None]) simp
    next
      case (Some a)
      note n = new_transaction_room [OF inv 2(2,3) Pair [unfolded Some], of endpoint m]
      then obtain x where x: "msgs s2 a = Some x" by auto
      let ?s3 = "set_msg s2 a (x\<lparr>mendpoint := endpoint\<rparr>)"
      let ?s' = "?s3\<lparr>trans := (trans ?s3)(t \<mapsto> \<lparr>tmid = m, retrans_counter = 0, tmessage = a\<rparr>), transactions_list := transactions_list ?s3 @ [t]\<rparr>"
      have "coap_new_transaction s m endpoint = Some (?s', Some t)"
        using 2 Pair Some x by (simp add: coap_new_transaction_def oc_internal_allocate_outgoing_message_def set_endpoint_def)
      moreover obtain ms h l where eq: "?s' = s\<lparr>et := zero_timer (et s) t, msgs := ms, trans := h, transactions_list := l\<rparr>"
        "net_inv ?s' ext" "fresh_trans s m endpoint ?s' t"
        using n x by auto
      moreover have "\<exists>e ms h l. ?s' = s\<lparr>et := e, msgs := ms, trans := h, transactions_list := l\<rparr> \<and> sch e = sch (et s)"
        by (intro exI [of _ "zero_timer (et s) t"] exI [of _ ms] exI [of _ h] exI [of _ l] conjI) (rule eq, simp)
      ultimately show ?thesis by (intro exI [of _ ?s'] exI [of _ "Some t"] conjI) (simp only: option.case)+
    qed
  qed
qed

section \<open>Sending\<close>

lemma net_inv_timer:
  assumes inv: "net_inv s ext" and s': "s' = s\<lparr>et := e, drawn := d\<rparr>" and ts: "net_timers s' ts"
    and ring: "ring (sch e) = evring s"
  shows "net_inv s' ext"
proof -
  have st: "state_inv s" and reg: "registry transactions_memb (trans s) (transactions_list s)"
    using inv by (auto simp: net_inv_def state_inv_def)
  have "state_inv s'"
    by (rule state_inv_trans [OF st, where e = e and ms = "msgs s" and h = "trans s" and l = "transactions_list s" and d = d, OF _ ts reg])
      (simp_all add: s' ring)
  moreover have "refs_ok s' r = refs_ok s r" for r by (rule refs_ok_cong) (simp_all add: s' ring)
  ultimately show ?thesis using inv by (simp add: net_inv_def s' all_refs_def [abs_def] tls_held_def)
qed

definition next_interval :: "net \<Rightarrow> addr \<Rightarrow> u8 \<Rightarrow> clock" where
  "next_interval s t n = snd (retrans_interval s t n)"

lemma retrans_interval_drawn: "\<exists>d. retrans_interval s t n = (s\<lparr>drawn := d\<rparr>, next_interval s t n)"
proof (cases "n = 0")
  case True
  then show ?thesis by (auto simp: retrans_interval_def next_interval_def net_random_def)
next
  case False
  then show ?thesis by (intro exI [of _ "drawn s"]) (simp add: retrans_interval_def next_interval_def)
qed

text \<open>Arming the retransmission timer.\<close>

lemma arm_retrans:
  fixes d :: nat and iv :: clock
  assumes inv: "net_inv s ext" and x: "trans s t = Some x"
  defines "s1 \<equiv> s\<lparr>drawn := d, et := set_timer (et s) t ((timer (et s) t)\<lparr>interval := iv\<rparr>)\<rparr>"
  shows "\<exists>e. in_context (transaction_handler_process s1) (\<lambda>e. oc_etimer_restart (clk s1) e t) s1 = Some (s\<lparr>drawn := d, et := e\<rparr>) \<and>
     net_inv (s\<lparr>drawn := d, et := e\<rparr>) ext \<and> timer e = (timer (et s))(t := \<lparr>start = clk s, interval = iv\<rparr>) \<and>
     tproc e = (tproc (et s))(t := transaction_handler_process s) \<and> ring (sch e) = evring s"
proof -
  obtain ts where ts: "net_timers s ts" and p: "transaction_handler_process s \<noteq> NULL_PTR"
    using inv by (auto simp: net_inv_def state_inv_def)
  note t = trans_addr [OF inv x]
  let ?T = "\<lparr>start = clk s, interval = iv\<rparr>"
  have e1: "etimers_ok (et s1) ts" using ts by (simp add: s1_def net_timers_def)
  obtain e where e: "in_context (transaction_handler_process s) (\<lambda>e. add_timer (clk s) (set_timer e t ?T) t) s1 = Some (s1\<lparr>et := e\<rparr>)"
    "etimers_ok e (if t \<in> set ts then ts else t # ts)" "timer e = (timer (et s1))(t := ?T)"
    "tproc e = (tproc (et s1))(t := transaction_handler_process s)" "same_sched (et s1) e"
    using in_context_arm [OF e1 t(2) p, of "clk s" ?T] by blast
  have "in_context (transaction_handler_process s1) (\<lambda>e. oc_etimer_restart (clk s1) e t) s1 =
      in_context (transaction_handler_process s) (\<lambda>e. add_timer (clk s) (set_timer e t ?T) t) s1"
    by (cases "timer (et s) t") (simp add: in_context_def oc_etimer_restart_def oc_timer_restart_def s1_def set_timer_def)
  with e(1) have r: "in_context (transaction_handler_process s1) (\<lambda>e. oc_etimer_restart (clk s1) e t) s1 = Some (s\<lparr>drawn := d, et := e\<rparr>)"
    by (simp add: s1_def)
  have ring: "ring (sch e) = evring s" using e(5) by (simp add: same_sched_def s1_def set_timer_def)
  have "net_timers (s\<lparr>et := e, drawn := d\<rparr>) (if t \<in> set ts then ts else t # ts)"
    using ts e(2) x t(1) event_callbacks_nonnull [of t] by (auto simp: net_timers_def)
  then have "net_inv (s\<lparr>et := e, drawn := d\<rparr>) ext" by (intro net_inv_timer [OF inv refl _ ring]) simp
  moreover have "s\<lparr>et := e, drawn := d\<rparr> = s\<lparr>drawn := d, et := e\<rparr>" by (cases s) simp
  ultimately have "net_inv (s\<lparr>drawn := d, et := e\<rparr>) ext" by (simp only:)
  moreover have "timer e = (timer (et s))(t := ?T)" "tproc e = (tproc (et s))(t := transaction_handler_process s)"
    using e(3,4) by (simp_all add: s1_def set_timer_def)
  ultimately show ?thesis using r ring by (intro exI [of _ e] conjI)
qed

definition out_event :: "addr \<Rightarrow> event_data" where
  "out_event a = \<lparr>ev = 0x8f, data = a, receiver = message_buffer_handler\<rparr>"

lemma same_contents:
  assumes "\<forall>b. map_option mdata (h' b) = map_option mdata (h b) \<and> map_option mendpoint (h' b) = map_option mendpoint (h b)"
  shows "sub_msgs h' h"
  unfolding sub_msgs_def
proof (intro allI impI)
  fix a m' assume "h' a = Some m'"
  with assms [rule_format, of a] show "\<exists>m. h a = Some m \<and> mdata m' = mdata m \<and> mendpoint m' = mendpoint m"
    by (cases "h a") auto
qed

text \<open>A reference for the network, then the message is posted.\<close>

lemma ref_and_send_ok:
  assumes inv: "net_inv s ext" and m: "msgs s a = Some m" and "ext a < 50"
  shows "\<exists>s1 s'. oc_message_add_ref s a = Some s1 \<and> coap_send_message s1 a = Some s' \<and> net_inv s' ext \<and> send_frame s s' \<and>
     (\<forall>b. msgs s b \<noteq> None \<longrightarrow> map_option mdata (msgs s' b) = map_option mdata (msgs s b) \<and>
        map_option mendpoint (msgs s' b) = map_option mendpoint (msgs s b)) \<and>
     (flags (mendpoint m) AND TCP = 0 \<longrightarrow> sub_msgs (msgs s') (msgs s)) \<and>
     (flags (mendpoint m) AND TCP = 0 \<and> \<not> ring_full s \<longrightarrow> evq s' = evq s @ [out_event a])"
proof -
  obtain s1 where s1: "oc_message_add_ref s a = Some s1" "net_inv s1 (ext(a := ext a + 1))" "send_frame s s1"
    "msgs s1 = (msgs s)(a \<mapsto> m\<lparr>mref := mref m + 1\<rparr>)" "evring s1 = evring s"
    using net_inv_add_ref [OF assms] by blast
  obtain s' where s': "coap_send_message s1 a = Some s'" "net_inv s' ext" "send_frame s1 s'"
    "\<forall>b. msgs s1 b \<noteq> None \<longrightarrow> map_option mdata (msgs s' b) = map_option mdata (msgs s1 b) \<and>
        map_option mendpoint (msgs s' b) = map_option mendpoint (msgs s1 b)"
    using coap_send_message_ok [OF s1(2), of a] by auto
  have udp: "sub_msgs (msgs s') (msgs s) \<and> (\<not> ring_full s \<longrightarrow> evq s' = evq s @ [out_event a])"
    if "flags (mendpoint m) AND TCP = 0"
  proof -
    have "coap_send_message s1 a = oc_send_message s1 a"
      using that s1(4) coap_send_message_udp [of s1 a "m\<lparr>mref := mref m + 1\<rparr>"] by simp
    with s'(1) net_inv_send [OF s1(2), of a] have *: "\<forall>b. map_option mdata (msgs s' b) = map_option mdata (msgs s1 b) \<and>
        map_option mendpoint (msgs s' b) = map_option mendpoint (msgs s1 b)" "\<not> ring_full s1 \<longrightarrow> evq s' = evq s1 @ [out_event a]"
      by (auto simp: out_event_def)
    have "sub_msgs (msgs s1) (msgs s)" using s1(4) m by (auto simp: sub_msgs_def)
    then have "sub_msgs (msgs s') (msgs s)" by (rule sub_msgs_trans [OF same_contents [OF *(1)]])
    with *(2) s1(5) show ?thesis by (simp add: ring_full_def)
  qed
  moreover have "map_option mdata (msgs s' b) = map_option mdata (msgs s b) \<and>
        map_option mendpoint (msgs s' b) = map_option mendpoint (msgs s b)" if "msgs s b \<noteq> None" for b
    using that s'(4) s1(4) m by (cases "b = a") auto
  ultimately show ?thesis using s1(1) s'(1,2) send_frame_trans [OF s1(3) s'(3)]
    by (intro exI [of _ s1] exI [of _ s']) blast
qed

text \<open>A confirmable message over UDP that may still be repeated.\<close>

lemma resend_ok:
  assumes inv: "net_inv s ext" and x: "trans s t = Some x" and m: "msgs s (tmessage x) = Some m"
    and con: "is_confirmable m = Some True" "flags (mendpoint m) AND TCP = 0" and n: "retrans_counter x < 4"
    and "ext (tmessage x) < 50"
  shows "\<exists>s'. coap_send_transaction close_notify s t = Some s' \<and> net_inv s' ext \<and> trans s' = trans s \<and>
     transactions_list s' = transactions_list s \<and> clk s' = clk s \<and> transaction_handler_process s' = transaction_handler_process s \<and>
     timer (et s') = (timer (et s))(t := \<lparr>start = clk s, interval = next_interval s t (retrans_counter x)\<rparr>) \<and>
     tproc (et s') = (tproc (et s))(t := transaction_handler_process s) \<and>
     sub_msgs (msgs s') (msgs s) \<and> numevents (evring s') = numevents (evring s) \<and>
     (\<not> ring_full s \<longrightarrow> evq s' = evq s @ [out_event (tmessage x)])"
proof -
  obtain d where d: "retrans_interval s t (retrans_counter x) = (s\<lparr>drawn := d\<rparr>, next_interval s t (retrans_counter x))"
    using retrans_interval_drawn by blast
  let ?iv = "next_interval s t (retrans_counter x)"
  obtain e where e: "in_context (transaction_handler_process s) (\<lambda>e. oc_etimer_restart (clk s) e t)
      (s\<lparr>drawn := d, et := set_timer (et s) t ((timer (et s) t)\<lparr>interval := ?iv\<rparr>)\<rparr>) = Some (s\<lparr>drawn := d, et := e\<rparr>)"
    "net_inv (s\<lparr>drawn := d, et := e\<rparr>) ext" "timer e = (timer (et s))(t := \<lparr>start = clk s, interval = ?iv\<rparr>)"
    "tproc e = (tproc (et s))(t := transaction_handler_process s)" "ring (sch e) = evring s"
    using arm_retrans [OF inv x, where d = d and iv = ?iv] by auto
  let ?s2 = "s\<lparr>drawn := d, et := e\<rparr>"
  obtain s3 s' where s': "oc_message_add_ref ?s2 (tmessage x) = Some s3" "coap_send_message s3 (tmessage x) = Some s'" "net_inv s' ext"
    "send_frame ?s2 s'" "sub_msgs (msgs s') (msgs s)"
    "\<not> ring_full ?s2 \<longrightarrow> evq s' = evq ?s2 @ [out_event (tmessage x)]"
    using ref_and_send_ok [OF e(2), of "tmessage x" m] m assms(7) con(2) by auto
  note f = send_frame_fields [OF s'(4)]
  have "coap_send_transaction close_notify s t = Some s'"
    using x m con n d e(1) s'(1,2) by (simp add: coap_send_transaction_def)
  moreover have "\<not> ring_full s \<longrightarrow> evq s' = evq s @ [out_event (tmessage x)]" using s'(6) e(5) by (simp add: ring_full_def)
  ultimately show ?thesis using s'(3,5) f e(3-5) by (intro exI [of _ s']) simp
qed

text \<open>Any other message is sent once.\<close>

lemma send_once_ok:
  assumes inv: "net_inv s ext" and x: "trans s t = Some x" and m: "msgs s (tmessage x) = Some m"
    and con: "is_confirmable m = Some c" "\<not> (flags (mendpoint m) AND TCP = 0 \<and> c)" and "ext (tmessage x) < 50"
  shows "\<exists>s'. coap_send_transaction close_notify s t = Some s' \<and> net_inv s' ext \<and> trans s' = (trans s)(t := None) \<and>
     transactions_list s' = remove1 t (transactions_list s) \<and> clk s' = clk s \<and>
     (flags (mendpoint m) AND TCP = 0 \<and> \<not> ring_full s \<longrightarrow> evq s' = evq s @ [out_event (tmessage x)])"
proof -
  obtain s1 s2 where s2: "oc_message_add_ref s (tmessage x) = Some s1" "coap_send_message s1 (tmessage x) = Some s2" "net_inv s2 ext"
    "send_frame s s2" "flags (mendpoint m) AND TCP = 0 \<and> \<not> ring_full s \<longrightarrow> evq s2 = evq s @ [out_event (tmessage x)]"
    using ref_and_send_ok [OF inv m assms(6)] by blast
  note f = send_frame_fields [OF s2(4)]
  obtain s' e ms where s': "coap_clear_transaction s2 t = Some s'" "net_inv s' ext"
    "s' = s2\<lparr>et := e, msgs := ms, trans := (trans s2)(t := None), transactions_list := remove1 t (transactions_list s2)\<rparr>"
    "sch e = sch (et s2)"
    using clear_transaction_ok [OF s2(3), of t x] x f(1) by auto
  have "coap_send_transaction close_notify s t = Some s'"
    using x m con s2(1,2) s'(1) by (auto simp: coap_send_transaction_def)
  then show ?thesis using s' s2(5) f by (intro exI [of _ s']) simp
qed

text \<open>Giving up a peer.\<close>

lemma remove_cb_net:
  assumes inv: "net_inv s ext"
  shows "\<exists>s' r. oc_ri_remove_client_cb_by_mid s m = Some (s', r) \<and> net_inv s' ext \<and> cl_frame s s' \<and>
     client_cbs s' = (case find (\<lambda>c. cmid (the (ccbs s c)) = m) (client_cbs s) of
       None \<Rightarrow> client_cbs s | Some c \<Rightarrow> remove1 c (client_cbs s))"
proof -
  obtain ts where st: "bw_inv s" "callbacks_ok s" "net_timers s ts" "cb_inv s" using inv by (auto simp: net_inv_def state_inv_def)
  obtain s' ts' r where s': "oc_ri_remove_client_cb_by_mid s m = Some (s', r)" "bw_inv s'" "callbacks_ok s'" "net_timers s' ts'"
    "cb_inv s'" "cl_frame s s'" "client_cbs s' = (case find (\<lambda>c. cmid (the (ccbs s c)) = m) (client_cbs s) of
       None \<Rightarrow> client_cbs s | Some c \<Rightarrow> remove1 c (client_cbs s))"
    using remove_by_mid_ok [OF st] by blast
  with net_inv_cl_frame [OF inv s'(6) s'(2-5)] show ?thesis by blast
qed

lemma scrub_net:
  assumes inv: "net_inv s ext"
  shows "\<exists>s'. oc_blockwise_scrub_buffers s = Some s' \<and> net_inv s' ext \<and> cl_frame s s' \<and> ccbs s' = ccbs s \<and> client_cbs s' = client_cbs s"
proof -
  obtain ts where st: "bw_inv s" "callbacks_ok s" "net_timers s ts" "cb_inv s" using inv by (auto simp: net_inv_def state_inv_def)
  obtain s' ts' where s': "oc_blockwise_scrub_buffers s = Some s'" "bw_inv s'" "callbacks_ok s'" "net_timers s' ts'" "bw_frame s s'"
    "\<forall>b a. bw_heap b s' a = (case bw_heap b s a of None \<Rightarrow> None | Some x \<Rightarrow> if bref x = 0 then None else Some x)"
    using scrub_both_ok [OF st(1-3), of "\<lambda>x. bref x = 0"] unfolding oc_blockwise_scrub_buffers_def by blast
  note f = bw_frame_fields(1,2) [OF s'(5)]
  have "bclient_cb x = NULL_PTR \<or> ccbs s (bclient_cb x) \<noteq> None" if "bw_heap b s' a = Some x" for b a x
    using that s'(6) st(4) by (auto simp: cb_inv_def split: option.splits if_splits)
  then have "cb_inv s'" using st(4) f by (simp add: cb_inv_def)
  with s' f net_inv_cl_frame [OF inv bw_frame_cl [OF s'(5)] s'(2-4)] bw_frame_cl [OF s'(5)] show ?thesis by blast
qed

lemma cl_frame_tls: "cl_frame s s' \<Longrightarrow> ccbs s' = ccbs s \<Longrightarrow> client_cbs s' = client_cbs s \<Longrightarrow> tls_frame s s'"
  using cl_frame_fields [of s s'] event_callbacks_nonnull by (auto simp: tls_frame_def cb_sched_def same_sched_def)

lemma obs_frame_fields:
  assumes "obs_frame s s'"
  shows "et s' = et s" "msgs s' = msgs s" "trans s' = trans s" "transactions_list s' = transactions_list s" "clk s' = clk s"
    "ccbs s' = ccbs s" "client_cbs s' = client_cbs s" "transaction_handler_process s' = transaction_handler_process s"
proof -
  have eq: "s' = s\<lparr>resources := resources s', observers := observers s', observers_list := observers_list s', responses := responses s'\<rparr>"
    using assms by (simp add: obs_frame_def)
  show "et s' = et s" "msgs s' = msgs s" "trans s' = trans s" "transactions_list s' = transactions_list s" "clk s' = clk s"
    "ccbs s' = ccbs s" "client_cbs s' = client_cbs s" "transaction_handler_process s' = transaction_handler_process s"
    by (subst eq, simp)+
qed

lemma give_up_ok:
  assumes inv: "net_inv s ext" and x: "trans s t = Some x"
  shows "\<exists>s'. give_up close_notify s t x endpoint = Some s' \<and> net_inv s' ext \<and> trans s' = (trans s)(t := None) \<and>
     transactions_list s' = remove1 t (transactions_list s) \<and> clk s' = clk s \<and> evring s' = evring s \<and>
     (\<forall>a \<in> set transactions_memb - {t}. timer (et s') a = timer (et s) a \<and> tproc (et s') a = tproc (et s) a) \<and>
     sub_msgs (msgs s') (msgs s) \<and>
     (\<forall>a y. observers s' a = Some y \<longrightarrow> oc_endpoint_compare (oendpoint y) endpoint \<noteq> 0) \<and>
     client_cbs s' = (case find (\<lambda>c. cmid (the (ccbs s c)) = tmid x) (client_cbs s) of
       None \<Rightarrow> client_cbs s | Some c \<Rightarrow> remove1 c (client_cbs s))"
proof -
  obtain s1 n where s1: "coap_remove_observer_by_client s endpoint = Some (s1, n)" "net_inv s1 ext" "obs_frame s s1"
    "\<forall>a. observers s1 a = (case observers s a of None \<Rightarrow> None
         | Some y \<Rightarrow> if oc_endpoint_compare (oendpoint y) endpoint = 0 then None else Some y)"
    using remove_observers_net [OF inv] by blast
  note f1 = obs_frame_fields [OF s1(3)]
  obtain s2 where s2: "(if flags endpoint AND SECURED \<noteq> 0 then oc_tls_close_connection close_notify s1 endpoint else Some s1) = Some s2"
    "net_inv s2 ext" "tls_frame s1 s2"
    using close_connection_ok [OF s1(2), of close_notify endpoint] s1(2) by (cases "flags endpoint AND SECURED = 0") auto
  obtain s3 r where s3: "oc_ri_remove_client_cb_by_mid s2 (tmid x) = Some (s3, r)" "net_inv s3 ext" "cl_frame s2 s3"
    "client_cbs s3 = (case find (\<lambda>c. cmid (the (ccbs s2 c)) = tmid x) (client_cbs s2) of
       None \<Rightarrow> client_cbs s2 | Some c \<Rightarrow> remove1 c (client_cbs s2))"
    using remove_cb_net [OF s2(2)] by blast
  obtain s4 where s4: "oc_blockwise_scrub_buffers s3 = Some s4" "net_inv s4 ext" "cl_frame s3 s4" "ccbs s4 = ccbs s3" "client_cbs s4 = client_cbs s3"
    using scrub_net [OF s3(2)] by blast
  note f3 = cl_frame_fields [OF s3(3)] and f4 = cl_frame_fields [OF s4(3)]
  have f: "trans s4 = trans s" "transactions_list s4 = transactions_list s" "clk s4 = clk s" "evring s4 = evring s"
    using f1 f3 f4 s2(3) by (auto simp: tls_frame_def cb_sched_def same_sched_def)
  obtain s' e ms where s': "coap_clear_transaction s4 t = Some s'" "net_inv s' ext"
    "s' = s4\<lparr>et := e, msgs := ms, trans := (trans s4)(t := None), transactions_list := remove1 t (transactions_list s4)\<rparr>"
    "sch e = sch (et s4)" "timer e = timer (et s4)" "tproc e = (tproc (et s4))(t := NULL_PTR)" "sub_msgs ms (msgs s4)"
    using clear_transaction_ok [OF s4(2), of t x] x f(1) by auto
  have "timer (et s') a = timer (et s) a \<and> tproc (et s') a = tproc (et s) a" if "a \<in> set transactions_memb - {t}" for a
  proof -
    have "a \<notin> set event_callbacks_s" using that event_callbacks_nonnull [of a] by blast
    then show ?thesis using that s'(3,5,6) f1(1) s2(3) f3(16) f4(16) by (simp add: tls_frame_def cb_sched_def)
  qed
  moreover have "sub_msgs (msgs s') (msgs s)"
    using s'(3,7) f1(2) s2(3) f3(1) f4(1) sub_msgs_trans [of ms "msgs s2"] by (simp add: tls_frame_def)
  moreover have "oc_endpoint_compare (oendpoint y) endpoint \<noteq> 0" if "observers s' a = Some y" for a y
  proof -
    have "observers s2 a = Some y" using that s'(3) f3(4) f4(4) by simp
    then have "observers s1 a = Some y" using s2(3) by (metis tls_frame_def option.distinct(1))
    then show ?thesis using s1(4) by (auto split: option.splits if_splits)
  qed
  moreover have "client_cbs s' = (case find (\<lambda>c. cmid (the (ccbs s c)) = tmid x) (client_cbs s) of
       None \<Rightarrow> client_cbs s | Some c \<Rightarrow> remove1 c (client_cbs s))"
    using s'(3) s4(5) s3(4) s2(3) f1(6,7) by (simp add: tls_frame_def split: option.split)
  moreover have "give_up close_notify s t x endpoint = Some s'"
    using s1(1) s2(1) s3(1) s4(1) s'(1) by (simp add: give_up_def del: if_split)
  ultimately show ?thesis using s'(2-4) f by (intro exI [of _ s']) simp
qed

section \<open>Checking all transactions\<close>

text \<open>A transaction that waits for its acknowledgement.\<close>

definition awaiting :: "net \<Rightarrow> addr \<Rightarrow> bool" where
  "awaiting s t \<longleftrightarrow> (\<exists>x m. trans s t = Some x \<and> msgs s (tmessage x) = Some m \<and> is_confirmable m = Some True \<and>
     flags (mendpoint m) AND TCP = 0 \<and> retrans_counter x < 4)"

definition after_check :: "net \<Rightarrow> addr \<Rightarrow> coap_transaction option" where
  "after_check s t = (case trans s t of None \<Rightarrow> None
     | Some x \<Rightarrow> if \<not> oc_etimer_expired (et s) t then Some x
        else if retrans_counter x < 3 then Some (x\<lparr>retrans_counter := retrans_counter x + 1\<rparr>) else None)"

definition timer_after :: "net \<Rightarrow> addr \<Rightarrow> oc_timer" where
  "timer_after s t = (if \<not> oc_etimer_expired (et s) t then timer (et s) t
     else \<lparr>start = clk s, interval = push_bit 1 (interval (timer (et s) t))\<rparr>)"

definition trans_same :: "net \<Rightarrow> net \<Rightarrow> addr \<Rightarrow> bool" where
  "trans_same s s' t \<longleftrightarrow> trans s' t = trans s t \<and> timer (et s') t = timer (et s) t \<and> tproc (et s') t = tproc (et s) t"

text \<open>Transaction \<open>t\<close> has been checked.\<close>

definition checked :: "net \<Rightarrow> net \<Rightarrow> addr \<Rightarrow> bool" where
  "checked s s' t \<longleftrightarrow> trans s' t = after_check s t \<and>
     (trans s' t \<noteq> None \<longrightarrow> timer (et s') t = timer_after s t \<and> \<not> oc_etimer_expired (et s') t)"

lemma u8_counter: "(n :: u8) < 4 \<Longrightarrow> n + 1 \<noteq> 0 \<and> (n + 1 < 4 \<longleftrightarrow> n < 3)"
proof -
  assume "n < 4"
  then have n: "unat n < 4" by (simp add: word_less_nat_alt)
  then have "unat (n + 1) = unat n + 1" by (intro unat_u8_inc) simp
  with n show ?thesis by (auto simp: word_less_nat_alt)
qed

lemma net_inv_counter:
  assumes inv: "net_inv s ext" and x: "trans s t = Some x"
  shows "net_inv (s\<lparr>trans := (trans s)(t \<mapsto> x\<lparr>retrans_counter := n\<rparr>)\<rparr>) ext"
proof -
  let ?h = "(trans s)(t \<mapsto> x\<lparr>retrans_counter := n\<rparr>)"
  let ?s = "s\<lparr>trans := ?h\<rparr>"
  obtain ts where ts: "net_timers s ts" and reg: "registry transactions_memb (trans s) (transactions_list s)" and st: "state_inv s"
    using inv by (auto simp: net_inv_def state_inv_def)
  have "net_timers ?s ts" using ts by (auto simp: net_timers_def)
  moreover have "registry transactions_memb ?h (transactions_list s)" using x by (intro registry_upd [OF reg]) auto
  ultimately have "state_inv ?s"
    by (intro state_inv_trans [OF st, where e = "et s" and ms = "msgs s" and h = ?h and l = "transactions_list s" and d = "drawn s"]) simp_all
  moreover have "held ?h l a = held (trans s) l a" for l a
    unfolding held_def using x by (intro arg_cong [of _ _ length] filter_cong refl) auto
  then have refs: "refs ?s a = refs s a" for a by (simp add: refs_def)
  have "msg_counts ?s (all_refs s ext) a" for a
    using net_inv_refs [OF inv] by (cases "msgs s a") (auto simp: refs_ok_def msg_counts_def refs dest!: spec [of _ a])
  then have "refs_ok ?s (all_refs s ext)" using net_inv_refs [OF inv] by (simp add: refs_ok_def)
  ultimately show ?thesis using inv by (simp add: net_inv_def all_refs_def [abs_def] tls_held_def)
qed

text \<open>One expired transaction.\<close>

lemma check_one_ok:
  assumes inv: "net_inv s ext" and "ext (tmessage (the (trans s t))) < 50" and aw: "awaiting s t" and ex: "oc_etimer_expired (et s) t"
    and x: "trans s t = Some x"
  shows "\<exists>s'. coap_send_transaction close_notify (s\<lparr>trans := (trans s)(t \<mapsto> x\<lparr>retrans_counter := retrans_counter x + 1\<rparr>)\<rparr>) t = Some s' \<and>
     net_inv s' ext \<and> checked s s' t \<and> (\<forall>u \<in> set transactions_memb - {t}. trans_same s s' u) \<and> clk s' = clk s \<and> sub_msgs (msgs s') (msgs s) \<and>
     transactions_list s' = (if after_check s t = None then remove1 t (transactions_list s) else transactions_list s) \<and>
     numevents (evring s') = numevents (evring s) \<and>
     (\<not> ring_full s \<longrightarrow> evq s' = evq s @ (if after_check s t = None then [] else [out_event (tmessage x)]))"
proof -
  obtain m where m: "msgs s (tmessage x) = Some m" "is_confirmable m = Some True" "flags (mendpoint m) AND TCP = 0" "retrans_counter x < 4"
    using aw x by (auto simp: awaiting_def)
  note n = u8_counter [OF m(4)]
  let ?x = "x\<lparr>retrans_counter := retrans_counter x + 1\<rparr>"
  let ?s = "s\<lparr>trans := (trans s)(t \<mapsto> ?x)\<rparr>"
  have inv1: "net_inv ?s ext" by (rule net_inv_counter [OF inv x])
  show ?thesis
  proof (cases "retrans_counter x < 3")
    case True
    obtain s' where s': "coap_send_transaction close_notify ?s t = Some s'" "net_inv s' ext" "trans s' = trans ?s"
      "transactions_list s' = transactions_list s" "clk s' = clk s"
      "timer (et s') = (timer (et s))(t := \<lparr>start = clk s, interval = next_interval ?s t (retrans_counter x + 1)\<rparr>)"
      "tproc (et s') = (tproc (et s))(t := transaction_handler_process s)" "sub_msgs (msgs s') (msgs s)"
      "numevents (evring s') = numevents (evring s)" "\<not> ring_full ?s \<longrightarrow> evq s' = evq s @ [out_event (tmessage x)]"
      using resend_ok [OF inv1, of t ?x m close_notify] m n True assms(2) x by auto
    have "transaction_handler_process s \<noteq> NULL_PTR" using inv by (simp add: net_inv_def state_inv_def)
    moreover have "next_interval ?s t (retrans_counter x + 1) = push_bit 1 (interval (timer (et s) t))"
      using n by (simp add: next_interval_def retrans_interval_def)
    ultimately have "checked s s' t"
      using True s' x ex by (simp add: checked_def after_check_def timer_after_def oc_etimer_expired_def)
    moreover have "after_check s t \<noteq> None" using True x ex by (simp add: after_check_def)
    moreover have "ring_full ?s = ring_full s" by (simp add: ring_full_def)
    ultimately show ?thesis using s' by (intro exI [of _ s']) (auto simp: trans_same_def)
  next
    case False
    obtain s' where s': "give_up close_notify ?s t ?x (mendpoint m) = Some s'" "net_inv s' ext" "trans s' = (trans s)(t := None)"
      "transactions_list s' = remove1 t (transactions_list s)" "clk s' = clk s" "sub_msgs (msgs s') (msgs s)" "evring s' = evring s"
      "\<forall>a \<in> set transactions_memb - {t}. timer (et s') a = timer (et s) a \<and> tproc (et s') a = tproc (et s) a"
      using give_up_ok [OF inv1, of t ?x close_notify "mendpoint m"] by auto
    have "coap_send_transaction close_notify ?s t = Some s'" using m n False s'(1) by (simp add: coap_send_transaction_def)
    moreover have "after_check s t = None" using False x ex by (simp add: after_check_def)
    ultimately show ?thesis using s' by (intro exI [of _ s']) (auto simp: trans_same_def checked_def)
  qed
qed

lemma awaiting_same:
  assumes aw: "awaiting s u" and same: "trans_same s s' u" and inv: "net_inv s' ext" and sub: "sub_msgs (msgs s') (msgs s)"
  shows "awaiting s' u"
proof -
  obtain x m where x: "trans s u = Some x" "msgs s (tmessage x) = Some m" "is_confirmable m = Some True"
    "flags (mendpoint m) AND TCP = 0" "retrans_counter x < 4" using aw by (auto simp: awaiting_def)
  have x': "trans s' u = Some x" using same x(1) by (simp add: trans_same_def)
  obtain m' where m': "msgs s' (tmessage x) = Some m'" using trans_message [OF inv x'] by blast
  with sub x(2) have "mdata m' = mdata m" "mendpoint m' = mendpoint m" unfolding sub_msgs_def by fastforce+
  with x x' m' show ?thesis by (auto simp: awaiting_def is_confirmable_def)
qed

definition resent :: "net \<Rightarrow> addr \<Rightarrow> bool" where
  "resent s t \<longleftrightarrow> oc_etimer_expired (et s) t \<and> after_check s t \<noteq> None"

lemma trans_same_spec:
  assumes "trans_same s s' u" and "clk s' = clk s"
  shows "after_check s' u = after_check s u" "timer_after s' u = timer_after s u" "resent s' u = resent s u"
proof -
  have e: "oc_etimer_expired (et s') u = oc_etimer_expired (et s) u" using assms by (simp add: trans_same_def oc_etimer_expired_def)
  then show a: "after_check s' u = after_check s u" "timer_after s' u = timer_after s u"
    using assms by (simp_all add: trans_same_def after_check_def timer_after_def split: option.split)
  with e show "resent s' u = resent s u" by (simp add: resent_def)
qed

lemma length_evq: "net_inv s ext \<Longrightarrow> length (evq s) = nevents (evring s)"
  by (simp add: queue_def)

text \<open>The loop: every transaction on the list is checked, in this order, independently of the others.\<close>

lemma check_loop_ok:
  "net_inv s ext \<Longrightarrow> \<forall>a. ext a < 50 \<Longrightarrow> distinct ts \<Longrightarrow> set ts \<subseteq> set transactions_memb \<Longrightarrow> \<forall>t \<in> set ts. awaiting s t \<Longrightarrow>
   length (evq s) + length ts \<le> numevents (evring s) \<Longrightarrow>
   \<exists>s'. check_loop close_notify s ts = Some s' \<and> net_inv s' ext \<and> (\<forall>t \<in> set ts. checked s s' t) \<and>
     (\<forall>u \<in> set transactions_memb - set ts. trans_same s s' u) \<and> clk s' = clk s \<and> sub_msgs (msgs s') (msgs s) \<and>
     evq s' = evq s @ map (\<lambda>t. out_event (tmessage (the (trans s t)))) (filter (resent s) ts)"
proof (induction ts arbitrary: s)
  case Nil
  then show ?case by (intro exI [of _ s]) (simp add: trans_same_def)
next
  case (Cons t ts)
  obtain x where x: "trans s t = Some x" using Cons.prems(5) by (auto simp: awaiting_def)
  have room: "\<not> ring_full s" using Cons.prems(6) length_evq [OF Cons.prems(1)] by (simp add: ring_full_def)
  obtain s1 where s1: "(if oc_etimer_expired (et s) t then
        coap_send_transaction close_notify (s\<lparr>trans := (trans s)(t \<mapsto> x\<lparr>retrans_counter := retrans_counter x + 1\<rparr>)\<rparr>) t else Some s) = Some s1"
    "net_inv s1 ext" "checked s s1 t" "\<forall>u \<in> set transactions_memb - {t}. trans_same s s1 u" "clk s1 = clk s" "sub_msgs (msgs s1) (msgs s)"
    "numevents (evring s1) = numevents (evring s)" "evq s1 = evq s @ (if resent s t then [out_event (tmessage x)] else [])"
  proof (cases "oc_etimer_expired (et s) t")
    case True
    obtain s1 where "coap_send_transaction close_notify (s\<lparr>trans := (trans s)(t \<mapsto> x\<lparr>retrans_counter := retrans_counter x + 1\<rparr>)\<rparr>) t = Some s1"
      "net_inv s1 ext" "checked s s1 t" "\<forall>u \<in> set transactions_memb - {t}. trans_same s s1 u" "clk s1 = clk s" "sub_msgs (msgs s1) (msgs s)"
      "numevents (evring s1) = numevents (evring s)" "evq s1 = evq s @ (if after_check s t = None then [] else [out_event (tmessage x)])"
      using check_one_ok [OF Cons.prems(1) _ _ True x, of close_notify] Cons.prems(2,5) room by auto
    with True that [of s1] show thesis by (simp add: resent_def)
  next
    case False
    have "checked s s t" using False x by (simp add: checked_def after_check_def timer_after_def)
    with False Cons.prems(1) that [of s] show thesis by (simp add: trans_same_def resent_def)
  qed
  have rest: "distinct ts" "set ts \<subseteq> set transactions_memb" "t \<notin> set ts" using Cons.prems(3,4) by simp_all
  have same: "trans_same s s1 u" if "u \<in> set ts" for u using that rest(2,3) s1(4) by blast
  have aw: "\<forall>u \<in> set ts. awaiting s1 u" using Cons.prems(5) awaiting_same [OF _ same s1(2,6)] by simp
  have len: "length (evq s1) + length ts \<le> numevents (evring s1)" using Cons.prems(6) s1(7,8) by (simp split: if_splits)
  obtain s' where s': "check_loop close_notify s1 ts = Some s'" "net_inv s' ext" "\<forall>t \<in> set ts. checked s1 s' t"
    "\<forall>u \<in> set transactions_memb - set ts. trans_same s1 s' u" "clk s' = clk s1" "sub_msgs (msgs s') (msgs s1)"
    "evq s' = evq s1 @ map (\<lambda>t. out_event (tmessage (the (trans s1 t)))) (filter (resent s1) ts)"
    using Cons.IH [OF s1(2) Cons.prems(2) rest(1,2) aw len] by blast
  have chk: "checked s s' u" if "u \<in> set (t # ts)" for u
  proof (cases "u = t")
    case True
    have "trans_same s1 s' t" using s'(4) rest(3) Cons.prems(4) by simp
    with s1(3) True show ?thesis by (simp add: checked_def trans_same_def oc_etimer_expired_def)
  next
    case False
    then have u: "u \<in> set ts" using that by simp
    from s'(3) u trans_same_spec [OF same [OF u] s1(5)] show ?thesis by (simp add: checked_def)
  qed
  have evs: "map (\<lambda>t. out_event (tmessage (the (trans s1 t)))) (filter (resent s1) ts) =
      map (\<lambda>t. out_event (tmessage (the (trans s t)))) (filter (resent s) ts)"
  proof -
    have "filter (resent s1) ts = filter (resent s) ts" using trans_same_spec(3) [OF same s1(5)] by (intro filter_cong) auto
    moreover have "trans s1 u = trans s u" if "u \<in> set ts" for u using same [OF that] by (simp add: trans_same_def)
    ultimately show ?thesis by simp
  qed
  have "\<forall>u \<in> set transactions_memb - set (t # ts). trans_same s s' u"
    using s'(4) s1(4) by (simp add: trans_same_def)
  moreover have "check_loop close_notify s (t # ts) = Some s'" using x s1(1) s'(1) by (simp del: if_split)
  ultimately show ?case
    using s'(2,5) chk s1(5) sub_msgs_trans [OF s'(6) s1(6)] s'(7) s1(8) evs x
    by (intro exI [of _ s'] conjI) (simp_all split: if_splits)
qed

lemma clear_loop_ok:
  "net_inv s ext \<Longrightarrow> distinct ts \<Longrightarrow> \<forall>t \<in> set ts. trans s t \<noteq> None \<Longrightarrow>
   \<exists>s'. clear_loop s ts = Some s' \<and> net_inv s' ext \<and> (\<forall>t. trans s' t = (if t \<in> set ts then None else trans s t))"
proof (induction ts arbitrary: s)
  case Nil
  then show ?case by simp
next
  case (Cons t ts)
  obtain x where x: "trans s t = Some x" using Cons.prems(3) by auto
  obtain s1 where s1: "coap_clear_transaction s t = Some s1" "net_inv s1 ext" "trans s1 = (trans s)(t := None)"
    using clear_transaction_ok [OF Cons.prems(1) x] by auto
  have "\<forall>t \<in> set ts. trans s1 t \<noteq> None" using Cons.prems(2,3) s1(3) by auto
  then obtain s' where "clear_loop s1 ts = Some s'" "net_inv s' ext" "\<forall>t. trans s' t = (if t \<in> set ts then None else trans s1 t)"
    using Cons.IH [OF s1(2)] Cons.prems(2) by auto
  with s1 show ?case by (intro exI [of _ s']) auto
qed

lemma check_all_ok:
  assumes "net_inv s ext" and "\<forall>a. ext a < 50" and "\<forall>t \<in> set (transactions_list s). awaiting s t"
    and "length (evq s) + length (transactions_list s) \<le> numevents (evring s)"
  shows "\<exists>s'. coap_check_transactions close_notify s = Some s' \<and> net_inv s' ext \<and>
     (\<forall>t \<in> set (transactions_list s). checked s s' t) \<and> (\<forall>t. trans s t = None \<longrightarrow> trans s' t = None) \<and>
     evq s' = evq s @ map (\<lambda>t. out_event (tmessage (the (trans s t)))) (filter (resent s) (transactions_list s))"
proof -
  have reg: "registry transactions_memb (trans s) (transactions_list s)" using assms(1) by (simp add: net_inv_def state_inv_def)
  then have "distinct (transactions_list s)" "set (transactions_list s) \<subseteq> set transactions_memb" by (auto simp: registry_def)
  from check_loop_ok [OF assms(1,2) this assms(3,4), of close_notify] obtain s' where
    s': "coap_check_transactions close_notify s = Some s'" "net_inv s' ext" "\<forall>t \<in> set (transactions_list s). checked s s' t"
    "\<forall>u \<in> set transactions_memb - set (transactions_list s). trans_same s s' u"
    "evq s' = evq s @ map (\<lambda>t. out_event (tmessage (the (trans s t)))) (filter (resent s) (transactions_list s))"
    by (auto simp: coap_check_transactions_def)
  have "trans s' t = None" if "trans s t = None" for t
  proof (rule ccontr)
    assume "trans s' t \<noteq> None"
    then have "t \<in> set transactions_memb" using trans_addr(1) [OF s'(2)] by blast
    moreover have "t \<notin> set (transactions_list s)" using that registry_live [OF reg] by blast
    ultimately have "trans_same s s' t" using s'(4) by blast
    with that \<open>trans s' t \<noteq> None\<close> show False by (simp add: trans_same_def)
  qed
  with s' show ?thesis by blast
qed

section \<open>Properties\<close>


lemma init_net_inv: "net_inv init_net (\<lambda>_. 0)"
proof -
  have "registry transactions_memb (trans init_net) (transactions_list init_net)"
    "registry tls_peers_s (sessions init_net) (session_list init_net)"
    by (simp_all add: registry_def init_net_def)
  moreover have held: "tls_held init_net = []" by (simp add: tls_held_def init_net_def)
  moreover have "all_refs init_net (\<lambda>_. 0) = (\<lambda>_. 0)" by (simp add: all_refs_def [abs_def] held)
  moreover have "numevents (evring init_net) = 10" "transaction_handler_process init_net = 3"
    by (simp_all add: init_net_def init_etimers_def init_ring_def)
  ultimately show ?thesis
    using init_net_ok init_net_refs init_cb_inv init_obs_inv by (auto simp: net_inv_def state_inv_def)
qed

definition one_transaction :: net where
  "one_transaction = fst (the (coap_new_transaction init_net 7 zero_endpoint))"

lemma one_transaction_ok:
  "net_inv one_transaction (\<lambda>_. 0)" "trans one_transaction = [300 \<mapsto> \<lparr>tmid = 7, retrans_counter = 0, tmessage = 200\<rparr>]"
  "transactions_list one_transaction = [300]" "evq one_transaction = []" "numevents (evring one_transaction) = 10"
  "\<exists>m. msgs one_transaction 200 = Some m \<and> is_confirmable m = Some True \<and> flags (mendpoint m) = 0"
  "oc_etimer_expired (et one_transaction) 300"
proof -
  obtain s r where s: "coap_new_transaction init_net 7 zero_endpoint = Some (s, r)" "net_inv s (\<lambda>_. 0)"
    using new_transaction_ok [OF init_net_inv, of 7 zero_endpoint] by blast
  then show "net_inv one_transaction (\<lambda>_. 0)" by (simp add: one_transaction_def)
  have eq: "one_transaction = init_net\<lparr>trans := [300 \<mapsto> \<lparr>tmid = 7, retrans_counter = 0, tmessage = 200\<rparr>], transactions_list := [300],
      et := zero_timer init_etimers 300, msgs := [200 \<mapsto> zero_message\<lparr>mpool := Outgoing, mref := 1, mendpoint := zero_endpoint\<rparr>]\<rparr>"
    by (simp add: one_transaction_def coap_new_transaction_def alloc_obj_def pool_defs oc_internal_allocate_outgoing_message_def
        allocate_message_def set_endpoint_def set_msg_def init_net_def zero_message_def)
  show "trans one_transaction = [300 \<mapsto> \<lparr>tmid = 7, retrans_counter = 0, tmessage = 200\<rparr>]" "transactions_list one_transaction = [300]"
    "evq one_transaction = []" "numevents (evring one_transaction) = 10" "oc_etimer_expired (et one_transaction) 300"
    by (simp_all add: eq init_net_def init_etimers_def zero_timer_def init_ring_def queue_def oc_etimer_expired_def)
  show "\<exists>m. msgs one_transaction 200 = Some m \<and> is_confirmable m = Some True \<and> flags (mendpoint m) = 0"
    by (simp add: eq is_confirmable_def zero_message_def rd_def OC_PDU_SIZE_def OC_MAX_APP_DATA_SIZE_def zero_endpoint_def)
qed

lemma one_transaction_awaiting: "awaiting one_transaction 300"
  using one_transaction_ok(2,6) by (auto simp: awaiting_def)


text \<open>C14: Transactions and messages stay consistent: in every consistent state a new transaction is
  created unless a pool is exhausted, a transaction can be sent or cleared, and clearing all of them
  leaves none. No operation touches a freed object, and every reference counter stays exact.\<close>

theorem coap_transactions_keep_invariant:
  assumes inv: "net_inv s ext" and ext: "\<forall>a. ext a < 50"
  shows "(\<exists>s' r. coap_new_transaction s m endpoint = Some (s', r) \<and> net_inv s' ext \<and>
       (r = None \<longrightarrow> obj_room transactions_memb (trans s) = 0 \<or> obj_room oc_outgoing_buffers (msgs s) = 0)) \<and>
     (\<forall>t. trans s t \<noteq> None \<longrightarrow>
       (\<exists>s'. coap_send_transaction close_notify s t = Some s' \<and> net_inv s' ext) \<and>
       (\<exists>s'. coap_clear_transaction s t = Some s' \<and> net_inv s' ext \<and> trans s' = (trans s)(t := None))) \<and>
     (\<exists>s'. coap_free_all_transactions s = Some s' \<and> net_inv s' ext \<and> trans s' = Map.empty)"
proof (intro conjI allI impI)
  obtain s' r where s': "coap_new_transaction s m endpoint = Some (s', r)" "net_inv s' ext"
    "case r of None \<Rightarrow> (obj_room transactions_memb (trans s) = 0 \<or> obj_room oc_outgoing_buffers (msgs s) = 0) \<and>
          trans s' = trans s \<and> msgs s' = msgs s \<and> transactions_list s' = transactions_list s
      | Some t \<Rightarrow> fresh_trans s m endpoint s' t"
    using new_transaction_ok [OF inv, of m endpoint] by blast
  then show "\<exists>s' r. coap_new_transaction s m endpoint = Some (s', r) \<and> net_inv s' ext \<and>
      (r = None \<longrightarrow> obj_room transactions_memb (trans s) = 0 \<or> obj_room oc_outgoing_buffers (msgs s) = 0)"
    by (intro exI [of _ s'] exI [of _ r]) auto
next
  fix t assume "trans s t \<noteq> None"
  then obtain x where x: "trans s t = Some x" by auto
  obtain m where m: "msgs s (tmessage x) = Some m" "length (mdata m) = OC_PDU_SIZE" by (rule trans_message [OF inv x])
  have "is_confirmable m \<noteq> None" using m(2) by (simp add: is_confirmable_def rd_def OC_PDU_SIZE_def OC_MAX_APP_DATA_SIZE_def)
  then obtain c where c: "is_confirmable m = Some c" by auto
  have e: "ext (tmessage x) < 50" using ext by simp
  show "\<exists>s'. coap_send_transaction close_notify s t = Some s' \<and> net_inv s' ext"
  proof (cases "flags (mendpoint m) AND TCP = 0 \<and> c")
    case False
    from send_once_ok [OF inv x m(1) c False e] show ?thesis by blast
  next
    case True
    show ?thesis
    proof (cases "retrans_counter x < 4")
      case n: True
      from resend_ok [OF inv x m(1) _ _ n e, of close_notify] True c show ?thesis by auto
    next
      case n: False
      from give_up_ok [OF inv x, of close_notify "mendpoint m"] True c n x m(1) show ?thesis
        by (auto simp: coap_send_transaction_def)
    qed
  qed
  show "\<exists>s'. coap_clear_transaction s t = Some s' \<and> net_inv s' ext \<and> trans s' = (trans s)(t := None)"
    using clear_transaction_ok [OF inv x] by auto
next
  have reg: "registry transactions_memb (trans s) (transactions_list s)" using inv by (simp add: net_inv_def state_inv_def)
  then have "distinct (transactions_list s)" "\<forall>t \<in> set (transactions_list s). trans s t \<noteq> None" by (auto simp: registry_def)
  from clear_loop_ok [OF inv this] obtain s' where s': "clear_loop s (transactions_list s) = Some s'" "net_inv s' ext"
    "\<forall>t. trans s' t = (if t \<in> set (transactions_list s) then None else trans s t)" by blast
  have "trans s' = Map.empty" using s'(3) registry_live [OF reg] by (auto simp: fun_eq_iff)
  with s' show "\<exists>s'. coap_free_all_transactions s = Some s' \<and> net_inv s' ext \<and> trans s' = Map.empty"
    by (auto simp: coap_free_all_transactions_def)
qed

theorem coap_transactions_keep_invariant_witness:
  "(\<exists>s'. coap_send_transaction (\<lambda>_ _. []) one_transaction 300 = Some s' \<and> net_inv s' (\<lambda>_. 0)) \<and>
   (\<exists>s'. coap_free_all_transactions one_transaction = Some s' \<and> net_inv s' (\<lambda>_. 0) \<and> trans s' = Map.empty)"
  using coap_transactions_keep_invariant [OF one_transaction_ok(1), of 7 zero_endpoint "\<lambda>_ _. []"] one_transaction_ok(2) by simp

section \<open>The schedule of retransmissions\<close>

text \<open>
  The life of a confirmable transaction \<open>t\<close>: it is sent, and whenever its timer expires the
  transactions are checked. \<open>waits\<close> is what may happen meanwhile: anything that leaves the
  transaction and its timer alone until the timer process has marked it as expired. The number
  counts the timeouts.
\<close>

definition waits :: "addr \<Rightarrow> net \<Rightarrow> net \<Rightarrow> bool" where
  "waits t s s0 \<longleftrightarrow> trans s0 t = trans s t \<and> timer (et s0) t = timer (et s) t \<and> oc_etimer_expired (et s0) t \<and>
     (\<exists>ext. net_inv s0 ext \<and> (\<forall>a. ext a < 50)) \<and> (\<forall>u \<in> set (transactions_list s0). awaiting s0 u) \<and>
     length (evq s0) + length (transactions_list s0) \<le> numevents (evring s0)"

inductive retransmits :: "(net \<Rightarrow> addr \<Rightarrow> bytes list) \<Rightarrow> addr \<Rightarrow> clock \<Rightarrow> net \<Rightarrow> nat \<Rightarrow> bool" for close_notify t where
  first: "net_inv s ext \<Longrightarrow> \<forall>a. ext a < 50 \<Longrightarrow> awaiting s t \<Longrightarrow> trans s t = Some x \<Longrightarrow> retrans_counter x = 0 \<Longrightarrow>
    coap_send_transaction close_notify s t = Some s' \<Longrightarrow> retransmits close_notify t (interval (timer (et s') t)) s' 0"
| again: "retransmits close_notify t iv s n \<Longrightarrow> waits t s s0 \<Longrightarrow> coap_check_transactions close_notify s0 = Some s' \<Longrightarrow>
    retransmits close_notify t iv s' (Suc n)"

lemma backoff_bounds: "unat (COAP_RESPONSE_TIMEOUT_TICKS + backoff r) \<in> {2000001..3000000}"
proof -
  have b: "unat (ucast r mod (1000000 :: clock)) < 1000000" by (simp add: unat_mod_distrib)
  have "unat (backoff r) = unat (ucast r mod (1000000 :: clock)) + 1"
    using b by (simp add: backoff_def OC_CLOCK_SECOND_def unat_word_ariths)
  with b show ?thesis by (simp add: COAP_RESPONSE_TIMEOUT_TICKS_def OC_CLOCK_SECOND_def unat_word_ariths)
qed

lemma unat_double: "unat (w :: clock) < 2 ^ 63 \<Longrightarrow> unat (push_bit 1 w) = 2 * unat w"
  by (simp add: push_bit_eq_mult unat_word_ariths mult.commute)

text \<open>C13: The schedule of retransmissions: the first interval lies between 2 and 3 seconds, the
  interval after the \<open>n\<close>-th timeout is \<open>2 ^ n\<close> times as long, without overflow, and with the
  fourth timeout the transaction is gone: a message is sent at most four times.\<close>

theorem coap_retransmission_schedule:
  assumes "retransmits close_notify t iv s n"
  shows "unat iv \<in> {2000001..3000000} \<and>
     (if n < 4 then \<exists>x. trans s t = Some x \<and> retrans_counter x = of_nat n \<and>
        unat (interval (timer (et s) t)) = unat iv * 2 ^ n \<and> \<not> oc_etimer_expired (et s) t
      else trans s t = None)"
  using assms
proof (induction rule: retransmits.induct)
  case (first s ext x s')
  obtain m where m: "msgs s (tmessage x) = Some m" "is_confirmable m = Some True" "flags (mendpoint m) AND TCP = 0"
    using first(3,4) by (auto simp: awaiting_def)
  have "transaction_handler_process s \<noteq> NULL_PTR" using first(1) by (simp add: net_inv_def state_inv_def)
  moreover have "trans s' = trans s" "timer (et s') = (timer (et s))(t := \<lparr>start = clk s, interval = next_interval s t (retrans_counter x)\<rparr>)"
    "tproc (et s') = (tproc (et s))(t := transaction_handler_process s)"
    using resend_ok [OF first(1,4) m, of close_notify] first(2,5,6) by auto
  moreover have "next_interval s t 0 = COAP_RESPONSE_TIMEOUT_TICKS + backoff (random s (drawn s))"
    by (simp add: next_interval_def retrans_interval_def net_random_def)
  ultimately show ?case using backoff_bounds first(4,5) by (simp add: oc_etimer_expired_def)
next
  case (again iv s n s0 s')
  obtain ext where inv0: "net_inv s0 ext" "\<forall>a. ext a < 50" using again(2) by (auto simp: waits_def)
  have w: "trans s0 t = trans s t" "timer (et s0) t = timer (et s) t" "oc_etimer_expired (et s0) t"
    using again(2) by (auto simp: waits_def)
  have s': "\<forall>u \<in> set (transactions_list s0). checked s0 s' u" "\<forall>u. trans s0 u = None \<longrightarrow> trans s' u = None"
    using check_all_ok [OF inv0, of close_notify] again(2,3) by (auto simp: waits_def)
  show ?case
  proof (cases "n < 4")
    case True
    then obtain x where x: "trans s0 t = Some x" "retrans_counter x = of_nat n" "unat (interval (timer (et s) t)) = unat iv * 2 ^ n"
      using again(4) w(1) by auto
    have iv: "unat iv \<le> 3000000" using again(4) by simp
    have chk: "checked s0 s' t" using s'(1) trans_addr(3) [OF inv0(1) x(1)] by blast
    have n3: "retrans_counter x < 3 \<longleftrightarrow> n < 3" using x(2) True by (auto simp: word_less_nat_alt unat_of_nat)
    show ?thesis
    proof (cases "n < 3")
      case n: True
      have aft: "trans s' t = Some (x\<lparr>retrans_counter := retrans_counter x + 1\<rparr>)"
        using chk n3 n x(1) w(3) by (simp add: checked_def after_check_def)
      have tm: "interval (timer (et s') t) = push_bit 1 (interval (timer (et s) t))" "\<not> oc_etimer_expired (et s') t"
        using chk aft w(2,3) by (simp_all add: checked_def timer_after_def)
      have "(2 :: nat) ^ n \<le> 2 ^ 3" using n by (intro power_increasing) simp_all
      then have "unat iv * 2 ^ n \<le> 3000000 * 2 ^ 3" using iv by (intro mult_le_mono)
      then have "unat (interval (timer (et s) t)) < 2 ^ 63" using x(3) by simp
      then have "unat (interval (timer (et s') t)) = unat iv * 2 ^ Suc n" using unat_double x(3) tm(1) by simp
      with n aft tm(2) x(2) again(4) show ?thesis by (simp add: add.commute)
    next
      case n: False
      with True have "n = 3" by simp
      moreover have "trans s' t = None" using chk n3 n x(1) w(3) by (simp add: checked_def after_check_def)
      ultimately show ?thesis using again(4) by simp
    qed
  next
    case False
    with again(4) w(1) s'(2) show ?thesis by simp
  qed
qed

theorem coap_retransmission_schedule_witness:
  "\<exists>s iv x. retransmits (\<lambda>_ _. []) 300 iv s 0 \<and> trans s 300 = Some x \<and> unat (interval (timer (et s) 300)) = unat iv \<and>
     unat iv \<in> {2000001..3000000}"
proof -
  note ok = one_transaction_ok
  obtain m where m: "msgs one_transaction 200 = Some m" "is_confirmable m = Some True" "flags (mendpoint m) = 0" using ok(6) by blast
  let ?x = "\<lparr>tmid = 7, retrans_counter = 0, tmessage = 200\<rparr>"
  have x: "trans one_transaction 300 = Some ?x" using ok(2) by simp
  obtain s where s: "coap_send_transaction (\<lambda>_ _. []) one_transaction 300 = Some s"
    using resend_ok [OF ok(1) x, of m "\<lambda>_ _. []"] m by auto
  have r: "retransmits (\<lambda>_ _. []) 300 (interval (timer (et s) 300)) s 0"
    by (rule retransmits.first [OF ok(1) _ one_transaction_awaiting x _ s]) simp_all
  from coap_retransmission_schedule [OF r] show ?thesis using r by auto
qed

end
