(* ===== verification/Net_Signal.thy ===== *)
theory Net_Signal
  imports Net_Transactions
begin

text \<open>
  Signal messages of CoAP over TCP: the rest of \<open>src/messaging/coap/coap_signal.c\<close>, the senders
  of ping, pong, release and abort and the handler of received signals. Null pointers for the
  endpoint, the packet and the token are not modelled; an optional string is \<open>None\<close>.
\<close>

section \<open>Operations\<close>

definition coap_send_ping_message ::
  "(net \<Rightarrow> addr \<Rightarrow> bytes list) \<Rightarrow> net \<Rightarrow> oc_endpoint \<Rightarrow> u8 \<Rightarrow> bytes \<Rightarrow> u8 \<Rightarrow> (net \<times> int) option" where
  "coap_send_ping_message close_notify s endpoint custody_option tok tok_len =
     (if tok_len = 0 then Some (s, 0)
      else do {
        (pkt, _) \<leftarrow> coap_set_token (coap_tcp_init_message PING_7_02) tok (unat tok_len);
        let (pkt, ret) = (if custody_option \<noteq> 0 then coap_signal_set_custody pkt custody_option else (pkt, 1));
        if ret = 0 then Some (s, 0)
        else do {
          (s, r) \<leftarrow> coap_new_transaction s 0 endpoint;
          case r of
            None \<Rightarrow> Some (s, 0)
          | Some t \<Rightarrow> do {
              x \<leftarrow> trans s t;
              s \<leftarrow> serialize_into_message s (tmessage x) [] pkt;
              s \<leftarrow> coap_send_transaction close_notify s t;
              Some (s, 1)
            }
        }
      })"

definition coap_send_pong_message :: "net \<Rightarrow> oc_endpoint \<Rightarrow> coap_packet \<Rightarrow> (net \<times> int) option" where
  "coap_send_pong_message s endpoint pkt = do {
     (pong, _) \<leftarrow> coap_set_token (coap_tcp_init_message PONG_7_03) (token pkt) (unat (token_len pkt));
     let (pong, ret) = (if custody pkt \<noteq> 0 then coap_signal_set_custody pong (custody pkt) else (pong, 1));
     if ret = 0 then Some (s, 0) else coap_send_signal_message s endpoint [] pong
   }"

definition coap_send_release_message :: "net \<Rightarrow> oc_endpoint \<Rightarrow> bytes option \<Rightarrow> nat \<Rightarrow> u32 \<Rightarrow> (net \<times> int) option" where
  "coap_send_release_message s endpoint addr addr_len hold =
     (let (s, pkt) = coap_make_token s (coap_tcp_init_message RELEASE_7_04);
          (pkt, ret) = (if addr \<noteq> None \<and> addr_len > 0
                        then coap_signal_set_alt_addr pkt (map_option Obj addr) addr_len else (pkt, 1))
      in if ret = 0 then Some (s, 0)
         else case (if hold > 0 then coap_signal_set_hold_off pkt hold else (pkt, 1)) of (pkt, ret) \<Rightarrow>
           if ret = 0 then Some (s, 0) else coap_send_signal_message s endpoint [] pkt)"

definition coap_send_abort_message :: "net \<Rightarrow> oc_endpoint \<Rightarrow> u16 \<Rightarrow> bytes option \<Rightarrow> nat \<Rightarrow> (net \<times> int) option" where
  "coap_send_abort_message s endpoint opt diagnostic diagnostic_len =
     (let (s, pkt) = coap_make_token s (coap_tcp_init_message ABORT_7_05);
          (pkt, ret) = (if opt \<noteq> 0 then coap_signal_set_bad_csm pkt opt else (pkt, 1))
      in if ret = 0 then Some (s, 0)
         else case (case diagnostic of
                      Some d \<Rightarrow> if diagnostic_len > 0 then coap_set_payload pkt (Obj d) diagnostic_len else (pkt, 1)
                    | None \<Rightarrow> (pkt, 1)) of (pkt, ret) \<Rightarrow>
           if ret = 0 then Some (s, 0) else coap_send_signal_message s endpoint [] pkt)"

text \<open>The handler returns \<open>COAP_NO_ERROR\<close> in every case.\<close>

definition handle_coap_signal_message :: "net \<Rightarrow> coap_packet \<Rightarrow> oc_endpoint \<Rightarrow> net option" where
  "handle_coap_signal_message s pkt endpoint =
     (if code pkt = CSM_7_01 then
        (let st = oc_tcp_get_csm_state s endpoint
         in if st = CSM_DONE then Some s
            else do {
              s \<leftarrow> (if st = CSM_NONE then map_option fst (coap_send_csm_message s endpoint (of_nat OC_PDU_SIZE) 0) else Some s);
              Some (fst (oc_tcp_update_csm_state s endpoint CSM_DONE))
            })
      else if code pkt = PING_7_02 then map_option fst (coap_send_pong_message s endpoint pkt)
      else if code pkt = PONG_7_03 then Some s
      else if code pkt = RELEASE_7_04 then Some (send_output s (End_Session endpoint))
      else Some s)"

section \<open>Sending a signal\<close>

text \<open>What a signal leaves behind when there is a buffer and room in the event queue.\<close>

definition signals :: "net \<Rightarrow> oc_endpoint \<Rightarrow> coap_packet \<Rightarrow> net \<Rightarrow> bool" where
  "signals s endpoint pkt s' \<longleftrightarrow> (\<exists>a m. msgs s a = None \<and> msgs s' = (msgs s)(a \<mapsto> m) \<and> mendpoint m = endpoint \<and>
     coap_serialize_message [] pkt (Mem (replicate OC_PDU_SIZE 0)) = Some (Mem (mdata m), mlength m) \<and>
     evq s' = evq s @ [out_event a])"

lemma send_signal_exact:
  assumes inv: "net_inv s ext" and ok: "msg_ok [] pkt" and len: "unat (payload_len pkt) \<le> OC_MAX_APP_DATA_SIZE"
    and room: "obj_room oc_outgoing_buffers (msgs s) \<noteq> 0" "\<not> ring_full s"
  shows "\<exists>s'. coap_send_signal_message s endpoint [] pkt = Some (s', 1) \<and> signals s endpoint pkt s'"
proof (cases "allocate_message s Outgoing")
  case (Pair s1 r)
  have "r \<noteq> None" using Pair room(1) allocate_message_None [of s Outgoing s1] by auto
  then obtain a where a: "allocate_message s Outgoing = (s1, Some a)" using Pair by auto
  note al = net_inv_allocate [OF inv a]
  note al' = allocate_message_refs [OF net_inv_refs [OF inv] a]
  define m where "m = zero_message\<lparr>mpool := Outgoing, mlength := 0, mref := 1,
      mendpoint := zero_endpoint\<lparr>interface_index := - 1\<rparr>, encrypted := 0\<rparr>"
  have m: "msgs s1 = (msgs s)(a \<mapsto> m)" "mdata m = replicate OC_PDU_SIZE 0" using al'(4,7) by (simp_all add: m_def zero_message_def)
  let ?s2 = "set_msg s1 a (m\<lparr>mendpoint := endpoint\<rparr>)"
  have inv2: "net_inv ?s2 (ext(a := 1))" by (rule net_inv_set_msg [OF al(1), of a m]) (simp_all add: m)
  obtain bs n where b: "serialize_into_message ?s2 a [] pkt =
      Some (set_msg ?s2 a (m\<lparr>mendpoint := endpoint, mdata := bs, mlength := n\<rparr>))"
    "coap_serialize_message [] pkt (Mem (replicate OC_PDU_SIZE 0)) = Some (Mem bs, n)"
    "net_inv (set_msg ?s2 a (m\<lparr>mendpoint := endpoint, mdata := bs, mlength := n\<rparr>)) (ext(a := 1))"
    using serialize_into_message_ok [OF inv2 _ ok len, of a "m\<lparr>mendpoint := endpoint\<rparr>"] m(2) by auto
  let ?m = "m\<lparr>mendpoint := endpoint, mdata := bs, mlength := n\<rparr>"
  let ?s3 = "set_msg ?s2 a ?m"
  have ring: "evring s1 = evring s" by (subst al'(5)) simp
  then have "\<not> ring_full ?s3" using room(2) by (simp add: ring_full_def)
  then obtain s' where s': "oc_send_message ?s3 a = Some s'" "msgs s' = msgs ?s3" "evq s' = evq ?s3 @ [out_event a]"
    using net_inv_send [OF b(3), of a] by (auto simp: out_event_def)
  have "coap_send_signal_message s endpoint [] pkt = Some (s', 1)"
    using a m(1) b(1) s'(1) by (simp add: coap_send_signal_message_def oc_internal_allocate_outgoing_message_def set_endpoint_def)
  moreover have "signals s endpoint pkt s'"
    unfolding signals_def using al(2) s'(2,3) m(1) b(2) ring by (intro exI [of _ a] exI [of _ ?m]) simp
  ultimately show ?thesis by blast
qed

lemma net_inv_tcp_sessions: "net_inv (s\<lparr>tcp_sessions := xs\<rparr>) ext = net_inv s ext"
proof -
  have r: "refs_ok (s\<lparr>tcp_sessions := xs\<rparr>) e = refs_ok s e" for e by (rule refs_ok_cong) simp_all
  have h: "bw_heap b (s\<lparr>tcp_sessions := xs\<rparr>) = bw_heap b s" "bw_list b (s\<lparr>tcp_sessions := xs\<rparr>) = bw_list b s" for b
    by (cases b; simp)+
  show ?thesis
    by (simp add: net_inv_def state_inv_def all_refs_def [abs_def] r tls_held_def net_timers_def bw_inv_def cb_inv_def
        callbacks_ok_def pending_def obs_inv_def obs_count_def h)
qed

lemma find_set_csm:
  "find (\<lambda>p. oc_endpoint_compare (fst p) endpoint = 0) ps \<noteq> None \<Longrightarrow>
   \<exists>ep. find (\<lambda>p. oc_endpoint_compare (fst p) endpoint = 0) (set_csm ps endpoint st) = Some (ep, st)"
  by (induction ps) auto

lemma csm_updated:
  "find (\<lambda>p. oc_endpoint_compare (fst p) endpoint = 0) (tcp_sessions s) \<noteq> None \<Longrightarrow>
   oc_tcp_get_csm_state (fst (oc_tcp_update_csm_state s endpoint st)) endpoint = st"
  using find_set_csm [of endpoint "tcp_sessions s" st]
  by (auto simp: oc_tcp_get_csm_state_def oc_tcp_update_csm_state_def split: option.splits)

lemma update_csm_inv: "net_inv s ext \<Longrightarrow> net_inv (fst (oc_tcp_update_csm_state s endpoint st)) ext"
  by (simp add: oc_tcp_update_csm_state_def net_inv_tcp_sessions split: option.split)

text \<open>The pong that answers a ping.\<close>

definition pong_of :: "coap_packet \<Rightarrow> coap_packet \<Rightarrow> bool" where
  "pong_of pkt pong \<longleftrightarrow> code pong = PONG_7_03 \<and> transport_type pong = COAP_TRANSPORT_TCP \<and> token_len pong = token_len pkt \<and>
     take (unat (token_len pkt)) (token pong) = take (unat (token_len pkt)) (token pkt) \<and> payload_len pong = 0 \<and> msg_ok [] pong"

lemma pong_packet:
  assumes "unat (token_len pkt) \<le> COAP_TOKEN_LEN" and "length (token pkt) = COAP_TOKEN_LEN" and "custody pkt \<le> 1"
  shows "\<exists>pong. pong_of pkt pong \<and> (\<forall>s. coap_send_pong_message s endpoint pkt = coap_send_signal_message s endpoint [] pong)"
proof -
  define p where "p = (coap_tcp_init_message PONG_7_03)\<lparr>token_len := token_len pkt,
    token := splice 0 (take (unat (token_len pkt)) (token pkt)) (replicate COAP_TOKEN_LEN 0)\<rparr>"
  define q where "q = (if custody pkt \<noteq> 0 then SET_OPTION (p\<lparr>custody := custody pkt\<rparr>) COAP_SIGNAL_OPTION_CUSTODY else p)"
  have min: "min COAP_TOKEN_LEN (unat (token_len pkt)) = unat (token_len pkt)" using assms(1) by simp
  have tok: "coap_set_token (coap_tcp_init_message PONG_7_03) (token pkt) (unat (token_len pkt)) = Some (p, int (unat (token_len pkt)))"
    using assms(1,2) by (simp add: coap_set_token_def min rd_slice_def p_def coap_tcp_init_message_def zero_packet_def Let_def)
  have pc: "code p = PONG_7_03" by (simp add: p_def coap_tcp_init_message_def)
  have fields: "code q = PONG_7_03" "token_len q = token_len pkt" "payload_len q = 0" "transport_type q = COAP_TRANSPORT_TCP"
    "token q = splice 0 (take (unat (token_len pkt)) (token pkt)) (replicate COAP_TOKEN_LEN 0)"
    by (simp_all add: q_def p_def coap_tcp_init_message_def zero_packet_def)
  have "take (unat (token_len pkt)) (token q) = take (unat (token_len pkt)) (token pkt)" "length (token q) = COAP_TOKEN_LEN"
    using assms(1,2) by (simp_all add: fields(5) splice_def min_def)
  moreover from this have "msg_ok [] q" using fields assms(1) by (intro signal_msg_ok) (simp_all add: coap_check_signal_message_def)
  moreover have c: "custody pkt \<noteq> 0 \<Longrightarrow> custody pkt = 1"
    using assms(3) by (metis le_neq_trans word_less_1)
  have "coap_send_pong_message s endpoint pkt = coap_send_signal_message s endpoint [] q" for s
    using c pc by (auto simp: coap_send_pong_message_def tok q_def coap_signal_set_custody_def)
  ultimately show ?thesis using fields by (intro exI [of _ q]) (simp add: pong_of_def)
qed

section \<open>Properties\<close>



end
