(* ===== verification/Net_Separate.thy ===== *)
theory Net_Separate
  imports Net_Signal
begin

text \<open>
  Separate responses: \<open>src/messaging/coap/separate.c\<close>. A slow resource accepts a request now,
  acknowledges it with an empty message and answers later; the application's handle keeps the list
  of requests that wait. The empty acknowledgement is also the one of the engine.
\<close>

section \<open>Operations\<close>

definition zero_separate :: coap_separate where
  "zero_separate = \<lparr>ptype = COAP_TYPE_CON, ptoken_len = 0, ptoken = replicate COAP_TOKEN_LEN 0, pblock2_size = 0, pobserve = 0,
     pendpoint = zero_endpoint, pmethod = 0, puri = []\<rparr>"

text \<open>An acknowledgement without code; the result says whether it was handed to the network. With a
  full event queue the sender's reference is given up by \<open>oc_send_message\<close>, and
  \<open>oc_message_unref\<close> then takes the counter from zero to 255.\<close>

definition coap_send_empty_ack :: "net \<Rightarrow> u16 \<Rightarrow> oc_endpoint \<Rightarrow> (net \<times> bool) option" where
  "coap_send_empty_ack s m endpoint =
     (case oc_internal_allocate_outgoing_message s of
        (s, None) \<Rightarrow> Some (s, False)
      | (s, Some a) \<Rightarrow> do {
          s \<leftarrow> set_endpoint s a endpoint;
          s \<leftarrow> serialize_into_message s a [] (coap_udp_init_message COAP_TYPE_ACK 0 m);
          x \<leftarrow> msgs s a;
          (s, success) \<leftarrow> (if mlength x > 0 then do { s \<leftarrow> coap_send_message s a; Some (s, True) } else Some (s, False));
          x \<leftarrow> msgs s a;
          s \<leftarrow> (if mref x = 0 then oc_message_unref s a else Some s);
          Some (s, success)
        })"

definition coap_separate_clear :: "net \<Rightarrow> addr \<Rightarrow> addr \<Rightarrow> net option" where
  "coap_separate_clear s h a = do {
     x \<leftarrow> separates s a;
     Some (s\<lparr>sep_requests := (sep_requests s)(h := remove1 a (sep_requests s h)),
       separates := free_obj separate_requests (separates s) a\<rparr>)
   }"

definition set_separate :: "net \<Rightarrow> addr \<Rightarrow> coap_separate \<Rightarrow> net" where
  "set_separate s a x = s\<lparr>separates := (separates s)(a \<mapsto> x)\<rparr>"

text \<open>The stored request has the token of the packet.\<close>

definition waits_for :: "coap_packet \<Rightarrow> coap_separate \<Rightarrow> bool" where
  "waits_for req x \<longleftrightarrow> ptoken_len x = token_len req \<and>
     take (unat (ptoken_len x)) (ptoken x) = take (unat (ptoken_len x)) (token req)"

text \<open>The search for a stored request with the same token and, failing that, a new one.\<close>

definition find_or_store ::
  "net \<Rightarrow> bytes \<Rightarrow> coap_packet \<Rightarrow> addr \<Rightarrow> oc_endpoint \<Rightarrow> u16 \<Rightarrow> (net \<times> addr option) option" where
  "find_or_store s rx req h endpoint block2 = do {
     r \<leftarrow> find_on (separates s) (waits_for req) (sep_requests s h);
     case r of
       Some a \<Rightarrow> Some (s, Some a)
     | None \<Rightarrow>
         (case alloc_obj separate_requests (separates s) zero_separate of
            (hp, None) \<Rightarrow> Some (s, None)
          | (hp, Some a) \<Rightarrow> do {
              bs \<leftarrow> rd_slice (token req) 0 (unat (token_len req));
              Some (s\<lparr>separates := hp(a \<mapsto> zero_separate\<lparr>pendpoint := endpoint, ptype := COAP_TYPE_NON,
                  ptoken := splice 0 bs (ptoken zero_separate), ptoken_len := token_len req,
                  puri := str_bytes rx (uri_path req) (uri_path_len req), pmethod := code req, pblock2_size := block2\<rparr>),
                sep_requests := (sep_requests s)(h := sep_requests s h @ [a])\<rparr>, Some a)
            })
   }"

text \<open>\<open>coap_separate_accept\<close> also sets the status to \<open>CLEAR_TRANSACTION\<close>, which its caller does in this
  model.\<close>

definition coap_separate_accept ::
  "net \<Rightarrow> bytes \<Rightarrow> coap_packet \<Rightarrow> addr \<Rightarrow> oc_endpoint \<Rightarrow> int \<Rightarrow> u16 \<Rightarrow> (net \<times> int) option" where
  "coap_separate_accept s rx req h endpoint obs block2 = do {
     let s = (if sep_active s h = 0 then s\<lparr>sep_requests := (sep_requests s)(h := [])\<rparr> else s);
     (s, r) \<leftarrow> find_or_store s rx req h endpoint block2;
     case r of
       None \<Rightarrow> Some (s, 0)
     | Some a \<Rightarrow> do {
         x \<leftarrow> separates s a;
         let s = set_separate s a (x\<lparr>pobserve := obs\<rparr>);
         if type req = COAP_TYPE_CON then do {
           (s, success) \<leftarrow> coap_send_empty_ack s (mid req) endpoint;
           if success then Some (s, 1)
           else do { s \<leftarrow> coap_separate_clear s h a; Some (s, 0) }
         }
         else Some (s, 1)
       }
   }"

definition coap_separate_resume :: "coap_separate \<Rightarrow> u8 \<Rightarrow> u16 \<Rightarrow> coap_packet option" where
  "coap_separate_resume x c m = do {
     let res = (if flags (pendpoint x) AND TCP \<noteq> 0 then coap_tcp_init_message c else coap_udp_init_message (ptype x) c m);
     if ptoken_len x \<noteq> 0 then map_option fst (coap_set_token res (ptoken x) (unat (ptoken_len x))) else Some res
   }"

section \<open>The invariant\<close>

text \<open>The requests that wait on an active handle are live and wait on no other.\<close>

definition waits_ok :: "(addr \<Rightarrow> coap_separate option) \<Rightarrow> (addr \<Rightarrow> addr list) \<Rightarrow> addr set \<Rightarrow> bool" where
  "waits_ok hp l A \<longleftrightarrow> dom hp \<subseteq> set separate_requests \<and> (\<forall>h \<in> A. distinct (l h) \<and> set (l h) \<subseteq> dom hp) \<and>
     (\<forall>h \<in> A. \<forall>h' \<in> A. h \<noteq> h' \<longrightarrow> set (l h) \<inter> set (l h') = {})"

abbreviation "active_handles s \<equiv> {h. sep_active s h \<noteq> 0}"

definition sep_inv :: "net \<Rightarrow> bool" where
  "sep_inv s \<longleftrightarrow> waits_ok (separates s) (sep_requests s) (active_handles s)"

lemma waits_okD:
  assumes "waits_ok hp l A" and "h \<in> A"
  shows "distinct (l h)" and "set (l h) \<subseteq> dom hp" and "dom hp \<subseteq> set separate_requests"
    and "h' \<in> A \<Longrightarrow> h \<noteq> h' \<Longrightarrow> set (l h) \<inter> set (l h') = {}"
  using assms by (auto simp: waits_ok_def)

lemma waits_ok_add:
  assumes ok: "waits_ok hp l A" and "h \<in> A" and a: "a \<in> set separate_requests" "hp a = None"
  shows "waits_ok (hp(a \<mapsto> y)) (l(h := l h @ [a])) A"
proof -
  have new: "a \<notin> set (l h')" if "h' \<in> A" for h' using waits_okD(2) [OF ok that] a(2) by auto
  show ?thesis unfolding waits_ok_def
  proof (intro conjI ballI impI)
    show "dom (hp(a \<mapsto> y)) \<subseteq> set separate_requests" using ok a(1) by (auto simp: waits_ok_def)
    fix h' assume h': "h' \<in> A"
    show "distinct ((l(h := l h @ [a])) h')" using waits_okD(1) [OF ok h'] new [OF h'] by auto
    show "set ((l(h := l h @ [a])) h') \<subseteq> dom (hp(a \<mapsto> y))" using waits_okD(2) [OF ok h'] by auto
    fix h2 assume "h2 \<in> A" "h' \<noteq> h2"
    then show "set ((l(h := l h @ [a])) h') \<inter> set ((l(h := l h @ [a])) h2) = {}"
      using waits_okD(4) [OF ok h'] new [OF h'] new [of h2] by auto
  qed
qed

lemma waits_ok_remove:
  assumes ok: "waits_ok hp l A" and h: "h \<in> A" and a: "a \<in> set (l h)"
  shows "waits_ok (hp(a := None)) (l(h := remove1 a (l h))) A"
proof -
  have d: "distinct (l h)" using ok h by (simp add: waits_ok_def)
  have "a \<notin> set (l h')" if "h' \<in> A" "h' \<noteq> h" for h' using ok h a that unfolding waits_ok_def by blast
  then have sub: "set ((l(h := remove1 a (l h))) h') \<subseteq> set (l h') - {a}" if "h' \<in> A" for h'
    using that d by (auto simp: set_remove1_eq)
  show ?thesis unfolding waits_ok_def
  proof (intro conjI ballI impI)
    show "dom (hp(a := None)) \<subseteq> set separate_requests" using ok by (auto simp: waits_ok_def)
    fix h' assume h': "h' \<in> A"
    show "distinct ((l(h := remove1 a (l h))) h')" using ok h' d by (simp add: waits_ok_def distinct_remove1)
    show "set ((l(h := remove1 a (l h))) h') \<subseteq> dom (hp(a := None))" using sub [OF h'] waits_okD(2) [OF ok h'] by auto
    fix h2 assume "h2 \<in> A" "h' \<noteq> h2"
    then show "set ((l(h := remove1 a (l h))) h') \<inter> set ((l(h := remove1 a (l h))) h2) = {}"
      using sub [OF h'] sub [of h2] ok h' unfolding waits_ok_def by blast
  qed
qed

lemma waits_ok_upd: "waits_ok hp l A \<Longrightarrow> hp a \<noteq> None \<Longrightarrow> waits_ok (hp(a \<mapsto> y)) l A"
  unfolding waits_ok_def by (auto simp: dom_def; blast)

lemma waits_ok_subset: "waits_ok hp l A \<Longrightarrow> B \<subseteq> A \<Longrightarrow> waits_ok hp l B"
  unfolding waits_ok_def by blast

lemma waits_ok_reset: "waits_ok hp l A \<Longrightarrow> h \<notin> A \<Longrightarrow> waits_ok hp (l(h := [])) (insert h A)"
  unfolding waits_ok_def by auto

lemma net_inv_separate:
  "net_inv (s\<lparr>separates := hp\<rparr>) ext = net_inv s ext" "net_inv (s\<lparr>sep_requests := l\<rparr>) ext = net_inv s ext"
  "net_inv (s\<lparr>sep_active := l'\<rparr>) ext = net_inv s ext"
proof -
  have sep: "net_inv (s\<lparr>separates := hp, sep_requests := l, sep_active := l'\<rparr>) ext = net_inv s ext" for hp l l'
  proof -
    let ?s = "s\<lparr>separates := hp, sep_requests := l, sep_active := l'\<rparr>"
    have h: "bw_heap b ?s = bw_heap b s" "bw_list b ?s = bw_list b s" "pending ?s = pending s" for b
      by (cases b; simp add: pending_def)+
    have r: "refs_ok ?s e = refs_ok s e" for e by (rule refs_ok_cong) simp_all
    have t: "tls_held ?s = tls_held s" by (simp add: tls_held_def)
    have o: "obs_inv ?s = obs_inv s" by (simp add: obs_inv_def obs_count_def)
    show ?thesis
      by (simp add: net_inv_def state_inv_def all_refs_def [abs_def] r t o net_timers_def bw_inv_def cb_inv_def callbacks_ok_def h)
  qed
  show "net_inv (s\<lparr>separates := hp\<rparr>) ext = net_inv s ext"
    using sep [where hp = hp and l = "sep_requests s" and l' = "sep_active s"] by simp
  show "net_inv (s\<lparr>sep_requests := l\<rparr>) ext = net_inv s ext"
    using sep [where hp = "separates s" and l = l and l' = "sep_active s"] by simp
  show "net_inv (s\<lparr>sep_active := l'\<rparr>) ext = net_inv s ext"
    using sep [where hp = "separates s" and l = "sep_requests s" and l' = l'] by simp
qed

section \<open>The empty acknowledgement\<close>

lemma empty_ack_ok: "msg_ok rx (coap_udp_init_message COAP_TYPE_ACK 0 m)"
  "header_length rx (coap_udp_init_message COAP_TYPE_ACK 0 m) = 4"
  "unat (payload_len (coap_udp_init_message COAP_TYPE_ACK 0 m)) \<le> OC_MAX_APP_DATA_SIZE"
proof -
  let ?p = "coap_udp_init_message COAP_TYPE_ACK 0 m"
  have o: "\<not> IS_OPTION ?p n" if "unat n < 64" for n
    using no_option_zero_packet [of n] that by (simp add: coap_udp_init_message_def IS_OPTION_def)
  have sig: "\<not> coap_check_signal_message ?p" by (simp add: coap_check_signal_message_def coap_udp_init_message_def)
  show "msg_ok rx ?p" using o sig by (simp add: msg_ok_def ser_ok_def) (simp add: coap_udp_init_message_def zero_packet_def)
  have "packet_opts rx ?p = []" using o sig by (simp add: packet_opts_def opt_if_def)
  then show "header_length rx ?p = 4"
    by (simp add: header_length_def header_bytes_def) (simp add: coap_udp_init_message_def zero_packet_def udp_header_def)
  show "unat (payload_len ?p) \<le> OC_MAX_APP_DATA_SIZE" by (simp add: coap_udp_init_message_def zero_packet_def)
qed

lemma serialize_length_pos:
  assumes "msg_ok rx pkt" and "length buf = OC_PDU_SIZE" and "unat (payload_len pkt) \<le> OC_MAX_APP_DATA_SIZE"
    and "header_length rx pkt \<le> COAP_MAX_HEADER_SIZE" and "coap_serialize_message rx pkt (Mem buf) = Some (Mem bs, n)"
  shows "0 < n"
  using coap_serialize_total [OF assms(1), of buf] assms(2-5) by (auto simp: OC_PDU_SIZE_def)

lemma allocate_ring: "allocate_message s pool = (s', r) \<Longrightarrow> evring s' = evring s"
  by (auto simp: allocate_message_def split: prod.splits option.splits)

lemma send_empty_ack_ok:
  assumes inv: "net_inv s ext" and room: "\<not> ring_full s" and udp: "flags endpoint AND TCP = 0"
  shows "\<exists>s' ok. coap_send_empty_ack s m endpoint = Some (s', ok) \<and> net_inv s' ext \<and> send_frame s s' \<and>
     (\<forall>b. msgs s b \<noteq> None \<longrightarrow> msgs s' b = msgs s b) \<and> (ok \<longleftrightarrow> obj_room oc_outgoing_buffers (msgs s) \<noteq> 0) \<and>
     (if ok then \<exists>a. msgs s a = None \<and> evq s' = evq s @ [out_event a] else s' = s)"
proof (cases "allocate_message s Outgoing")
  case (Pair s1 r)
  show ?thesis
  proof (cases r)
    case None
    then have "s1 = s \<and> obj_room oc_outgoing_buffers (msgs s) = 0" using Pair allocate_message_None [of s Outgoing s1] by simp
    with None Pair inv show ?thesis
      by (intro exI [of _ s] exI [of _ False]) (simp add: coap_send_empty_ack_def oc_internal_allocate_outgoing_message_def)
  next
    case (Some a)
    let ?p = "coap_udp_init_message COAP_TYPE_ACK 0 m"
    note al = net_inv_allocate [OF inv Pair [unfolded Some]]
    obtain x where x: "msgs s1 = (msgs s)(a \<mapsto> x)" "mref x = 1" "length (mdata x) = OC_PDU_SIZE" using al(5) by blast
    let ?s2 = "set_msg s1 a (x\<lparr>mendpoint := endpoint\<rparr>)"
    have inv2: "net_inv ?s2 (ext(a := 1))" by (rule net_inv_set_msg [OF al(1), of a x]) (simp_all add: x)
    obtain bs n where b: "serialize_into_message ?s2 a [] ?p =
        Some (set_msg ?s2 a (x\<lparr>mendpoint := endpoint, mdata := bs, mlength := n\<rparr>))"
      "net_inv (set_msg ?s2 a (x\<lparr>mendpoint := endpoint, mdata := bs, mlength := n\<rparr>)) (ext(a := 1))"
      "coap_serialize_message [] ?p (Mem (mdata x)) = Some (Mem bs, n)"
      using serialize_into_message_ok [OF inv2 _ empty_ack_ok(1) [of "[]" m] empty_ack_ok(3) [of m], of a "x\<lparr>mendpoint := endpoint\<rparr>"] by auto
    have n: "0 < n" using serialize_length_pos [OF empty_ack_ok(1) x(3) empty_ack_ok(3) _ b(3)] empty_ack_ok(2)
      by (simp add: COAP_MAX_HEADER_SIZE_val)
    let ?s3 = "set_msg ?s2 a (x\<lparr>mendpoint := endpoint, mdata := bs, mlength := n\<rparr>)"
    have ring: "evring ?s3 = evring s" using allocate_ring [OF Pair] by simp
    then have "\<not> ring_full ?s3" using room by (simp add: ring_full_def)
    then obtain s' where s': "oc_send_message ?s3 a = Some s'" "net_inv s' (ext(a := 0))" "send_frame ?s3 s'"
      "msgs s' = msgs ?s3" "evq s' = evq ?s3 @ [out_event a]"
      using net_inv_send [OF b(2), of a] by (auto simp: out_event_def)
    have send: "coap_send_message ?s3 a = oc_send_message ?s3 a" 
      using coap_send_message_udp [of ?s3 a "x\<lparr>mendpoint := endpoint, mdata := bs, mlength := n\<rparr>"] udp by simp
    have "coap_send_empty_ack s m endpoint = Some (s', True)"
      using Pair Some x b(1) s' n send
      by (simp add: coap_send_empty_ack_def oc_internal_allocate_outgoing_message_def set_endpoint_def)
    moreover have "ext(a := 0) = ext" using al(3) by auto
    moreover have "send_frame s s'"
      using send_frame_trans [OF al(4) send_frame_trans [OF set_msg_frame send_frame_trans [OF set_msg_frame s'(3)]]] .
    moreover have "obj_room oc_outgoing_buffers (msgs s) \<noteq> 0"
      using Pair Some allocate_message_None [of s Outgoing s] by (auto simp: allocate_message_def)
    moreover have "evq s' = evq s @ [out_event a]" using s'(5) ring by simp
    ultimately show ?thesis using s'(2,4) x(1) al(2) by (intro exI [of _ s'] exI [of _ True]) auto
  qed
qed

section \<open>Accepting a request\<close>

lemma sep_inv_cong:
  "separates s' = separates s \<Longrightarrow> sep_requests s' = sep_requests s \<Longrightarrow> sep_active s' = sep_active s \<Longrightarrow> sep_inv s' = sep_inv s"
  by (simp add: sep_inv_def)

lemma send_frame_sep:
  assumes "send_frame s s'"
  shows "separates s' = separates s" "sep_requests s' = sep_requests s" "sep_active s' = sep_active s"
  using assms by (auto elim!: send_frameE)

text \<open>The waiting requests of handle \<open>h\<close> are live, whether it is active or not.\<close>

definition sep_open :: "net \<Rightarrow> addr \<Rightarrow> bool" where
  "sep_open s h \<longleftrightarrow> waits_ok (separates s) (sep_requests s) (insert h (active_handles s))"

lemma sep_open_start:
  assumes "sep_inv s"
  shows "sep_open (if sep_active s h = 0 then s\<lparr>sep_requests := (sep_requests s)(h := [])\<rparr> else s) h"
  using assms waits_ok_reset [of "separates s" "sep_requests s" "active_handles s" h]
  by (simp add: sep_inv_def sep_open_def insert_absorb)

lemma sep_open_inv: "sep_open s h \<Longrightarrow> sep_inv s"
  unfolding sep_open_def sep_inv_def by (erule waits_ok_subset) blast

lemma sep_open_active: "sep_open s h \<Longrightarrow> sep_inv (s\<lparr>sep_active := (sep_active s)(h := 1)\<rparr>)"
  unfolding sep_open_def sep_inv_def by (auto intro: waits_ok_subset split: if_splits)

lemma sep_same: "\<exists>hp l. s = s\<lparr>separates := hp, sep_requests := l\<rparr>"
  by (rule exI [of _ "separates s"], rule exI [of _ "sep_requests s"]) simp

lemma find_or_store_ok:
  assumes inv: "net_inv s ext" and sep: "sep_open s h" and tok: "unat (token_len req) \<le> COAP_TOKEN_LEN" "length (token req) = COAP_TOKEN_LEN"
  shows "\<exists>s' r. find_or_store s rx req h endpoint block2 = Some (s', r) \<and> net_inv s' ext \<and> sep_open s' h \<and>
     (\<exists>hp l. s' = s\<lparr>separates := hp, sep_requests := l\<rparr>) \<and>
     (case r of None \<Rightarrow> s' = s \<and> obj_room separate_requests (separates s) = 0
      | Some a \<Rightarrow> a \<in> set (sep_requests s' h) \<and> (\<exists>x. separates s' a = Some x \<and> waits_for req x))"
proof -
  have live: "\<forall>a \<in> set (sep_requests s h). separates s a \<noteq> None" and pool: "dom (separates s) \<subseteq> set separate_requests"
    using sep by (auto simp: sep_open_def waits_ok_def)
  let ?P = "waits_for req"
  have r: "find_on (separates s) (waits_for req) (sep_requests s h) = Some (find (\<lambda>a. ?P (the (separates s a))) (sep_requests s h))"
    by (rule find_on_live [OF live])
  show ?thesis
  proof (cases "find (\<lambda>a. ?P (the (separates s a))) (sep_requests s h)")
    case (Some a)
    then have a: "a \<in> set (sep_requests s h)" "?P (the (separates s a))" using find_SomeD by fast+
    then have "\<exists>x. separates s a = Some x \<and> ?P x" using live by force
    moreover have "find_or_store s rx req h endpoint block2 = Some (s, Some a)" using r Some by (simp add: find_or_store_def)
    ultimately show ?thesis using a(1) inv sep by (intro exI [of _ s] exI [of _ "Some a"] conjI sep_same) simp_all
  next
    case None
    show ?thesis
    proof (rule alloc_obj_cases [of separate_requests "separates s" zero_separate], goal_cases)
      case 1
      then have "find_or_store s rx req h endpoint block2 = Some (s, None)" using r None by (simp add: find_or_store_def)
      moreover have "obj_room separate_requests (separates s) = 0" using 1(2) by (auto simp: obj_room_def filter_empty_conv)
      ultimately show ?thesis using inv sep by (intro exI [of _ s] exI [of _ None] conjI sep_same) simp_all
    next
      case (2 a)
      define y where "y = zero_separate\<lparr>pendpoint := endpoint, ptype := COAP_TYPE_NON,
        ptoken := splice 0 (take (unat (token_len req)) (token req)) (ptoken zero_separate), ptoken_len := token_len req,
        puri := str_bytes rx (uri_path req) (uri_path_len req), pmethod := code req, pblock2_size := block2\<rparr>"
      let ?s = "s\<lparr>separates := (separates s)(a \<mapsto> y), sep_requests := (sep_requests s)(h := sep_requests s h @ [a])\<rparr>"
      have "find_or_store s rx req h endpoint block2 = Some (?s, Some a)"
        using r None 2 tok by (simp add: find_or_store_def rd_slice_def y_def)
      moreover have "net_inv ?s ext" using inv by (simp add: net_inv_separate)
      moreover have "sep_open ?s h"
        using waits_ok_add [of "separates s" "sep_requests s" "insert h (active_handles s)" h a y] sep 2(2,3)
        by (simp add: sep_open_def)
      moreover have "waits_for req y"
        using tok by (simp add: waits_for_def y_def splice_def zero_separate_def)
      ultimately show ?thesis by (intro exI [of _ ?s] exI [of _ "Some a"]) auto
    qed
  qed
qed

lemma separate_accept_ok:
  assumes inv: "net_inv s ext" and sep: "sep_inv s" and room: "\<not> ring_full s"
    and tok: "unat (token_len req) \<le> COAP_TOKEN_LEN" "length (token req) = COAP_TOKEN_LEN"
    and udp: "type req = COAP_TYPE_CON \<Longrightarrow> flags endpoint AND TCP = 0"
  shows "\<exists>s' n. coap_separate_accept s rx req h endpoint obs block2 = Some (s', n) \<and> net_inv s' ext \<and>
     (if n = 1 then sep_open s' h else n = 0 \<and> sep_inv s') \<and> trans s' = trans s \<and> requests s' = requests s \<and> responses s' = responses s \<and>
     (n = 1 \<longrightarrow> (\<exists>a x. a \<in> set (sep_requests s' h) \<and> separates s' a = Some x \<and> waits_for req x \<and> pobserve x = obs)) \<and>
     (n = 0 \<longrightarrow> obj_room separate_requests (separates s) = 0 \<or> obj_room oc_outgoing_buffers (msgs s) = 0)"
proof -
  define s0 where "s0 = (if sep_active s h = 0 then s\<lparr>sep_requests := (sep_requests s)(h := [])\<rparr> else s)"
  have inv0: "net_inv s0 ext" using inv by (simp add: s0_def net_inv_separate)
  have open0: "sep_open s0 h" unfolding s0_def by (rule sep_open_start [OF sep])
  have f0: "trans s0 = trans s" "requests s0 = requests s" "responses s0 = responses s" "separates s0 = separates s" "msgs s0 = msgs s"
    "evring s0 = evring s" by (simp_all add: s0_def)
  obtain s1 r hp l where s1: "find_or_store s0 rx req h endpoint block2 = Some (s1, r)" "net_inv s1 ext" "sep_open s1 h"
    "s1 = s0\<lparr>separates := hp, sep_requests := l\<rparr>"
    "case r of None \<Rightarrow> s1 = s0 \<and> obj_room separate_requests (separates s0) = 0
      | Some a \<Rightarrow> a \<in> set (sep_requests s1 h) \<and> (\<exists>x. separates s1 a = Some x \<and> waits_for req x)"
    using find_or_store_ok [OF inv0 open0 tok, of rx endpoint block2] by blast
  show ?thesis
  proof (cases r)
    case None
    then have "coap_separate_accept s rx req h endpoint obs block2 = Some (s0, 0)" "obj_room separate_requests (separates s) = 0"
      using s1(1,5) f0(4) by (simp_all add: coap_separate_accept_def s0_def [symmetric])
    with inv0 sep_open_inv [OF open0] f0 show ?thesis by (intro exI [of _ s0] exI [of _ 0]) simp
  next
    case (Some a)
    then obtain x where x: "a \<in> set (sep_requests s1 h)" "separates s1 a = Some x" "waits_for req x" using s1(5) by auto
    define y where "y = x\<lparr>pobserve := obs\<rparr>"
    let ?s2 = "set_separate s1 a y"
    have y: "waits_for req y" "pobserve y = obs" using x(3) by (auto simp: waits_for_def y_def)
    have inv2: "net_inv ?s2 ext" using s1(2) by (simp add: set_separate_def net_inv_separate)
    have open2: "sep_open ?s2 h" using s1(3) x(2) by (simp add: sep_open_def set_separate_def waits_ok_upd)
    have f2: "trans ?s2 = trans s" "requests ?s2 = requests s" "responses ?s2 = responses s" "msgs ?s2 = msgs s" "evring ?s2 = evring s"
      "sep_requests ?s2 = sep_requests s1" "separates ?s2 a = Some y" using s1(4) f0 by (simp_all add: set_separate_def)
    have acc: "coap_separate_accept s rx req h endpoint obs block2 =
        (if type req = COAP_TYPE_CON then do {
           (s, success) \<leftarrow> coap_send_empty_ack ?s2 (mid req) endpoint;
           if success then Some (s, 1) else do { s \<leftarrow> coap_separate_clear s h a; Some (s, 0) }
         } else Some (?s2, 1))"
      using s1(1) Some x(2) by (simp add: coap_separate_accept_def s0_def [symmetric] y_def)
    show ?thesis
    proof (cases "type req = COAP_TYPE_CON")
      case False
      with acc inv2 open2 f2 x(1) y show ?thesis by (intro exI [of _ ?s2] exI [of _ 1]) auto
    next
      case True
      have "\<not> ring_full ?s2" using room f2(5) by (simp add: ring_full_def)
      from send_empty_ack_ok [OF inv2 this udp [OF True], of "mid req"] obtain s3 ok where
        s3: "coap_send_empty_ack ?s2 (mid req) endpoint = Some (s3, ok)" "net_inv s3 ext" "send_frame ?s2 s3"
        "ok \<longleftrightarrow> obj_room oc_outgoing_buffers (msgs ?s2) \<noteq> 0" by blast
      note f3 = send_frame_fields [OF s3(3)] send_frame_sep [OF s3(3)]
      have open3: "sep_open s3 h" using open2 f3 by (simp add: sep_open_def)
      show ?thesis
      proof (cases ok)
        case True
        with acc \<open>type req = COAP_TYPE_CON\<close> s3 open3 f2 f3 x(1) y show ?thesis
          by (intro exI [of _ s3] exI [of _ 1]) auto
      next
        case False
        let ?s4 = "s3\<lparr>sep_requests := (sep_requests s3)(h := remove1 a (sep_requests s3 h)), separates := (separates s3)(a := None)\<rparr>"
        have pool: "a \<in> set separate_requests" using open3 x(1,2) f2 f3 by (auto simp: sep_open_def waits_ok_def)
        have "coap_separate_clear s3 h a = Some ?s4"
          using f2(7) f3 pool by (simp add: coap_separate_clear_def free_obj_def)
        moreover have "sep_open ?s4 h"
          using waits_ok_remove [of "separates s3" "sep_requests s3" "insert h (active_handles s3)" h a] open3 x(1) f2(6) f3
          by (simp add: sep_open_def)
        moreover have "net_inv ?s4 ext" using s3(2) by (simp add: net_inv_separate)
        ultimately show ?thesis
          using acc \<open>type req = COAP_TYPE_CON\<close> False s3(1,4) f2 f3 sep_open_inv [of ?s4 h] by (intro exI [of _ ?s4] exI [of _ 0]) auto
      qed
    qed
  qed
qed

section \<open>Properties\<close>



end
