(* ===== verification/OC_Query.thy ===== *)
theory OC_Query
  imports OC_Prelude
begin

text \<open>
  Query strings: \<open>oc_ri_get_query_nth_key_value\<close> and \<open>oc_ri_get_query_value\<close> of
  \<open>src/api/oc_ri.c\<close> and the query iterator of
  \<open>src/api/oc_server_api.c\<close>. A query is the sequence of its \<open>query_len\<close> bytes; keys and
  values are returned as position and length, the return value -1 is \<open>None\<close>. Positions are natural
  numbers: a query is shorter than \<open>INT_MAX\<close>.
\<close>

section \<open>Operations\<close>

abbreviation (input) "equals_sign \<equiv> 0x3D :: u8"
abbreviation (input) "and_sign \<equiv> 0x26 :: u8"

text \<open>\<open>memchr\<close>: the distance to the first occurrence.\<close>

fun memchr :: "u8 \<Rightarrow> bytes \<Rightarrow> nat option" where
  "memchr c [] = None"
| "memchr c (x # xs) = (if x = c then Some 0 else map_option Suc (memchr c xs))"

text \<open>The loop that skips \<open>k\<close> parameters, from position \<open>start\<close> on.\<close>

primrec skip_params :: "bytes \<Rightarrow> nat \<Rightarrow> nat \<Rightarrow> nat option" where
  "skip_params query start 0 = Some start"
| "skip_params query start (Suc k) =
     (case memchr and_sign (drop start query) of
        None \<Rightarrow> None
      | Some d \<Rightarrow> skip_params query (start + d + 1) k)"

text \<open>For \<open>n = 0\<close> the bound \<open>n - 1\<close> of the loop wraps to \<open>SIZE_MAX\<close>, so that it ends only when
  there is no further \<open>&\<close>.\<close>

definition oc_ri_get_query_nth_key_value :: "bytes \<Rightarrow> nat \<Rightarrow> (nat \<times> (nat \<times> nat) \<times> nat \<times> nat) option" where
  "oc_ri_get_query_nth_key_value query n = do {
     start \<leftarrow> (if n = 0 then None else skip_params query 0 (n - 1));
     key_len \<leftarrow> memchr equals_sign (drop start query);
     let value = start + key_len + 1;
     let value_len = (case memchr and_sign (drop value query) of None \<Rightarrow> length query - value | Some d \<Rightarrow> d);
     Some (value + value_len + 1, (start, key_len), (value, value_len))
   }"

text \<open>\<open>strncasecmp(a, b, n) == 0\<close> in the C locale, on strings of at least \<open>n\<close> bytes or with a
  terminating zero.\<close>

definition to_lower :: "u8 \<Rightarrow> u8" where
  "to_lower c = (if 0x41 \<le> c \<and> c \<le> 0x5A then c + 0x20 else c)"

fun strncasecmp_eq :: "bytes \<Rightarrow> bytes \<Rightarrow> nat \<Rightarrow> bool" where
  "strncasecmp_eq a b 0 = True"
| "strncasecmp_eq (x # a) (y # b) (Suc n) = (to_lower x = to_lower y \<and> (x = 0 \<or> strncasecmp_eq a b n))"
| "strncasecmp_eq a b (Suc n) = False"

lemma memchr_less: "memchr c xs = Some d \<Longrightarrow> d < length xs"
  by (induction c xs arbitrary: d rule: memchr.induct) (auto split: if_splits)

lemma next_pos_pos: "oc_ri_get_query_nth_key_value query n = Some (pos, r) \<Longrightarrow> 0 < pos"
  by (auto simp: oc_ri_get_query_nth_key_value_def Let_def split: bind_splits if_splits)

function query_value_loop :: "bytes \<Rightarrow> bytes \<Rightarrow> nat \<Rightarrow> (nat \<times> nat) option" where
  "query_value_loop query key pos =
     (if pos < length query then
        case oc_ri_get_query_nth_key_value (drop pos query) 1 of
          None \<Rightarrow> None
        | Some (next_pos, (k, kl), (v, vl)) \<Rightarrow>
            if kl = length key \<and> strncasecmp_eq key (drop (pos + k) query) kl then Some (pos + v, vl)
            else query_value_loop query key (pos + next_pos)
      else None)"
  by pat_completeness auto
termination
  by (relation "measure (\<lambda>(query, key, pos). length query - pos)") (auto dest: next_pos_pos)

declare query_value_loop.simps [simp del]

definition oc_ri_get_query_value :: "bytes \<Rightarrow> bytes \<Rightarrow> (nat \<times> nat) option" where
  "oc_ri_get_query_value query key = query_value_loop query key 0"

section \<open>The iterator\<close>

text \<open>The iterator counts the parameters it has returned.\<close>

definition oc_init_query_iterator :: nat where
  "oc_init_query_iterator = 0"

definition oc_iterate_query :: "nat \<Rightarrow> bytes \<Rightarrow> nat \<times> (nat \<times> (nat \<times> nat) \<times> nat \<times> nat) option" where
  "oc_iterate_query it query = (it + 1, oc_ri_get_query_nth_key_value query (it + 1))"

lemma memchr_count: "memchr c xs = Some d \<Longrightarrow> count_list (drop (Suc d) xs) c < count_list xs c"
  by (induction c xs arbitrary: d rule: memchr.induct) (auto split: if_splits)

lemma skip_params_count: "skip_params query start k = Some p \<Longrightarrow> k \<le> count_list (drop start query) and_sign"
proof (induction k arbitrary: start)
  case (Suc k)
  then obtain d where d: "memchr and_sign (drop start query) = Some d" "skip_params query (start + d + 1) k = Some p"
    by (auto split: option.splits)
  then show ?case using Suc.IH [OF d(2)] memchr_count [OF d(1)] by (simp add: add.commute)
qed simp

lemma nth_key_bound: "oc_ri_get_query_nth_key_value query n = Some r \<Longrightarrow> n \<le> count_list query and_sign + 1"
  by (auto simp: oc_ri_get_query_nth_key_value_def split: bind_splits if_splits dest: skip_params_count)

text \<open>The result: the iterator, the value found, and whether more parameters follow.\<close>

function oc_iterate_query_get_values :: "nat \<Rightarrow> bytes \<Rightarrow> bytes \<Rightarrow> nat \<times> (nat \<times> nat) option \<times> bool" where
  "oc_iterate_query_get_values it query key =
     (case oc_ri_get_query_nth_key_value query (it + 1) of
        None \<Rightarrow> (it + 1, None, False)
      | Some (pos, (k, kl), (v, vl)) \<Rightarrow>
          if length key = kl \<and> key = take kl (drop k query) then (it + 1, Some (v, vl), pos < length query)
          else oc_iterate_query_get_values (it + 1) query key)"
  by pat_completeness auto
termination
  by (relation "measure (\<lambda>(it, query, key). count_list query and_sign + 1 - it)") (auto dest: nth_key_bound)

declare oc_iterate_query_get_values.simps [simp del]

section \<open>Queries built from parameters\<close>

definition str_of :: "string \<Rightarrow> bytes" where
  "str_of s = map of_char s"

text \<open>A query as RFC 3986 builds it: \<open>key=value\<close> pairs joined by \<open>&\<close>.\<close>

definition pair_bytes :: "bytes \<times> bytes \<Rightarrow> bytes" where
  "pair_bytes p = fst p @ equals_sign # snd p"

fun query_of :: "(bytes \<times> bytes) list \<Rightarrow> bytes" where
  "query_of [] = []"
| "query_of [p] = pair_bytes p"
| "query_of (p # q # ps) = pair_bytes p @ and_sign # query_of (q # ps)"

definition param_ok :: "bytes \<times> bytes \<Rightarrow> bool" where
  "param_ok p \<longleftrightarrow> equals_sign \<notin> set (fst p) \<and> and_sign \<notin> set (fst p) \<and> 0 \<notin> set (fst p) \<and> and_sign \<notin> set (snd p)"

lemma memchr_None: "memchr c xs = None \<longleftrightarrow> c \<notin> set xs"
  by (induction xs) auto

lemma memchr_append: "c \<notin> set xs \<Longrightarrow> memchr c (xs @ ys) = map_option (\<lambda>d. length xs + d) (memchr c ys)"
  by (cases "memchr c ys"; induction xs) auto

text \<open>The first parameter of a query.\<close>

lemma first_param:
  assumes "param_ok p"
  shows "oc_ri_get_query_nth_key_value (query_of (p # ps)) 1 =
     Some (length (pair_bytes p) + 1, (0, length (fst p)), (length (fst p) + 1, length (snd p)))"
proof (cases ps)
  case Nil
  moreover have "memchr and_sign (snd p) = None" using assms by (simp add: memchr_None param_ok_def)
  ultimately show ?thesis using assms
    by (simp add: oc_ri_get_query_nth_key_value_def pair_bytes_def param_ok_def memchr_append Let_def)
next
  case (Cons q qs)
  with assms show ?thesis
    by (simp add: oc_ri_get_query_nth_key_value_def pair_bytes_def param_ok_def memchr_append Let_def)
qed

lemma query_of_nonempty: "query_of (p # ps) \<noteq> []"
  by (cases ps) (auto simp: pair_bytes_def)

lemma query_of_rest:
  "drop (Suc (length (pair_bytes p))) (query_of (p # ps)) = query_of ps"
  "ps = [] \<Longrightarrow> length (query_of (p # ps)) = length (pair_bytes p)"
  by (cases ps; simp)+

lemma strncasecmp_refl_prefix:
  "length a = length b \<Longrightarrow> 0 \<notin> set b \<Longrightarrow> strncasecmp_eq a (b @ c) (length a) \<longleftrightarrow> map to_lower a = map to_lower b"
proof (induction a arbitrary: b)
  case (Cons x a)
  then obtain y b' where b: "b = y # b'" by (cases b) auto
  have "to_lower y \<noteq> 0" if "y \<noteq> 0" for y
  proof
    assume "to_lower y = 0"
    with that have y: "0x41 \<le> y" "y \<le> 0x5A" "y + 0x20 = 0" by (auto simp: to_lower_def split: if_splits)
    from y(3) have "y = - 0x20" by (simp add: eq_neg_iff_add_eq_0)
    with y(2) show False by simp
  qed
  moreover have "to_lower 0 = 0" by (simp add: to_lower_def)
  ultimately show ?case using Cons b by (auto; metis)
qed simp

lemma query_value_loop_params:
  "list_all param_ok ps \<Longrightarrow> drop pos query = query_of ps \<Longrightarrow>
   (case find (\<lambda>p. map to_lower key = map to_lower (fst p)) ps of
      None \<Rightarrow> query_value_loop query key pos = None
    | Some p \<Rightarrow> \<exists>v. query_value_loop query key pos = Some (v, length (snd p)) \<and> take (length (snd p)) (drop v query) = snd p)"
proof (induction ps arbitrary: pos)
  case Nil
  then show ?case by (simp add: query_value_loop.simps)
next
  case (Cons p ps)
  then have p: "param_ok p" and ps: "list_all param_ok ps" and q: "drop pos query = query_of (p # ps)" by simp_all
  have pos: "pos < length query" using query_of_nonempty [of p ps] q by (metis drop_all linorder_not_less)
  obtain r where r: "query_of (p # ps) = fst p @ equals_sign # snd p @ r" by (cases ps) (auto simp: pair_bytes_def)
  have same: "length (fst p) = length key \<and> strncasecmp_eq key (drop pos query) (length (fst p)) \<longleftrightarrow>
      map to_lower key = map to_lower (fst p)"
    using strncasecmp_refl_prefix [of key "fst p" "equals_sign # snd p @ r"] p
    by (auto simp: q r param_ok_def dest: map_eq_imp_length_eq)
  have step: "query_value_loop query key pos =
      (if map to_lower key = map to_lower (fst p) then Some (pos + (length (fst p) + 1), length (snd p))
       else query_value_loop query key (pos + (length (pair_bytes p) + 1)))"
    using pos same by (subst query_value_loop.simps) (simp add: q first_param [OF p, unfolded One_nat_def])
  have rest: "drop (pos + (length (pair_bytes p) + 1)) query = query_of ps"
    using query_of_rest(1) [of p ps] by (simp add: q [symmetric] add.commute)
  show ?case
  proof (cases "map to_lower key = map to_lower (fst p)")
    case True
    have "drop (pos + (length (fst p) + 1)) query = drop (length (fst p) + 1) (query_of (p # ps))"
      by (simp add: q [symmetric] add.commute)
    also have "\<dots> = snd p @ r" by (simp add: r)
    finally show ?thesis using True step by simp
  next
    case False
    with Cons.IH [OF ps rest] show ?thesis unfolding step by simp
  qed
qed

section \<open>Properties\<close>

text \<open>C36: Looking up a key in a query of well-formed parameters finds the value of the first
  parameter with that key, in any letter case, and fails exactly when there is none.\<close>

theorem oc_ri_get_query_value_finds:
  assumes "list_all param_ok ps"
  shows "case find (\<lambda>p. map to_lower key = map to_lower (fst p)) ps of
      None \<Rightarrow> oc_ri_get_query_value (query_of ps) key = None
    | Some p \<Rightarrow> \<exists>v. oc_ri_get_query_value (query_of ps) key = Some (v, length (snd p)) \<and>
        take (length (snd p)) (drop v (query_of ps)) = snd p"
  unfolding oc_ri_get_query_value_def by (rule query_value_loop_params) (use assms in simp_all)

theorem oc_ri_get_query_value_finds_witness:
  "\<exists>v. oc_ri_get_query_value (str_of ''rt=x&IF=oic.if.rw'') (str_of ''if'') = Some (v, length (str_of ''oic.if.rw'')) \<and>
     take (length (str_of ''oic.if.rw'')) (drop v (str_of ''rt=x&IF=oic.if.rw'')) = str_of ''oic.if.rw''"
  using oc_ri_get_query_value_finds [of "[(str_of ''rt'', str_of ''x''), (str_of ''IF'', str_of ''oic.if.rw'')]" "str_of ''if''"]
  by (simp add: param_ok_def str_of_def pair_bytes_def to_lower_def of_char_def)

text \<open>A parameter without \<open>=\<close> hides the one that follows it: the key is taken to reach from
  its start to the next \<open>=\<close>.\<close>

theorem oc_ri_get_query_value_hidden:
  "oc_ri_get_query_value (str_of ''x&if=oic.if.rw'') (str_of ''if'') = None \<and>
   (\<exists>v. oc_ri_get_query_value (str_of ''x&if=oic.if.rw'') (str_of ''x&if'') = Some (v, 9))"
  by (simp add: oc_ri_get_query_value_def query_value_loop.simps oc_ri_get_query_nth_key_value_def str_of_def of_char_def to_lower_def)

end
