(* ===== verification/Net_Request.thy ===== *)
theory Net_Request
  imports Net_Separate OC_Query Sec_Acl_Update
begin

text \<open>
  The server side of the resource layer, \<open>src/api/oc_ri.c\<close>: the table of status codes, the lookup of
  a resource by its path, the periodic callbacks of observed resources and
  \<open>oc_ri_invoke_coap_entity_handler\<close>, which takes a request from its packet to the handler of a
  resource and its answer back to a packet. The handlers, the CBOR parser (tinycbor) and the
  verification of certificates (mbedTLS) are parameters.
\<close>

section \<open>Status codes\<close>

text \<open>The table that \<open>set_mpro_status_codes\<close> fills.\<close>

primrec oc_status_code :: "oc_status \<Rightarrow> int" where
  "oc_status_code OC_STATUS_OK = 69"
| "oc_status_code OC_STATUS_CREATED = 65"
| "oc_status_code OC_STATUS_CHANGED = 68"
| "oc_status_code OC_STATUS_DELETED = 66"
| "oc_status_code OC_STATUS_NOT_MODIFIED = 67"
| "oc_status_code OC_STATUS_BAD_REQUEST = 128"
| "oc_status_code OC_STATUS_UNAUTHORIZED = 129"
| "oc_status_code OC_STATUS_BAD_OPTION = 130"
| "oc_status_code OC_STATUS_FORBIDDEN = 131"
| "oc_status_code OC_STATUS_NOT_FOUND = 132"
| "oc_status_code OC_STATUS_METHOD_NOT_ALLOWED = 133"
| "oc_status_code OC_STATUS_NOT_ACCEPTABLE = 134"
| "oc_status_code OC_STATUS_REQUEST_ENTITY_TOO_LARGE = 141"
| "oc_status_code OC_STATUS_UNSUPPORTED_MEDIA_TYPE = 143"
| "oc_status_code OC_STATUS_INTERNAL_SERVER_ERROR = 160"
| "oc_status_code OC_STATUS_NOT_IMPLEMENTED = 161"
| "oc_status_code OC_STATUS_BAD_GATEWAY = 162"
| "oc_status_code OC_STATUS_SERVICE_UNAVAILABLE = 163"
| "oc_status_code OC_STATUS_GATEWAY_TIMEOUT = 164"
| "oc_status_code OC_STATUS_PROXYING_NOT_SUPPORTED = 165"

abbreviation (input) "OC_IGNORE \<equiv> 21 :: int"
abbreviation (input) "CLEAR_TRANSACTION \<equiv> 194 :: coap_status"
abbreviation (input) "CONTENT_2_05 \<equiv> 69 :: u8"
abbreviation (input) "OC_OBSERVABLE \<equiv> 0x02 :: u32"
abbreviation (input) "OC_PERIODIC \<equiv> 0x40 :: u32"
abbreviation (input) "OC_IF_LL \<equiv> 0x04 :: u32"
abbreviation (input) "OC_IF_B \<equiv> 0x08 :: u32"
abbreviation (input) "OC_IF_R \<equiv> 0x10 :: u32"
abbreviation (input) "OC_IF_S \<equiv> 0x80 :: u32"

section \<open>Parameters\<close>

text \<open>What \<open>oc_parse_rep\<close> reports of a payload: its tree, an early end, or another error.\<close>

datatype rep_result = Parsed "oc_rep list" | Unexpected_EOF | Malformed

text \<open>The objects handed to a handler and what it leaves in them: the code and length of the answer,
  the contents of the response buffer and the separate response it chose (null for none).\<close>

record oc_request =
  rq_resource :: addr
  rq_origin :: oc_endpoint
  rq_query :: bytes
  rq_payload :: "oc_rep list"

record oc_response =
  rs_code :: int
  rs_length :: u16
  rs_buffer :: bytes
  rs_separate :: addr

record oc_client_response =
  cr_client_cb :: addr
  cr_endpoint :: oc_endpoint
  cr_observe_option :: int
  cr_payload :: "oc_rep list"
  cr_user_data :: addr
  cr_code :: oc_status

text \<open>A handler of a resource or of a response is known by a number; \<open>endpoint_at\<close> are the endpoints
  the application keeps for its client callbacks; the discovery handler says whether to stop.\<close>

record services =
  oc_parse_rep :: "bytes \<Rightarrow> rep_result"
  invoke :: "nat \<Rightarrow> net \<Rightarrow> oc_request \<Rightarrow> u32 \<Rightarrow> (net \<times> oc_response) option"
  oc_handle_collection_request :: "oc_method \<Rightarrow> net \<Rightarrow> oc_request \<Rightarrow> u32 \<Rightarrow> (net \<times> oc_response) option"
  cred_valid :: "oc_sec_cred \<Rightarrow> bool"
  response_handler :: "nat \<Rightarrow> net \<Rightarrow> oc_client_response \<Rightarrow> net option"
  oc_ri_process_discovery_payload :: "nat \<Rightarrow> net \<Rightarrow> bytes \<Rightarrow> oc_endpoint \<Rightarrow> addr \<Rightarrow> (net \<times> bool) option"
  endpoint_at :: "addr \<Rightarrow> oc_endpoint"

section \<open>Resources\<close>

definition OC_MAX_NUM_DEVICES :: nat where
  "OC_MAX_NUM_DEVICES = 2"

text \<open>The core resources are a static array.\<close>

definition core_resource_at :: "nat \<Rightarrow> nat \<Rightarrow> addr option" where
  "core_resource_at ty device =
     (let i = (if ty = OCF_P then 0 else OCF_D * device + ty)
      in if i < 1 + OCF_D * OC_MAX_NUM_DEVICES then Some (1000 + i) else None)"

primrec find_core_resource :: "net \<Rightarrow> bytes \<Rightarrow> nat \<Rightarrow> nat \<Rightarrow> nat list \<Rightarrow> addr option option" where
  "find_core_resource s ur len device [] = Some None"
| "find_core_resource s ur len device (i # js) = do {
     r \<leftarrow> core_resource_at i device;
     if length (uri (net.resources s r)) = len + 1 \<and> strncmp_eq (res_path (net.resources s r) @ [0]) ur len
     then Some (Some r) else find_core_resource s ur len device js
   }"

primrec find_collection :: "net \<Rightarrow> bytes \<Rightarrow> u64 \<Rightarrow> nat \<Rightarrow> addr list \<Rightarrow> addr option option" where
  "find_collection s ur len device [] = Some None"
| "find_collection s ur len device (c # cs) =
     (let r = net.resources s c
      in if of_nat (length (uri r)) = len + 1 then
           if uri r = [] then None
           else if strncmp_eq (res_path r @ [0]) ur (unat len) \<and> rdevice r = device then Some (Some c)
           else find_collection s ur len device cs
         else find_collection s ur len device cs)"

text \<open>\<open>ur\<close> is the memory from the pointer on.\<close>

definition oc_get_collection_by_uri :: "net \<Rightarrow> bytes \<Rightarrow> u64 \<Rightarrow> nat \<Rightarrow> addr option option" where
  "oc_get_collection_by_uri s ur len device = do {
     (ur, len) \<leftarrow> strip_slashes ur len;
     find_collection s ur len device (collections s)
   }"

definition oc_check_if_collection :: "net \<Rightarrow> addr \<Rightarrow> bool" where
  "oc_check_if_collection s r \<longleftrightarrow> r \<in> set (collections s)"

definition oc_ri_get_app_resource_by_uri :: "net \<Rightarrow> bytes \<Rightarrow> nat \<Rightarrow> nat \<Rightarrow> addr option option" where
  "oc_ri_get_app_resource_by_uri s ur len device = do {
     c \<leftarrow> rd ur 0;
     let skip = (if c \<noteq> slash then 1 else 0);
     case find (\<lambda>r. length (uri (net.resources s r)) = len + skip \<and>
                  strncmp_eq ur (drop skip (map of_char (uri (net.resources s r))) @ [0]) len \<and>
                  rdevice (net.resources s r) = device) (app_resources s) of
       Some r \<Rightarrow> Some (Some r)
     | None \<Rightarrow> oc_get_collection_by_uri s ur (of_nat len) device
   }"

definition oc_ri_add_resource :: "net \<Rightarrow> addr \<Rightarrow> net \<times> bool" where
  "oc_ri_add_resource s r =
     (if r = NULL_PTR then (s, False)
      else let x = net.resources s r;
               valid = \<not> (get_handler x = None \<and> put_handler x = None \<and> post_handler x = None \<and> delete_handler x = None) \<and>
                 \<not> (properties x AND OC_PERIODIC \<noteq> 0 \<and> observe_period_seconds x = 0)
           in if valid then (s\<lparr>app_resources := app_resources s @ [r]\<rparr>, True) else (s, False))"

definition does_interface_support_method :: "u32 \<Rightarrow> oc_method \<Rightarrow> bool" where
  "does_interface_support_method iface_mask meth =
     (if iface_mask = OC_IF_LL \<or> iface_mask = OC_IF_S \<or> iface_mask = OC_IF_R then meth = OC_GET else True)"

section \<open>Periodic callbacks\<close>

definition get_periodic_observe_callback :: "net \<Rightarrow> addr \<Rightarrow> addr option option" where
  "get_periodic_observe_callback s r = find_on (event_cbs s) (\<lambda>c. cb_data c = r) (observe_callbacks s)"

definition remove_periodic_observe_callback :: "net \<Rightarrow> addr \<Rightarrow> net option" where
  "remove_periodic_observe_callback s r = do {
     f \<leftarrow> get_periodic_observe_callback s r;
     case f of
       None \<Rightarrow> Some s
     | Some a \<Rightarrow> do {
         e \<leftarrow> oc_etimer_stop (clk s) (et s) a;
         Some (s\<lparr>et := e, observe_callbacks := remove1 a (observe_callbacks s),
           event_cbs := free_obj event_callbacks_s (event_cbs s) a\<rparr>)
       }
   }"

definition add_periodic_observe_callback :: "net \<Rightarrow> addr \<Rightarrow> (net \<times> bool) option" where
  "add_periodic_observe_callback s r = do {
     f \<leftarrow> get_periodic_observe_callback s r;
     case f of
       Some a \<Rightarrow> Some (s, True)
     | None \<Rightarrow>
         (case alloc_obj event_callbacks_s (event_cbs s) zero_callback of
            (h, None) \<Rightarrow> Some (s, False)
          | (h, Some a) \<Rightarrow> do {
              let s = s\<lparr>event_cbs := h(a \<mapsto> \<lparr>callback = Periodic_observe_handler, cb_data = r\<rparr>), et := zero_timer (et s) a\<rparr>;
              s \<leftarrow> in_context timed_callback_events
                (\<lambda>e. oc_etimer_set (clk s) e a (ucast (observe_period_seconds (net.resources s r)) * OC_CLOCK_SECOND)) s;
              Some (s\<lparr>observe_callbacks := observe_callbacks s @ [a]\<rparr>, True)
            })
   }"

text \<open>The loops over the links of a collection; a link without a resource is the null address.\<close>

primrec add_link_callbacks :: "net \<Rightarrow> addr list \<Rightarrow> (net \<times> bool) option" where
  "add_link_callbacks s [] = Some (s, True)"
| "add_link_callbacks s (r # rs) =
     (if r \<noteq> NULL_PTR \<and> properties (net.resources s r) AND OC_PERIODIC \<noteq> 0 then do {
        (s, ok) \<leftarrow> add_periodic_observe_callback s r;
        if ok then add_link_callbacks s rs else Some (s, False)
      }
      else add_link_callbacks s rs)"

primrec remove_link_callbacks :: "net \<Rightarrow> addr list \<Rightarrow> net option" where
  "remove_link_callbacks s [] = Some s"
| "remove_link_callbacks s (r # rs) = do {
     s \<leftarrow> (if r \<noteq> NULL_PTR \<and> properties (net.resources s r) AND OC_PERIODIC \<noteq> 0
          then remove_periodic_observe_callback s r else Some s);
     remove_link_callbacks s rs
   }"

section \<open>From a request to its handler\<close>

definition method_of_code :: "u8 \<Rightarrow> oc_method" where
  "method_of_code c = (if c = 1 then OC_GET else if c = 2 then OC_POST else if c = 3 then OC_PUT else OC_DELETE)"

text \<open>The interface a query selects, 0 for none.\<close>

definition query_interface :: "bytes \<Rightarrow> u32" where
  "query_interface query =
     (if query = [] then 0
      else case oc_ri_get_query_value query (str_of ''if'') of
             Some (v, n) \<Rightarrow> oc_ri_get_interface_mask (map (\<lambda>b. char_of (unat b)) (take n (drop v query)))
           | None \<Rightarrow> 0)"

text \<open>The payload a request buffer has collected is parsed, and the buffer freed.\<close>

definition read_payload :: "services \<Rightarrow> net \<Rightarrow> addr option \<Rightarrow> (net \<times> addr option \<times> rep_result) option" where
  "read_payload sv s request_state =
     (case request_state of
        None \<Rightarrow> Some (s, None, Parsed [])
      | Some b \<Rightarrow> do {
          x \<leftarrow> requests s b;
          if sint (payload_size x) > 0 then do {
            bs \<leftarrow> rd_slice (buffer x) 0 (unat (payload_size x));
            s \<leftarrow> oc_blockwise_free_request_buffer s b;
            Some (s, None, oc_parse_rep sv bs)
          }
          else Some (s, Some b, Parsed [])
        })"

text \<open>The resource a path names and whether it is a collection; without a path the source leaves the
  pointer uninitialised, which the search for an application resource reads.\<close>

definition find_resource :: "net \<Rightarrow> bytes option \<Rightarrow> nat \<Rightarrow> nat \<Rightarrow> (addr option \<times> bool) option" where
  "find_resource s ur len device = do {
     r \<leftarrow> find_core_resource s (case ur of None \<Rightarrow> [] | Some p \<Rightarrow> p) len device [0..<1 + OCF_D];
     case r of
       Some a \<Rightarrow> Some (Some a, False)
     | None \<Rightarrow> do {
         p \<leftarrow> ur;
         r \<leftarrow> oc_ri_get_app_resource_by_uri s p len device;
         Some (r, case r of None \<Rightarrow> False | Some a \<Rightarrow> oc_check_if_collection s a)
       }
   }"

definition handler_of :: "oc_method \<Rightarrow> net_resource \<Rightarrow> nat option" where
  "handler_of meth r = (case meth of OC_GET \<Rightarrow> get_handler r | OC_POST \<Rightarrow> post_handler r
     | OC_PUT \<Rightarrow> put_handler r | OC_DELETE \<Rightarrow> delete_handler r)"

text \<open>The access decision and the call of the handler. The result says whether the requester is
  authorized and whether the resource implements the request.\<close>

definition dispatch ::
  "services \<Rightarrow> net \<Rightarrow> oc_method \<Rightarrow> addr \<Rightarrow> bool \<Rightarrow> u32 \<Rightarrow> oc_request \<Rightarrow> oc_response \<Rightarrow> (net \<times> bool \<times> bool \<times> oc_response) option" where
  "dispatch sv s meth r is_collection iface_mask request_obj response_obj =
     (case oc_sec_check_acl (cred_valid sv) (security s) meth (oc_resource.truncate (net.resources s r)) iface_mask
          (rq_origin request_obj) of (authorized, sc) \<Rightarrow>
        let s = s\<lparr>security := sc\<rparr>
        in if \<not> authorized then Some (s, False, True, response_obj)
           else if is_collection then do {
             (s, res) \<leftarrow> oc_handle_collection_request sv meth s request_obj iface_mask;
             Some (s, True, True, res)
           }
           else case handler_of meth (net.resources s r) of
             Some h \<Rightarrow> do { (s, res) \<leftarrow> invoke sv h s request_obj iface_mask; Some (s, True, True, res) }
           | None \<Rightarrow> Some (s, True, False, response_obj))"

text \<open>The errors in the order the source reports them; \<open>None\<close> when there is none.\<close>

definition failure ::
  "bool \<Rightarrow> rep_result \<Rightarrow> bool \<Rightarrow> addr option \<Rightarrow> bool \<Rightarrow> bool \<Rightarrow> oc_status option" where
  "failure forbidden rep bad_request cur method_impl authorized =
     (if forbidden then Some OC_STATUS_FORBIDDEN
      else if rep = Unexpected_EOF then Some OC_STATUS_REQUEST_ENTITY_TOO_LARGE
      else if bad_request then Some OC_STATUS_BAD_REQUEST
      else if cur = None then Some OC_STATUS_NOT_FOUND
      else if \<not> method_impl then Some OC_STATUS_METHOD_NOT_ALLOWED
      else if \<not> authorized then Some OC_STATUS_UNAUTHORIZED
      else None)"

text \<open>The observe option of a request that was handled: 0 registers the requester, 1 removes it.\<close>

definition observe_request ::
  "net \<Rightarrow> bytes \<Rightarrow> coap_packet \<Rightarrow> coap_packet \<Rightarrow> addr \<Rightarrow> bool \<Rightarrow> u32 \<Rightarrow> u16 \<Rightarrow> oc_endpoint \<Rightarrow> (net \<times> coap_packet) option" where
  "observe_request s rx req res r is_collection iface_mask b2_size endpoint =
     (if properties (net.resources s r) AND OC_OBSERVABLE = 0 then Some (s, res)
      else if observe req = 0 then do {
        (s, n) \<leftarrow> coap_observe_handler s rx req res r b2_size endpoint;
        (s, ok) \<leftarrow> (if n \<ge> 0 \<and> properties (net.resources s r) AND OC_PERIODIC \<noteq> 0
                    then add_periodic_observe_callback s r else Some (s, True));
        (s, ok) \<leftarrow> (if is_collection then
                      if iface_mask \<noteq> OC_IF_B then Some (s, False)
                      else do { (s, added) \<leftarrow> add_link_callbacks s (col_links s r); Some (s, ok \<and> added) }
                    else Some (s, ok));
        if ok then Some (s, fst (coap_set_header_observe res 0))
        else do { (s, _) \<leftarrow> coap_remove_observer_by_token s endpoint (token req) (unat (token_len req)); Some (s, res) }
      }
      else if observe req = 1 then do {
        (s, n) \<leftarrow> coap_observe_handler s rx req res r b2_size endpoint;
        if n > 0 then do {
          s \<leftarrow> (if properties (net.resources s r) AND OC_PERIODIC \<noteq> 0 then remove_periodic_observe_callback s r else Some s);
          s \<leftarrow> (if is_collection then remove_link_callbacks s (col_links s r) else Some s);
          Some (s, res)
        }
        else Some (s, res)
      }
      else Some (s, res))"

text \<open>The answer: a separate response is accepted, a request may be ignored, and otherwise the packet
  gets its content format and code, and the observers of a changed resource are notified later.\<close>

definition answer ::
  "net \<Rightarrow> bytes \<Rightarrow> coap_packet \<Rightarrow> coap_packet \<Rightarrow> addr option \<Rightarrow> addr option \<Rightarrow> oc_response \<Rightarrow> u32 \<Rightarrow> u16 \<Rightarrow>
   oc_endpoint \<Rightarrow> coap_status \<Rightarrow> (net \<times> coap_packet \<times> coap_status) option" where
  "answer s rx req res cur response_state response_obj obs b2_size endpoint st =
     (if rs_separate response_obj \<noteq> NULL_PTR then do {
        (s, n) \<leftarrow> coap_separate_accept s rx req (rs_separate response_obj) endpoint (sint obs) b2_size;
        let s = (if n = 1 then s\<lparr>sep_active := (sep_active s)(rs_separate response_obj := 1)\<rparr> else s);
        Some (s, res, CLEAR_TRANSACTION)
      }
      else if rs_code response_obj = OC_IGNORE then Some (s, res, CLEAR_TRANSACTION)
      else do {
        s \<leftarrow> (case cur of
               Some r \<Rightarrow> if (method_of_code (code req) = OC_PUT \<or> method_of_code (code req) = OC_POST) \<and>
                   rs_code response_obj < oc_status_code OC_STATUS_BAD_REQUEST
                 then oc_ri_add_timed_event_callback_ticks s r Oc_observe_notification_delayed 0 else Some s
             | None \<Rightarrow> Some s);
        (s, res) \<leftarrow> (if rs_length response_obj > 0 then do {
            b \<leftarrow> response_state;
            x \<leftarrow> responses s b;
            let s = s\<lparr>responses := (responses s)(b \<mapsto> x\<lparr>payload_size := ucast (rs_length response_obj)\<rparr>)\<rparr>;
            Some (s, fst (coap_set_header_content_format res
              (if ep_version endpoint = OIC_VER_1_1_0 then ucast APPLICATION_CBOR else ucast APPLICATION_VND_OCF_CBOR)))
          }
          else Some (s, res));
        let res = (if rs_code response_obj = oc_status_code OC_STATUS_REQUEST_ENTITY_TOO_LARGE
                   then fst (coap_set_header_size1 res (of_nat OC_BLOCK_SIZE)) else res);
        Some (s, fst (coap_set_status_code res (of_int (rs_code response_obj))), st)
      })"

text \<open>What is known of a request before its handler runs.\<close>

record prepared =
  p_request_state :: "addr option"
  p_response_state :: "addr option"
  p_rep :: rep_result
  p_cur :: "addr option"
  p_is_collection :: bool
  p_iface_mask :: u32
  p_forbidden :: bool
  p_bad_request :: bool
  p_query :: bytes

definition request_query :: "bytes \<Rightarrow> coap_packet \<Rightarrow> bytes" where
  "request_query rx req =
     (case coap_get_header_uri_query req of (n, p) \<Rightarrow> str_bytes rx (case p of None \<Rightarrow> Null | Some p \<Rightarrow> p) n)"

definition request_path :: "bytes \<Rightarrow> coap_packet \<Rightarrow> bytes option" where
  "request_path rx req = map_option (deref rx) (snd (coap_get_header_uri_path req))"

definition request_endpoint :: "coap_packet \<Rightarrow> oc_endpoint \<Rightarrow> oc_endpoint" where
  "request_endpoint req endpoint = endpoint\<lparr>ep_version :=
     (if coap_get_header_accept req = (1, Some (ucast APPLICATION_CBOR)) then OIC_VER_1_1_0 else OCF_VER_1_0_0)\<rparr>"

text \<open>The interface a request goes to: the one of its query or the default one of the resource; the
  resource has to have it and it has to allow the request.\<close>

definition chosen_interface :: "bytes \<Rightarrow> net_resource \<Rightarrow> u32" where
  "chosen_interface query r = (if query_interface query = 0 then default_interface r else query_interface query)"

definition interface_allows :: "u32 \<Rightarrow> net_resource \<Rightarrow> oc_method \<Rightarrow> bool" where
  "interface_allows iface_mask r meth \<longleftrightarrow>
     iface_mask AND NOT (rinterfaces r) = 0 \<and> does_interface_support_method iface_mask meth"

text \<open>The buffer for the answer; with one at hand the source would leave the pointer to the memory for
  the answer uninitialised.\<close>

definition response_buffer_for ::
  "net \<Rightarrow> bytes option \<Rightarrow> nat \<Rightarrow> bytes \<Rightarrow> oc_endpoint \<Rightarrow> u8 \<Rightarrow> addr option \<Rightarrow> (net \<times> addr option) option" where
  "response_buffer_for s ur len query endpoint c response_state =
     (case response_state of
        Some b \<Rightarrow> None
      | None \<Rightarrow> do {
          p \<leftarrow> ur;
          (s, b) \<leftarrow> oc_blockwise_alloc_response_buffer s (take len p) endpoint c OC_BLOCKWISE_SERVER;
          case b of
            None \<Rightarrow> Some (s, None)
          | Some b \<Rightarrow> do {
              x \<leftarrow> responses s b;
              Some (s\<lparr>responses := (responses s)(b \<mapsto> x\<lparr>buri_query := query\<rparr>)\<rparr>, Some b)
            }
        })"

definition prepare_request ::
  "services \<Rightarrow> net \<Rightarrow> bytes \<Rightarrow> coap_packet \<Rightarrow> addr option \<Rightarrow> addr option \<Rightarrow> oc_endpoint \<Rightarrow> (net \<times> prepared) option" where
  "prepare_request sv s rx req request_state response_state endpoint = do {
     let ur = request_path rx req;
     let len = fst (coap_get_header_uri_path req);
     let query = request_query rx req;
     (s, request_state, rep) \<leftarrow> read_payload sv s request_state;
     let bad_request = (case rep of Parsed t \<Rightarrow> False | _ \<Rightarrow> True);
     (cur, is_collection) \<leftarrow> (if bad_request then Some (None, False) else find_resource s ur len (edevice endpoint));
     let p = \<lparr>p_request_state = request_state, p_response_state = response_state, p_rep = rep, p_cur = cur,
       p_is_collection = is_collection, p_iface_mask = query_interface query, p_forbidden = False,
       p_bad_request = bad_request, p_query = query\<rparr>;
     case cur of
       None \<Rightarrow> Some (s, p)
     | Some r \<Rightarrow>
         let iface_mask = chosen_interface query (net.resources s r);
             forbidden = \<not> interface_allows iface_mask (net.resources s r) (method_of_code (code req));
             p = p\<lparr>p_iface_mask := iface_mask, p_forbidden := forbidden\<rparr>
         in if forbidden then Some (s, p\<lparr>p_bad_request := True\<rparr>)
            else do {
              (s, b) \<leftarrow> response_buffer_for s ur len query endpoint (code req) response_state;
              Some (s, p\<lparr>p_response_state := b, p_bad_request := (b = None)\<rparr>)
            }
   }"

text \<open>The handler runs on a valid request and leaves its answer in the response buffer.\<close>

definition no_response :: oc_response where
  "no_response = \<lparr>rs_code = 0, rs_length = 0, rs_buffer = [], rs_separate = NULL_PTR\<rparr>"

definition run_handler ::
  "services \<Rightarrow> net \<Rightarrow> coap_packet \<Rightarrow> prepared \<Rightarrow> oc_endpoint \<Rightarrow> (net \<times> bool \<times> bool \<times> oc_response) option" where
  "run_handler sv s req p endpoint =
     (case p_cur p of
        None \<Rightarrow> Some (s, True, True, no_response)
      | Some r \<Rightarrow>
          if p_bad_request p then Some (s, True, True, no_response)
          else do {
            (s, authorized, method_impl, response_obj) \<leftarrow>
              dispatch sv s (method_of_code (code req)) r (p_is_collection p) (p_iface_mask p)
                \<lparr>rq_resource = r, rq_origin = endpoint, rq_query = p_query p,
                 rq_payload = (case p_rep p of Parsed t \<Rightarrow> t | _ \<Rightarrow> [])\<rparr> no_response;
            b \<leftarrow> p_response_state p;
            x \<leftarrow> responses s b;
            Some (if authorized \<and> method_impl
              then s\<lparr>responses := (responses s)(b \<mapsto> x\<lparr>buffer := rs_buffer response_obj\<rparr>)\<rparr> else s,
              authorized, method_impl, response_obj)
          })"

definition request_failure :: "prepared \<Rightarrow> bool \<Rightarrow> bool \<Rightarrow> oc_status option" where
  "request_failure p method_impl authorized =
     failure (p_forbidden p) (p_rep p) (p_bad_request p) (p_cur p) method_impl authorized"

definition conclude_request ::
  "net \<Rightarrow> bytes \<Rightarrow> coap_packet \<Rightarrow> coap_packet \<Rightarrow> prepared \<Rightarrow> oc_status option \<Rightarrow> oc_response \<Rightarrow> u16 \<Rightarrow> oc_endpoint \<Rightarrow>
   coap_status \<Rightarrow> (net \<times> coap_packet \<times> coap_status) option" where
  "conclude_request s rx req res p fail response_obj b2_size endpoint st = do {
     let response_obj = (case fail of
         Some c \<Rightarrow> response_obj\<lparr>rs_length := 0, rs_code := oc_status_code c\<rparr> | None \<Rightarrow> response_obj);
     let observed = (fail = None \<and> fst (coap_get_header_observe req) = 1);
     (s, res) \<leftarrow> (case p_cur p of
         Some r \<Rightarrow> if observed then observe_request s rx req res r (p_is_collection p) (p_iface_mask p) b2_size endpoint
           else Some (s, res)
       | None \<Rightarrow> Some (s, res));
     answer s rx req res (p_cur p) (p_response_state p) response_obj (if observed then observe req else 2) b2_size endpoint st
   }"

text \<open>The endpoint is the one in the received message, whose version member is set. The result is the
  state, the response packet, the two buffers, the status of the engine and the success.\<close>

definition oc_ri_invoke_coap_entity_handler ::
  "services \<Rightarrow> net \<Rightarrow> bytes \<Rightarrow> coap_packet \<Rightarrow> coap_packet \<Rightarrow> addr option \<Rightarrow> addr option \<Rightarrow> u16 \<Rightarrow> addr \<Rightarrow> coap_status \<Rightarrow>
   (net \<times> coap_packet \<times> addr option \<times> addr option \<times> coap_status \<times> bool) option" where
  "oc_ri_invoke_coap_entity_handler sv s rx req res request_state response_state b2_size d st = do {
     m \<leftarrow> msgs s d;
     let endpoint = request_endpoint req (mendpoint m);
     (s, p) \<leftarrow> prepare_request sv (set_msg s d (m\<lparr>mendpoint := endpoint\<rparr>)) rx req request_state response_state endpoint;
     (s, authorized, method_impl, response_obj) \<leftarrow> run_handler sv s req p endpoint;
     let fail = request_failure p method_impl authorized;
     (s, res, st) \<leftarrow> conclude_request s rx req res p fail response_obj b2_size endpoint st;
     Some (s, res, p_request_state p, p_response_state p, st, fail = None)
   }"

section \<open>Who reaches a handler\<close>

text \<open>The members of the state that a decision about a request depends on.\<close>

definition same_tree :: "net \<Rightarrow> net \<Rightarrow> bool" where
  "same_tree s s' \<longleftrightarrow> net.resources s' = net.resources s \<and> app_resources s' = app_resources s \<and>
     collections s' = collections s \<and> col_links s' = col_links s \<and> security s' = security s"

lemma same_tree_refl [simp]: "same_tree s s"
  by (simp add: same_tree_def)

lemma same_tree_trans: "same_tree s s' \<Longrightarrow> same_tree s' s'' \<Longrightarrow> same_tree s s''"
  by (simp add: same_tree_def)

lemma in_context_tree: "in_context p f s = Some s' \<Longrightarrow> same_tree s s'"
  by (auto simp: in_context_def same_tree_def bind_eq_Some_conv Let_def)

lemma remove_timed_tree: "oc_ri_remove_timed_event_callback s a f = Some s' \<Longrightarrow> same_tree s s'"
  by (auto simp: oc_ri_remove_timed_event_callback_def bind_eq_Some_conv same_tree_def Let_def
      dest!: in_context_tree split: option.splits)

lemma add_timed_tree: "oc_ri_add_timed_event_callback_ticks s a f n = Some s' \<Longrightarrow> same_tree s s'"
  unfolding oc_ri_add_timed_event_callback_ticks_def Let_def
  by (force simp: bind_eq_Some_conv same_tree_def dest: in_context_tree split: option.split_asm prod.split_asm)

lemma set_bw_tree: "same_tree s (set_bw b s h l)"
  by (cases b) (simp_all add: same_tree_def)

lemma free_request_tree:
  assumes "oc_blockwise_free_request_buffer s b = Some s'"
  shows "same_tree s s'"
proof -
  from assms obtain s1 where s1: "oc_ri_remove_timed_event_callback s b (bw_timeout Request) = Some s1"
    "oc_blockwise_free_buffer Request s1 b = Some s'"
    by (auto simp: oc_blockwise_free_request_buffer_def oc_blockwise_free_bw_def oc_blockwise_timeout_def bind_eq_Some_conv)
  then have "s' = s1 \<or> (\<exists>h l. s' = set_bw Request s1 h l)"
    by (auto simp: oc_blockwise_free_buffer_def bind_eq_Some_conv split: if_splits)
  then show ?thesis using remove_timed_tree [OF s1(1)] set_bw_tree same_tree_trans by blast
qed

lemma read_payload_tree: "read_payload sv s rs = Some (s', r) \<Longrightarrow> same_tree s s'"
  by (auto simp: read_payload_def bind_eq_Some_conv dest!: free_request_tree split: option.splits if_splits)

lemma same_tree_lookup:
  assumes "same_tree s s'"
  shows "find_resource s' ur len device = find_resource s ur len device"
proof -
  have "find_core_resource s' q len device js = find_core_resource s q len device js" for q js
    using assms by (induction js) (simp_all add: same_tree_def cong: if_cong)
  moreover have "find_collection s' q n device cs = find_collection s q n device cs" for q n cs
    using assms by (induction cs) (simp_all add: same_tree_def Let_def)
  ultimately show ?thesis
    using assms by (simp add: find_resource_def oc_ri_get_app_resource_by_uri_def oc_get_collection_by_uri_def
        oc_check_if_collection_def same_tree_def cong: option.case_cong if_cong)
qed

end
