(* ===== verification/Net_Request_Inv.thy ===== *)
theory Net_Request_Inv
  imports Net_Request
begin

text \<open>
  What handling a request guarantees: the messaging layer stays consistent under
  \<open>oc_ri_invoke_coap_entity_handler\<close> whatever the request, and an application handler is reached only
  by requests that the access control list grants.
\<close>

section \<open>Steps that keep the messaging layer consistent\<close>

lemma net_inv_parts:
  assumes "net_inv s ext"
  obtains ts where "bw_inv s" "callbacks_ok s" "net_timers s ts" "cb_inv s" "obs_inv s"
  using assms by (auto simp: net_inv_def state_inv_def)

lemma net_inv_security: "net_inv (s\<lparr>security := x\<rparr>) ext = net_inv s ext"
proof -
  let ?s = "s\<lparr>security := x\<rparr>"
  have h: "bw_heap b ?s = bw_heap b s" "bw_list b ?s = bw_list b s" "pending ?s = pending s" for b
    by (cases b; simp add: pending_def)+
  have r: "refs_ok ?s e = refs_ok s e" for e by (rule refs_ok_cong) simp_all
  have t: "tls_held ?s = tls_held s" by (simp add: tls_held_def)
  have o: "obs_inv ?s = obs_inv s" by (simp add: obs_inv_def obs_count_def)
  show ?thesis
    by (simp add: net_inv_def state_inv_def all_refs_def [abs_def] r t o net_timers_def bw_inv_def cb_inv_def callbacks_ok_def h)
qed

text \<open>What every step of a request keeps: transactions, room in the event queue, the stored separate
  requests.\<close>

definition net_keeps :: "net \<Rightarrow> net \<Rightarrow> bool" where
  "net_keeps s s' \<longleftrightarrow> (\<forall>t x. trans s t = Some x \<longrightarrow> trans s' t = Some x) \<and> (ring_full s' \<longrightarrow> ring_full s) \<and> (sep_inv s \<longrightarrow> sep_inv s')"

lemma net_keeps_refl [simp]: "net_keeps s s"
  by (simp add: net_keeps_def)

lemma net_keeps_trans: "net_keeps s s' \<Longrightarrow> net_keeps s' s'' \<Longrightarrow> net_keeps s s''"
  by (simp add: net_keeps_def)

lemma keepsI:
  "trans s' = trans s \<Longrightarrow> evring s' = evring s \<Longrightarrow> separates s' = separates s \<Longrightarrow> sep_requests s' = sep_requests s \<Longrightarrow>
   sep_active s' = sep_active s \<Longrightarrow> net_keeps s s'"
  by (simp add: net_keeps_def ring_full_def sep_inv_def)

lemma bw_frame_sep:
  assumes "bw_frame s s'"
  shows "separates s' = separates s" "sep_requests s' = sep_requests s" "sep_active s' = sep_active s" "evring s' = evring s"
    "same_tree s s'"
proof -
  obtain a b c d e f g h where "s' = s\<lparr>et := a, event_cbs := b, timed_callbacks := c, requests := d,
      oc_blockwise_requests := e, responses := f, oc_blockwise_responses := g, drawn := h\<rparr>"
    using assms unfolding bw_frame_def by blast
  then show "separates s' = separates s" "sep_requests s' = sep_requests s" "sep_active s' = sep_active s" "same_tree s s'"
    by (simp_all add: same_tree_def)
  show "evring s' = evring s" using assms by (simp add: bw_frame_def cb_sched_def same_sched_def)
qed

lemma bw_frame_keeps: "bw_frame s s' \<Longrightarrow> net_keeps s s'"
  using bw_frame_sep bw_frame_fields by (intro keepsI) auto

lemma bw_frame_net:
  assumes "net_inv s ext" and "bw_frame s s'" and "bw_inv s'" "callbacks_ok s'" "net_timers s' ts" "cb_inv s'"
  shows "net_inv s' ext"
  using net_inv_cl_frame [OF assms(1) bw_frame_cl [OF assms(2)] assms(3-6)] .

lemma cb_inv_heaps:
  assumes "cb_inv s" and "bw_frame s s'"
    and "\<And>b a x. bw_heap b s' a = Some x \<Longrightarrow> bclient_cb x = NULL_PTR \<or> (\<exists>y. bw_heap b s a = Some y \<and> bclient_cb y = bclient_cb x)"
  shows "cb_inv s'"
proof -
  note f = bw_frame_fields(1,2) [OF assms(2)]
  have "bclient_cb x = NULL_PTR \<or> ccbs s (bclient_cb x) \<noteq> None" if "bw_heap b s' a = Some x" for b a x
    using assms(3) [OF that] assms(1) unfolding cb_inv_def by metis
  then show ?thesis using assms(1) f by (simp add: cb_inv_def)
qed

text \<open>Updating a block-wise buffer.\<close>

definition upd_bw :: "bw \<Rightarrow> net \<Rightarrow> addr \<Rightarrow> oc_blockwise_state \<Rightarrow> net" where
  "upd_bw b s a x = set_bw b s ((bw_heap b s)(a \<mapsto> x)) (bw_list b s)"

lemma upd_bw_simps:
  "s\<lparr>responses := (responses s)(a \<mapsto> x)\<rparr> = upd_bw Response s a x" "s\<lparr>requests := (requests s)(a \<mapsto> x)\<rparr> = upd_bw Request s a x"
  by (simp_all add: upd_bw_def)

lemma upd_bw_heap: "bw_heap c (upd_bw b s a x) = (if c = b then (bw_heap b s)(a \<mapsto> x) else bw_heap c s)"
  by (simp add: upd_bw_def)

lemma upd_bw_net:
  assumes inv: "net_inv s ext" and y: "bw_heap b s a = Some y" and x: "buffer_ok x" "bclient_cb x = bclient_cb y"
  shows "net_inv (upd_bw b s a x) ext" and "net_keeps s (upd_bw b s a x)"
proof -
  let ?s = "upd_bw b s a x"
  obtain ts where st: "bw_inv s" "callbacks_ok s" "net_timers s ts" "cb_inv s" by (rule net_inv_parts [OF inv])
  have f: "bw_frame s ?s" by (simp add: upd_bw_def)
  have reg: "registry (bw_pool c) (bw_heap c ?s) (bw_list c ?s)" for c
    using st(1) y by (auto simp: upd_bw_def bw_inv_def registry_def)
  have "bw_inv ?s" using st(1) y x(1) reg by (auto simp: bw_inv_def upd_bw_def split: if_splits)
  moreover have "cb_inv ?s" using y x(2) by (intro cb_inv_heaps [OF st(4) f]) (auto simp: upd_bw_def split: if_splits)
  ultimately show "net_inv ?s ext"
    using bw_frame_net [OF inv f, of ts] st(2,3) by (simp add: upd_bw_def)
  show "net_keeps s ?s" by (rule bw_frame_keeps [OF f])
qed

lemma alloc_net:
  assumes inv: "net_inv s ext"
  shows "\<exists>s' r. bw_alloc b s hr endpoint meth role = Some (s', r) \<and> net_inv s' ext \<and> net_keeps s s' \<and> same_tree s s' \<and> msgs s' = msgs s \<and>
     (\<forall>c. c \<noteq> b \<longrightarrow> bw_heap c s' = bw_heap c s) \<and> (\<forall>a x. bw_heap b s a = Some x \<longrightarrow> bw_heap b s' a = Some x) \<and>
     (\<forall>a. r = Some a \<longrightarrow> bw_heap b s a = None \<and> (\<exists>x. bw_heap b s' a = Some x \<and> new_buffer x hr endpoint meth role))"
proof -
  obtain ts where st: "bw_inv s" "callbacks_ok s" "net_timers s ts" "cb_inv s" by (rule net_inv_parts [OF inv])
  obtain s' r ts' where s': "bw_alloc b s hr endpoint meth role = Some (s', r)" "bw_inv s'" "callbacks_ok s'" "net_timers s' ts'"
    "bw_frame s s'" and r: "case r of None \<Rightarrow> s' = s \<and> (hr = [] \<or> obj_room (bw_pool b) (bw_heap b s) = 0)
      | Some a \<Rightarrow> bw_heap b s a = None \<and> bw_list b s' = bw_list b s @ [a] \<and>
          (\<exists>x. new_buffer x hr endpoint meth role \<and> bw_heap b s' = (bw_heap b s)(a \<mapsto> x)) \<and>
          (\<forall>c. c \<noteq> b \<longrightarrow> bw_heap c s' = bw_heap c s \<and> bw_list c s' = bw_list c s)"
    using bw_alloc_ok [OF st(1-3), of b hr endpoint meth role] by (elim exE conjE) (rule that; assumption)
  have "cb_inv s'"
  proof (rule cb_inv_heaps [OF st(4) s'(5)])
    fix c a x assume h: "bw_heap c s' a = Some x"
    show "bclient_cb x = NULL_PTR \<or> (\<exists>y. bw_heap c s a = Some y \<and> bclient_cb y = bclient_cb x)"
      using h r by (cases "c = b"; cases r) (auto simp: new_buffer_def split: if_splits)
  qed
  then have "net_inv s' ext" by (rule bw_frame_net [OF inv s'(5,2,3,4)])
  moreover have "same_tree s s'" by (rule bw_frame_sep(5) [OF s'(5)])
  ultimately show ?thesis using s'(1) bw_frame_keeps [OF s'(5)] bw_frame_fields(3) [OF s'(5)] r
    by (intro exI [of _ s'] exI [of _ r]) (auto split: option.splits)
qed


lemma free_net:
  assumes inv: "net_inv s ext" and a: "bw_heap b s a \<noteq> None"
  shows "\<exists>s'. oc_blockwise_free_bw b s a = Some s' \<and> net_inv s' ext \<and> net_keeps s s' \<and> same_tree s s' \<and>
     bw_heap b s' = (bw_heap b s)(a := None) \<and> (\<forall>c. c \<noteq> b \<longrightarrow> bw_heap c s' = bw_heap c s)"
proof -
  obtain ts where st: "bw_inv s" "callbacks_ok s" "net_timers s ts" "cb_inv s" by (rule net_inv_parts [OF inv])
  obtain s' ts' where s': "oc_blockwise_free_bw b s a = Some s'" "bw_inv s'" "callbacks_ok s'" "net_timers s' ts'" "bw_frame s s'"
    "bw_heap b s' = (bw_heap b s)(a := None)" "\<forall>c. c \<noteq> b \<longrightarrow> bw_heap c s' = bw_heap c s \<and> bw_list c s' = bw_list c s"
    using free_bw_ok [OF st(1-3) a] by (elim exE conjE) (rule that; assumption)
  have "cb_inv s'"
  proof (rule cb_inv_heaps [OF st(4) s'(5)])
    fix c d x assume h: "bw_heap c s' d = Some x"
    show "bclient_cb x = NULL_PTR \<or> (\<exists>y. bw_heap c s d = Some y \<and> bclient_cb y = bclient_cb x)"
      using h s'(6,7) by (cases "c = b") (auto split: if_splits)
  qed
  then have "net_inv s' ext" by (rule bw_frame_net [OF inv s'(5,2,3,4)])
  with s' bw_frame_keeps [OF s'(5)] bw_frame_sep(5) [OF s'(5)] show ?thesis by blast
qed

lemma add_timed_net:
  assumes inv: "net_inv s ext" and f: "\<And>b. f \<noteq> bw_timeout b"
  shows "\<exists>s'. oc_ri_add_timed_event_callback_ticks s d f n = Some s' \<and> net_inv s' ext \<and> net_keeps s s' \<and> same_tree s s' \<and>
     (\<forall>b. bw_heap b s' = bw_heap b s)"
proof -
  obtain ts where st: "bw_inv s" "callbacks_ok s" "net_timers s ts" "cb_inv s" by (rule net_inv_parts [OF inv])
  obtain s' ts' where s': "oc_ri_add_timed_event_callback_ticks s d f n = Some s'" "callbacks_ok s'" "net_timers s' ts'" "timed_frame s s'"
    "pending s' = pending s @ (if obj_room event_callbacks_s (event_cbs s) = 0 then [] else [(d, f)])"
    using add_timed_ok [OF st(2,3), of d f n] by blast
  note fr = timed_frame_bw [OF s'(4)]
  have h: "bw_heap b s' = bw_heap b s" "bw_list b s' = bw_list b s" for b using timed_frame_bw_heap [OF s'(4)] by simp_all
  have t: "\<not> is_timeout (d, f)" "(e, bw_timeout b) \<noteq> (d, f)" for e b using f by (auto simp: is_timeout_def)
  have "(e, bw_timeout b) \<in> set (pending s)" if "(e, bw_timeout b) \<in> set (pending s')" for e b
    using that s'(5) t(2) [of e b] by (auto split: if_splits)
  moreover have "filter is_timeout (pending s') = filter is_timeout (pending s)" using s'(5) t(1) by auto
  ultimately have "bw_inv s'" using st(1) by (simp add: bw_inv_def h)
  moreover have "cb_inv s'" by (rule cb_inv_heaps [OF st(4) fr]) (auto simp: h)
  ultimately have "net_inv s' ext" using bw_frame_net [OF inv fr] s'(2,3) by blast
  with s' h bw_frame_keeps [OF fr] bw_frame_sep(5) [OF fr] show ?thesis by blast
qed

section \<open>Periodic callbacks\<close>

definition per_frame :: "net \<Rightarrow> net \<Rightarrow> bool" where
  "per_frame s s' \<longleftrightarrow> (\<exists>e h l. s' = s\<lparr>et := e, event_cbs := h, observe_callbacks := l\<rparr> \<and> ring (sch e) = evring s)"

lemma per_frame_same: "per_frame s s"
  unfolding per_frame_def by (intro exI [of _ "et s"] exI [of _ "event_cbs s"] exI [of _ "observe_callbacks s"]) simp

lemma per_frame_trans: "per_frame s s' \<Longrightarrow> per_frame s' s'' \<Longrightarrow> per_frame s s''"
  unfolding per_frame_def by force

lemma per_frame_keeps:
  assumes "per_frame s s'"
  shows "net_keeps s s'" "same_tree s s'" "bw_heap b s' = bw_heap b s" "bw_list b s' = bw_list b s"
  using assms by (auto simp: per_frame_def same_tree_def intro!: keepsI; cases b; auto)+

lemma per_frame_net:
  assumes inv: "net_inv s ext" and f: "per_frame s s'" and cb: "callbacks_ok s'" "net_timers s' ts" "pending s' = pending s"
  shows "net_inv s' ext"
proof -
  obtain e h l where s': "s' = s\<lparr>et := e, event_cbs := h, observe_callbacks := l\<rparr>" "ring (sch e) = evring s"
    using f by (auto simp: per_frame_def)
  note hp = per_frame_keeps(3,4) [OF f]
  have r: "refs_ok s' x = refs_ok s x" for x by (rule refs_ok_cong) (simp_all add: s')
  have t: "tls_held s' = tls_held s" by (simp add: s' tls_held_def)
  have o: "obs_inv s' = obs_inv s" by (simp add: s' obs_inv_def obs_count_def)
  have b: "bw_inv s' = bw_inv s" by (simp add: bw_inv_def hp cb(3))
  have c: "cb_inv s' = cb_inv s" unfolding cb_inv_def hp by (simp add: s')
  show ?thesis using inv cb(1,2)
    by (simp add: net_inv_def state_inv_def all_refs_def [abs_def] r t o b c) (auto simp: s')
qed

lemma find_callback:
  assumes "callbacks_ok s"
  shows "\<exists>f. get_periodic_observe_callback s r = Some f \<and> (\<forall>a. f = Some a \<longrightarrow> a \<in> set (observe_callbacks s) \<and> event_cbs s a \<noteq> None)"
proof -
  have "\<forall>a \<in> set (observe_callbacks s). event_cbs s a \<noteq> None" using assms by (auto simp: callbacks_ok_def registry_def)
  then show ?thesis unfolding get_periodic_observe_callback_def by (auto simp: find_on_live dest: find_SomeD)
qed

lemma add_periodic_net:
  assumes inv: "net_inv s ext"
  shows "\<exists>s' ok. add_periodic_observe_callback s r = Some (s', ok) \<and> net_inv s' ext \<and> per_frame s s'"
proof -
  obtain ts where st: "callbacks_ok s" "net_timers s ts" by (rule net_inv_parts [OF inv])
  obtain f where f: "get_periodic_observe_callback s r = Some f" using find_callback [OF st(1)] by blast
  show ?thesis
  proof (cases f)
    case (Some a)
    then show ?thesis using f inv per_frame_same by (intro exI [of _ s] exI [of _ True]) (simp add: add_periodic_observe_callback_def)
  next
    case None
    show ?thesis
    proof (rule alloc_obj_cases [of event_callbacks_s "event_cbs s" zero_callback], goal_cases)
      case 1
      then show ?thesis using f None inv per_frame_same
        by (intro exI [of _ s] exI [of _ False]) (simp add: add_periodic_observe_callback_def)
    next
      case (2 a)
      let ?c = "\<lparr>callback = Periodic_observe_handler, cb_data = r\<rparr>"
      let ?iv = "ucast (observe_period_seconds (net.resources s r)) * OC_CLOCK_SECOND"
      let ?s = "s\<lparr>event_cbs := (event_cbs s)(a \<mapsto> ?c), et := zero_timer (et s) a\<rparr>"
      have a: "a \<notin> set ts" "a \<noteq> NULL_PTR" "a \<notin> set transactions_memb" "a \<notin> set (timed_callbacks s)"
        using st 2(2,3) event_callbacks_nonnull by (auto simp: net_timers_def callbacks_ok_def registry_def)
      have e0: "etimers_ok (et s) ts" using st(2) by (simp add: net_timers_def)
      have e1: "etimers_ok (et ?s) ts" using zero_timer_ok(1) [OF e0 a(1)] by simp
      obtain e' where e': "in_context timed_callback_events (\<lambda>e. oc_etimer_set (clk s) e a ?iv) ?s = Some (?s\<lparr>et := e'\<rparr>)"
        "etimers_ok e' (a # ts)" "same_sched (et ?s) e'"
        using in_context_set [OF e1 a(2), of timed_callback_events "clk s" ?iv] a(1) by auto
      let ?s' = "?s\<lparr>et := e', observe_callbacks := observe_callbacks s @ [a]\<rparr>"
      have run: "add_periodic_observe_callback s r = Some (?s', True)"
        using f None 2(1) e'(1) by (simp add: add_periodic_observe_callback_def Let_def)
      have fr: "per_frame s ?s'" unfolding per_frame_def
        using e'(3) zero_timer_ok(4) [OF e0 a(1)]
        by (intro exI [of _ e'] exI [of _ "(event_cbs s)(a \<mapsto> ?c)"] exI [of _ "observe_callbacks s @ [a]"])
          (simp add: same_sched_def)
      have "callbacks_ok ?s'"
        using st(1) registry_add [of event_callbacks_s "event_cbs s" "timed_callbacks s @ observe_callbacks s" a ?c] 2(2,3)
        by (simp add: callbacks_ok_def)
      moreover have "net_timers ?s' (a # ts)" using st(2) e'(2) a(3) by (auto simp: net_timers_def)
      moreover have "pending ?s' = pending s" using a(4) by (auto simp: pending_def)
      ultimately show ?thesis using per_frame_net [OF inv fr] run fr by blast
    qed
  qed
qed

lemma remove_periodic_net:
  assumes inv: "net_inv s ext"
  shows "\<exists>s'. remove_periodic_observe_callback s r = Some s' \<and> net_inv s' ext \<and> per_frame s s'"
proof -
  obtain ts where st: "callbacks_ok s" "net_timers s ts" by (rule net_inv_parts [OF inv])
  obtain f where f: "get_periodic_observe_callback s r = Some f"
    "\<forall>a. f = Some a \<longrightarrow> a \<in> set (observe_callbacks s) \<and> event_cbs s a \<noteq> None" using find_callback [OF st(1)] by blast
  show ?thesis
  proof (cases f)
    case None
    then show ?thesis using f(1) inv per_frame_same by (intro exI [of _ s]) (simp add: remove_periodic_observe_callback_def)
  next
    case (Some a)
    have reg: "registry event_callbacks_s (event_cbs s) (timed_callbacks s @ observe_callbacks s)" using st(1) by (simp add: callbacks_ok_def)
    have a: "a \<in> set (observe_callbacks s)" "a \<in> set event_callbacks_s" "a \<notin> set (timed_callbacks s)"
      using f(2) Some reg by (auto simp: registry_def)
    have nn: "a \<noteq> NULL_PTR" "a \<notin> set transactions_memb" using a(2) event_callbacks_nonnull by blast+
    obtain e where e: "oc_etimer_stop (clk s) (et s) a = Some e" "net_timers (s\<lparr>et := e\<rparr>) (remove1 a ts)" "sch e = sch (et s)"
      using net_timers_stop [OF st(2) nn(1), of "clk s"] by blast
    let ?s = "s\<lparr>et := e, observe_callbacks := remove1 a (observe_callbacks s), event_cbs := (event_cbs s)(a := None)\<rparr>"
    have run: "remove_periodic_observe_callback s r = Some ?s"
      using f(1) Some e(1) a(2) by (simp add: remove_periodic_observe_callback_def free_obj_def)
    have fr: "per_frame s ?s" unfolding per_frame_def
      using e(3) by (intro exI [of _ e] exI [of _ "(event_cbs s)(a := None)"] exI [of _ "remove1 a (observe_callbacks s)"]) simp
    have "callbacks_ok ?s"
      using registry_remove [OF reg, of a] a by (simp add: callbacks_ok_def remove1_append free_obj_def)
    moreover have "distinct ts" using st(2) path_distinct by (auto simp: net_timers_def etimers_ok_def timers_def)
    then have "net_timers ?s (remove1 a ts)" using e(2) by (auto simp: net_timers_def)
    moreover have "pending ?s = pending s" using a(3) by (auto simp: pending_def)
    ultimately show ?thesis using per_frame_net [OF inv fr] run fr by blast
  qed
qed


lemma add_links_net:
  "net_inv s ext \<Longrightarrow> \<exists>s' ok. add_link_callbacks s rs = Some (s', ok) \<and> net_inv s' ext \<and> per_frame s s'"
proof (induction rs arbitrary: s)
  case Nil
  then show ?case using per_frame_same by auto
next
  case (Cons r rs)
  obtain s1 ok where s1: "add_periodic_observe_callback s r = Some (s1, ok)" "net_inv s1 ext" "per_frame s s1"
    using add_periodic_net [OF Cons.prems] by blast
  obtain s2 ok2 where s2: "add_link_callbacks s1 rs = Some (s2, ok2)" "net_inv s2 ext" "per_frame s1 s2" using Cons.IH [OF s1(2)] by blast
  obtain s3 ok3 where s3: "add_link_callbacks s rs = Some (s3, ok3)" "net_inv s3 ext" "per_frame s s3" using Cons.IH [OF Cons.prems] by blast
  show ?case using s1 s2 s3 per_frame_trans [OF s1(3) s2(3)] by (cases ok) auto
qed

lemma remove_links_net:
  "net_inv s ext \<Longrightarrow> \<exists>s'. remove_link_callbacks s rs = Some s' \<and> net_inv s' ext \<and> per_frame s s'"
proof (induction rs arbitrary: s)
  case Nil
  then show ?case using per_frame_same by auto
next
  case (Cons r rs)
  obtain s1 where s1: "remove_periodic_observe_callback s r = Some s1" "net_inv s1 ext" "per_frame s s1"
    using remove_periodic_net [OF Cons.prems] by blast
  obtain s2 where s2: "remove_link_callbacks s1 rs = Some s2" "net_inv s2 ext" "per_frame s1 s2" using Cons.IH [OF s1(2)] by blast
  obtain s3 where s3: "remove_link_callbacks s rs = Some s3" "net_inv s3 ext" "per_frame s s3" using Cons.IH [OF Cons.prems] by blast
  show ?case using s1 s2 s3 per_frame_trans [OF s1(3) s2(3)] by auto
qed

section \<open>Observing a resource\<close>

text \<open>What the observe option leaves of the buffers: they are the same but for their reference flags.\<close>

definition same_bufs :: "net \<Rightarrow> net \<Rightarrow> bool" where
  "same_bufs s s' \<longleftrightarrow> (\<forall>b. same_but_ref (bw_heap b s') (bw_heap b s))"

lemma same_bufs_refl [simp]: "same_bufs s s"
  by (simp add: same_bufs_def)

lemma same_bufs_trans: "same_bufs s s' \<Longrightarrow> same_bufs s' s'' \<Longrightarrow> same_bufs s s''"
  by (simp add: same_bufs_def same_but_ref_def)

lemma same_bufs_heap: "(\<And>b. bw_heap b s' = bw_heap b s) \<Longrightarrow> same_bufs s s'"
  by (simp add: same_bufs_def)

lemma obs_frame_keeps:
  assumes "obs_frame s s'"
  shows "net_keeps s s'" "same_bufs s s'"
proof -
  obtain a b c d where s': "s' = s\<lparr>net.resources := a, observers := b, observers_list := c, responses := d\<rparr>"
    using assms unfolding obs_frame_def by blast
  then show "net_keeps s s'" by (intro keepsI) simp_all
  have "same_but_ref (bw_heap b s') (bw_heap b s)" for b using assms s' by (cases b) (simp_all add: obs_frame_def)
  then show "same_bufs s s'" by (simp add: same_bufs_def)
qed

lemma observe_handler_net:
  assumes inv: "net_inv s ext" and tok: "unat (token_len req) \<le> COAP_TOKEN_LEN" "length (token req) = COAP_TOKEN_LEN"
  shows "\<exists>s' n. coap_observe_handler s rx req res r b2 endpoint = Some (s', n) \<and> net_inv s' ext \<and> net_keeps s s' \<and> same_bufs s s'"
proof -
  obtain ts where st: "bw_inv s" "obs_inv s" by (rule net_inv_parts [OF inv])
  let ?u = "str_bytes rx (uri_path req) (uri_path_len req)"
  obtain s1 n1 where s1: "add_observer s r b2 endpoint (token req) (unat (token_len req)) ?u = Some (s1, n1)" "obs_inv s1" "obs_frame s s1"
    using add_observer_ok [OF st(2), of "unat (token_len req)" "token req" r b2 endpoint ?u] tok by auto
  obtain s2 n2 where s2: "coap_remove_observer_by_token s endpoint (token req) (unat (token_len req)) = Some (s2, n2)" "obs_inv s2" "obs_frame s s2"
    using remove_first_ok [OF st] unfolding coap_remove_observer_by_token_def by blast
  show ?thesis
    using s1 s2 net_inv_obs_frame [OF inv s1(3,2)] net_inv_obs_frame [OF inv s2(3,2)] obs_frame_keeps [OF s1(3)] obs_frame_keeps [OF s2(3)] inv
    by (simp add: coap_observe_handler_def)
qed

lemma remove_token_net:
  assumes inv: "net_inv s ext"
  shows "\<exists>s' n. coap_remove_observer_by_token s endpoint tok len = Some (s', n) \<and> net_inv s' ext \<and> net_keeps s s' \<and> same_bufs s s'"
proof -
  obtain ts where st: "bw_inv s" "obs_inv s" by (rule net_inv_parts [OF inv])
  obtain s2 n2 where s2: "coap_remove_observer_by_token s endpoint tok len = Some (s2, n2)" "obs_inv s2" "obs_frame s s2"
    using remove_first_ok [OF st] unfolding coap_remove_observer_by_token_def by blast
  then show ?thesis using net_inv_obs_frame [OF inv s2(3,2)] obs_frame_keeps [OF s2(3)] by blast
qed

lemma per_frame_obs: "per_frame s s' \<Longrightarrow> net_keeps s s' \<and> same_bufs s s'"
  using per_frame_keeps(1,3) by (blast intro: same_bufs_heap)

text \<open>A step that returns, keeps the layer consistent and leaves the buffers.\<close>

definition goes :: "(addr \<Rightarrow> nat) \<Rightarrow> net \<Rightarrow> net \<Rightarrow> bool" where
  "goes ext s s' \<longleftrightarrow> net_inv s' ext \<and> net_keeps s s' \<and> same_bufs s s'"

lemma goes_refl: "net_inv s ext \<Longrightarrow> goes ext s s"
  by (simp add: goes_def)

lemma goes_trans: "goes ext s s' \<Longrightarrow> goes ext s' s'' \<Longrightarrow> goes ext s s''"
  using net_keeps_trans same_bufs_trans by (auto simp: goes_def)

lemma goes_inv: "goes ext s s' \<Longrightarrow> net_inv s' ext"
  by (simp add: goes_def)

lemma per_frame_goes: "net_inv s' ext \<Longrightarrow> per_frame s s' \<Longrightarrow> goes ext s s'"
  using per_frame_obs by (simp add: goes_def)

lemma observe_request_net:
  assumes inv: "net_inv s ext" and tok: "unat (token_len req) \<le> COAP_TOKEN_LEN" "length (token req) = COAP_TOKEN_LEN"
  shows "\<exists>s' res'. observe_request s rx req res r c i b2 endpoint = Some (s', res') \<and> goes ext s s' \<and>
     (res' = res \<or> res' = fst (coap_set_header_observe res 0))"
proof -
  obtain s1 n where s1: "coap_observe_handler s rx req res r b2 endpoint = Some (s1, n)" "goes ext s s1"
    using observe_handler_net [OF inv tok] unfolding goes_def by blast
  have add: "\<exists>s2 ok. (if n \<ge> 0 \<and> properties (net.resources s1 r) AND OC_PERIODIC \<noteq> 0
      then add_periodic_observe_callback s1 r else Some (s1, True)) = Some (s2, ok) \<and> goes ext s1 s2"
    using add_periodic_net [OF goes_inv [OF s1(2)], of r] goes_refl [OF goes_inv [OF s1(2)]] per_frame_goes by fastforce
  have links: "\<exists>s3 ok'. (if c then if i \<noteq> OC_IF_B then Some (s2, False)
      else do { (s, added) \<leftarrow> add_link_callbacks s2 (col_links s2 r); Some (s, ok \<and> added) } else Some (s2, ok)) = Some (s3, ok') \<and> goes ext s2 s3"
    if "net_inv s2 ext" for s2 ok
    using add_links_net [OF that, of "col_links s2 r"] goes_refl [OF that] per_frame_goes by fastforce
  obtain s2 ok where s2: "(if n \<ge> 0 \<and> properties (net.resources s1 r) AND OC_PERIODIC \<noteq> 0
      then add_periodic_observe_callback s1 r else Some (s1, True)) = Some (s2, ok)" "goes ext s1 s2" using add by blast
  obtain s3 ok' where s3: "(if c then if i \<noteq> OC_IF_B then Some (s2, False)
      else do { (s, added) \<leftarrow> add_link_callbacks s2 (col_links s2 r); Some (s, ok \<and> added) } else Some (s2, ok)) = Some (s3, ok')" "goes ext s2 s3"
    using links [OF goes_inv [OF s2(2)], of ok] by blast
  obtain s4 k where s4: "coap_remove_observer_by_token s3 endpoint (token req) (unat (token_len req)) = Some (s4, k)" "goes ext s3 s4"
    using remove_token_net [OF goes_inv [OF s3(2)]] unfolding goes_def by blast
  obtain s5 where s5: "remove_periodic_observe_callback s1 r = Some s5" "goes ext s1 s5"
    using remove_periodic_net [OF goes_inv [OF s1(2)]] per_frame_goes by blast
  define s6 where "s6 = (if properties (net.resources s1 r) AND OC_PERIODIC \<noteq> 0 then s5 else s1)"
  have s6: "goes ext s1 s6" using s5(2) goes_refl [OF goes_inv [OF s1(2)]] by (simp add: s6_def)
  obtain s7 where s7: "remove_link_callbacks s6 (col_links s6 r) = Some s7" "goes ext s6 s7"
    using remove_links_net [OF goes_inv [OF s6]] per_frame_goes by blast
  note g3 = goes_trans [OF goes_trans [OF s1(2) s2(2)] s3(2)]
  note g6 = goes_trans [OF s1(2) s6] 
  have off: "observe_request s rx req res r c i b2 endpoint = Some (if n > 0 then if c then s7 else s6 else s1, res)"
    if "properties (net.resources s r) AND OC_OBSERVABLE \<noteq> 0" "observe req = 1"
    using that s1(1) s5(1) s7(1) by (auto simp: observe_request_def s6_def)
  have on: "observe_request s rx req res r c i b2 endpoint =
      (if ok' then Some (s3, fst (coap_set_header_observe res 0)) else Some (s4, res))"
    if "properties (net.resources s r) AND OC_OBSERVABLE \<noteq> 0" "observe req = 0"
    using that s1(1) s2(1) s3(1) s4(1) by (simp add: observe_request_def)
  consider "properties (net.resources s r) AND OC_OBSERVABLE = 0 \<or> observe req \<noteq> 0 \<and> observe req \<noteq> 1"
    | "properties (net.resources s r) AND OC_OBSERVABLE \<noteq> 0" "observe req = 0"
    | "properties (net.resources s r) AND OC_OBSERVABLE \<noteq> 0" "observe req = 1" by blast
  then show ?thesis
  proof cases
    case 1
    then show ?thesis using goes_refl [OF inv] by (intro exI [of _ s] exI [of _ res]) (auto simp: observe_request_def)
  next
    case 2
    then show ?thesis using on g3 goes_trans [OF g3 s4(2)] by (cases ok') auto
  next
    case 3
    then show ?thesis using off g6 goes_trans [OF g6 s7(2)] s1(2) by auto
  qed
qed


section \<open>Services\<close>

text \<open>What a handler promises: it returns, keeps the messaging layer consistent, leaves the
  transactions and buffers of the request alone, and answers with a full buffer.\<close>

definition handler_ok :: "(net \<Rightarrow> oc_request \<Rightarrow> u32 \<Rightarrow> (net \<times> oc_response) option) \<Rightarrow> bool" where
  "handler_ok f \<longleftrightarrow> (\<forall>s ext rq i. net_inv s ext \<and> sep_inv s \<longrightarrow>
     (\<exists>s' r. f s rq i = Some (s', r) \<and> goes ext s s' \<and> length (rs_buffer r) = OC_MAX_APP_DATA_SIZE \<and>
       unat (rs_length r) \<le> OC_MAX_APP_DATA_SIZE))"

definition services_ok :: "services \<Rightarrow> bool" where
  "services_ok sv \<longleftrightarrow> (\<forall>h. handler_ok (invoke sv h)) \<and> (\<forall>m. handler_ok (oc_handle_collection_request sv m))"

lemma handler_okD:
  assumes "handler_ok f" and "net_inv s ext" and "sep_inv s"
  obtains s' r where "f s rq i = Some (s', r)" "goes ext s s'" "length (rs_buffer r) = OC_MAX_APP_DATA_SIZE"
    "unat (rs_length r) \<le> OC_MAX_APP_DATA_SIZE"
  using assms unfolding handler_ok_def by blast

lemma same_bufs_live:
  assumes "same_bufs s s'" and "bw_heap b s a = Some x"
  shows "\<exists>y. bw_heap b s' a = Some y \<and> y\<lparr>bref := 0\<rparr> = x\<lparr>bref := 0\<rparr>"
proof -
  have "same_but_ref (bw_heap b s) (bw_heap b s')" using assms(1) by (simp add: same_bufs_def same_but_ref_def)
  then show ?thesis using same_but_ref_eq [of "bw_heap b s" "bw_heap b s'" a x] assms(2) by auto
qed

lemma goes_live: "goes ext s s' \<Longrightarrow> bw_heap b s a \<noteq> None \<Longrightarrow> bw_heap b s' a \<noteq> None"
  using same_bufs_live [of s s' b a] by (auto simp: goes_def)

lemma goes_security: "net_inv s ext \<Longrightarrow> goes ext s (s\<lparr>security := x\<rparr>)"
proof -
  assume "net_inv s ext"
  moreover have "bw_heap b (s\<lparr>security := x\<rparr>) = bw_heap b s" for b by (cases b) simp_all
  ultimately show ?thesis by (simp add: goes_def net_inv_security same_bufs_heap) (rule keepsI; simp)
qed

text \<open>The answer of a handler that ran, or no answer.\<close>

definition response_ok :: "oc_response \<Rightarrow> bool" where
  "response_ok r \<longleftrightarrow> unat (rs_length r) \<le> OC_MAX_APP_DATA_SIZE"

lemma dispatch_net:
  assumes sv: "services_ok sv" and inv: "net_inv s ext" and sep: "sep_inv s"
  shows "\<exists>s' au im r. dispatch sv s meth res c i rq no_response = Some (s', au, im, r) \<and> goes ext s s' \<and> response_ok r \<and>
     (au \<and> im \<longrightarrow> length (rs_buffer r) = OC_MAX_APP_DATA_SIZE) \<and> (\<not> (au \<and> im) \<longrightarrow> r = no_response)"
proof -
  obtain au sc where ac: "oc_sec_check_acl (cred_valid sv) (security s) meth (oc_resource.truncate (net.resources s res)) i (rq_origin rq) = (au, sc)"
    by fastforce
  let ?s = "s\<lparr>security := sc\<rparr>"
  have g: "goes ext s ?s" by (rule goes_security [OF inv])
  have inv': "net_inv ?s ext" "sep_inv ?s" using goes_inv [OF g] sep by (simp_all add: sep_inv_def)
  have nr: "response_ok no_response" by (simp add: response_ok_def no_response_def)
  have col: "handler_ok (oc_handle_collection_request sv meth)" and hd: "handler_ok (invoke sv h)" for h
    using sv by (simp_all add: services_ok_def)
  show ?thesis
  proof (cases "\<not> au \<or> \<not> c \<and> handler_of meth (net.resources s res) = None")
    case True
    then have "dispatch sv s meth res c i rq no_response = Some (?s, au, \<not> au, no_response)"
      using ac by (cases au) (auto simp: dispatch_def Let_def)
    with g nr show ?thesis by (cases au) auto
  next
    case False
    define f where "f = (if c then oc_handle_collection_request sv meth else invoke sv (the (handler_of meth (net.resources s res))))"
    have "handler_ok f" using col hd by (simp add: f_def)
    then obtain s' r where s': "f ?s rq i = Some (s', r)" "goes ext ?s s'" "length (rs_buffer r) = OC_MAX_APP_DATA_SIZE"
      "unat (rs_length r) \<le> OC_MAX_APP_DATA_SIZE" by (rule handler_okD [OF _ inv'])
    have "dispatch sv s meth res c i rq no_response = Some (s', True, True, r)"
      using False ac s'(1) by (auto simp: dispatch_def f_def split: if_splits)
    with s' goes_trans [OF g s'(2)] show ?thesis by (auto simp: response_ok_def)
  qed
qed

section \<open>Finding a resource\<close>

text \<open>A request whose path the search can follow: it has one, a byte other than a slash comes at or
  behind its start, the device exists and every collection has a path.\<close>

definition path_ok :: "net \<Rightarrow> bytes \<Rightarrow> coap_packet \<Rightarrow> nat \<Rightarrow> bool" where
  "path_ok s rx req device \<longleftrightarrow> (\<exists>p. request_path rx req = Some p \<and> (\<exists>c \<in> set p. c \<noteq> slash)) \<and> device < OC_MAX_NUM_DEVICES \<and>
     (\<forall>c \<in> set (collections s). uri (net.resources s c) \<noteq> [])"

lemma find_core_total: "device < OC_MAX_NUM_DEVICES \<Longrightarrow> \<forall>i \<in> set js. i \<le> OCF_D \<Longrightarrow> \<exists>r. find_core_resource s ur len device js = Some r"
proof (induction js)
  case (Cons i js)
  have "OCF_D * device \<le> OCF_D * 1" using Cons.prems(1) by (simp add: OC_MAX_NUM_DEVICES_def)
  then have "\<exists>r. core_resource_at i device = Some r" using Cons.prems
    by (simp add: core_resource_at_def OC_MAX_NUM_DEVICES_def Let_def)
  then show ?case using Cons by auto
qed simp

lemma find_collection_total:
  "\<forall>c \<in> set cs. uri (net.resources s c) \<noteq> [] \<Longrightarrow> \<exists>r. find_collection s ur len device cs = Some r"
  by (induction cs) (auto simp: Let_def)

lemma strip_slashes_total: "\<exists>c \<in> set p. c \<noteq> slash \<Longrightarrow> \<exists>q n. strip_slashes p len = Some (q, n)"
  by (induction p len rule: strip_slashes.induct) auto

lemma find_resource_total:
  assumes "path_ok s rx req device"
  shows "\<exists>r c. find_resource s (request_path rx req) len device = Some (r, c)"
proof -
  obtain p where p: "request_path rx req = Some p" "\<exists>c \<in> set p. c \<noteq> slash" using assms by (auto simp: path_ok_def)
  then have p0: "rd p 0 = Some (hd p)" by (cases p) (auto simp: rd_def)
  obtain r where "find_core_resource s p len device [0..<1 + OCF_D] = Some r"
    using find_core_total [of device "[0..<1 + OCF_D]" s p len] assms by (auto simp: path_ok_def)
  moreover obtain q n where "strip_slashes p (of_nat len) = Some (q, n)" using strip_slashes_total [OF p(2)] by blast
  moreover obtain r2 where "find_collection s q n device (collections s) = Some r2"
    using find_collection_total [of "collections s" s q n device] assms by (auto simp: path_ok_def)
  ultimately show ?thesis using p(1) p0
    by (auto simp: find_resource_def oc_ri_get_app_resource_by_uri_def oc_get_collection_by_uri_def split: option.split)
qed

lemma path_ok_tree: "same_tree s s' \<Longrightarrow> path_ok s' rx req device = path_ok s rx req device"
  by (simp add: path_ok_def same_tree_def)


section \<open>Response packets\<close>

text \<open>The packets the server builds: they carry no path or query, and what they carry can be
  serialised.\<close>

definition reply :: "coap_packet \<Rightarrow> bool" where
  "reply pkt \<longleftrightarrow> length (options pkt) = 8 \<and> \<not> IS_OPTION pkt 2 \<and> \<not> IS_OPTION pkt 11 \<and> \<not> IS_OPTION pkt 15 \<and>
     length (etag pkt) = COAP_ETAG_LEN \<and> unat (etag_len pkt) \<le> COAP_ETAG_LEN \<and> length (token pkt) = COAP_TOKEN_LEN \<and>
     unat (token_len pkt) \<le> COAP_TOKEN_LEN \<and> unat (payload_len pkt) \<le> OC_MAX_APP_DATA_SIZE \<and>
     (payload pkt = Null \<and> payload_len pkt = 0 \<or> (\<exists>bs. payload pkt = Obj bs \<and> unat (payload_len pkt) \<le> length bs))"

lemma is_option_set:
  "length (options p) = 8 \<Longrightarrow> unat n \<le> 60 \<Longrightarrow> IS_OPTION (SET_OPTION p n) m \<longleftrightarrow> m = n \<or> IS_OPTION p m"
  by (auto simp: SET_OPTION_def IS_OPTION_def is_option_set_option_bit word_le_nat_alt)

lemma set_option_fields [simp]:
  "length (options (SET_OPTION p n)) = length (options p)" "etag (SET_OPTION p n) = etag p" "etag_len (SET_OPTION p n) = etag_len p"
  "token (SET_OPTION p n) = token p" "token_len (SET_OPTION p n) = token_len p" "payload (SET_OPTION p n) = payload p"
  "payload_len (SET_OPTION p n) = payload_len p" "transport_type (SET_OPTION p n) = transport_type p"
  by (simp_all add: SET_OPTION_def set_option_bit_def)

lemma reply_set_option:
  "reply p \<Longrightarrow> unat n \<le> 60 \<Longrightarrow> n \<noteq> 2 \<Longrightarrow> n \<noteq> 11 \<Longrightarrow> n \<noteq> 15 \<Longrightarrow> reply (SET_OPTION p n)"
  by (simp add: reply_def is_option_set)

lemma reply_msg_ok: "reply pkt \<Longrightarrow> msg_ok rx pkt"
  by (auto simp: reply_def msg_ok_def ser_ok_def)

lemma reply_setters:
  assumes "reply pkt"
  shows "reply (fst (coap_set_header_observe pkt o'))" "reply (fst (coap_set_header_content_format pkt c))"
    "reply (fst (coap_set_header_size1 pkt n))" "reply (fst (coap_set_header_size2 pkt n))" "reply (fst (coap_set_status_code pkt k))"
    "reply (fst (coap_set_header_block1 pkt i m b))" "reply (fst (coap_set_header_block2 pkt i m b))" "reply (pkt\<lparr>code := cd\<rparr>)"
proof -
  have "reply (pkt\<lparr>observe := o'\<rparr>)" "reply (pkt\<lparr>content_format := ucast c\<rparr>)" "reply (pkt\<lparr>size1 := n\<rparr>)" "reply (pkt\<lparr>size2 := n\<rparr>)"
    and code: "reply (pkt\<lparr>code := cc\<rparr>)" and "reply (pkt\<lparr>block1_num := i, block1_more := m, block1_size := b\<rparr>)"
    and "reply (pkt\<lparr>block2_num := i, block2_more := m', block2_size := b\<rparr>)" for cc m'
    using assms by (simp_all add: reply_def IS_OPTION_def)
  then show "reply (fst (coap_set_header_observe pkt o'))" "reply (fst (coap_set_header_content_format pkt c))"
    "reply (fst (coap_set_header_size1 pkt n))" "reply (fst (coap_set_header_size2 pkt n))" "reply (fst (coap_set_status_code pkt k))"
    "reply (fst (coap_set_header_block1 pkt i m b))" "reply (fst (coap_set_header_block2 pkt i m b))" "reply (pkt\<lparr>code := cd\<rparr>)"
    using assms
    by (simp_all add: coap_set_header_observe_def coap_set_header_content_format_def coap_set_header_size1_def
        coap_set_header_size2_def coap_set_status_code_def coap_set_header_block1_def coap_set_header_block2_def reply_set_option)
qed

lemma reply_init: "reply (coap_udp_init_message ty c m)" "reply (coap_tcp_init_message c)"
proof -
  have o: "\<not> is_option_bit (options zero_packet) 2" "\<not> is_option_bit (options zero_packet) 11" "\<not> is_option_bit (options zero_packet) 15"
    by simp_all
  have z: "length (options zero_packet) = 8" "length (etag zero_packet) = COAP_ETAG_LEN" "etag_len zero_packet = 0"
    "length (token zero_packet) = COAP_TOKEN_LEN" "token_len zero_packet = 0" "payload zero_packet = Null" "payload_len zero_packet = 0"
    by (simp_all add: zero_packet_def)
  show "reply (coap_udp_init_message ty c m)" "reply (coap_tcp_init_message c)"
    using o z by (simp_all add: reply_def IS_OPTION_def coap_udp_init_message_def coap_tcp_init_message_def)
qed

section \<open>The stages of a request\<close>

text \<open>What the whole of a request keeps.\<close>

definition works :: "(addr \<Rightarrow> nat) \<Rightarrow> net \<Rightarrow> net \<Rightarrow> bool" where
  "works ext s s' \<longleftrightarrow> net_inv s' ext \<and> sep_inv s' \<and> (\<forall>t x. trans s t = Some x \<longrightarrow> trans s' t = Some x) \<and>
     (\<forall>b a. bw_heap b s a \<noteq> None \<longrightarrow> bw_heap b s' a \<noteq> None)"

lemma goes_works: "goes ext s s' \<Longrightarrow> sep_inv s \<Longrightarrow> works ext s s'"
  using goes_live [of ext s s'] by (auto simp: works_def goes_def net_keeps_def)

lemma works_trans: "works ext s s' \<Longrightarrow> works ext s' s'' \<Longrightarrow> works ext s s''"
  by (simp add: works_def)

lemma separate_works:
  assumes inv: "net_inv s ext" and sep: "sep_inv s" and room: "\<not> ring_full s"
    and tok: "unat (token_len req) \<le> COAP_TOKEN_LEN" "length (token req) = COAP_TOKEN_LEN"
    and udp: "type req = COAP_TYPE_CON \<Longrightarrow> flags endpoint AND TCP = 0"
  shows "\<exists>s' n. coap_separate_accept s rx req h endpoint o' b2 = Some (s', n) \<and>
     works ext s (if n = 1 then s'\<lparr>sep_active := (sep_active s')(h := 1)\<rparr> else s')"
proof -
  obtain s' n where s': "coap_separate_accept s rx req h endpoint o' b2 = Some (s', n)" "net_inv s' ext"
    "if n = 1 then sep_open s' h else n = 0 \<and> sep_inv s'" "trans s' = trans s" "requests s' = requests s" "responses s' = responses s"
    using separate_accept_ok [OF inv sep room tok udp, of rx h o' b2] by blast
  have h: "bw_heap b s' = bw_heap b s" "bw_heap b (s'\<lparr>sep_active := x\<rparr>) = bw_heap b s" for b x using s'(5,6) by (cases b; simp)+
  have "works ext s (if n = 1 then s'\<lparr>sep_active := (sep_active s')(h := 1)\<rparr> else s')"
    using s'(2-4) sep_open_active [of s' h] h by (auto simp: works_def net_inv_separate)
  with s'(1) show ?thesis by blast
qed

lemma unat_ucast_u16: "unat (ucast (w :: u16) :: u32) = unat w"
proof -
  have "unat w < 2 ^ 32" by (rule less_trans [OF unat_u16_less]) simp
  then show ?thesis by (simp add: unsigned_ucast_eq take_bit_nat_eq_self_iff)
qed

lemma answer_net:
  assumes inv: "net_inv s ext" and sep: "sep_inv s" and room: "\<not> ring_full s"
    and tok: "unat (token_len req) \<le> COAP_TOKEN_LEN" "length (token req) = COAP_TOKEN_LEN"
    and udp: "type req = COAP_TYPE_CON \<Longrightarrow> flags endpoint AND TCP = 0"
    and r: "response_ok r" "0 < rs_length r \<Longrightarrow> \<exists>b. rst = Some b \<and> responses s b \<noteq> None" and rep: "reply res"
  shows "\<exists>s' res' st'. answer s rx req res cur rst r o' b2 endpoint st = Some (s', res', st') \<and> works ext s s' \<and> reply res' \<and>
     (st' = st \<or> st' = CLEAR_TRANSACTION)"
proof -
  consider "rs_separate r \<noteq> NULL_PTR" | "rs_separate r = NULL_PTR" "rs_code r = OC_IGNORE" | "rs_separate r = NULL_PTR" "rs_code r \<noteq> OC_IGNORE"
    by blast
  then show ?thesis
  proof cases
    case 1
    then show ?thesis using separate_works [OF inv sep room tok udp, of rx "rs_separate r" "sint o'" b2] rep by (fastforce simp: answer_def Let_def)
  next
    case 2
    then show ?thesis using goes_works [OF goes_refl [OF inv] sep] rep by (simp add: answer_def)
  next
    case 3
    define notify where "notify = (\<exists>x. cur = Some x \<and> (method_of_code (code req) = OC_PUT \<or> method_of_code (code req) = OC_POST) \<and> rs_code r < oc_status_code OC_STATUS_BAD_REQUEST)"
    have nt: "Oc_observe_notification_delayed \<noteq> bw_timeout b" for b by (cases b) simp_all
    obtain s1 where s1: "(case cur of
        Some r' \<Rightarrow> if (method_of_code (code req) = OC_PUT \<or> method_of_code (code req) = OC_POST) \<and> rs_code r < oc_status_code OC_STATUS_BAD_REQUEST
          then oc_ri_add_timed_event_callback_ticks s r' Oc_observe_notification_delayed 0 else Some s
        | None \<Rightarrow> Some s) = Some s1" "goes ext s s1"
    proof (cases notify)
      case True
      then obtain x where x: "cur = Some x" "(method_of_code (code req) = OC_PUT \<or> method_of_code (code req) = OC_POST) \<and> rs_code r < oc_status_code OC_STATUS_BAD_REQUEST"
        by (auto simp: notify_def)
      obtain s1 where "oc_ri_add_timed_event_callback_ticks s x Oc_observe_notification_delayed 0 = Some s1" "goes ext s s1"
        using add_timed_net [OF inv nt, of x 0] same_bufs_heap [of _ s] unfolding goes_def by blast
      with x that show thesis by simp
    next
      case False
      then have "(case cur of
        Some r' \<Rightarrow> if (method_of_code (code req) = OC_PUT \<or> method_of_code (code req) = OC_POST) \<and> rs_code r < oc_status_code OC_STATUS_BAD_REQUEST
          then oc_ri_add_timed_event_callback_ticks s r' Oc_observe_notification_delayed 0 else Some s
        | None \<Rightarrow> Some s) = Some s" by (auto simp: notify_def split: option.split)
      then show thesis using that goes_refl [OF inv] by blast
    qed
    let ?fmt = "if ep_version endpoint = OIC_VER_1_1_0 then ucast APPLICATION_CBOR else ucast APPLICATION_VND_OCF_CBOR :: u32"
    obtain s2 res2 where s2: "(if rs_length r > 0 then do {
            b \<leftarrow> rst; x \<leftarrow> responses s1 b;
            let s = s1\<lparr>responses := (responses s1)(b \<mapsto> x\<lparr>payload_size := ucast (rs_length r)\<rparr>)\<rparr>;
            Some (s, fst (coap_set_header_content_format res ?fmt)) }
          else Some (s1, res)) = Some (s2, res2)" "works ext s s2" "reply res2"
    proof (cases "0 < rs_length r")
      case False
      then show thesis using that goes_works [OF s1(2) sep] rep by auto
    next
      case True
      then obtain b y where b: "rst = Some b" "responses s b = Some y" using r(2) by auto
      then obtain x where x: "responses s1 b = Some x" using goes_live [OF s1(2), of Response b] by auto
      let ?x = "x\<lparr>payload_size := ucast (rs_length r)\<rparr>"
      obtain ts where "bw_inv s1" by (rule net_inv_parts [OF goes_inv [OF s1(2)]])
      then have "buffer_ok x" using x unfolding bw_inv_def by (metis bw_heap.simps(2))
      then have "buffer_ok ?x" using r(1) by (simp add: buffer_ok_def response_ok_def unat_ucast_u16)
      then have u: "net_inv (upd_bw Response s1 b ?x) ext" "net_keeps s1 (upd_bw Response s1 b ?x)"
        using upd_bw_net [OF goes_inv [OF s1(2)], of Response b x ?x] x by simp_all
      have "works ext s1 (upd_bw Response s1 b ?x)"
        using u s1(2) sep by (auto simp: works_def net_keeps_def goes_def upd_bw_heap)
      then have "works ext s (upd_bw Response s1 b ?x)" by (rule works_trans [OF goes_works [OF s1(2) sep]])
      then show thesis using that True b(1) x reply_setters(2) [OF rep, of ?fmt] by (simp add: Let_def upd_bw_simps)
    qed
    let ?res3 = "if rs_code r = oc_status_code OC_STATUS_REQUEST_ENTITY_TOO_LARGE then fst (coap_set_header_size1 res2 (of_nat OC_BLOCK_SIZE)) else res2"
    let ?res4 = "fst (coap_set_status_code ?res3 (of_int (rs_code r)))"
    have "answer s rx req res cur rst r o' b2 endpoint st = Some (s2, ?res4, st)"
      using 3 s1(1) s2(1) by (simp add: answer_def Let_def del: oc_status_code.simps)
    moreover have "reply ?res4" using s2(3) reply_setters(3,5) by simp
    ultimately show ?thesis using s2(2) by blast
  qed
qed


lemma read_payload_net:
  assumes inv: "net_inv s ext" and rq: "\<And>b. rq = Some b \<Longrightarrow> requests s b \<noteq> None"
  shows "\<exists>s' rq' rep. read_payload sv s rq = Some (s', rq', rep) \<and> net_inv s' ext \<and> net_keeps s s' \<and> same_tree s s' \<and>
     responses s' = responses s \<and> (\<forall>b. rq' = Some b \<longrightarrow> requests s' b \<noteq> None)"
proof (cases rq)
  case None
  then show ?thesis using inv by (simp add: read_payload_def)
next
  case (Some b)
  then obtain x where x: "requests s b = Some x" using rq by auto
  obtain ts where "bw_inv s" by (rule net_inv_parts [OF inv])
  then have ok: "buffer_ok x" using x unfolding bw_inv_def by (metis bw_heap.simps(1))
  obtain s' where s': "oc_blockwise_free_bw Request s b = Some s'" "net_inv s' ext" "net_keeps s s'" "same_tree s s'"
    "\<forall>c. c \<noteq> Request \<longrightarrow> bw_heap c s' = bw_heap c s"
    using free_net [OF inv, of Request b] x by auto
  have resp: "responses s' = responses s" using s'(5) [rule_format, of Response] by simp
  show ?thesis
  proof (cases "sint (payload_size x) > 0")
    case True
    then show ?thesis using Some x ok s' resp
      by (simp add: read_payload_def oc_blockwise_free_request_buffer_def rd_slice_def buffer_ok_def)
  next
    case False
    then show ?thesis using Some x inv by (simp add: read_payload_def)
  qed
qed

lemma response_buffer_net:
  assumes inv: "net_inv s ext" and ur: "ur = Some p"
  shows "\<exists>s' b. response_buffer_for s ur len query endpoint c None = Some (s', b) \<and> net_inv s' ext \<and> net_keeps s s' \<and> same_tree s s' \<and>
     requests s' = requests s \<and> (\<forall>a. b = Some a \<longrightarrow> responses s' a \<noteq> None)"
proof -
  obtain s1 r where s1: "bw_alloc Response s (take len p) endpoint c OC_BLOCKWISE_SERVER = Some (s1, r)" "net_inv s1 ext" "net_keeps s s1" "same_tree s s1"
    "\<forall>c. c \<noteq> Response \<longrightarrow> bw_heap c s1 = bw_heap c s"
    "\<forall>a. r = Some a \<longrightarrow> (\<exists>x. bw_heap Response s1 a = Some x \<and> new_buffer x (take len p) endpoint c OC_BLOCKWISE_SERVER)"
    using alloc_net [OF inv, of Response "take len p" endpoint c OC_BLOCKWISE_SERVER] by blast
  have al: "oc_blockwise_alloc_response_buffer s (take len p) endpoint c OC_BLOCKWISE_SERVER = Some (s1, r)"
    using s1(1) by (simp add: bw_alloc_def)
  have rq: "requests s1 = requests s" using s1(5) [rule_format, of Request] by simp
  show ?thesis
  proof (cases r)
    case None
    then show ?thesis using al s1 rq ur by (simp add: response_buffer_for_def)
  next
    case (Some a)
    then obtain x where x: "responses s1 a = Some x" "new_buffer x (take len p) endpoint c OC_BLOCKWISE_SERVER" using s1(6) by auto
    let ?s = "upd_bw Response s1 a (x\<lparr>buri_query := query\<rparr>)"
    have "buffer_ok (x\<lparr>buri_query := query\<rparr>)" using new_buffer_ok [OF x(2)] by (simp add: buffer_ok_def)
    then have u: "net_inv ?s ext" "net_keeps s1 ?s" using upd_bw_net [OF s1(2), of Response a x "x\<lparr>buri_query := query\<rparr>"] x(1) by simp_all
    have "response_buffer_for s ur len query endpoint c None = Some (?s, Some a)"
      using al Some x(1) ur by (simp add: response_buffer_for_def upd_bw_simps)
    moreover have "same_tree s ?s" using s1(4) by (simp add: same_tree_def upd_bw_def)
    ultimately show ?thesis using u net_keeps_trans [OF s1(3) u(2)] rq by (simp add: upd_bw_def)
  qed
qed

text \<open>A prepared request: its buffers are live, and one that can be handled has a buffer for its answer.\<close>

definition prepared_ok :: "net \<Rightarrow> prepared \<Rightarrow> bool" where
  "prepared_ok s p \<longleftrightarrow> (\<forall>b. p_request_state p = Some b \<longrightarrow> requests s b \<noteq> None) \<and>
     (\<forall>b. p_response_state p = Some b \<longrightarrow> responses s b \<noteq> None) \<and>
     (p_cur p \<noteq> None \<and> \<not> p_bad_request p \<longrightarrow> p_response_state p \<noteq> None)"

lemma prepare_net:
  assumes inv: "net_inv s ext" and rq: "\<And>b. rq = Some b \<Longrightarrow> requests s b \<noteq> None" and path: "path_ok s rx req (edevice endpoint)"
  shows "\<exists>s' p. prepare_request sv s rx req rq None endpoint = Some (s', p) \<and> net_inv s' ext \<and> net_keeps s s' \<and> same_tree s s' \<and> prepared_ok s' p"
proof -
  let ?len = "fst (coap_get_header_uri_path req)"
  obtain s1 rq1 rep where s1: "read_payload sv s rq = Some (s1, rq1, rep)" "net_inv s1 ext" "net_keeps s s1" "same_tree s s1"
    "\<forall>b. rq1 = Some b \<longrightarrow> requests s1 b \<noteq> None" using read_payload_net [where sv = sv, OF inv rq] by blast
  obtain cur c where cur: "find_resource s1 (request_path rx req) ?len (edevice endpoint) = Some (cur, c)"
    using find_resource_total [of s1 rx req "edevice endpoint" ?len] path path_ok_tree [OF s1(4)] by auto
  obtain q where q: "request_path rx req = Some q" using path by (auto simp: path_ok_def)
  obtain s2 b where s2: "response_buffer_for s1 (request_path rx req) ?len (request_query rx req) endpoint (code req) None = Some (s2, b)"
    "net_inv s2 ext" "net_keeps s1 s2" "same_tree s1 s2" "requests s2 = requests s1" "\<forall>a. b = Some a \<longrightarrow> responses s2 a \<noteq> None"
    using response_buffer_net [OF s1(2) q, of ?len "request_query rx req" endpoint "code req"] by blast
  note t = same_tree_trans [OF s1(4) s2(4)] net_keeps_trans [OF s1(3) s2(3)]
  show ?thesis
  proof (cases rep)
    case (Parsed tr)
    show ?thesis
    proof (cases cur)
      case None
      then show ?thesis using Parsed s1 cur by (simp add: prepare_request_def prepared_ok_def Let_def)
    next
      case (Some r)
      show ?thesis
      proof (cases "interface_allows (chosen_interface (request_query rx req) (net.resources s1 r)) (net.resources s1 r) (method_of_code (code req))")
        case True
        then show ?thesis using Parsed Some s1 s2 cur t by (simp add: prepare_request_def prepared_ok_def Let_def)
      next
        case False
        then show ?thesis using Parsed Some s1 cur by (simp add: prepare_request_def prepared_ok_def Let_def)
      qed
    qed
  qed (use s1 in \<open>simp_all add: prepare_request_def prepared_ok_def Let_def\<close>)
qed

lemma run_handler_net:
  assumes sv: "services_ok sv" and inv: "net_inv s ext" and sep: "sep_inv s" and p: "prepared_ok s p"
  shows "\<exists>s' au im r. run_handler sv s req p endpoint = Some (s', au, im, r) \<and> net_inv s' ext \<and> net_keeps s s' \<and> response_ok r \<and>
     prepared_ok s' p \<and> (0 < rs_length r \<longrightarrow> (\<exists>b. p_response_state p = Some b \<and> responses s' b \<noteq> None)) \<and>
     (\<forall>b a. bw_heap b s a \<noteq> None \<longrightarrow> bw_heap b s' a \<noteq> None)"
proof (cases "p_cur p = None \<or> p_bad_request p")
  case True
  then show ?thesis using inv p by (cases "p_cur p") (auto simp: run_handler_def response_ok_def no_response_def)
next
  case False
  then obtain res b where r: "p_cur p = Some res" "\<not> p_bad_request p" "p_response_state p = Some b" using p by (auto simp: prepared_ok_def)
  let ?rq = "\<lparr>rq_resource = res, rq_origin = endpoint, rq_query = p_query p, rq_payload = (case p_rep p of Parsed t \<Rightarrow> t | _ \<Rightarrow> [])\<rparr>"
  obtain s1 au im rr where s1: "dispatch sv s (method_of_code (code req)) res (p_is_collection p) (p_iface_mask p) ?rq no_response = Some (s1, au, im, rr)"
    "goes ext s s1" "response_ok rr" "au \<and> im \<longrightarrow> length (rs_buffer rr) = OC_MAX_APP_DATA_SIZE"
    using dispatch_net [OF sv inv sep, of "method_of_code (code req)" res "p_is_collection p" "p_iface_mask p" ?rq] by blast
  have live: "bw_heap c s a \<noteq> None \<Longrightarrow> bw_heap c s1 a \<noteq> None" for c a by (rule goes_live [OF s1(2)])
  obtain x where x: "responses s1 b = Some x" using p r(3) live [of Response b] by (auto simp: prepared_ok_def)
  let ?x = "x\<lparr>buffer := rs_buffer rr\<rparr>"
  define s2 where "s2 = (if au \<and> im then upd_bw Response s1 b ?x else s1)"
  have run: "run_handler sv s req p endpoint = Some (s2, au, im, rr)"
    using r s1(1) x by (simp add: run_handler_def s2_def upd_bw_simps)
  obtain ts where "bw_inv s1" by (rule net_inv_parts [OF goes_inv [OF s1(2)]])
  then have "buffer_ok x" using x unfolding bw_inv_def by (metis bw_heap.simps(2))
  then have "buffer_ok ?x" if "au \<and> im" using that s1(4) by (simp add: buffer_ok_def)
  then have s2: "net_inv s2 ext" "net_keeps s1 s2"
    using upd_bw_net [OF goes_inv [OF s1(2)], of Response b x ?x] x goes_inv [OF s1(2)] by (simp_all add: s2_def)
  have live2: "bw_heap c s1 a \<noteq> None \<Longrightarrow> bw_heap c s2 a \<noteq> None" for c a by (auto simp: s2_def upd_bw_heap)
  have "prepared_ok s2 p"
    using p live [of Request] live [of Response] live2 [of Request] live2 [of Response] by (auto simp: prepared_ok_def)
  moreover have "responses s2 b \<noteq> None" using x by (simp add: s2_def upd_bw_def)
  ultimately show ?thesis
    using run s2 s1(2,3) net_keeps_trans [of s s1 s2] r(3) live live2 by (intro exI [of _ s2] exI [of _ rr]) (auto simp: goes_def)
qed


lemma conclude_net:
  assumes inv: "net_inv s ext" and sep: "sep_inv s" and room: "\<not> ring_full s"
    and tok: "unat (token_len req) \<le> COAP_TOKEN_LEN" "length (token req) = COAP_TOKEN_LEN"
    and udp: "type req = COAP_TYPE_CON \<Longrightarrow> flags endpoint AND TCP = 0"
    and r: "response_ok r" "0 < rs_length r \<Longrightarrow> \<exists>b. p_response_state p = Some b \<and> responses s b \<noteq> None" and rep: "reply res"
  shows "\<exists>s' res' st'. conclude_request s rx req res p fail r b2 endpoint st = Some (s', res', st') \<and> works ext s s' \<and> reply res' \<and>
     (st' = st \<or> st' = CLEAR_TRANSACTION)"
proof -
  define r' where "r' = (case fail of Some c \<Rightarrow> r\<lparr>rs_length := 0, rs_code := oc_status_code c\<rparr> | None \<Rightarrow> r)"
  define ob where "ob \<longleftrightarrow> fail = None \<and> fst (coap_get_header_observe req) = 1"
  have r': "response_ok r'" "0 < rs_length r' \<Longrightarrow> 0 < rs_length r" using r(1) by (auto simp: r'_def response_ok_def split: option.splits)
  obtain s1 res1 where s1: "(case p_cur p of
      Some x \<Rightarrow> if ob then observe_request s rx req res x (p_is_collection p) (p_iface_mask p) b2 endpoint else Some (s, res)
      | None \<Rightarrow> Some (s, res)) = Some (s1, res1)" "goes ext s s1" "reply res1"
  proof (cases "p_cur p = None \<or> \<not> ob")
    case True
    then show thesis using that goes_refl [OF inv] rep by (cases "p_cur p") auto
  next
    case False
    then obtain x where x: "p_cur p = Some x" ob by auto
    obtain s1 res1 where "observe_request s rx req res x (p_is_collection p) (p_iface_mask p) b2 endpoint = Some (s1, res1)" "goes ext s s1"
      "res1 = res \<or> res1 = fst (coap_set_header_observe res 0)" using observe_request_net [OF inv tok] by blast
    with x that rep reply_setters(1) [OF rep, of 0] show thesis by auto
  qed
  have g: "net_inv s1 ext" "sep_inv s1" "\<not> ring_full s1" using s1(2) sep room by (auto simp: goes_def net_keeps_def)
  have live: "\<exists>b. p_response_state p = Some b \<and> responses s1 b \<noteq> None" if "0 < rs_length r'"
    using r(2) [OF r'(2) [OF that]] goes_live [OF s1(2), of Response] by auto
  obtain s' res' st' where s': "answer s1 rx req res1 (p_cur p) (p_response_state p) r' (if ob then observe req else 2) b2 endpoint st = Some (s', res', st')"
    "works ext s1 s'" "reply res'" "st' = st \<or> st' = CLEAR_TRANSACTION"
    using answer_net [OF g tok udp r'(1) live s1(3), of rx "p_cur p" "if ob then observe req else 2" b2 st] by blast
  have "conclude_request s rx req res p fail r b2 endpoint st = Some (s', res', st')"
    unfolding conclude_request_def Let_def r'_def [symmetric] ob_def [symmetric] using s1(1) s'(1) by simp
  with s' works_trans [OF goes_works [OF s1(2) sep] s'(2)] show ?thesis by blast
qed

lemma endpoint_of_request [simp]:
  "flags (request_endpoint req ep) = flags ep" "edevice (request_endpoint req ep) = edevice ep"
  by (simp_all add: request_endpoint_def)

text \<open>A request as the engine hands it on.\<close>

definition request_ok :: "net \<Rightarrow> bytes \<Rightarrow> coap_packet \<Rightarrow> oc_endpoint \<Rightarrow> bool" where
  "request_ok s rx req endpoint \<longleftrightarrow> unat (token_len req) \<le> COAP_TOKEN_LEN \<and> length (token req) = COAP_TOKEN_LEN \<and>
     (type req = COAP_TYPE_CON \<longrightarrow> flags endpoint AND TCP = 0) \<and> path_ok s rx req (edevice endpoint)"

lemma entity_handler_net:
  assumes sv: "services_ok sv" and inv: "net_inv s ext" and sep: "sep_inv s" and room: "\<not> ring_full s" and m: "msgs s d = Some m"
    and req: "request_ok s rx req (mendpoint m)" and rq: "\<And>b. rq = Some b \<Longrightarrow> requests s b \<noteq> None" and rep: "reply res"
  shows "\<exists>s' res' rq' rst st' ok. oc_ri_invoke_coap_entity_handler sv s rx req res rq None b2 d st = Some (s', res', rq', rst, st', ok) \<and>
     net_inv s' ext \<and> sep_inv s' \<and> (\<forall>t x. trans s t = Some x \<longrightarrow> trans s' t = Some x) \<and> reply res' \<and>
     (\<forall>b. rq' = Some b \<longrightarrow> requests s' b \<noteq> None) \<and> (\<forall>b. rst = Some b \<longrightarrow> responses s' b \<noteq> None) \<and> (ok \<longrightarrow> rst \<noteq> None) \<and>
     (st' = st \<or> st' = CLEAR_TRANSACTION)"
proof -
  let ?ep = "request_endpoint req (mendpoint m)"
  let ?s0 = "set_msg s d (m\<lparr>mendpoint := ?ep\<rparr>)"
  have inv0: "net_inv ?s0 ext" by (rule net_inv_set_msg [OF inv m]) simp_all
  have f0: "net_keeps s ?s0" "same_tree s ?s0" "requests ?s0 = requests s" by (auto simp: set_msg_def same_tree_def intro!: keepsI)
  have tok: "unat (token_len req) \<le> COAP_TOKEN_LEN" "length (token req) = COAP_TOKEN_LEN"
    and udp: "type req = COAP_TYPE_CON \<Longrightarrow> flags ?ep AND TCP = 0" and path: "path_ok ?s0 rx req (edevice ?ep)"
    using req path_ok_tree [OF f0(2)] by (simp_all add: request_ok_def)
  obtain s1 p where s1: "prepare_request sv ?s0 rx req rq None ?ep = Some (s1, p)" "net_inv s1 ext" "net_keeps ?s0 s1" "prepared_ok s1 p"
    using prepare_net [where sv = sv, OF inv0 _ path, of rq] rq f0(3) by auto
  have k1: "net_keeps s s1" by (rule net_keeps_trans [OF f0(1) s1(3)])
  have sep1: "sep_inv s1" using k1 sep by (simp add: net_keeps_def)
  obtain s2 au im r where s2: "run_handler sv s1 req p ?ep = Some (s2, au, im, r)" "net_inv s2 ext" "net_keeps s1 s2" "response_ok r" "prepared_ok s2 p"
    "0 < rs_length r \<longrightarrow> (\<exists>b. p_response_state p = Some b \<and> responses s2 b \<noteq> None)"
    using run_handler_net [OF sv s1(2) sep1 s1(4)] by blast
  have k2: "net_keeps s s2" by (rule net_keeps_trans [OF k1 s2(3)])
  have g2: "sep_inv s2" "\<not> ring_full s2" using k2 sep room by (auto simp: net_keeps_def)
  let ?fail = "request_failure p im au"
  obtain s3 res3 st3 where s3: "conclude_request s2 rx req res p ?fail r b2 ?ep st = Some (s3, res3, st3)" "works ext s2 s3" "reply res3"
    "st3 = st \<or> st3 = CLEAR_TRANSACTION"
    using conclude_net [OF s2(2) g2 tok udp s2(4) _ rep, of p rx ?fail b2 st] s2(6) by blast
  have "oc_ri_invoke_coap_entity_handler sv s rx req res rq None b2 d st =
      Some (s3, res3, p_request_state p, p_response_state p, st3, ?fail = None)"
    using m s1(1) s2(1) s3(1) by (simp add: oc_ri_invoke_coap_entity_handler_def Let_def)
  moreover have "\<forall>b. p_request_state p = Some b \<longrightarrow> requests s3 b \<noteq> None" "\<forall>b. p_response_state p = Some b \<longrightarrow> responses s3 b \<noteq> None"
    using s2(5) s3(2) unfolding prepared_ok_def works_def by (metis bw_heap.simps)+
  moreover have "?fail = None \<longrightarrow> p_response_state p \<noteq> None"
    using s2(5) by (auto simp: request_failure_def failure_def prepared_ok_def split: if_splits)
  moreover have "\<forall>t x. trans s t = Some x \<longrightarrow> trans s3 t = Some x" using k2 s3(2) by (simp add: net_keeps_def works_def)
  ultimately show ?thesis using s3(2-4) by (auto simp: works_def)
qed


section \<open>Who reaches a handler\<close>

lemma alloc_response_tree:
  assumes "oc_blockwise_alloc_response_buffer s hr endpoint meth role = Some (s', r)"
  shows "same_tree s s'"
proof -
  have drawn: "same_tree s (fst (etag_loop s x tag i))" for s x tag i
  proof (induction s x tag i rule: etag_loop.induct)
    case (1 s x tag i)
    show ?case
    proof (cases "i > 0")
      case True
      from 1 [OF True refl refl, of "fst (net_random s)" "snd (net_random s)"] show ?thesis using True
        by (subst etag_loop.simps) (simp add: net_random_def same_tree_def Let_def)
    qed (subst etag_loop.simps; simp)
  qed
  have init: "same_tree s (fst (oc_blockwise_init_buffer Response s hr endpoint meth role))"
    by (auto simp: oc_blockwise_init_buffer_def same_tree_def split: prod.split option.split)
  show ?thesis
  proof (cases "oc_blockwise_init_buffer Response s hr endpoint meth role")
    case (Pair s1 a)
    show ?thesis
    proof (cases a)
      case None
      then show ?thesis using assms Pair init by (simp add: oc_blockwise_alloc_response_buffer_def)
    next
      case (Some b)
      obtain s2 y where r: "net_random s1 = (s2, y)" by fastforce
      obtain x where x: "responses s1 b = Some x"
        using assms Pair Some by (cases "responses s1 b") (simp_all add: oc_blockwise_alloc_response_buffer_def)
      obtain s3 tag where e: "etag_loop s2 y (betag x) (int COAP_ETAG_LEN) = (s3, tag)" by fastforce
      have st: "net_random s1 = (s2, y)" "etag_loop s2 y (betag x) (int COAP_ETAG_LEN) = (s3, tag)" using r e .
      obtain s4 where s4: "oc_ri_add_timed_event_callback_ticks (s3\<lparr>responses := (responses s3)(b \<mapsto> x\<lparr>betag := tag, bobserve_seq := - 1\<rparr>)\<rparr>)
           b Oc_blockwise_response_timeout (OC_EXCHANGE_LIFETIME * OC_CLOCK_SECOND) = Some s4" "s' = add_to_list Response s4 b"
        using assms Pair Some r x e
        by (auto simp: oc_blockwise_alloc_response_buffer_def oc_ri_add_timed_event_callback_seconds_def bind_eq_Some_conv)
      have "same_tree s1 s2" using st(1) by (auto simp: net_random_def same_tree_def)
      moreover have "same_tree s2 s3" using drawn [of s2 y "betag x" "int COAP_ETAG_LEN"] st(2) by simp
      moreover have "same_tree s4 s'" by (simp add: s4(2) add_to_list_def same_tree_def)
      ultimately show ?thesis using add_timed_tree [OF s4(1)] init Pair by (simp add: same_tree_def)
    qed
  qed
qed

lemma response_buffer_tree:
  assumes "response_buffer_for s ur len query endpoint c rst = Some (s', b)"
  shows "same_tree s s'"
proof -
  from assms obtain p s1 r where s1: "oc_blockwise_alloc_response_buffer s (take len p) endpoint c OC_BLOCKWISE_SERVER = Some (s1, r)"
    "r = None \<and> s' = s1 \<or> (\<exists>h. s' = s1\<lparr>responses := h\<rparr>)"
    by (fastforce simp: response_buffer_for_def bind_eq_Some_conv split: option.split_asm)
  then show ?thesis using alloc_response_tree [OF s1(1)] by (auto simp: same_tree_def)
qed

text \<open>A request that can be handled was found, and its interface allows it.\<close>

lemma prepare_valid:
  assumes p: "prepare_request sv s rx req rq rst endpoint = Some (s', p)" and cur: "p_cur p = Some r" and ok: "\<not> p_bad_request p"
  shows "find_resource s (request_path rx req) (fst (coap_get_header_uri_path req)) (edevice endpoint) = Some (Some r, p_is_collection p)"
    and "p_iface_mask p = chosen_interface (request_query rx req) (net.resources s r)"
    and "interface_allows (p_iface_mask p) (net.resources s r) (method_of_code (code req))" and "same_tree s s'"
proof -
  obtain s1 rq1 rep where s1: "read_payload sv s rq = Some (s1, rq1, rep)"
    using p by (auto simp: prepare_request_def bind_eq_Some_conv Let_def)
  have t: "same_tree s s1" by (rule read_payload_tree [OF s1])
  then have res: "net.resources s1 = net.resources s" by (simp add: same_tree_def)
  show "find_resource s (request_path rx req) (fst (coap_get_header_uri_path req)) (edevice endpoint) = Some (Some r, p_is_collection p)"
    and "p_iface_mask p = chosen_interface (request_query rx req) (net.resources s r)"
    and "interface_allows (p_iface_mask p) (net.resources s r) (method_of_code (code req))" and "same_tree s s'"
    using p s1 cur ok same_tree_lookup [OF t] response_buffer_tree [of s1] same_tree_trans [OF t]
    by (auto simp: prepare_request_def bind_eq_Some_conv Let_def res split: rep_result.splits option.splits if_splits)
qed

text \<open>Whether the access control list grants a request to a resource over an interface.\<close>

definition granted :: "services \<Rightarrow> net \<Rightarrow> coap_packet \<Rightarrow> addr \<Rightarrow> u32 \<Rightarrow> oc_endpoint \<Rightarrow> bool" where
  "granted sv s req r iface_mask endpoint \<longleftrightarrow>
     fst (oc_sec_check_acl (cred_valid sv) (security s) (method_of_code (code req))
       (oc_resource.truncate (net.resources s r)) iface_mask endpoint)"

lemma dispatch_denied:
  assumes "\<not> fst (oc_sec_check_acl (cred_valid sv) (security s) meth (oc_resource.truncate (net.resources s r)) i (rq_origin rq))"
  shows "dispatch (sv\<lparr>invoke := f, oc_handle_collection_request := g\<rparr>) s meth r c i rq ro = dispatch sv s meth r c i rq ro"
  using assms by (auto simp: dispatch_def split: prod.split)

lemma prepare_services [simp]:
  "prepare_request (sv\<lparr>invoke := f, oc_handle_collection_request := g\<rparr>) s rx req rq rst endpoint = prepare_request sv s rx req rq rst endpoint"
proof -
  have "read_payload (sv\<lparr>invoke := f, oc_handle_collection_request := g\<rparr>) s rq = read_payload sv s rq" for s
    by (simp add: read_payload_def cong: option.case_cong if_cong)
  then show ?thesis by (simp add: prepare_request_def)
qed

lemma run_handler_denied:
  assumes "\<And>r. p_cur p = Some r \<Longrightarrow> \<not> p_bad_request p \<Longrightarrow> \<not> granted sv s req r (p_iface_mask p) endpoint"
  shows "run_handler (sv\<lparr>invoke := f, oc_handle_collection_request := g\<rparr>) s req p endpoint = run_handler sv s req p endpoint"
proof (cases "p_cur p = None \<or> p_bad_request p")
  case True
  then show ?thesis by (cases "p_cur p") (simp_all add: run_handler_def)
next
  case False
  then obtain r where r: "p_cur p = Some r" "\<not> p_bad_request p" by auto
  then show ?thesis using assms [OF r] by (simp add: run_handler_def granted_def dispatch_denied)
qed


section \<open>Properties\<close>

lemma outcome_by_handler:
  assumes "oc_ri_invoke_coap_entity_handler (sv\<lparr>invoke := f, oc_handle_collection_request := g\<rparr>) s rx req res rq rst b2 d st \<noteq>
     oc_ri_invoke_coap_entity_handler sv s rx req res rq rst b2 d st"
  shows "\<exists>m r c. msgs s d = Some m \<and>
     find_resource s (request_path rx req) (fst (coap_get_header_uri_path req)) (edevice (mendpoint m)) = Some (Some r, c) \<and>
     (let iface_mask = chosen_interface (request_query rx req) (net.resources s r)
      in interface_allows iface_mask (net.resources s r) (method_of_code (code req)) \<and>
         granted sv s req r iface_mask (request_endpoint req (mendpoint m)))"
proof -
  obtain m where m: "msgs s d = Some m"
    using assms by (cases "msgs s d") (simp_all add: oc_ri_invoke_coap_entity_handler_def)
  let ?ep = "request_endpoint req (mendpoint m)"
  let ?s0 = "set_msg s d (m\<lparr>mendpoint := ?ep\<rparr>)"
  have t0: "same_tree s ?s0" by (simp add: same_tree_def set_msg_def)
  have "prepare_request sv ?s0 rx req rq rst ?ep \<noteq> None"
    by (rule notI) (use assms m in \<open>simp add: oc_ri_invoke_coap_entity_handler_def Let_def\<close>)
  then obtain s1 p where p: "prepare_request sv ?s0 rx req rq rst ?ep = Some (s1, p)" by auto
  have "run_handler (sv\<lparr>invoke := f, oc_handle_collection_request := g\<rparr>) s1 req p ?ep \<noteq> run_handler sv s1 req p ?ep"
    using assms m p by (auto simp: oc_ri_invoke_coap_entity_handler_def Let_def)
  then obtain r where r: "p_cur p = Some r" "\<not> p_bad_request p" "granted sv s1 req r (p_iface_mask p) ?ep"
    using run_handler_denied by blast
  note v = prepare_valid [OF p r(1,2)]
  have "same_tree s s1" by (rule same_tree_trans [OF t0 v(4)])
  then have same: "net.resources s1 = net.resources s" "security s1 = security s" "net.resources ?s0 = net.resources s"
    using t0 by (simp_all add: same_tree_def)
  have "find_resource s (request_path rx req) (fst (coap_get_header_uri_path req)) (edevice (mendpoint m)) = Some (Some r, p_is_collection p)"
    using v(1) same_tree_lookup [OF t0] by simp
  then show ?thesis using m r(3) v(2,3) same by (auto simp: Let_def granted_def)
qed

text \<open>C6: What the handlers of the application and of collections do has an influence on the outcome of a
  request only when the path of the request names a resource, the interface it selects is one of
  the resource and allows the request, and the access control list grants the request to the
  requester.\<close>

theorem oc_ri_handler_needs_grant:
  "oc_ri_invoke_coap_entity_handler (sv\<lparr>invoke := f, oc_handle_collection_request := g\<rparr>) s rx req res rq rst b2 d st =
     oc_ri_invoke_coap_entity_handler sv s rx req res rq rst b2 d st \<or>
   (\<exists>m r c. msgs s d = Some m \<and>
       find_resource s (request_path rx req) (fst (coap_get_header_uri_path req)) (edevice (mendpoint m)) = Some (Some r, c) \<and>
       (let iface_mask = chosen_interface (request_query rx req) (net.resources s r)
        in interface_allows iface_mask (net.resources s r) (method_of_code (code req)) \<and>
           granted sv s req r iface_mask (request_endpoint req (mendpoint m))))"
  using outcome_by_handler by blast

end
