(* ===== verification/Net_Response.thy ===== *)
theory Net_Response
  imports Net_Request_Inv
begin

text \<open>
  The client side of the resource layer: \<open>oc_ri_invoke_client_cb\<close> of \<open>src/api/oc_ri.c\<close> hands a response
  to the callback of its request and decides whether the callback stays.
\<close>

section \<open>Operations\<close>

text \<open>The loop \<open>while (oc_ri_remove_client_cb_by_mid(mid))\<close>; every pass takes a callback off the list,
  so the length of the list and one more pass are enough.\<close>

primrec remove_cbs_loop :: "nat \<Rightarrow> net \<Rightarrow> u16 \<Rightarrow> net option" where
  "remove_cbs_loop 0 s m = None"
| "remove_cbs_loop (Suc k) s m = do {
     (s, removed) \<leftarrow> oc_ri_remove_client_cb_by_mid s m;
     if removed then remove_cbs_loop k s m else Some s
   }"

definition remove_cbs :: "net \<Rightarrow> u16 \<Rightarrow> net option" where
  "remove_cbs s m = remove_cbs_loop (Suc (length (client_cbs s))) s m"

definition all_status :: "oc_status list" where
  "all_status = [OC_STATUS_OK, OC_STATUS_CREATED, OC_STATUS_CHANGED, OC_STATUS_DELETED, OC_STATUS_NOT_MODIFIED,
     OC_STATUS_BAD_REQUEST, OC_STATUS_UNAUTHORIZED, OC_STATUS_BAD_OPTION, OC_STATUS_FORBIDDEN, OC_STATUS_NOT_FOUND,
     OC_STATUS_METHOD_NOT_ALLOWED, OC_STATUS_NOT_ACCEPTABLE, OC_STATUS_REQUEST_ENTITY_TOO_LARGE,
     OC_STATUS_UNSUPPORTED_MEDIA_TYPE, OC_STATUS_INTERNAL_SERVER_ERROR, OC_STATUS_NOT_IMPLEMENTED,
     OC_STATUS_BAD_GATEWAY, OC_STATUS_SERVICE_UNAVAILABLE, OC_STATUS_GATEWAY_TIMEOUT, OC_STATUS_PROXYING_NOT_SUPPORTED]"

text \<open>The status of a response code; a code outside the table leaves the zeroed member.\<close>

definition client_status :: "u8 \<Rightarrow> oc_status" where
  "client_status c = (case find (\<lambda>k. oc_status_code k = uint c) all_status of Some k \<Rightarrow> k | None \<Rightarrow> OC_STATUS_OK)"

text \<open>An older observation of the same path at the same endpoint.\<close>

definition same_observation :: "services \<Rightarrow> addr \<Rightarrow> oc_client_cb \<Rightarrow> oc_endpoint \<Rightarrow> addr \<Rightarrow> oc_client_cb \<Rightarrow> bool" where
  "same_observation sv cb c endpoint dup x \<longleftrightarrow> dup \<noteq> cb \<and> cobserve_seq x \<noteq> - 1 \<and> length (curi x) = length (curi c) \<and>
     strncmp_eq (curi x @ [0]) (curi c @ [0]) (length (curi c)) \<and> oc_endpoint_compare (endpoint_at sv (cendpoint x)) endpoint = 0"

primrec find_dup :: "services \<Rightarrow> net \<Rightarrow> addr \<Rightarrow> oc_client_cb \<Rightarrow> oc_endpoint \<Rightarrow> addr list \<Rightarrow> addr option option" where
  "find_dup sv s cb c endpoint [] = Some None"
| "find_dup sv s cb c endpoint (a # as) = do {
     x \<leftarrow> ccbs s a;
     if same_observation sv cb c endpoint a x then Some (Some a) else find_dup sv s cb c endpoint as
   }"

text \<open>What stays of the callback after its handler ran; the result is the state and the response
  buffer the engine goes on with.\<close>

definition settle_client_cb ::
  "services \<Rightarrow> net \<Rightarrow> addr \<Rightarrow> int \<Rightarrow> bool \<Rightarrow> oc_endpoint \<Rightarrow> addr option \<Rightarrow> (net \<times> addr option) option" where
  "settle_client_cb sv s cb observe_option separate endpoint response_state = do {
     c \<leftarrow> ccbs s cb;
     if observe_option = - 1 \<and> \<not> separate \<and> \<not> cdiscovery c then do {
       s \<leftarrow> (if cmulticast c then
              if cstop_multicast_receive c then remove_cbs s (cmid c) else Some s
            else do {
              s \<leftarrow> oc_ri_remove_timed_event_callback s cb Oc_ri_remove_client_cb;
              free_client_cb s cb
            });
       Some (s, None)
     }
     else do {
       let s = s\<lparr>ccbs := (ccbs s)(cb \<mapsto> c\<lparr>cobserve_seq := observe_option\<rparr>)\<rparr>;
       s \<leftarrow> (if observe_option = 0 then do {
              dup \<leftarrow> find_dup sv s cb c endpoint (client_cbs s);
              case dup of
                None \<Rightarrow> Some s
              | Some a \<Rightarrow> do {
                  s \<leftarrow> oc_ri_remove_timed_event_callback s a Oc_ri_remove_client_cb;
                  free_client_cb s a
                }
            } else Some s);
       Some (s, response_state)
     }
   }"

text \<open>\<open>response_state\<close> is the pointer the engine passes by reference: the source reads through it
  without a test, so without a response buffer there is no defined behaviour.\<close>

definition oc_ri_invoke_client_cb ::
  "services \<Rightarrow> net \<Rightarrow> coap_packet \<Rightarrow> addr option \<Rightarrow> addr \<Rightarrow> addr \<Rightarrow> (net \<times> addr option) option" where
  "oc_ri_invoke_client_cb sv s pkt response_state cb d = do {
     m \<leftarrow> msgs s d;
     let endpoint = (mendpoint m)\<lparr>ep_version :=
       (if coap_get_header_content_format pkt = (1, Some (ucast APPLICATION_CBOR)) then OIC_VER_1_1_0 else OCF_VER_1_0_0)\<rparr>;
     let s = set_msg s d (m\<lparr>mendpoint := endpoint\<rparr>);
     c \<leftarrow> ccbs s cb;
     b \<leftarrow> response_state;
     x \<leftarrow> responses s b;
     let cr = \<lparr>cr_client_cb = cb, cr_endpoint = endpoint, cr_observe_option = bobserve_seq x, cr_payload = [],
       cr_user_data = cuser_data c, cr_code = client_status (code pkt)\<rparr>;
     bs \<leftarrow> rd_slice (buffer x) 0 (unat (payload_size x));
     let separate = (payload_size x = 0 \<and> type pkt = COAP_TYPE_ACK \<and> code pkt = 0);
     (s, stop) \<leftarrow> (if payload_size x \<noteq> 0 then
         if cdiscovery c then oc_ri_process_discovery_payload sv (chandler c) s bs endpoint (cuser_data c)
         else (case oc_parse_rep sv bs of
                 Parsed t \<Rightarrow> do { s \<leftarrow> response_handler sv (chandler c) s (cr\<lparr>cr_payload := t\<rparr>); Some (s, False) }
               | _ \<Rightarrow> Some (s, False))
       else if separate \<or> cdiscovery c then Some (s, False)
       else do { s \<leftarrow> response_handler sv (chandler c) s cr; Some (s, False) });
     if stop then do { c \<leftarrow> ccbs s cb; s \<leftarrow> remove_cbs s (cmid c); Some (s, None) }
     else do {
       s \<leftarrow> (if code pkt = PONG_7_03 then oc_ri_remove_timed_event_callback s cb Oc_remove_ping_handler else Some s);
       settle_client_cb sv s cb (bobserve_seq x) separate endpoint response_state
     }
   }"

end
