(* ===== verification/Coap_Parsed.thy ===== *)
theory Coap_Parsed
  imports Coap_Parse_Safe
begin

text \<open>
  What the receiver may rely on: a packet that the parsers of \<open>src/messaging/coap/coap.c\<close> accept is
  well formed. Its token fits its array, and its path, query and payload lie inside the receive
  buffer.
\<close>

section \<open>Well-formed packets\<close>

definition payload_in :: "coap_packet \<Rightarrow> nat \<Rightarrow> bool" where
  "payload_in pkt n \<longleftrightarrow> (case payload pkt of
     Null \<Rightarrow> payload_len pkt = 0 | Buf p \<Rightarrow> p + unat (payload_len pkt) \<le> n | Obj _ \<Rightarrow> False)"

definition parsed_ok :: "nat \<Rightarrow> coap_packet \<Rightarrow> bool" where
  "parsed_ok n pkt \<longleftrightarrow> unat (token_len pkt) \<le> COAP_TOKEN_LEN \<and> length (token pkt) = COAP_TOKEN_LEN \<and>
     custody pkt \<le> 1 \<and> str_in (uri_path pkt) (uri_path_len pkt) n \<and> str_in (uri_query pkt) (uri_query_len pkt) n \<and>
     payload_in pkt n"

text \<open>The members that the option loop never changes, and those that options do not change.\<close>

definition head_of where
  "head_of p = (transport_type p, version p, type p, code p, mid p, token_len p, token p)"

definition body_of where
  "body_of p = (payload p, payload_len p, custody p)"

lemma set_option_head [simp]: "head_of (SET_OPTION p n) = head_of p" "body_of (SET_OPTION p n) = body_of p"
  by (simp_all add: head_of_def body_of_def SET_OPTION_def)

lemma parse_option_value_head:
  "parse_option_value pkt mem num cur len = Some (st, pkt', mem') \<Longrightarrow> head_of pkt' = head_of pkt \<and> body_of pkt' = body_of pkt"
  unfolding parse_option_value_def Let_def
  by (auto simp: head_of_def body_of_def bind_eq_Some_conv block_fields_def split: if_splits prod.split_asm)

lemma coap_parse_signal_options_head:
  "coap_parse_signal_options pkt mem num cur len = Some (st, pkt') \<Longrightarrow>
   head_of pkt' = head_of pkt \<and> payload pkt' = payload pkt \<and> payload_len pkt' = payload_len pkt \<and>
   (custody pkt \<le> 1 \<longrightarrow> custody pkt' \<le> 1)"
  by (auto simp: coap_parse_signal_options_def head_of_def bind_eq_Some_conv split: if_splits)

text \<open>What holds between two passes of the option loop.\<close>

definition loop_ok :: "coap_packet \<Rightarrow> nat \<Rightarrow> bool" where
  "loop_ok pkt cur \<longleftrightarrow> parse_inv pkt cur \<and> custody pkt \<le> 1 \<and> payload pkt = Null \<and> payload_len pkt = 0"

definition result_ok :: "coap_packet \<Rightarrow> nat \<Rightarrow> coap_packet \<Rightarrow> bool" where
  "result_ok pkt n pkt' \<longleftrightarrow> head_of pkt' = head_of pkt \<and> parse_inv pkt' n \<and> custody pkt' \<le> 1 \<and> payload_in pkt' n"

definition step_ok :: "coap_packet \<Rightarrow> nat \<Rightarrow> parse_step \<Rightarrow> bool" where
  "step_ok pkt n r = (case r of
     Return st pkt' mem' \<Rightarrow> result_ok pkt n pkt'
   | Continue pkt' mem' num' cur' \<Rightarrow> cur' \<le> n \<and> head_of pkt' = head_of pkt \<and> loop_ok pkt' cur')"

lemma result_ok_same:
  "head_of p = head_of pkt \<Longrightarrow> body_of p = body_of pkt \<Longrightarrow> parse_inv p n \<Longrightarrow> loop_ok pkt c \<Longrightarrow> result_ok pkt n p"
  by (simp add: result_ok_def loop_ok_def body_of_def payload_in_def)

lemma parse_option_payload:
  assumes b: "rd mem cur = Some b" "b AND 0xF0 = 0xF0" and cur: "cur < data_len" and inv: "loop_ok pkt cur"
    and n: "data_len < 2 ^ 32" and r: "parse_option pkt mem data_len num cur = Some r"
  shows "step_ok pkt data_len r"
proof -
  define n where "n = (if transport_type pkt = COAP_TRANSPORT_UDP \<and> data_len - (cur + 1) > OC_BLOCK_SIZE
     then OC_BLOCK_SIZE else data_len - (cur + 1))"
  have n': "cur + 1 + n \<le> data_len" using cur by (auto simp: n_def)
  have "unat (of_nat n :: u32) = n" using n' n by (simp add: unat_of_nat_u32)
  moreover have "\<exists>m. r = Return COAP_NO_ERROR (pkt\<lparr>payload := Buf (cur + 1), payload_len := of_nat n\<rparr>) m"
    using r unfolding parse_option_def Let_def b(1) bind.bind_lunit if_P [OF b(2)] n_def [symmetric]
    by (auto simp: bind_eq_Some_conv)
  moreover have "parse_inv pkt data_len" using inv cur parse_inv_mono [of pkt cur data_len] by (simp add: loop_ok_def)
  ultimately show ?thesis using n' inv
    by (auto simp: step_ok_def result_ok_def payload_in_def head_of_def loop_ok_def parse_inv_def)
qed

lemma parse_option_step:
  assumes cur: "cur < data_len" and len: "data_len + 4 \<le> length mem" and n: "data_len < 2 ^ 32" and inv: "loop_ok pkt cur"
    and r: "parse_option pkt mem data_len num cur = Some r"
  shows "step_ok pkt data_len r"
proof -
  obtain b where b: "rd mem cur = Some b" using cur len by (simp add: rd_def)
  show ?thesis
  proof (cases "b AND 0xF0 = 0xF0")
    case True
    with parse_option_payload [OF b _ cur inv n r] show ?thesis by simp
  next
    case False
    obtain d c1 where d: "read_ext mem (unat (drop_bit 4 b)) (cur + 1) = Some (d, c1)"
      "cur + 1 \<le> c1" "c1 \<le> cur + 3"
      using read_ext_safe [of "cur + 1" mem] cur len by fastforce
    obtain l c2 where l: "read_ext mem (unat (b AND 0x0F)) c1 = Some (l, c2)" "c1 \<le> c2"
      using read_ext_safe [of c1 mem] cur len d by fastforce
    let ?num = "num + of_nat d"
    define p where "p = (if ?num \<le> COAP_OPTION_SIZE1 then SET_OPTION pkt ?num else pkt)"
    have p: "head_of p = head_of pkt" "body_of p = body_of pkt" by (simp_all add: p_def)
    have inv_p: "parse_inv p cur" using inv by (simp add: p_def loop_ok_def)
    have step: "parse_option pkt mem data_len num cur =
      (if c2 + l > data_len then Some (Return BAD_OPTION_4_02 p mem)
       else if coap_check_signal_message p then do {
         (ignored, p) \<leftarrow> coap_parse_signal_options p mem ?num c2 l;
         Some (Continue p mem ?num (c2 + l))
       }
       else do {
         (st, p, m) \<leftarrow> parse_option_value p mem ?num c2 l;
         if st \<noteq> COAP_NO_ERROR then Some (Return st p m)
         else Some (Continue p m ?num (c2 + l))
       })"
      using False b d l by (simp add: parse_option_def p_def Let_def)
    consider (long) "c2 + l > data_len"
      | (signal) "c2 + l \<le> data_len" "coap_check_signal_message p"
      | (normal) "c2 + l \<le> data_len" "\<not> coap_check_signal_message p" by linarith
    then show ?thesis
    proof cases
      case long
      have "parse_inv p data_len" using parse_inv_mono [OF inv_p] cur by simp
      with result_ok_same [OF p _ inv] r step long show ?thesis by (auto simp: step_ok_def)
    next
      case signal
      obtain st p' where s: "coap_parse_signal_options p mem ?num c2 l = Some (st, p')"
        "uri_path p' = uri_path p" "uri_path_len p' = uri_path_len p"
        "uri_query p' = uri_query p" "uri_query_len p' = uri_query_len p"
        using coap_parse_signal_options_safe [of c2 l mem p ?num] signal len by auto
      then have "parse_inv p' (c2 + l)"
        using parse_inv_mono [OF inv_p, of "c2 + l"] d l by (simp cong: parse_inv_cong)
      moreover note coap_parse_signal_options_head [OF s(1)]
      ultimately show ?thesis using r step s(1) signal p inv
        by (auto simp: step_ok_def loop_ok_def body_of_def)
    next
      case normal
      obtain st p' m' where s: "parse_option_value p mem ?num c2 l = Some (st, p', m')" "parse_inv p' (c2 + l)"
        using parse_option_value_safe [OF inv_p, of c2 l mem ?num] normal len d l by auto
      have "parse_inv p' data_len" using parse_inv_mono [OF s(2)] normal by simp
      moreover note parse_option_value_head [OF s(1)]
      ultimately show ?thesis using r step s normal p inv result_ok_same [of p' pkt data_len cur]
        by (auto simp: step_ok_def loop_ok_def body_of_def split: if_splits)
    qed
  qed
qed

lemma parse_options_result:
  "data_len + 4 \<le> length mem \<Longrightarrow> data_len < 2 ^ 32 \<Longrightarrow> loop_ok pkt cur \<Longrightarrow> cur \<le> n \<Longrightarrow> data_len \<le> n \<Longrightarrow>
   parse_options pkt mem data_len num cur = Some (st, pkt', mem') \<Longrightarrow> result_ok pkt n pkt'"
proof (induction pkt mem data_len num cur rule: parse_options.induct)
  case (1 pkt mem data_len num cur)
  show ?case
  proof (cases "cur < data_len")
    case True
    obtain r where r: "parse_option pkt mem data_len num cur = Some r" "step_safe mem data_len cur r"
      using parse_option_safe [OF True "1.prems"(1)] "1.prems"(3) by (auto simp: loop_ok_def)
    note ok = parse_option_step [OF True "1.prems"(1,2,3) r(1)]
    show ?thesis
    proof (cases r)
      case (Return st' p m)
      with "1.prems"(6) r(1) True have "p = pkt'" by (subst (asm) parse_options.simps) simp
      with ok Return "1.prems"(5) show ?thesis
        by (auto simp: step_ok_def result_ok_def payload_in_def intro: parse_inv_mono split: cptr.splits)
    next
      case (Continue p m k c)
      with "1.prems"(6) r(1) True have "parse_options p m data_len k c = Some (st, pkt', mem')"
        by (subst (asm) parse_options.simps) simp
      moreover have "loop_ok p c" "c \<le> n" "length m = length mem" "head_of p = head_of pkt"
        using ok r(2) Continue "1.prems"(5) by (auto simp: step_ok_def step_safe_def)
      ultimately have "result_ok p n pkt'" using "1.IH" [OF True r(1) Continue] "1.prems" by simp
      with \<open>head_of p = head_of pkt\<close> show ?thesis by (simp add: result_ok_def)
    qed
  next
    case False
    with "1.prems"(6) have "pkt' = pkt" by (subst (asm) parse_options.simps) simp
    with "1.prems"(3,4) show ?thesis
      by (auto simp: result_ok_def loop_ok_def payload_in_def intro: parse_inv_mono)
  qed
qed

text \<open>The common end of both parsers.\<close>

lemma token_option_result:
  assumes "data_len + 4 \<le> length mem" and "data_len < 2 ^ 32" and "cur + unat (token_len pkt) \<le> length mem"
    and "unat (token_len pkt) \<le> COAP_TOKEN_LEN" and "length (token pkt) = COAP_TOKEN_LEN"
    and "uri_path_len pkt = 0" "uri_query_len pkt = 0" "custody pkt = 0" "payload pkt = Null" "payload_len pkt = 0"
    and "coap_parse_token_option pkt mem data_len cur = Some (st, pkt', mem')"
  shows "parsed_ok (length mem) pkt'" and "transport_type pkt' = transport_type pkt" and "mid pkt' = mid pkt"
    and "code pkt' = code pkt" and "type pkt' = type pkt"
proof -
  define p where "p = pkt\<lparr>token := splice 0 (take (unat (token_len pkt)) (drop cur mem)) (token pkt),
                options := replicate 8 0\<rparr>"
  have "loop_ok p (cur + unat (token_len pkt))" using assms by (simp add: p_def loop_ok_def parse_inv_def str_in_def)
  moreover have "parse_options p mem data_len 0 (cur + unat (token_len pkt)) = Some (st, pkt', mem')"
    using assms(3,11) by (simp add: coap_parse_token_option_def rd_slice_def p_def)
  ultimately have r: "result_ok p (length mem) pkt'" using assms(1,2,3) by (intro parse_options_result) auto
  have "length (token p) = COAP_TOKEN_LEN" "token_len p = token_len pkt" using assms(3,4,5) by (simp_all add: p_def)
  with r assms(4) show "parsed_ok (length mem) pkt'"
    by (simp add: parsed_ok_def result_ok_def head_of_def parse_inv_def)
  show "transport_type pkt' = transport_type pkt" "mid pkt' = mid pkt" "code pkt' = code pkt" "type pkt' = type pkt"
    using r by (simp_all add: result_ok_def head_of_def p_def)
qed

lemma zero_packet_blank [simp]: "custody zero_packet = 0" "payload zero_packet = Null" "payload_len zero_packet = 0"
  "length (token zero_packet) = COAP_TOKEN_LEN"
  by (simp_all add: zero_packet_def)

lemma udp_parse_result:
  assumes "unat data_len + 4 \<le> length mem" and "12 \<le> length mem"
    and "coap_udp_parse_message mem data_len = Some (COAP_NO_ERROR, pkt, mem')"
  shows "parsed_ok (length mem) pkt \<and> transport_type pkt = COAP_TRANSPORT_UDP"
proof -
  define p where "p = zero_packet\<lparr>transport_type := COAP_TRANSPORT_UDP, version := drop_bit 6 (0xC0 AND mem ! 0),
    type := type_of_code (drop_bit 4 (0x30 AND mem ! 0)), token_len := drop_bit 0 (0x0F AND mem ! 0), code := mem ! 1,
    mid := push_bit 8 (ucast (mem ! 2)) OR ucast (mem ! 3)\<rparr>"
  have rd: "rd mem i = Some (mem ! i)" if "i < 12" for i using assms(2) that by (simp add: rd_def)
  have eq: "coap_udp_parse_message mem data_len =
      (if version p \<noteq> 1 then Some (BAD_REQUEST_4_00, p, mem)
       else if unat (token_len p) > COAP_TOKEN_LEN then Some (BAD_REQUEST_4_00, p, mem)
       else coap_parse_token_option p mem (unat data_len) COAP_HEADER_LEN)"
    by (simp add: coap_udp_parse_message_def rd Let_def p_def)
  with assms(3) have ok: "unat (token_len p) \<le> COAP_TOKEN_LEN"
    "coap_parse_token_option p mem (unat data_len) COAP_HEADER_LEN = Some (COAP_NO_ERROR, pkt, mem')"
    by (auto split: if_splits)
  have small: "unat data_len < 2 ^ 32" using unat_u16_less [of data_len] by (simp del: unat_u16_less)
  have cur: "COAP_HEADER_LEN + unat (token_len p) \<le> length mem" using ok(1) assms(2) by simp
  note res = token_option_result [OF assms(1) small cur ok(1) _ _ _ _ _ _ ok(2)]
  show ?thesis using res(1,2) by (simp add: p_def)
qed

lemma tcp_parse_result:
  assumes "unat data_len + 4 \<le> length mem" and "14 \<le> length mem"
    and "coap_tcp_parse_message mem data_len = Some (COAP_NO_ERROR, pkt, mem')"
  shows "parsed_ok (length mem) pkt \<and> transport_type pkt = COAP_TRANSPORT_TCP \<and> type pkt = COAP_TYPE_NON"
proof -
  obtain v n where v: "coap_tcp_parse_message_length mem = Some (v, n)" "unat n \<le> 4"
    using coap_tcp_parse_message_length_safe [of mem] assms(2) by auto
  define p where "p = zero_packet\<lparr>transport_type := COAP_TRANSPORT_TCP, type := COAP_TYPE_NON, mid := 0,
    token_len := drop_bit 0 (0x0F AND mem ! 0), code := mem ! (1 + unat n)\<rparr>"
  have rd: "rd mem i = Some (mem ! i)" if "i < 12" for i using assms(2) that by (simp add: rd_def)
  have eq: "coap_tcp_parse_message mem data_len =
      (if unat (token_len p) > COAP_TOKEN_LEN then Some (BAD_REQUEST_4_00, p, mem)
       else coap_parse_token_option p mem (unat data_len) (COAP_TCP_DEFAULT_HEADER_LEN + unat n))"
    using v by (simp add: coap_tcp_parse_message_def rd Let_def p_def)
  with assms(3) have ok: "unat (token_len p) \<le> COAP_TOKEN_LEN"
    "coap_parse_token_option p mem (unat data_len) (COAP_TCP_DEFAULT_HEADER_LEN + unat n) = Some (COAP_NO_ERROR, pkt, mem')"
    by (auto split: if_splits)
  have small: "unat data_len < 2 ^ 32" by simp
  have cur: "COAP_TCP_DEFAULT_HEADER_LEN + unat n + unat (token_len p) \<le> length mem" using ok(1) assms(2) v(2) by simp
  note res = token_option_result [OF assms(1) small cur ok(1) _ _ _ _ _ _ ok(2)]
  show ?thesis using res(1,2,5) by (simp add: p_def)
qed

section \<open>Properties\<close>

text \<open>C29: Whatever bytes arrive, the packet a parser accepts is well formed: the token fits its
  array, and path, query and payload lie inside the receive buffer.\<close>

theorem coap_parsed_packet_ok:
  assumes "unat n + 4 \<le> length mem" and "unat m + 4 \<le> length mem" and "14 \<le> length mem"
  shows "(coap_udp_parse_message mem n = Some (COAP_NO_ERROR, pkt, mem') \<longrightarrow>
       parsed_ok (length mem) pkt \<and> transport_type pkt = COAP_TRANSPORT_UDP) \<and>
     (coap_tcp_parse_message mem m = Some (COAP_NO_ERROR, pkt, mem') \<longrightarrow>
       parsed_ok (length mem) pkt \<and> transport_type pkt = COAP_TRANSPORT_TCP \<and> type pkt = COAP_TYPE_NON)"
  using udp_parse_result [OF assms(1)] tcp_parse_result [OF assms(2,3)] assms(3) by auto

definition get_datagram :: bytes where
  "get_datagram = [0x40, 1, 0, 7, 0xFF, 0x2A, 0, 0, 0, 0, 0, 0, 0, 0, 0, 0]"

theorem coap_parsed_packet_ok_witness:
  "\<exists>pkt mem'. coap_udp_parse_message get_datagram 6 = Some (COAP_NO_ERROR, pkt, mem') \<and>
     parsed_ok (length get_datagram) pkt \<and> payload pkt = Buf 5 \<and> payload_len pkt = 1"
proof -
  have "parse_options p get_datagram 6 0 4 = Some (COAP_NO_ERROR, p\<lparr>payload := Buf 5, payload_len := 1\<rparr>, get_datagram)" for p
    by (subst parse_options.simps) (simp add: get_datagram_def parse_option_def rd_def wr_mem_def Let_def OC_BLOCK_SIZE_val)
  then obtain pkt mem' where p: "coap_udp_parse_message get_datagram 6 = Some (COAP_NO_ERROR, pkt, mem')"
    "payload pkt = Buf 5" "payload_len pkt = 1"
    by (simp add: get_datagram_def coap_udp_parse_message_def coap_parse_token_option_def rd_def rd_slice_def Let_def)
  moreover have "length get_datagram = 16" by (simp add: get_datagram_def)
  ultimately show ?thesis using coap_parsed_packet_ok [of 6 get_datagram 6 pkt mem'] by auto
qed

end
