(* ===== verification/Net_Engine.thy ===== *)
theory Net_Engine
  imports Net_Response Coap_Parsed
begin

text \<open>
  The CoAP engine, \<open>src/messaging/coap/engine.c\<close>: \<open>coap_receive\<close> parses a message, clears the
  transaction it answers, and runs a request through the block-wise buffers and the resource layer
  or a response through the buffers of the client; \<open>coap_engine\<close> is its process. The targets of the
  jumps in \<open>coap_receive\<close> are the labels of the source.
\<close>

section \<open>Duplicate requests\<close>

definition OC_REQUEST_HISTORY_SIZE :: nat where
  "OC_REQUEST_HISTORY_SIZE = 250"

definition check_if_duplicate :: "net \<Rightarrow> u16 \<Rightarrow> u8 \<Rightarrow> bool" where
  "check_if_duplicate s m device \<longleftrightarrow>
     list_ex (\<lambda>i. history s ! i = m \<and> history_dev s ! i = device) [0..<OC_REQUEST_HISTORY_SIZE]"

definition record_request :: "net \<Rightarrow> u16 \<Rightarrow> u8 \<Rightarrow> net" where
  "record_request s m device = s\<lparr>history := (history s)[unat (history_idx s) := m],
     history_dev := (history_dev s)[unat (history_idx s) := device],
     history_idx := of_nat ((unat (history_idx s) + 1) mod OC_REQUEST_HISTORY_SIZE)\<rparr>"

section \<open>The variables of \<open>coap_receive\<close>\<close>

record receive =
  net_of :: net
  response :: coap_packet
  transaction :: "addr option"
  request_buffer :: "addr option"
  response_buffer :: "addr option"
  coap_status_code :: coap_status

datatype label = Request_handler | Init_reset_message | Free_blockwise_buffers | Send_message

text \<open>A block option: whether it is there, its number, the more flag, the size and the offset.\<close>

record block_opt =
  present :: bool
  bnum :: u32
  bmore :: u8
  bsize :: u16
  boffset :: u32

definition block_option :: "int \<times> (u32 \<times> u8 \<times> u16 \<times> u32) option \<Rightarrow> block_opt" where
  "block_option r = (case snd r of
     Some (n, mr, sz, off) \<Rightarrow> \<lparr>present = True, bnum = n, bmore = mr, bsize = min sz (of_nat OC_BLOCK_SIZE), boffset = off\<rparr>
   | None \<Rightarrow> \<lparr>present = False, bnum = 0, bmore = 0, bsize = of_nat OC_BLOCK_SIZE, boffset = 0\<rparr>)"

definition href_of :: "bytes \<Rightarrow> coap_packet \<Rightarrow> bytes" where
  "href_of rx pkt = (case coap_get_header_uri_path pkt of (n, p) \<Rightarrow> str_bytes rx (case p of None \<Rightarrow> Null | Some p \<Rightarrow> p) n)"

definition query_of_packet :: "bytes \<Rightarrow> coap_packet \<Rightarrow> bytes" where
  "query_of_packet rx pkt = str_bytes rx (uri_query pkt) (uri_query_len pkt)"

definition incoming_block_len :: "coap_packet \<Rightarrow> u32" where
  "incoming_block_len pkt = of_int (fst (coap_get_payload pkt))"

definition incoming_block :: "bytes \<Rightarrow> coap_packet \<Rightarrow> bytes" where
  "incoming_block rx pkt = deref rx (snd (coap_get_payload pkt))"

section \<open>Requests\<close>

text \<open>A new request buffer with the whole payload of the packet, as the cases without a block1 option
  make it.\<close>

definition whole_request :: "net \<Rightarrow> bytes \<Rightarrow> coap_packet \<Rightarrow> oc_endpoint \<Rightarrow> (net \<times> addr option \<times> bool) option" where
  "whole_request s rx pkt endpoint = do {
     (s, r) \<leftarrow> oc_blockwise_alloc_request_buffer s (href_of rx pkt) endpoint (code pkt) OC_BLOCKWISE_SERVER;
     case r of
       None \<Rightarrow> Some (s, None, False)
     | Some b \<Rightarrow> do {
         x \<leftarrow> requests s b;
         (x, ok) \<leftarrow> oc_blockwise_handle_block x 0 (incoming_block rx pkt) (ucast (ucast (incoming_block_len pkt) :: u16));
         if ok then Some (upd_bw Request s b (x\<lparr>buri_query := query_of_packet rx pkt, payload_size := incoming_block_len pkt\<rparr>), Some b, True)
         else Some (upd_bw Request s b x, Some b, False)
       }
   }"

definition block1_request :: "receive \<Rightarrow> bytes \<Rightarrow> coap_packet \<Rightarrow> oc_endpoint \<Rightarrow> block_opt \<Rightarrow> (receive \<times> label) option" where
  "block1_request r rx pkt endpoint b1 = do {
     let s = net_of r;
     f \<leftarrow> oc_blockwise_find_request_buffer s (href_of rx pkt) endpoint (code pkt) (query_of_packet rx pkt) OC_BLOCKWISE_SERVER;
     (s, rb) \<leftarrow> (if f = None \<and> bnum b1 = 0 then do {
         (s, a) \<leftarrow> oc_blockwise_alloc_request_buffer s (href_of rx pkt) endpoint (code pkt) OC_BLOCKWISE_SERVER;
         case a of
           None \<Rightarrow> Some (s, None)
         | Some b \<Rightarrow> do { x \<leftarrow> requests s b; Some (upd_bw Request s b (x\<lparr>buri_query := query_of_packet rx pkt\<rparr>), Some b) }
       } else Some (s, f));
     let r = r\<lparr>net_of := s, request_buffer := rb\<rparr>;
     case rb of
       None \<Rightarrow> Some (r, Init_reset_message)
     | Some b \<Rightarrow> do {
         x \<leftarrow> requests s b;
         (x, ok) \<leftarrow> oc_blockwise_handle_block x (boffset b1) (incoming_block rx pkt)
           (ucast (min (ucast (incoming_block_len pkt)) (bsize b1)));
         if \<not> ok then Some (r\<lparr>net_of := upd_bw Request s b x\<rparr>, Init_reset_message)
         else if bmore b1 \<noteq> 0 then
           Some (r\<lparr>net_of := upd_bw Request s b (x\<lparr>bref := 1\<rparr>),
                  response := fst (coap_set_header_block1 ((response r)\<lparr>code := 95\<rparr>) (bnum b1) (bmore b1) (bsize b1))\<rparr>, Send_message)
         else
           Some (r\<lparr>net_of := upd_bw Request s b (x\<lparr>payload_size := next_block_offset x, bref := 0\<rparr>),
                  response := fst (coap_set_header_block1 (response r) (bnum b1) (bmore b1) (bsize b1))\<rparr>, Request_handler)
       }
   }"

definition block2_request :: "receive \<Rightarrow> bytes \<Rightarrow> coap_packet \<Rightarrow> oc_endpoint \<Rightarrow> block_opt \<Rightarrow> (receive \<times> label) option" where
  "block2_request r rx pkt endpoint b2 = do {
     let s = net_of r;
     let res = fst (coap_set_header_content_format (response r)
       (case coap_get_header_accept pkt of (_, Some a) \<Rightarrow> a | (_, None) \<Rightarrow> ucast APPLICATION_VND_OCF_CBOR));
     let r = r\<lparr>response := res\<rparr>;
     f \<leftarrow> oc_blockwise_find_response_buffer s (href_of rx pkt) endpoint (code pkt) (query_of_packet rx pkt) OC_BLOCKWISE_SERVER;
     case f of
       Some b \<Rightarrow> do {
         let r = r\<lparr>response_buffer := Some b\<rparr>;
         x \<leftarrow> responses s b;
         case oc_blockwise_dispatch_block x (boffset b2) (ucast (bsize b2)) of
           (x, Some (off, n)) \<Rightarrow> do {
             let more = (if next_block_offset x < payload_size x then 1 else 0);
             let res = fst (coap_set_payload res (Obj (drop (unat off) (buffer x))) (unat n));
             let res = fst (coap_set_header_block2 res (bnum b2) more (bsize b2));
             (res, _) \<leftarrow> coap_set_header_etag res (betag x) COAP_ETAG_LEN;
             Some (r\<lparr>net_of := upd_bw Response s b (x\<lparr>bref := more\<rparr>), response := res\<rparr>, Send_message)
           }
         | (x, None) \<Rightarrow> Some (r\<lparr>net_of := upd_bw Response s b x\<rparr>, Init_reset_message)
       }
     | None \<Rightarrow>
         if bnum b2 = 0 then
           if incoming_block_len pkt > 0 then do {
             g \<leftarrow> oc_blockwise_find_request_buffer s (href_of rx pkt) endpoint (code pkt) (query_of_packet rx pkt) OC_BLOCKWISE_SERVER;
             case g of
               Some b \<Rightarrow> Some (r\<lparr>request_buffer := Some b\<rparr>, Request_handler)
             | None \<Rightarrow> do {
                 (s, rb, ok) \<leftarrow> whole_request s rx pkt endpoint;
                 Some (r\<lparr>net_of := s, request_buffer := rb\<rparr>, if ok then Request_handler else Init_reset_message)
               }
           }
           else Some (r, Request_handler)
         else Some (r, Init_reset_message)
   }"

definition plain_request :: "receive \<Rightarrow> bytes \<Rightarrow> coap_packet \<Rightarrow> oc_endpoint \<Rightarrow> block_opt \<Rightarrow> (receive \<times> label) option" where
  "plain_request r rx pkt endpoint b1 =
     (if flags endpoint AND TCP \<noteq> 0 \<and> incoming_block_len pkt \<le> of_nat OC_MAX_APP_DATA_SIZE \<or>
         flags endpoint AND TCP = 0 \<and> incoming_block_len pkt \<le> ucast (bsize b1)
      then if incoming_block_len pkt > 0 then do {
             (s, rb, ok) \<leftarrow> whole_request (net_of r) rx pkt endpoint;
             let r = r\<lparr>net_of := s, request_buffer := rb\<rparr>;
             case rb of
               None \<Rightarrow> Some (r, Init_reset_message)
             | Some b \<Rightarrow>
                 if ok then do { x \<leftarrow> requests s b; Some (r\<lparr>net_of := upd_bw Request s b (x\<lparr>bref := 0\<rparr>)\<rparr>, Request_handler) }
                 else Some (r, Init_reset_message)
           }
           else Some (r, Request_handler)
      else Some (r, Init_reset_message))"

text \<open>The code at \<open>request_handler\<close>: the resource layer and the first block of its answer.\<close>

definition first_block ::
  "net \<Rightarrow> addr \<Rightarrow> coap_packet \<Rightarrow> oc_endpoint \<Rightarrow> block_opt \<Rightarrow> (net \<times> coap_packet) option" where
  "first_block s b res endpoint b2 = do {
     x \<leftarrow> responses s b;
     if flags endpoint AND TCP \<noteq> 0 then
       (case oc_blockwise_dispatch_block x 0 (payload_size x + 1) of
          (x, blk) \<Rightarrow>
            let res = (case blk of
                  Some (off, n) \<Rightarrow> if payload_size x > 0 then fst (coap_set_payload res (Obj (drop (unat off) (buffer x))) (unat n)) else res
                | None \<Rightarrow> res)
            in Some (upd_bw Response s b (x\<lparr>bref := 0\<rparr>), res))
     else
       (case oc_blockwise_dispatch_block x 0 (ucast (bsize b2)) of
          (x, blk) \<Rightarrow> do {
            let res = (case blk of
                  Some (off, n) \<Rightarrow> fst (coap_set_payload res (Obj (drop (unat off) (buffer x))) (unat n)) | None \<Rightarrow> res);
            if present b2 \<or> payload_size x > ucast (bsize b2) then do {
              let res = fst (coap_set_header_block2 res 0 (if payload_size x > ucast (bsize b2) then 1 else 0) (bsize b2));
              let res = fst (coap_set_header_size2 res (payload_size x));
              (res, _) \<leftarrow> coap_set_header_etag res (betag x) COAP_ETAG_LEN;
              Some (upd_bw Response s b x, res)
            }
            else Some (upd_bw Response s b (x\<lparr>bref := 0\<rparr>), res)
          })
   }"

definition clear_ref :: "bw \<Rightarrow> net \<Rightarrow> addr option \<Rightarrow> net option" where
  "clear_ref b s r = (case r of None \<Rightarrow> Some s | Some a \<Rightarrow> do { x \<leftarrow> bw_heap b s a; Some (upd_bw b s a (x\<lparr>bref := 0\<rparr>)) })"

definition clear_refs :: "net \<Rightarrow> addr option \<Rightarrow> addr option \<Rightarrow> net option" where
  "clear_refs s rq rs = do { s \<leftarrow> clear_ref Request s rq; clear_ref Response s rs }"

definition request_handler ::
  "services \<Rightarrow> receive \<Rightarrow> bytes \<Rightarrow> coap_packet \<Rightarrow> addr \<Rightarrow> oc_endpoint \<Rightarrow> block_opt \<Rightarrow> (receive \<times> label) option" where
  "request_handler sv r rx pkt d endpoint b2 = do {
     (s, res, rq, rs, st, success) \<leftarrow> oc_ri_invoke_coap_entity_handler sv (net_of r) rx pkt (response r)
       (request_buffer r) (response_buffer r) (bsize b2) d (coap_status_code r);
     (s, res) \<leftarrow> (if success then do { b \<leftarrow> rs; first_block s b res endpoint b2 }
                 else do { s \<leftarrow> clear_refs s rq rs; Some (s, res) });
     Some (r\<lparr>net_of := s, response := res, request_buffer := rq, response_buffer := rs, coap_status_code := st\<rparr>,
       if code res \<noteq> 0 then Send_message else Init_reset_message)
   }"


text \<open>A request: the response packet is begun, a repeated non-confirmable request is dropped
  (\<open>None\<close> in the result), and a transaction is opened for the response.\<close>

definition begin_response :: "net \<Rightarrow> coap_packet \<Rightarrow> oc_endpoint \<Rightarrow> (net \<times> coap_packet) option" where
  "begin_response s pkt endpoint =
     (if flags endpoint AND TCP \<noteq> 0 then Some (s, coap_tcp_init_message CONTENT_2_05)
      else if type pkt = COAP_TYPE_CON then Some (s, coap_udp_init_message COAP_TYPE_ACK CONTENT_2_05 (mid pkt))
      else if check_if_duplicate s (mid pkt) (of_nat (edevice endpoint)) then None
      else case net_mid (record_request s (mid pkt) (of_nat (edevice endpoint))) of
             (s, m) \<Rightarrow> Some (s, coap_udp_init_message COAP_TYPE_NON CONTENT_2_05 m))"

definition handle_request ::
  "services \<Rightarrow> receive \<Rightarrow> bytes \<Rightarrow> coap_packet \<Rightarrow> addr \<Rightarrow> oc_endpoint \<Rightarrow> (receive \<times> label) option" where
  "handle_request sv r rx pkt d endpoint = do {
     (s, t) \<leftarrow> coap_new_transaction (net_of r) (mid pkt) endpoint;
     let r = r\<lparr>net_of := s, transaction := t\<rparr>;
     let b1 = block_option (coap_get_header_block1 pkt);
     let b2 = block_option (coap_get_header_block2 pkt);
     if t = None then Some (r, Init_reset_message)
     else do {
       (r, l) \<leftarrow> (if present b1 then block1_request r rx pkt endpoint b1
                 else if present b2 then block2_request r rx pkt endpoint b2
                 else plain_request r rx pkt endpoint b1);
       if l = Request_handler then request_handler sv r rx pkt d endpoint b2 else Some (r, l)
     }
   }"

section \<open>Responses\<close>

text \<open>The next request of a client: its method, path and query are those of the callback.\<close>

definition client_request :: "oc_client_cb \<Rightarrow> u16 \<Rightarrow> (coap_packet \<Rightarrow> coap_packet) \<Rightarrow> (coap_packet \<Rightarrow> coap_packet) \<Rightarrow> coap_packet option" where
  "client_request c m before after = do {
     let res = before (coap_udp_init_message COAP_TYPE_CON (cmethod c) m);
     (res, _) \<leftarrow> coap_set_header_uri_path res (curi c @ [0]) (of_nat (length (curi c)));
     let res = after res;
     if cquery c \<noteq> [] then do { (res, _) \<leftarrow> coap_set_header_uri_query res (cquery c @ [0]); Some res } else Some res
   }"

text \<open>The peer acknowledges a block of a request, or asks for block-wise transfer: the next block is
  sent. The result is the jump, if any, and the callback.\<close>

definition next_request_block ::
  "receive \<Rightarrow> coap_packet \<Rightarrow> oc_endpoint \<Rightarrow> block_opt \<Rightarrow> u16 \<Rightarrow> addr \<Rightarrow> (receive \<times> addr \<times> bool) option" where
  "next_request_block r pkt endpoint b1 response_mid b = do {
     x \<leftarrow> requests (net_of r) b;
     let cb = bclient_cb x;
     let (size, (x, blk), x_ref) = (if present b1
        then (bsize b1, oc_blockwise_dispatch_block x (boffset b1 + ucast (bsize b1)) (ucast (bsize b1)), bref x)
        else let size = (case coap_get_header_size1 pkt of (_, Some mtu) \<Rightarrow> min (ucast mtu) (of_nat OC_BLOCK_SIZE)
                         | (_, None) \<Rightarrow> of_nat OC_BLOCK_SIZE)
             in (size, oc_blockwise_dispatch_block x 0 (ucast size), 1));
     let x = x\<lparr>bref := x_ref\<rparr>;
     case blk of
       None \<Rightarrow> Some (r\<lparr>net_of := upd_bw Request (net_of r) b (x\<lparr>bref := 0\<rparr>)\<rparr>, cb, False)
     | Some (off, n) \<Rightarrow> do {
         let s = upd_bw Request (net_of r) b x;
         (s, t) \<leftarrow> coap_new_transaction s response_mid endpoint;
         let r = r\<lparr>net_of := s, transaction := t\<rparr>;
         if t = None then Some (r, cb, False)
         else do {
           c \<leftarrow> ccbs s cb;
           x \<leftarrow> requests s b;
           let more = (if next_block_offset x < payload_size x then 1 else 0);
           res \<leftarrow> client_request c response_mid (\<lambda>p. p)
             (\<lambda>p. let p = fst (coap_set_payload p (Obj (drop (unat off) (buffer x))) (unat n))
                  in if present b1 then fst (coap_set_header_block1 p (bnum b1 + 1) more size)
                     else fst (coap_set_header_size1 (fst (coap_set_header_block1 p 0 more size)) (payload_size x)));
           Some (r\<lparr>net_of := upd_bw Request s b (x\<lparr>bmid := response_mid\<rparr>), response := res\<rparr>, cb, True)
         }
       }
   }"

text \<open>The response buffer of a callback, found or made.\<close>

definition client_response_buffer :: "net \<Rightarrow> oc_endpoint \<Rightarrow> addr \<Rightarrow> (net \<times> addr option) option" where
  "client_response_buffer s endpoint cb = do {
     f \<leftarrow> oc_blockwise_find_response_buffer_by_client_cb s endpoint cb;
     case f of
       Some b \<Rightarrow> Some (s, Some b)
     | None \<Rightarrow> do {
         c \<leftarrow> ccbs s cb;
         hr \<leftarrow> (if curi c = [] then None else Some (tl (curi c)));
         (s, a) \<leftarrow> oc_blockwise_alloc_response_buffer s hr endpoint (cmethod c) OC_BLOCKWISE_CLIENT;
         case a of
           None \<Rightarrow> Some (s, None)
         | Some b \<Rightarrow> do { x \<leftarrow> responses s b; Some (upd_bw Response s b (x\<lparr>bclient_cb := cb\<rparr>), Some b) }
       }
   }"

text \<open>A block of a response: the next one is asked for, or the payload is complete. The result says
  whether the engine goes on to send a message.\<close>

definition response_block ::
  "receive \<Rightarrow> bytes \<Rightarrow> coap_packet \<Rightarrow> oc_endpoint \<Rightarrow> block_opt \<Rightarrow> u16 \<Rightarrow> addr \<Rightarrow> (receive \<times> addr \<times> bool) option" where
  "response_block r rx pkt endpoint b2 response_mid b = do {
     x \<leftarrow> responses (net_of r) b;
     let cb = bclient_cb x;
     let x = (case coap_get_header_observe pkt of (_, Some v) \<Rightarrow> x\<lparr>bobserve_seq := sint v\<rparr> | (_, None) \<Rightarrow> x);
     (x, ok) \<leftarrow> (if incoming_block_len pkt > 0
       then oc_blockwise_handle_block x (boffset b2) (incoming_block rx pkt) (incoming_block_len pkt) else Some (x, False));
     let s = upd_bw Response (net_of r) b x;
     let r = r\<lparr>net_of := s\<rparr>;
     if \<not> ok then Some (r, cb, False)
     else do {
       (s, t) \<leftarrow> (if present b2 \<and> bmore b2 \<noteq> 0 then coap_new_transaction s response_mid endpoint else Some (s, None));
       let r = (if present b2 \<and> bmore b2 \<noteq> 0 then r\<lparr>net_of := s, transaction := t\<rparr> else r);
       x \<leftarrow> responses s b;
       if t \<noteq> None then do {
         c \<leftarrow> ccbs s cb;
         res \<leftarrow> client_request c response_mid (\<lambda>p. fst (coap_set_header_block2 p (bnum b2 + 1) 0 (bsize b2))) (\<lambda>p. p);
         Some (r\<lparr>net_of := upd_bw Response s b (x\<lparr>bmid := response_mid\<rparr>), response := res\<rparr>, cb, True)
       }
       else Some (r\<lparr>net_of := upd_bw Response s b (x\<lparr>payload_size := next_block_offset x\<rparr>)\<rparr>, cb, False)
     }
   }"

definition handle_response ::
  "services \<Rightarrow> receive \<Rightarrow> bytes \<Rightarrow> coap_packet \<Rightarrow> addr \<Rightarrow> oc_endpoint \<Rightarrow> (receive \<times> label) option" where
  "handle_response sv r rx pkt d endpoint = do {
     let b1 = block_option (coap_get_header_block1 pkt);
     let b2 = block_option (coap_get_header_block2 pkt);
     let (s, response_mid) = net_mid (net_of r);
     cb \<leftarrow> (if type pkt \<noteq> COAP_TYPE_RST then oc_ri_find_client_cb_by_token s (token pkt) (token_len pkt) else Some None);
     s \<leftarrow> (if type pkt = COAP_TYPE_CON then map_option fst (coap_send_empty_ack s (mid pkt) endpoint)
          else if type pkt = COAP_TYPE_RST then map_option fst (coap_remove_observer_by_mid s endpoint (mid pkt))
          else Some s);
     rb \<leftarrow> (case cb of
            Some c \<Rightarrow> oc_blockwise_find_request_buffer_by_client_cb s endpoint c
          | None \<Rightarrow> oc_blockwise_find_request_buffer_by_mid s (mid pkt));
     let r = r\<lparr>net_of := s, request_buffer := rb\<rparr>;
     (r, cb, sent) \<leftarrow> (case rb of
         Some b \<Rightarrow> if present b1 \<or> code pkt = 141 then do {
             (r, c, sent) \<leftarrow> next_request_block r pkt endpoint b1 response_mid b;
             Some (r, if c = NULL_PTR then None else Some c, sent)
           } else Some (r, cb, False)
       | None \<Rightarrow> Some (r, cb, False));
     if sent then Some (r, Send_message)
     else do {
       let s = net_of r;
       (s, rb) \<leftarrow> (case rb of
           None \<Rightarrow> Some (s, None)
         | Some b \<Rightarrow> do {
             x \<leftarrow> requests s b;
             if bref x = 0 then do { s \<leftarrow> oc_blockwise_free_request_buffer s b; Some (s, None) } else Some (s, Some b)
           });
       (s, sb) \<leftarrow> (case cb of
           Some c \<Rightarrow> client_response_buffer s endpoint c
         | None \<Rightarrow> do { f \<leftarrow> oc_blockwise_find_response_buffer_by_mid s (mid pkt); Some (s, f) });
       let r = r\<lparr>net_of := s, request_buffer := rb, response_buffer := sb\<rparr>;
       (r, cb, sent) \<leftarrow> (case sb of
           Some b \<Rightarrow> do {
             (r, c, sent) \<leftarrow> response_block r rx pkt endpoint b2 response_mid b;
             Some (r, if c = NULL_PTR then None else Some c, sent)
           }
         | None \<Rightarrow> Some (r, cb, False));
       if sent then Some (r, Send_message)
       else case cb of
         Some c \<Rightarrow> do {
           (s, sb) \<leftarrow> oc_ri_invoke_client_cb sv (net_of r) pkt (response_buffer r) c d;
           Some (r\<lparr>net_of := s, response_buffer := sb\<rparr>, Free_blockwise_buffers)
         }
       | None \<Rightarrow> Some (r, Init_reset_message)
     }
   }"

section \<open>Receiving a message\<close>

text \<open>The code from \<open>init_reset_message\<close> on.\<close>

definition at_init_reset_message :: "receive \<Rightarrow> coap_packet \<Rightarrow> oc_endpoint \<Rightarrow> receive" where
  "at_init_reset_message r pkt endpoint = r\<lparr>response :=
     (if flags endpoint AND TCP \<noteq> 0 then coap_tcp_init_message 160 else coap_udp_init_message COAP_TYPE_RST 0 (mid pkt))\<rparr>"

definition is_request :: "coap_packet \<Rightarrow> bool" where
  "is_request pkt \<longleftrightarrow> 1 \<le> code pkt \<and> code pkt \<le> 4"

definition response_token :: "receive \<Rightarrow> coap_packet \<Rightarrow> (net \<times> coap_packet) option" where
  "response_token r pkt =
     (let s = net_of r; res = response r
      in if type res = COAP_TYPE_RST \<or> token_len pkt = 0 then Some (s, res)
         else if is_request pkt then do { (res, _) \<leftarrow> coap_set_token res (token pkt) (unat (token_len pkt)); Some (s, res) }
         else do {
           observed \<leftarrow> (case response_buffer r of
               None \<Rightarrow> Some False
             | Some b \<Rightarrow> do { x \<leftarrow> responses s b; Some (bobserve_seq x \<noteq> - 1) });
           if observed then Some (coap_make_token s res)
           else do { (res, _) \<leftarrow> coap_set_token res (token pkt) (unat (token_len pkt)); Some (s, res) }
         })"

definition at_send_message ::
  "(net \<Rightarrow> addr \<Rightarrow> bytes list) \<Rightarrow> receive \<Rightarrow> bytes \<Rightarrow> coap_packet \<Rightarrow> (net \<times> coap_status) option" where
  "at_send_message close_notify r rx pkt = do {
     s \<leftarrow> (if coap_status_code r = COAP_NO_ERROR then
            case transaction r of
              None \<Rightarrow> Some (net_of r)
            | Some t \<Rightarrow> do {
                (s, res) \<leftarrow> response_token r pkt;
                x \<leftarrow> trans s t;
                s \<leftarrow> serialize_into_message s (tmessage x) rx res;
                m \<leftarrow> msgs s (tmessage x);
                if mlength m > 0 then coap_send_transaction close_notify s t else coap_clear_transaction s t
              }
          else if coap_status_code r = CLEAR_TRANSACTION then
            coap_clear_transaction (net_of r) (case transaction r of None \<Rightarrow> NULL_PTR | Some t \<Rightarrow> t)
          else Some (net_of r));
     s \<leftarrow> oc_blockwise_scrub_buffers s;
     Some (s, coap_status_code r)
   }"

definition at_label ::
  "(net \<Rightarrow> addr \<Rightarrow> bytes list) \<Rightarrow> receive \<Rightarrow> label \<Rightarrow> bytes \<Rightarrow> coap_packet \<Rightarrow> oc_endpoint \<Rightarrow> (net \<times> coap_status) option" where
  "at_label close_notify r l rx pkt endpoint = do {
     let r = (if l = Init_reset_message then at_init_reset_message r pkt endpoint else r);
     s \<leftarrow> (if l = Init_reset_message \<or> l = Free_blockwise_buffers then clear_refs (net_of r) (request_buffer r) (response_buffer r)
          else Some (net_of r));
     at_send_message close_notify (r\<lparr>net_of := s\<rparr>) rx pkt
   }"

definition clear_answered :: "net \<Rightarrow> coap_packet \<Rightarrow> oc_endpoint \<Rightarrow> net option" where
  "clear_answered s pkt endpoint =
     (if flags endpoint AND TCP = 0 then do {
        t \<leftarrow> coap_get_transaction_by_mid s (mid pkt);
        case t of None \<Rightarrow> Some s | Some t \<Rightarrow> coap_clear_transaction s t
      } else Some s)"

definition parse_incoming :: "oc_message \<Rightarrow> (coap_status \<times> coap_packet \<times> bytes) option" where
  "parse_incoming m = (if flags (mendpoint m) AND TCP \<noteq> 0 then coap_tcp_parse_message (mdata m) (of_nat (mlength m))
     else coap_udp_parse_message (mdata m) (of_nat (mlength m)))"

text \<open>The parser works in the buffer of the message, whose contents it changes.\<close>

definition coap_receive :: "services \<Rightarrow> (net \<Rightarrow> addr \<Rightarrow> bytes list) \<Rightarrow> net \<Rightarrow> addr \<Rightarrow> (net \<times> coap_status) option" where
  "coap_receive sv close_notify s d = do {
     m \<leftarrow> msgs s d;
     (st, pkt, rx) \<leftarrow> parse_incoming m;
     let s = set_msg s d (m\<lparr>mdata := rx\<rparr>);
     let endpoint = mendpoint m;
     let r = \<lparr>net_of = s, response = zero_packet, transaction = None, request_buffer = None, response_buffer = None, coap_status_code = st\<rparr>;
     if st \<noteq> COAP_NO_ERROR then at_label close_notify r Init_reset_message rx pkt endpoint
     else do {
       s \<leftarrow> (if coap_check_signal_message pkt then handle_coap_signal_message s pkt endpoint else Some s);
       s \<leftarrow> clear_answered s pkt endpoint;
       if is_request pkt then
         (case begin_response s pkt endpoint of
            None \<Rightarrow> Some (s, COAP_NO_ERROR)
          | Some (s, res) \<Rightarrow> do {
              (r, l) \<leftarrow> handle_request sv (r\<lparr>net_of := s, response := res\<rparr>) rx pkt d endpoint;
              at_label close_notify r l rx pkt endpoint
            })
       else do {
         (r, l) \<leftarrow> handle_response sv (r\<lparr>net_of := s\<rparr>) rx pkt d endpoint;
         at_label close_notify r l rx pkt endpoint
       }
     }
   }"

text \<open>The process: a message is received and released, and the timer event retransmits.\<close>

definition coap_init_engine :: "net \<Rightarrow> net" where
  "coap_init_engine s = coap_register_as_transaction_handler s"

definition coap_engine_event :: "services \<Rightarrow> (net \<Rightarrow> addr \<Rightarrow> bytes list) \<Rightarrow> net \<Rightarrow> u8 \<Rightarrow> addr \<Rightarrow> net option" where
  "coap_engine_event sv close_notify s e d =
     (if e = oc_events INBOUND_RI_EVENT then do {
        (s, _) \<leftarrow> coap_receive sv close_notify s d;
        oc_message_unref s d
      }
      else if e = OC_PROCESS_EVENT_TIMER then coap_check_transactions close_notify s
      else Some s)"

end
