(* ===== verification/Net_Engine_Inv.thy ===== *)
theory Net_Engine_Inv
  imports Net_Engine
begin

text \<open>
  What the CoAP engine guarantees: every request is handled to its end and leaves the messaging
  layer consistent, and a repeated non-confirmable request is dropped while it is among the last
  250 requests.
\<close>

section \<open>The history of requests\<close>

definition history_ok :: "net \<Rightarrow> bool" where
  "history_ok s \<longleftrightarrow> length (history s) = OC_REQUEST_HISTORY_SIZE \<and> length (history_dev s) = OC_REQUEST_HISTORY_SIZE \<and>
     unat (history_idx s) < OC_REQUEST_HISTORY_SIZE"

definition slot :: "net \<Rightarrow> nat \<Rightarrow> u16 \<times> u8" where
  "slot s i = (history s ! i, history_dev s ! i)"

lemma check_if_duplicate_iff: "check_if_duplicate s m device \<longleftrightarrow> (\<exists>i < OC_REQUEST_HISTORY_SIZE. slot s i = (m, device))"
  by (auto simp: check_if_duplicate_def slot_def list_ex_iff)

lemma record_request_slot:
  assumes "history_ok s"
  shows "history_ok (record_request s m device)"
    and "i < OC_REQUEST_HISTORY_SIZE \<Longrightarrow> slot (record_request s m device) i = (if i = unat (history_idx s) then (m, device) else slot s i)"
    and "unat (history_idx (record_request s m device)) = (unat (history_idx s) + 1) mod OC_REQUEST_HISTORY_SIZE"
proof -
  have "(unat (history_idx s) + 1) mod OC_REQUEST_HISTORY_SIZE < 256" by (simp add: OC_REQUEST_HISTORY_SIZE_def)
  then show idx: "unat (history_idx (record_request s m device)) = (unat (history_idx s) + 1) mod OC_REQUEST_HISTORY_SIZE"
    by (simp add: record_request_def unat_of_nat_u8)
  show "history_ok (record_request s m device)"
    using assms idx by (simp add: history_ok_def) (simp add: record_request_def OC_REQUEST_HISTORY_SIZE_def)
  show "i < OC_REQUEST_HISTORY_SIZE \<Longrightarrow> slot (record_request s m device) i = (if i = unat (history_idx s) then (m, device) else slot s i)"
    using assms by (auto simp: slot_def record_request_def history_ok_def nth_list_update)
qed

definition record_all :: "net \<Rightarrow> (u16 \<times> u8) list \<Rightarrow> net" where
  "record_all s xs = foldl (\<lambda>s (m, d). record_request s m d) s xs"

lemma record_all_snoc: "record_all s (xs @ [(m, d)]) = record_request (record_all s xs) m d"
  by (simp add: record_all_def)

lemma record_all_slots:
  "history_ok s \<Longrightarrow> length xs \<le> OC_REQUEST_HISTORY_SIZE \<Longrightarrow>
   history_ok (record_all s xs) \<and> unat (history_idx (record_all s xs)) = (unat (history_idx s) + length xs) mod OC_REQUEST_HISTORY_SIZE \<and>
   (\<forall>j < length xs. slot (record_all s xs) ((unat (history_idx s) + j) mod OC_REQUEST_HISTORY_SIZE) = xs ! j) \<and>
   (\<forall>i < OC_REQUEST_HISTORY_SIZE. slot (record_all s xs) i \<in> set xs \<or> slot (record_all s xs) i = slot s i)"
proof (induction xs rule: rev_induct)
  case Nil
  then show ?case by (simp add: record_all_def history_ok_def)
next
  case (snoc x xs)
  obtain m d where x: "x = (m, d)" by fastforce
  let ?s = "record_all s xs" and ?n = OC_REQUEST_HISTORY_SIZE and ?i = "unat (history_idx s)"
  have IH: "history_ok ?s" "unat (history_idx ?s) = (?i + length xs) mod ?n"
    "\<And>j. j < length xs \<Longrightarrow> slot ?s ((?i + j) mod ?n) = xs ! j" "\<And>i. i < ?n \<Longrightarrow> slot ?s i \<in> set xs \<or> slot ?s i = slot s i"
    using snoc by simp_all
  note r = record_request_slot [OF IH(1), where m = m and device = d]
  have pos: "(0 :: nat) < ?n" by (simp add: OC_REQUEST_HISTORY_SIZE_def)
  have neq: "(?i + j) mod ?n \<noteq> (?i + length xs) mod ?n" if "j < length xs" for j
  proof
    assume "(?i + j) mod ?n = (?i + length xs) mod ?n"
    then have "?n dvd (?i + length xs) - (?i + j)" using that by (metis mod_eq_dvd_iff_nat add_le_cancel_left less_imp_le)
    then have "?n dvd length xs - j" using that by simp
    then show False using that snoc.prems(2) by (auto dest: dvd_imp_le)
  qed
  have new: "slot (record_all s (xs @ [x])) ((?i + j) mod ?n) = (xs @ [x]) ! j" if "j < length (xs @ [x])" for j
    using that r(2) [of "(?i + j) mod ?n"] pos IH(2,3) neq [of j] by (auto simp: x record_all_snoc nth_append less_Suc_eq)
  have old: "slot (record_all s (xs @ [x])) i \<in> set (xs @ [x]) \<or> slot (record_all s (xs @ [x])) i = slot s i" if "i < ?n" for i
    using r(2) [OF that] IH(4) [OF that] by (auto simp: x record_all_snoc)
  have "unat (history_idx (record_all s (xs @ [x]))) = (?i + length (xs @ [x])) mod ?n"
    using r(3) IH(2) by (simp add: x record_all_snoc mod_simps)
  with r(1) new old show ?case by (simp add: x record_all_snoc)
qed

text \<open>C38: The history recognises each of the last 250 non-confirmable requests, and nothing else but what
  it held before.\<close>

theorem coap_history_exact:
  assumes "history_ok s" and "length xs \<le> OC_REQUEST_HISTORY_SIZE"
  shows "((m, d) \<in> set xs \<longrightarrow> check_if_duplicate (record_all s xs) m d) \<and>
     (check_if_duplicate (record_all s xs) m d \<longrightarrow> (m, d) \<in> set xs \<or> check_if_duplicate s m d) \<and>
     history_ok (record_all s xs)"
proof -
  note r = record_all_slots [OF assms]
  have pos: "(0 :: nat) < OC_REQUEST_HISTORY_SIZE" by (simp add: OC_REQUEST_HISTORY_SIZE_def)
  have "check_if_duplicate (record_all s xs) m d" if "(m, d) \<in> set xs"
    using that r pos unfolding check_if_duplicate_iff in_set_conv_nth by (metis mod_less_divisor)
  moreover have "(m, d) \<in> set xs \<or> check_if_duplicate s m d" if "check_if_duplicate (record_all s xs) m d"
    using that r unfolding check_if_duplicate_iff by metis
  ultimately show ?thesis using r by blast
qed

theorem coap_history_exact_witness:
  "check_if_duplicate (record_all init_net [(7, 0), (8, 1)]) 7 0 \<and> \<not> check_if_duplicate (record_all init_net [(7, 0), (8, 1)]) 9 0"
proof -
  have h: "history_ok init_net" by (simp add: history_ok_def init_net_def OC_REQUEST_HISTORY_SIZE_def)
  have n: "\<not> check_if_duplicate init_net 9 0" by (auto simp: check_if_duplicate_iff slot_def init_net_def OC_REQUEST_HISTORY_SIZE_def)
  have l: "length [(7 :: u16, 0 :: u8), (8, 1)] \<le> OC_REQUEST_HISTORY_SIZE" by (simp add: OC_REQUEST_HISTORY_SIZE_def)
  show ?thesis using coap_history_exact [OF h l, of 7 0] coap_history_exact [OF h l, of 9 0] n by auto
qed


section \<open>Buffers\<close>

lemma net_inv_history:
  "net_inv (s\<lparr>current_mid := m, history := a, history_dev := b, history_idx := c\<rparr>) ext = net_inv s ext"
proof -
  let ?s = "s\<lparr>current_mid := m, history := a, history_dev := b, history_idx := c\<rparr>"
  have h: "bw_heap b ?s = bw_heap b s" "bw_list b ?s = bw_list b s" "pending ?s = pending s" for b
    by (cases b; simp add: pending_def)+
  have r: "refs_ok ?s e = refs_ok s e" for e by (rule refs_ok_cong) simp_all
  have t: "tls_held ?s = tls_held s" by (simp add: tls_held_def)
  have o: "obs_inv ?s = obs_inv s" by (simp add: obs_inv_def obs_count_def)
  show ?thesis
    by (simp add: net_inv_def state_inv_def all_refs_def [abs_def] r t o net_timers_def bw_inv_def cb_inv_def callbacks_ok_def h)
qed

text \<open>A step of the engine before the handler: the layer stays consistent, the messages and the tree
  of resources stay as they are.\<close>

definition stage :: "(addr \<Rightarrow> nat) \<Rightarrow> net \<Rightarrow> net \<Rightarrow> bool" where
  "stage ext s s' \<longleftrightarrow> net_inv s' ext \<and> net_keeps s s' \<and> same_tree s s' \<and> msgs s' = msgs s"

lemma stage_refl: "net_inv s ext \<Longrightarrow> stage ext s s"
  by (simp add: stage_def)

lemma stage_trans: "stage ext s s' \<Longrightarrow> stage ext s' s'' \<Longrightarrow> stage ext s s''"
  using net_keeps_trans same_tree_trans by (auto simp: stage_def)

lemma stage_inv: "stage ext s s' \<Longrightarrow> net_inv s' ext"
  by (simp add: stage_def)

lemma live_ok: "net_inv s ext \<Longrightarrow> bw_heap b s a = Some x \<Longrightarrow> buffer_ok x"
  unfolding net_inv_def state_inv_def bw_inv_def by blast

lemma upd_stage:
  assumes "net_inv s ext" and "bw_heap b s a = Some y" and "buffer_ok x" and "bclient_cb x = bclient_cb y"
  shows "stage ext s (upd_bw b s a x)"
proof -
  have "same_tree s (upd_bw b s a x) \<and> msgs (upd_bw b s a x) = msgs s" by (cases b) (simp_all add: upd_bw_def same_tree_def)
  with upd_bw_net [OF assms] show ?thesis by (simp add: stage_def)
qed

lemma find_buffer_ok:
  assumes "net_inv s ext"
  shows "\<exists>f. oc_blockwise_find_buffer b s hr endpoint meth query role = Some f \<and> (\<forall>a. f = Some a \<longrightarrow> bw_heap b s a \<noteq> None)"
proof -
  have "registry (bw_pool b) (bw_heap b s) (bw_list b s)" using assms by (simp add: net_inv_def state_inv_def bw_inv_def)
  then have "\<forall>a \<in> set (bw_list b s). bw_heap b s a \<noteq> None" by (auto simp: registry_def)
  then show ?thesis unfolding oc_blockwise_find_buffer_def by (auto simp: find_on_live dest: find_SomeD)
qed

lemma handle_block_net:
  assumes ok: "buffer_ok x" and inc: "unat n \<le> length inc"
  shows "\<exists>x' r. oc_blockwise_handle_block x off inc n = Some (x', r) \<and> buffer_ok x' \<and> bclient_cb x' = bclient_cb x \<and>
     (r \<longrightarrow> unat n \<le> OC_MAX_APP_DATA_SIZE)"
proof -
  let ?o = "unat off" and ?nx = "unat (next_block_offset x)"
  have len: "length (buffer x) = OC_MAX_APP_DATA_SIZE" using ok by (simp add: buffer_ok_def)
  note eq = handle_block_eq [OF len inc, of off]
  show ?thesis
  proof (cases "?o \<ge> OC_MAX_APP_DATA_SIZE \<or> unat n > OC_MAX_APP_DATA_SIZE - ?o \<or> ?o > ?nx")
    case True
    then show ?thesis using eq ok by auto
  next
    case False
    show ?thesis
    proof (cases "?nx = ?o")
      case True
      have fit: "?nx + unat n \<le> OC_MAX_APP_DATA_SIZE" using False True by linarith
      then have sum: "unat (next_block_offset x + n) = ?nx + unat n"
        by (subst unat_add_lem [THEN iffD1]) (simp_all add: OC_MAX_APP_DATA_SIZE_def)
      have "length (splice ?nx (take (unat n) inc) (buffer x)) = OC_MAX_APP_DATA_SIZE" using fit inc len by simp
      then have "buffer_ok (x\<lparr>buffer := splice ?nx (take (unat n) inc) (buffer x), next_block_offset := next_block_offset x + n\<rparr>)"
        using ok fit sum by (simp add: buffer_ok_def)
      then show ?thesis using eq False True fit by auto
    next
      case F2: False
      have "unat n \<le> OC_MAX_APP_DATA_SIZE" using False by linarith
      then show ?thesis using eq False F2 ok by auto
    qed
  qed
qed

lemma dispatch_block_net:
  assumes ok: "buffer_ok x" and req: "off = 0 \<or> unat req \<le> 1024" and d: "oc_blockwise_dispatch_block x off req = (x', blk)"
  shows "buffer_ok x'" and "bclient_cb x' = bclient_cb x" and "betag x' = betag x" and "payload_size x' = payload_size x"
    and "blk = Some (o', n) \<Longrightarrow> unat n \<le> length (drop (unat o') (buffer x')) \<and> unat n \<le> OC_MAX_APP_DATA_SIZE"
proof -
  let ?n = "if payload_size x < req then payload_size x else min req (payload_size x - off)"
  have ps: "unat (payload_size x) \<le> OC_MAX_APP_DATA_SIZE" "length (buffer x) = OC_MAX_APP_DATA_SIZE" using ok by (simp_all add: buffer_ok_def)
  have e: "if off < payload_size x then x' = x\<lparr>next_block_offset := off + ?n\<rparr> \<and> blk = Some (off, ?n) else x' = x \<and> blk = None"
    using d by (auto simp: oc_blockwise_dispatch_block_def Let_def split: if_splits)
  have fit: "unat off + unat ?n \<le> OC_MAX_APP_DATA_SIZE" if "off < payload_size x"
  proof (cases "payload_size x < req")
    case True
    then show ?thesis using that req ps by (auto simp: u32_less OC_MAX_APP_DATA_SIZE_def)
  next
    case False
    have "unat (payload_size x - off) = unat (payload_size x) - unat off"
      using that by (intro unat_sub) (simp add: u32_less u32_le)
    then show ?thesis using False that ps by (simp add: unat_min u32_less)
  qed
  then have sum: "unat (off + ?n) = unat off + unat ?n" if "off < payload_size x"
    using that by (subst unat_add_lem [THEN iffD1]) (force simp: OC_MAX_APP_DATA_SIZE_def)+
  show "buffer_ok x'" using e ok fit sum by (cases "off < payload_size x") (simp_all add: buffer_ok_def)
  show "bclient_cb x' = bclient_cb x" "betag x' = betag x" "payload_size x' = payload_size x" using e by (auto split: if_splits)
  show "unat n \<le> length (drop (unat o') (buffer x')) \<and> unat n \<le> OC_MAX_APP_DATA_SIZE" if "blk = Some (o', n)"
    using that e fit ps by (auto split: if_splits)
qed

section \<open>The payload of a request\<close>

lemma unat_ucast_u16_le: "unat (ucast (w :: u32) :: u16) \<le> unat w"
  by (simp add: unsigned_ucast_eq take_bit_eq_mod)

lemma incoming_ok:
  assumes "payload_in pkt (length rx)"
  shows "unat (incoming_block_len pkt) \<le> length (incoming_block rx pkt)" and "unat (incoming_block_len pkt) \<le> length rx"
  using assms by (auto simp: payload_in_def incoming_block_len_def incoming_block_def coap_get_payload_def split: cptr.splits)


lemma whole_request_net:
  assumes inv: "net_inv s ext" and pay: "payload_in pkt (length rx)" and len: "length rx = OC_PDU_SIZE"
  shows "\<exists>s' rb ok. whole_request s rx pkt endpoint = Some (s', rb, ok) \<and> stage ext s s' \<and>
     (\<forall>b. rb = Some b \<longrightarrow> requests s' b \<noteq> None) \<and> (ok \<longrightarrow> rb \<noteq> None)"
proof -
  obtain s1 r where s1: "bw_alloc Request s (href_of rx pkt) endpoint (code pkt) OC_BLOCKWISE_SERVER = Some (s1, r)" "net_inv s1 ext"
    "net_keeps s s1" "same_tree s s1" "msgs s1 = msgs s"
    "\<forall>a. r = Some a \<longrightarrow> bw_heap Request s a = None \<and> (\<exists>x. bw_heap Request s1 a = Some x \<and> new_buffer x (href_of rx pkt) endpoint (code pkt) OC_BLOCKWISE_SERVER)"
    using alloc_net [OF inv, of Request "href_of rx pkt" endpoint "code pkt" OC_BLOCKWISE_SERVER] by (elim exE conjE) (rule that; assumption)
  have al: "oc_blockwise_alloc_request_buffer s (href_of rx pkt) endpoint (code pkt) OC_BLOCKWISE_SERVER = Some (s1, r)"
    using s1(1) by (simp add: bw_alloc_def)
  have st1: "stage ext s s1" using s1(2-5) by (simp add: stage_def)
  show ?thesis
  proof (cases r)
    case None
    then show ?thesis using al st1 by (auto simp: whole_request_def)
  next
    case (Some b)
    then obtain x where x: "requests s1 b = Some x" using s1(6) by auto
    let ?n = "ucast (ucast (incoming_block_len pkt) :: u16) :: u32"
    have small: "unat (incoming_block_len pkt) < 2 ^ 16" using incoming_ok(2) [OF pay] len
      by (simp add: OC_PDU_SIZE_def OC_MAX_APP_DATA_SIZE_def COAP_MAX_HEADER_SIZE_val)
    then have n: "unat ?n = unat (incoming_block_len pkt)"
      by (simp add: unat_ucast_u16) (simp add: unsigned_ucast_eq take_bit_nat_eq_self_iff)
    then obtain x' ok where h: "oc_blockwise_handle_block x 0 (incoming_block rx pkt) ?n = Some (x', ok)" "buffer_ok x'" "bclient_cb x' = bclient_cb x"
      "ok \<longrightarrow> unat ?n \<le> OC_MAX_APP_DATA_SIZE"
      using handle_block_net [OF live_ok [OF s1(2), of Request b x], of ?n "incoming_block rx pkt" 0] x incoming_ok(1) [OF pay] by auto
    define y where "y = (if ok then x'\<lparr>buri_query := query_of_packet rx pkt, payload_size := incoming_block_len pkt\<rparr> else x')"
    have y: "buffer_ok y" "bclient_cb y = bclient_cb x" using h(2-4) n by (simp_all add: y_def buffer_ok_def)
    have "whole_request s rx pkt endpoint = Some (upd_bw Request s1 b y, Some b, ok)"
      using al Some x h(1) by (simp add: whole_request_def y_def)
    moreover have "stage ext s (upd_bw Request s1 b y)"
      by (rule stage_trans [OF st1 upd_stage [OF s1(2) _ y]]) (simp add: x)
    moreover have "requests (upd_bw Request s1 b y) b \<noteq> None" by (simp add: upd_bw_def)
    ultimately show ?thesis by auto
  qed
qed

text \<open>The state of \<open>coap_receive\<close> between the first stages: the buffers are live and the response can be
  serialised.\<close>

definition receive_ok :: "receive \<Rightarrow> bool" where
  "receive_ok r \<longleftrightarrow> (\<forall>b. request_buffer r = Some b \<longrightarrow> requests (net_of r) b \<noteq> None) \<and>
     (\<forall>b. response_buffer r = Some b \<longrightarrow> responses (net_of r) b \<noteq> None) \<and> reply (response r)"

definition staged :: "(addr \<Rightarrow> nat) \<Rightarrow> receive \<Rightarrow> receive \<times> label \<Rightarrow> bool" where
  "staged ext r q \<longleftrightarrow> (case q of (r', l) \<Rightarrow> stage ext (net_of r) (net_of r') \<and> receive_ok r' \<and> transaction r' = transaction r \<and>
     coap_status_code r' = coap_status_code r \<and> (l = Request_handler \<longrightarrow> response_buffer r' = None))"

lemma block1_request_net:
  assumes inv: "net_inv (net_of r) ext" and r: "receive_ok r" "response_buffer r = None" and pay: "payload_in pkt (length rx)"
  shows "\<exists>q. block1_request r rx pkt endpoint b1 = Some q \<and> staged ext r q"
proof -
  let ?s = "net_of r" and ?h = "href_of rx pkt" and ?q = "query_of_packet rx pkt"
  obtain f where f: "oc_blockwise_find_buffer Request ?s ?h endpoint (code pkt) ?q OC_BLOCKWISE_SERVER = Some f"
    "\<forall>a. f = Some a \<longrightarrow> bw_heap Request ?s a \<noteq> None" using find_buffer_ok [OF inv] by blast
  have "\<exists>s1 rb. (if f = None \<and> bnum b1 = 0 then do {
         (s, a) \<leftarrow> oc_blockwise_alloc_request_buffer ?s ?h endpoint (code pkt) OC_BLOCKWISE_SERVER;
         case a of None \<Rightarrow> Some (s, None)
         | Some b \<Rightarrow> do { x \<leftarrow> requests s b; Some (upd_bw Request s b (x\<lparr>buri_query := ?q\<rparr>), Some b) }
       } else Some (?s, f)) = Some (s1, rb) \<and> stage ext ?s s1 \<and> (\<forall>b. rb = Some b \<longrightarrow> requests s1 b \<noteq> None)"
  proof (cases "f = None \<and> bnum b1 = 0")
    case False
    then show ?thesis using f(2) stage_refl [OF inv] by auto
  next
    case True
    obtain s1 a where s1: "bw_alloc Request ?s ?h endpoint (code pkt) OC_BLOCKWISE_SERVER = Some (s1, a)" "net_inv s1 ext"
      "net_keeps ?s s1" "same_tree ?s s1" "msgs s1 = msgs ?s"
      "\<forall>b. a = Some b \<longrightarrow> bw_heap Request ?s b = None \<and> (\<exists>x. bw_heap Request s1 b = Some x \<and> new_buffer x ?h endpoint (code pkt) OC_BLOCKWISE_SERVER)"
      using alloc_net [OF inv, of Request ?h endpoint "code pkt" OC_BLOCKWISE_SERVER] by (elim exE conjE) (rule that; assumption)
    have al: "oc_blockwise_alloc_request_buffer ?s ?h endpoint (code pkt) OC_BLOCKWISE_SERVER = Some (s1, a)"
      using s1(1) by (simp add: bw_alloc_def)
    have st: "stage ext ?s s1" using s1(2-5) by (simp add: stage_def)
    show ?thesis
    proof (cases a)
      case None
      then show ?thesis using True al st by simp
    next
      case (Some b)
      then obtain x where x: "requests s1 b = Some x" using s1(6) by auto
      let ?x = "x\<lparr>buri_query := ?q\<rparr>"
      have "stage ext s1 (upd_bw Request s1 b ?x)"
        using live_ok [OF s1(2), of Request b x] x by (intro upd_stage [OF s1(2)]) (auto simp: buffer_ok_def)
      then show ?thesis using True al Some x stage_trans [OF st] by (simp add: upd_bw_def)
    qed
  qed
  then obtain s1 rb where s1: "(if f = None \<and> bnum b1 = 0 then do {
         (s, a) \<leftarrow> oc_blockwise_alloc_request_buffer ?s ?h endpoint (code pkt) OC_BLOCKWISE_SERVER;
         case a of None \<Rightarrow> Some (s, None)
         | Some b \<Rightarrow> do { x \<leftarrow> requests s b; Some (upd_bw Request s b (x\<lparr>buri_query := ?q\<rparr>), Some b) }
       } else Some (?s, f)) = Some (s1, rb)" "stage ext ?s s1" "\<forall>b. rb = Some b \<longrightarrow> requests s1 b \<noteq> None" by blast
  have find: "oc_blockwise_find_request_buffer ?s ?h endpoint (code pkt) ?q OC_BLOCKWISE_SERVER = Some f"
    using f(1) by (simp add: oc_blockwise_find_request_buffer_def)
  show ?thesis
  proof (cases rb)
    case None
    then show ?thesis using find s1 r by (simp add: block1_request_def staged_def receive_ok_def)
  next
    case (Some b)
    then obtain x where x: "requests s1 b = Some x" using s1(3) by auto
    let ?n = "ucast (min (ucast (incoming_block_len pkt)) (bsize b1)) :: u32"
    have "unat (min (ucast (incoming_block_len pkt)) (bsize b1)) \<le> unat (ucast (incoming_block_len pkt) :: u16)"
      by (simp add: word_le_nat_alt [symmetric])
    then have n: "unat ?n \<le> length (incoming_block rx pkt)"
      using unat_ucast_u16_le [of "incoming_block_len pkt"] incoming_ok(1) [OF pay] by (simp add: unat_ucast_u16)
    obtain x' ok where h: "oc_blockwise_handle_block x (boffset b1) (incoming_block rx pkt) ?n = Some (x', ok)" "buffer_ok x'" "bclient_cb x' = bclient_cb x"
      using handle_block_net [OF live_ok [OF stage_inv [OF s1(2)], of Request b x] n, of "boffset b1"] x by auto
    define y where "y = (if \<not> ok then x' else if bmore b1 \<noteq> 0 then x'\<lparr>bref := 1\<rparr> else x'\<lparr>payload_size := next_block_offset x', bref := 0\<rparr>)"
    have y: "buffer_ok y" "bclient_cb y = bclient_cb x" using h(2,3) by (simp_all add: y_def buffer_ok_def)
    have st: "stage ext ?s (upd_bw Request s1 b y)"
      by (rule stage_trans [OF s1(2) upd_stage [OF stage_inv [OF s1(2)] _ y]]) (simp add: x)
    have live: "requests (upd_bw Request s1 b y) b \<noteq> None" by (simp add: upd_bw_def)
    have rep: "reply (fst (coap_set_header_block1 (response r) (bnum b1) (bmore b1) (bsize b1)))"
      "reply (fst (coap_set_header_block1 (response r\<lparr>code := 95\<rparr>) (bnum b1) (bmore b1) (bsize b1)))"
      using r(1) reply_setters(6) reply_setters(8) by (simp_all add: receive_ok_def)
    show ?thesis using find s1(1) Some x h(1) st live rep r
      by (auto simp: block1_request_def staged_def receive_ok_def y_def split: if_splits)
  qed
qed

lemma plain_request_net:
  assumes inv: "net_inv (net_of r) ext" and r: "receive_ok r" "response_buffer r = None" and pay: "payload_in pkt (length rx)"
    and len: "length rx = OC_PDU_SIZE"
  shows "\<exists>q. plain_request r rx pkt endpoint b1 = Some q \<and> staged ext r q"
proof -
  obtain s1 rb ok where s1: "whole_request (net_of r) rx pkt endpoint = Some (s1, rb, ok)" "stage ext (net_of r) s1"
    "\<forall>b. rb = Some b \<longrightarrow> requests s1 b \<noteq> None" "ok \<longrightarrow> rb \<noteq> None" using whole_request_net [OF inv pay len] by blast
  have skip: "stage ext (net_of r) (net_of r)" by (rule stage_refl [OF inv])
  show ?thesis
  proof (cases "rb = None \<or> \<not> ok")
    case True
    then show ?thesis using s1 skip r
      by (cases rb) (auto simp: plain_request_def staged_def receive_ok_def)
  next
    case False
    then obtain b x where b: "rb = Some b" ok "requests s1 b = Some x" using s1(3) by auto
    let ?x = "x\<lparr>bref := 0\<rparr>"
    have "stage ext s1 (upd_bw Request s1 b ?x)"
      using live_ok [OF stage_inv [OF s1(2)], of Request b x] b(3) by (intro upd_stage [OF stage_inv [OF s1(2)]]) (auto simp: buffer_ok_def)
    then have "stage ext (net_of r) (upd_bw Request s1 b ?x)" by (rule stage_trans [OF s1(2)])
    moreover have "requests (upd_bw Request s1 b ?x) b \<noteq> None" by (simp add: upd_bw_def)
    ultimately show ?thesis using s1(1) b skip r by (auto simp: plain_request_def staged_def receive_ok_def)
  qed
qed


lemma coap_set_payload_reply:
  assumes "reply pkt" and "unat n \<le> length bs" and "unat n \<le> OC_MAX_APP_DATA_SIZE"
  shows "reply (fst (coap_set_payload pkt (Obj bs) (unat (n :: u32))))"
proof -
  let ?k = "if transport_type pkt = COAP_TRANSPORT_TCP then of_nat (unat n) else ucast (of_nat (min OC_BLOCK_SIZE (unat n)) :: u16) :: u32"
  have "unat (of_nat (min OC_BLOCK_SIZE (unat n)) :: u16) = min OC_BLOCK_SIZE (unat n)"
    by (simp add: OC_BLOCK_SIZE_val unat_of_nat_u16)
  then have "unat ?k \<le> unat n" by (simp add: unat_ucast_u16)
  then show ?thesis using assms by (auto simp: coap_set_payload_def Let_def reply_def IS_OPTION_def)
qed

lemma coap_set_etag_reply:
  assumes "reply pkt" and "length tag = COAP_ETAG_LEN"
  shows "\<exists>p n. coap_set_header_etag pkt tag COAP_ETAG_LEN = Some (p, n) \<and> reply p"
proof -
  have "reply (pkt\<lparr>etag_len := 8, etag := splice 0 tag (etag pkt)\<rparr>)" using assms by (simp add: reply_def IS_OPTION_def)
  then have "reply (SET_OPTION (pkt\<lparr>etag_len := 8, etag := splice 0 tag (etag pkt)\<rparr>) 4)" by (intro reply_set_option) simp_all
  then show ?thesis using assms(2) by (simp add: coap_set_header_etag_def rd_slice_def Let_def)
qed

lemma block_size_bound: "unat (bsize (block_option b)) \<le> 512"
proof -
  have "unat (min w (of_nat OC_BLOCK_SIZE) :: u16) \<le> 512" for w :: u16
  proof -
    have "min w 512 \<le> (512 :: u16)" by simp
    then show ?thesis by (simp add: OC_BLOCK_SIZE_val word_le_nat_alt)
  qed
  then show ?thesis by (auto simp: block_option_def OC_BLOCK_SIZE_val split: option.splits)
qed

lemma block2_request_net:
  assumes inv: "net_inv (net_of r) ext" and r: "receive_ok r" "response_buffer r = None" and pay: "payload_in pkt (length rx)"
    and len: "length rx = OC_PDU_SIZE" and sz: "unat (bsize b2) \<le> 512"
  shows "\<exists>q. block2_request r rx pkt endpoint b2 = Some q \<and> staged ext r q"
proof -
  let ?s = "net_of r" and ?h = "href_of rx pkt" and ?q = "query_of_packet rx pkt"
  define res where "res = fst (coap_set_header_content_format (response r)
       (case coap_get_header_accept pkt of (_, Some a) \<Rightarrow> a | (_, None) \<Rightarrow> ucast APPLICATION_VND_OCF_CBOR))"
  have rep: "reply res" using r(1) reply_setters(2) by (simp add: res_def receive_ok_def)
  have skip: "stage ext ?s ?s" by (rule stage_refl [OF inv])
  obtain f where f: "oc_blockwise_find_response_buffer ?s ?h endpoint (code pkt) ?q OC_BLOCKWISE_SERVER = Some f"
    "\<forall>a. f = Some a \<longrightarrow> bw_heap Response ?s a \<noteq> None"
    using find_buffer_ok [OF inv] unfolding oc_blockwise_find_response_buffer_def by blast
  obtain g where g: "oc_blockwise_find_request_buffer ?s ?h endpoint (code pkt) ?q OC_BLOCKWISE_SERVER = Some g"
    "\<forall>a. g = Some a \<longrightarrow> bw_heap Request ?s a \<noteq> None"
    using find_buffer_ok [OF inv] unfolding oc_blockwise_find_request_buffer_def by blast
  obtain s1 rb ok where s1: "whole_request ?s rx pkt endpoint = Some (s1, rb, ok)" "stage ext ?s s1"
    "\<forall>b. rb = Some b \<longrightarrow> requests s1 b \<noteq> None" using whole_request_net [OF inv pay len] by blast
  show ?thesis
  proof (cases f)
    case None
    then show ?thesis using f(1) g s1 skip rep r unfolding block2_request_def Let_def res_def [symmetric]
      by (cases g) (auto simp: staged_def receive_ok_def)
  next
    case (Some b)
    then obtain x where x: "responses ?s b = Some x" using f(2) by auto
    obtain x' blk where d: "oc_blockwise_dispatch_block x (boffset b2) (ucast (bsize b2)) = (x', blk)" by fastforce
    have "unat (ucast (bsize b2) :: u32) \<le> 1024" using sz by (simp add: unat_ucast_u16)
    then have dn: "buffer_ok x'" "bclient_cb x' = bclient_cb x" "betag x' = betag x"
      "\<And>o' n. blk = Some (o', n) \<Longrightarrow> unat n \<le> length (drop (unat o') (buffer x')) \<and> unat n \<le> OC_MAX_APP_DATA_SIZE"
      using dispatch_block_net [OF live_ok [OF inv, of Response b x] _ d] x by auto
    have up: "stage ext ?s (upd_bw Response ?s b (x'\<lparr>bref := k\<rparr>))" "stage ext ?s (upd_bw Response ?s b x')" for k
      using dn(1,2) x by (auto intro!: upd_stage [OF inv] simp: buffer_ok_def)
    have live: "responses (upd_bw Response ?s b y) b \<noteq> None" "requests (upd_bw Response ?s b y) = requests ?s" for y
      by (simp_all add: upd_bw_def)
    show ?thesis
    proof (cases blk)
      case None
      then show ?thesis using f(1) Some x d up(2) live rep r unfolding block2_request_def Let_def res_def [symmetric]
        by (simp add: staged_def receive_ok_def)
    next
      case B: (Some p)
      obtain o' n where p: "p = (o', n)" by fastforce
      define more where "more = (if next_block_offset x' < payload_size x' then 1 else 0 :: u8)"
      define res2 where "res2 = fst (coap_set_header_block2 (fst (coap_set_payload res (Obj (drop (unat o') (buffer x'))) (unat n))) (bnum b2) more (bsize b2))"
      have "reply res2" using coap_set_payload_reply [OF rep, of n "drop (unat o') (buffer x')"] dn(4) B p reply_setters(7) by (simp add: res2_def)
      moreover have "length (betag x') = COAP_ETAG_LEN" using dn(1) by (simp add: buffer_ok_def)
      ultimately obtain res3 k where res3: "coap_set_header_etag res2 (betag x') COAP_ETAG_LEN = Some (res3, k)" "reply res3"
        using coap_set_etag_reply by blast
      have "block2_request r rx pkt endpoint b2 =
          Some (r\<lparr>response := res3, response_buffer := Some b, net_of := upd_bw Response ?s b (x'\<lparr>bref := more\<rparr>)\<rparr>, Send_message)"
        using f(1) Some x d B p res3(1) unfolding block2_request_def Let_def res_def [symmetric]
        by (cases "next_block_offset x' < payload_size x'") (simp_all add: res2_def more_def)
      then show ?thesis using up(1) [of more] live res3(2) r by (simp add: staged_def receive_ok_def)
    qed
  qed
qed

section \<open>The handler of a request\<close>

lemma upd_works:
  assumes "net_inv s ext" and "sep_inv s" and "bw_heap b s a = Some y" and "buffer_ok x" and "bclient_cb x = bclient_cb y"
  shows "works ext s (upd_bw b s a x)"
  using upd_bw_net [OF assms(1,3-5)] assms(2) by (auto simp: works_def net_keeps_def upd_bw_heap)

lemma first_block_net:
  assumes inv: "net_inv s ext" and sep: "sep_inv s" and b: "responses s b \<noteq> None" and rep: "reply res" and sz: "unat (bsize b2) \<le> 512"
  shows "\<exists>s' res'. first_block s b res endpoint b2 = Some (s', res') \<and> works ext s s' \<and> reply res'"
proof -
  obtain x where x: "responses s b = Some x" using b by auto
  have ok: "buffer_ok x" using live_ok [OF inv, of Response b x] x by simp
  define req where "req = (if flags endpoint AND TCP \<noteq> 0 then payload_size x + 1 else ucast (bsize b2))"
  obtain x' blk where d: "oc_blockwise_dispatch_block x 0 req = (x', blk)" by fastforce
  note dn = dispatch_block_net [OF ok disjI1 [OF refl] d]
  define res1 where "res1 = (case blk of Some (off, n) \<Rightarrow> fst (coap_set_payload res (Obj (drop (unat off) (buffer x'))) (unat n)) | None \<Rightarrow> res)"
  have res1: "reply res1"
    using rep dn(5) coap_set_payload_reply [OF rep] by (auto simp: res1_def split: option.splits)
  have up: "works ext s (upd_bw Response s b (x'\<lparr>bref := k\<rparr>))" "works ext s (upd_bw Response s b x')" for k
    using dn(1,2) x by (auto intro!: upd_works [OF inv sep] simp: buffer_ok_def)
  show ?thesis
  proof (cases "flags endpoint AND TCP \<noteq> 0")
    case True
    have "first_block s b res endpoint b2 = Some (upd_bw Response s b (x'\<lparr>bref := 0\<rparr>),
        case blk of Some (off, n) \<Rightarrow> if payload_size x' > 0 then fst (coap_set_payload res (Obj (drop (unat off) (buffer x'))) (unat n)) else res | None \<Rightarrow> res)"
      using True x d by (simp add: first_block_def req_def)
    moreover have "reply (case blk of Some (off, n) \<Rightarrow> if payload_size x' > 0 then fst (coap_set_payload res (Obj (drop (unat off) (buffer x'))) (unat n)) else res | None \<Rightarrow> res)"
      using res1 rep by (auto simp: res1_def split: option.splits)
    ultimately show ?thesis using up(1) [of 0] by auto
  next
    case False
    have run: "first_block s b res endpoint b2 =
        (if present b2 \<or> payload_size x' > ucast (bsize b2) then do {
              let res = fst (coap_set_header_block2 res1 0 (if payload_size x' > ucast (bsize b2) then 1 else 0) (bsize b2));
              let res = fst (coap_set_header_size2 res (payload_size x'));
              (res, _) \<leftarrow> coap_set_header_etag res (betag x') COAP_ETAG_LEN;
              Some (upd_bw Response s b x', res)
            }
            else Some (upd_bw Response s b (x'\<lparr>bref := 0\<rparr>), res1))"
      using False x d by (simp add: first_block_def req_def res1_def Let_def)
    let ?res = "fst (coap_set_header_size2 (fst (coap_set_header_block2 res1 0 (if payload_size x' > ucast (bsize b2) then 1 else 0) (bsize b2))) (payload_size x'))"
    have "reply ?res" using res1 reply_setters(4,7) by simp
    moreover have "length (betag x') = COAP_ETAG_LEN" using dn(1) by (simp add: buffer_ok_def)
    ultimately obtain res3 k where res3: "coap_set_header_etag ?res (betag x') COAP_ETAG_LEN = Some (res3, k)" "reply res3"
      using coap_set_etag_reply by blast
    show ?thesis using run res3 res1 up(1) [of 0] up(2) by (cases "present b2 \<or> payload_size x' > ucast (bsize b2)") (simp_all add: Let_def)
  qed
qed

end
