(* ===== verification/Net_Receive.thy ===== *)
theory Net_Receive
  imports Net_Engine_Inv
begin

text \<open>
  The engine serves every request: whatever the datagram holds, \<open>coap_receive\<close> comes to its end, the
  invariants of the messaging layer and of the separate responses hold afterwards, and the message
  is released.
\<close>

section \<open>The handler\<close>

lemma works_refl: "net_inv s ext \<Longrightarrow> sep_inv s \<Longrightarrow> works ext s s"
  by (simp add: works_def)

lemma works_invs: "works ext s s' \<Longrightarrow> net_inv s' ext \<and> sep_inv s'"
  by (simp add: works_def)

lemma works_live: "works ext s s' \<Longrightarrow> bw_heap b s a \<noteq> None \<Longrightarrow> bw_heap b s' a \<noteq> None"
  by (simp add: works_def)

lemma works_receive_ok:
  assumes w: "works ext (net_of r) s" and "receive_ok r"
  shows "receive_ok (r\<lparr>net_of := s\<rparr>)"
  using assms(2) works_live [OF w, of Request] works_live [OF w, of Response] by (simp add: receive_ok_def)

lemma clear_ref_net:
  assumes inv: "net_inv s ext" and sep: "sep_inv s" and live: "\<And>a. r = Some a \<Longrightarrow> bw_heap b s a \<noteq> None"
  shows "\<exists>s'. clear_ref b s r = Some s' \<and> works ext s s'"
proof (cases r)
  case None
  then show ?thesis using works_refl [OF inv sep] by (simp add: clear_ref_def)
next
  case (Some a)
  then obtain x where x: "bw_heap b s a = Some x" using live by auto
  then have "works ext s (upd_bw b s a (x\<lparr>bref := 0\<rparr>))"
    using live_ok [OF inv x] by (intro upd_works [OF inv sep]) (simp_all add: buffer_ok_def)
  then show ?thesis using Some x by (simp add: clear_ref_def)
qed

lemma clear_refs_net:
  assumes inv: "net_inv s ext" and sep: "sep_inv s"
    and "\<And>a. rq = Some a \<Longrightarrow> requests s a \<noteq> None" and "\<And>a. rs = Some a \<Longrightarrow> responses s a \<noteq> None"
  shows "\<exists>s'. clear_refs s rq rs = Some s' \<and> works ext s s'"
proof -
  obtain s1 where s1: "clear_ref Request s rq = Some s1" "works ext s s1" using clear_ref_net [OF inv sep, of rq Request] assms(3) by auto
  have "bw_heap Response s1 a \<noteq> None" if "rs = Some a" for a using works_live [OF s1(2), of Response a] assms(4) that by simp
  then obtain s2 where "clear_ref Response s1 rs = Some s2" "works ext s1 s2"
    using clear_ref_net [of s1 ext rs Response] works_invs [OF s1(2)] by auto
  then show ?thesis using s1 works_trans by (auto simp: clear_refs_def)
qed

text \<open>After the handler: the transaction is as it was, the packet can be serialised.\<close>

definition handled :: "(addr \<Rightarrow> nat) \<Rightarrow> receive \<Rightarrow> receive \<times> label \<Rightarrow> bool" where
  "handled ext r q \<longleftrightarrow> (case q of (r', l) \<Rightarrow> net_inv (net_of r') ext \<and> sep_inv (net_of r') \<and>
     (\<forall>t x. trans (net_of r) t = Some x \<longrightarrow> trans (net_of r') t = Some x) \<and> receive_ok r' \<and> transaction r' = transaction r \<and>
     (coap_status_code r' = coap_status_code r \<or> coap_status_code r' = CLEAR_TRANSACTION))"

lemma request_handler_net:
  assumes sv: "services_ok sv" and inv: "net_inv (net_of r) ext" and sep: "sep_inv (net_of r)" and room: "\<not> ring_full (net_of r)"
    and m: "msgs (net_of r) d = Some m" and req: "request_ok (net_of r) rx pkt (mendpoint m)" and r: "receive_ok r" "response_buffer r = None"
    and sz: "unat (bsize b2) \<le> 512"
  shows "\<exists>q. request_handler sv r rx pkt d endpoint b2 = Some q \<and> handled ext r q"
proof -
  have live: "\<And>b. request_buffer r = Some b \<Longrightarrow> requests (net_of r) b \<noteq> None" and rep: "reply (response r)"
    using r(1) by (simp_all add: receive_ok_def)
  have ex: "\<exists>s res rq rs st ok. oc_ri_invoke_coap_entity_handler sv (net_of r) rx pkt (response r) (request_buffer r) None (bsize b2) d
       (coap_status_code r) = Some (s, res, rq, rs, st, ok) \<and>
     net_inv s ext \<and> sep_inv s \<and> (\<forall>t x. trans (net_of r) t = Some x \<longrightarrow> trans s t = Some x) \<and> reply res \<and>
     (\<forall>b. rq = Some b \<longrightarrow> requests s b \<noteq> None) \<and> (\<forall>b. rs = Some b \<longrightarrow> responses s b \<noteq> None) \<and> (ok \<longrightarrow> rs \<noteq> None) \<and>
     (st = coap_status_code r \<or> st = CLEAR_TRANSACTION)"
    by (rule entity_handler_net [OF sv inv sep room m req _ rep]) (rule live)
  obtain s res rq rs st ok where h: "oc_ri_invoke_coap_entity_handler sv (net_of r) rx pkt (response r) (request_buffer r) None (bsize b2) d
       (coap_status_code r) = Some (s, res, rq, rs, st, ok)"
    "net_inv s ext" "sep_inv s" "\<forall>t x. trans (net_of r) t = Some x \<longrightarrow> trans s t = Some x" "reply res"
    "\<forall>b. rq = Some b \<longrightarrow> requests s b \<noteq> None" "\<forall>b. rs = Some b \<longrightarrow> responses s b \<noteq> None" "ok \<longrightarrow> rs \<noteq> None"
    "st = coap_status_code r \<or> st = CLEAR_TRANSACTION"
    using ex by (elim exE conjE) (rule that; assumption)
  have "\<exists>s' res'. (if ok then do { b \<leftarrow> rs; first_block s b res endpoint b2 } else do { s \<leftarrow> clear_refs s rq rs; Some (s, res) }) =
      Some (s', res') \<and> works ext s s' \<and> reply res'"
  proof (cases ok)
    case True
    then obtain b where "rs = Some b" "responses s b \<noteq> None" using h(7,8) by auto
    then show ?thesis using True first_block_net [OF h(2,3) _ h(5) sz] by simp
  next
    case False
    then show ?thesis using clear_refs_net [OF h(2,3), of rq rs] h(5-7) by auto
  qed
  then obtain s' res' where s': "(if ok then do { b \<leftarrow> rs; first_block s b res endpoint b2 } else do { s \<leftarrow> clear_refs s rq rs; Some (s, res) }) =
      Some (s', res')" "works ext s s'" "reply res'" by blast
  have "request_handler sv r rx pkt d endpoint b2 =
      Some (r\<lparr>net_of := s', response := res', request_buffer := rq, response_buffer := rs, coap_status_code := st\<rparr>,
        if code res' \<noteq> 0 then Send_message else Init_reset_message)"
    using h(1) s'(1) r(2) by (simp add: request_handler_def)
  moreover have "\<forall>b. rq = Some b \<longrightarrow> requests s' b \<noteq> None" "\<forall>b. rs = Some b \<longrightarrow> responses s' b \<noteq> None"
    using h(6,7) works_live [OF s'(2), of Request] works_live [OF s'(2), of Response] by simp_all
  moreover have "\<forall>t x. trans (net_of r) t = Some x \<longrightarrow> trans s' t = Some x" using h(4) s'(2) by (simp add: works_def)
  ultimately show ?thesis using works_invs [OF s'(2)] s'(3) h(9) by (simp add: handled_def receive_ok_def)
qed

section \<open>A request\<close>

text \<open>When the engine reaches a label: the transaction, if there is one, has not been sent.\<close>

definition to_send :: "(addr \<Rightarrow> nat) \<Rightarrow> receive \<Rightarrow> bool" where
  "to_send ext r \<longleftrightarrow> net_inv (net_of r) ext \<and> sep_inv (net_of r) \<and> receive_ok r \<and>
     (\<forall>t. transaction r = Some t \<longrightarrow> (\<exists>x. trans (net_of r) t = Some x \<and> retrans_counter x = 0))"

lemma handled_to_send:
  assumes "to_send ext r" and "handled ext r (r', l)"
  shows "to_send ext r'"
  using assms unfolding to_send_def handled_def by simp blast

lemma staged_handled: "staged ext r q \<Longrightarrow> sep_inv (net_of r) \<Longrightarrow> handled ext r q"
  by (auto simp: staged_def handled_def stage_def net_keeps_def)

lemma request_ok_stage:
  assumes "stage ext s s'" and "request_ok s rx pkt endpoint"
  shows "request_ok s' rx pkt endpoint"
  using assms path_ok_tree by (auto simp: stage_def request_ok_def)

lemma new_transaction_stage:
  assumes inv: "net_inv s ext" and m: "msgs s d = Some m"
  obtains s' r where "coap_new_transaction s k endpoint = Some (s', r)" and "net_inv s' ext" and "same_tree s s'"
    and "sep_inv s' = sep_inv s" and "ring_full s' = ring_full s" and "msgs s' d = Some m"
    and "requests s' = requests s" and "responses s' = responses s"
    and "\<forall>t. r = Some t \<longrightarrow> (\<exists>x. trans s' t = Some x \<and> retrans_counter x = 0)"
proof -
  obtain s' r where n: "coap_new_transaction s k endpoint = Some (s', r)" "net_inv s' ext"
     "\<exists>e ms h l. s' = s\<lparr>et := e, msgs := ms, trans := h, transactions_list := l\<rparr> \<and> sch e = sch (et s)"
     "case r of None \<Rightarrow> (obj_room transactions_memb (trans s) = 0 \<or> obj_room oc_outgoing_buffers (msgs s) = 0) \<and>
          trans s' = trans s \<and> msgs s' = msgs s \<and> transactions_list s' = transactions_list s
      | Some t \<Rightarrow> fresh_trans s k endpoint s' t"
    using new_transaction_ok [OF inv, of k endpoint] by (elim exE conjE) (rule that; (assumption | blast))
  have "same_tree s s'" "ring_full s' = ring_full s" "requests s' = requests s" "responses s' = responses s"
    "separates s' = separates s" "sep_requests s' = sep_requests s" "sep_active s' = sep_active s"
    using n(3) by (auto simp: same_tree_def ring_full_def)
  moreover from this have "sep_inv s' = sep_inv s" by (intro sep_inv_cong)
  moreover have "msgs s' d = Some m" using n(4) m by (auto simp: fresh_trans_def split: option.splits)
  moreover have "\<forall>t. r = Some t \<longrightarrow> (\<exists>x. trans s' t = Some x \<and> retrans_counter x = 0)"
    using n(4) by (auto simp: fresh_trans_def)
  ultimately show thesis using n(1,2) that by blast
qed

lemma handle_request_net:
  assumes sv: "services_ok sv" and inv: "net_inv (net_of r) ext" and sep: "sep_inv (net_of r)" and room: "\<not> ring_full (net_of r)"
    and m: "msgs (net_of r) d = Some m" and req: "request_ok (net_of r) rx pkt (mendpoint m)" and r: "receive_ok r" "response_buffer r = None"
    and pay: "payload_in pkt (length rx)" and len: "length rx = OC_PDU_SIZE"
  shows "\<exists>r' l. handle_request sv r rx pkt d endpoint = Some (r', l) \<and> to_send ext r' \<and>
     (coap_status_code r' = coap_status_code r \<or> coap_status_code r' = CLEAR_TRANSACTION)"
proof -
  let ?b1 = "block_option (coap_get_header_block1 pkt)" and ?b2 = "block_option (coap_get_header_block2 pkt)"
  obtain s t where n: "coap_new_transaction (net_of r) (mid pkt) endpoint = Some (s, t)" "net_inv s ext" "same_tree (net_of r) s"
    "sep_inv s = sep_inv (net_of r)" "ring_full s = ring_full (net_of r)" "msgs s d = Some m"
    "requests s = requests (net_of r)" "responses s = responses (net_of r)"
    "\<forall>u. t = Some u \<longrightarrow> (\<exists>x. trans s u = Some x \<and> retrans_counter x = 0)"
    using new_transaction_stage [OF inv m] by metis
  define r1 where "r1 = r\<lparr>net_of := s, transaction := t\<rparr>"
  have r1: "net_of r1 = s" "response_buffer r1 = None" "receive_ok r1" "coap_status_code r1 = coap_status_code r" "to_send ext r1"
    using r n sep by (simp_all add: r1_def receive_ok_def to_send_def)
  have req1: "request_ok s rx pkt (mendpoint m)" using req path_ok_tree [OF n(3)] by (simp add: request_ok_def)
  show ?thesis
  proof (cases t)
    case None
    then have "handle_request sv r rx pkt d endpoint = Some (r1, Init_reset_message)"
      using n(1) by (simp add: handle_request_def Let_def r1_def)
    then show ?thesis using r1 by simp
  next
    case (Some u)
    have "\<exists>q. (if present ?b1 then block1_request r1 rx pkt endpoint ?b1
        else if present ?b2 then block2_request r1 rx pkt endpoint ?b2 else plain_request r1 rx pkt endpoint ?b1) = Some q \<and> staged ext r1 q"
      using block1_request_net [of r1 ext pkt rx endpoint ?b1] block2_request_net [of r1 ext pkt rx ?b2 endpoint]
        plain_request_net [of r1 ext pkt rx endpoint ?b1] block_size_bound r1 n(2) pay len by simp
    then obtain r2 l where q: "(if present ?b1 then block1_request r1 rx pkt endpoint ?b1
        else if present ?b2 then block2_request r1 rx pkt endpoint ?b2 else plain_request r1 rx pkt endpoint ?b1) = Some (r2, l)"
      "staged ext r1 (r2, l)" by fastforce
    have h: "handle_request sv r rx pkt d endpoint =
        (if l = Request_handler then request_handler sv r2 rx pkt d endpoint ?b2 else Some (r2, l))"
      using n(1) Some q(1) unfolding r1_def by (simp add: handle_request_def Let_def cong: if_cong)
    have r2: "to_send ext r2" using handled_to_send [OF r1(5) staged_handled [OF q(2)]] r1(1) n(4) sep by simp
    have st2: "coap_status_code r2 = coap_status_code r" using q(2) r1(4) by (simp add: staged_def)
    show ?thesis
    proof (cases "l = Request_handler")
      case False
      then show ?thesis using h r2 st2 by simp
    next
      case True
      have "stage ext s (net_of r2)" "response_buffer r2 = None" using q(2) True r1(1) by (simp_all add: staged_def)
      moreover from this(1) have "\<not> ring_full (net_of r2)" "msgs (net_of r2) d = Some m" "request_ok (net_of r2) rx pkt (mendpoint m)"
        using n(5,6) room request_ok_stage [OF _ req1] by (auto simp: stage_def net_keeps_def)
      ultimately obtain q' where q': "request_handler sv r2 rx pkt d endpoint ?b2 = Some q'" "handled ext r2 q'"
        using request_handler_net [OF sv, of r2 ext d m rx pkt ?b2 endpoint] r2 block_size_bound by (auto simp: to_send_def)
      obtain r3 l3 where "q' = (r3, l3)" by fastforce
      then show ?thesis using h True q' handled_to_send [OF r2] st2 by (auto simp: handled_def)
    qed
  qed
qed

section \<open>Sending the response\<close>

lemma sep_inv_frame: "send_frame s s' \<Longrightarrow> sep_inv s \<Longrightarrow> sep_inv s'"
  using send_frame_sep sep_inv_cong by blast

lemma clear_transaction_net:
  assumes inv: "net_inv s ext" and sep: "sep_inv s" and x: "trans s t = Some x"
  shows "\<exists>s'. coap_clear_transaction s t = Some s' \<and> net_inv s' ext \<and> sep_inv s' \<and> same_tree s s' \<and> ring_full s' = ring_full s \<and>
     sub_msgs (msgs s') (msgs s)"
proof -
  obtain s' e ms where s': "coap_clear_transaction s t = Some s'" "net_inv s' ext"
    "s' = s\<lparr>et := e, msgs := ms, trans := (trans s)(t := None), transactions_list := remove1 t (transactions_list s)\<rparr>"
    "sch e = sch (et s)" "sub_msgs ms (msgs s)"
    using clear_transaction_ok [OF inv x] by auto
  then have "sep_inv s' = sep_inv s" by (intro sep_inv_cong) simp_all
  then show ?thesis using s' sep by (simp add: same_tree_def ring_full_def)
qed

lemma send_transaction_net:
  assumes inv: "net_inv s ext" and sep: "sep_inv s" and x: "trans s t = Some x" "retrans_counter x = 0" and ext: "\<forall>a. ext a < 50"
  shows "\<exists>s'. coap_send_transaction close_notify s t = Some s' \<and> net_inv s' ext \<and> sep_inv s'"
proof -
  obtain m where m: "msgs s (tmessage x) = Some m" "length (mdata m) = OC_PDU_SIZE" using trans_message [OF inv x(1)] by blast
  then obtain c where c: "is_confirmable m = Some c"
    by (simp add: is_confirmable_def rd_def OC_PDU_SIZE_def COAP_MAX_HEADER_SIZE_val)
  have e: "ext (tmessage x) < 50" using ext by blast
  show ?thesis
  proof (cases "flags (mendpoint m) AND TCP = 0 \<and> c")
    case True
    obtain d where d: "retrans_interval s t (retrans_counter x) = (s\<lparr>drawn := d\<rparr>, next_interval s t (retrans_counter x))"
      using retrans_interval_drawn by blast
    let ?iv = "next_interval s t (retrans_counter x)"
    obtain e' where e': "in_context (transaction_handler_process s) (\<lambda>e. oc_etimer_restart (clk s) e t)
        (s\<lparr>drawn := d, et := set_timer (et s) t ((timer (et s) t)\<lparr>interval := ?iv\<rparr>)\<rparr>) = Some (s\<lparr>drawn := d, et := e'\<rparr>)"
      "net_inv (s\<lparr>drawn := d, et := e'\<rparr>) ext"
      using arm_retrans [OF inv x(1), where d = d and iv = ?iv] by auto
    let ?s = "s\<lparr>drawn := d, et := e'\<rparr>"
    obtain s2 s' where s': "oc_message_add_ref ?s (tmessage x) = Some s2" "coap_send_message s2 (tmessage x) = Some s'" "net_inv s' ext"
      "send_frame ?s s'" using ref_and_send_ok [OF e'(2) _ e, of m] m(1) by auto
    have "sep_inv ?s = sep_inv s" by (intro sep_inv_cong) simp_all
    then have "sep_inv s'" using sep_inv_frame [OF s'(4)] sep by simp
    moreover have "coap_send_transaction close_notify s t = Some s'"
      using x m(1) c True d e'(1) s'(1,2) by (simp add: coap_send_transaction_def)
    ultimately show ?thesis using s'(3) by blast
  next
    case False
    obtain s1 s2 where s2: "oc_message_add_ref s (tmessage x) = Some s1" "coap_send_message s1 (tmessage x) = Some s2" "net_inv s2 ext"
      "send_frame s s2" using ref_and_send_ok [OF inv m(1) e] by blast
    have "trans s2 t = Some x" using x(1) send_frame_fields [OF s2(4)] by simp
    from clear_transaction_net [OF s2(3) sep_inv_frame [OF s2(4) sep] this] obtain s' where
      s': "coap_clear_transaction s2 t = Some s'" "net_inv s' ext" "sep_inv s'" by blast
    have "coap_send_transaction close_notify s t = Some s'" using x m(1) c False s2(1,2) s'(1) by (auto simp: coap_send_transaction_def)
    then show ?thesis using s' by blast
  qed
qed

lemma scrub_sep:
  assumes "net_inv s ext" and "sep_inv s"
  shows "\<exists>s'. oc_blockwise_scrub_buffers s = Some s' \<and> net_inv s' ext \<and> sep_inv s'"
proof -
  obtain s' where s': "oc_blockwise_scrub_buffers s = Some s'" "net_inv s' ext" "cl_frame s s'" using scrub_net [OF assms(1)] by blast
  have "sep_inv s' = sep_inv s" using bw_frame_sep [OF s'(3) [unfolded cl_frame_def]] by (intro sep_inv_cong) simp_all
  then show ?thesis using s' assms(2) by blast
qed

lemma set_token_reply:
  assumes "reply res" and "unat (n :: u8) \<le> COAP_TOKEN_LEN" and "length tok = COAP_TOKEN_LEN"
  shows "\<exists>res' k. coap_set_token res tok (unat n) = Some (res', k) \<and> reply res'"
  using assms by (simp add: coap_set_token_def rd_slice_def reply_def IS_OPTION_def Let_def)

lemma response_token_net:
  assumes "reply (response r)" and "is_request pkt" and "unat (token_len pkt) \<le> COAP_TOKEN_LEN" and "length (token pkt) = COAP_TOKEN_LEN"
  shows "\<exists>res. response_token r pkt = Some (net_of r, res) \<and> reply res"
  using assms set_token_reply [OF assms(1,3,4)] by (auto simp: response_token_def Let_def)

lemma set_msg_sep: "sep_inv (set_msg s a m) = sep_inv s"
  by (rule sep_inv_cong) (simp_all add: set_msg_def)

lemma at_send_message_net:
  assumes rdy: "to_send ext r" and ext: "\<forall>a. ext a < 50"
    and tok: "transaction r \<noteq> None \<Longrightarrow> is_request pkt \<and> unat (token_len pkt) \<le> COAP_TOKEN_LEN \<and> length (token pkt) = COAP_TOKEN_LEN"
  shows "\<exists>s'. at_send_message close_notify r rx pkt = Some (s', coap_status_code r) \<and> net_inv s' ext \<and> sep_inv s'"
proof -
  let ?s = "net_of r" and ?st = "coap_status_code r"
  have inv: "net_inv ?s ext" and sep: "sep_inv ?s" and rep: "reply (response r)" using rdy by (simp_all add: to_send_def receive_ok_def)
  let ?send = "if ?st = COAP_NO_ERROR then
            case transaction r of
              None \<Rightarrow> Some ?s
            | Some t \<Rightarrow> do {
                (s, res) \<leftarrow> response_token r pkt;
                x \<leftarrow> trans s t;
                s \<leftarrow> serialize_into_message s (tmessage x) rx res;
                m \<leftarrow> msgs s (tmessage x);
                if mlength m > 0 then coap_send_transaction close_notify s t else coap_clear_transaction s t
              }
          else if ?st = CLEAR_TRANSACTION then
            coap_clear_transaction ?s (case transaction r of None \<Rightarrow> NULL_PTR | Some t \<Rightarrow> t)
          else Some ?s"
  have "\<exists>s. ?send = Some s \<and> net_inv s ext \<and> sep_inv s"
  proof (cases "transaction r")
    case None
    then show ?thesis using inv sep by (simp add: coap_clear_transaction_def)
  next
    case (Some t)
    then obtain x where x: "trans ?s t = Some x" "retrans_counter x = 0" using rdy by (auto simp: to_send_def)
    obtain res where res: "response_token r pkt = Some (?s, res)" "reply res" using response_token_net [OF rep] tok Some by auto
    obtain m where m: "msgs ?s (tmessage x) = Some m" using trans_message [OF inv x(1)] by blast
    have "unat (payload_len res) \<le> OC_MAX_APP_DATA_SIZE" using res(2) by (simp add: reply_def)
    then obtain bs n where ser: "serialize_into_message ?s (tmessage x) rx res = Some (set_msg ?s (tmessage x) (m\<lparr>mdata := bs, mlength := n\<rparr>))"
      "net_inv (set_msg ?s (tmessage x) (m\<lparr>mdata := bs, mlength := n\<rparr>)) ext"
      using serialize_into_message_ok [OF inv m reply_msg_ok [OF res(2)]] by blast
    let ?s1 = "set_msg ?s (tmessage x) (m\<lparr>mdata := bs, mlength := n\<rparr>)"
    have s1: "trans ?s1 t = Some x" "sep_inv ?s1" using x(1) sep set_msg_sep by (simp_all add: set_msg_def)
    obtain s2 where "coap_send_transaction close_notify ?s1 t = Some s2" "net_inv s2 ext" "sep_inv s2"
      using send_transaction_net [OF ser(2) s1(2,1) x(2) ext] by blast
    moreover obtain s3 where "coap_clear_transaction ?s1 t = Some s3" "net_inv s3 ext" "sep_inv s3"
      using clear_transaction_net [OF ser(2) s1(2,1)] by blast
    moreover obtain s4 where "coap_clear_transaction ?s t = Some s4" "net_inv s4 ext" "sep_inv s4"
      using clear_transaction_net [OF inv sep x(1)] by blast
    ultimately show ?thesis using Some res(1) x(1) ser(1) inv sep by (cases "n > 0") (simp_all add: set_msg_def)
  qed
  then obtain s1 where "?send = Some s1" "net_inv s1 ext" "sep_inv s1" by blast
  then show ?thesis using scrub_sep unfolding at_send_message_def by fastforce
qed

lemma at_label_net:
  assumes rdy: "to_send ext r" and ext: "\<forall>a. ext a < 50"
    and tok: "transaction r \<noteq> None \<Longrightarrow> is_request pkt \<and> unat (token_len pkt) \<le> COAP_TOKEN_LEN \<and> length (token pkt) = COAP_TOKEN_LEN"
  shows "\<exists>s'. at_label close_notify r l rx pkt endpoint = Some (s', coap_status_code r) \<and> net_inv s' ext \<and> sep_inv s'"
proof -
  define r1 where "r1 = (if l = Init_reset_message then at_init_reset_message r pkt endpoint else r)"
  have r1: "to_send ext r1" "transaction r1 = transaction r" "coap_status_code r1 = coap_status_code r"
    using rdy reply_init by (simp_all add: r1_def at_init_reset_message_def to_send_def receive_ok_def)
  then have ok: "net_inv (net_of r1) ext" "sep_inv (net_of r1)" "receive_ok r1" by (simp_all add: to_send_def)
  obtain s0 where s0: "clear_refs (net_of r1) (request_buffer r1) (response_buffer r1) = Some s0" "works ext (net_of r1) s0"
    using clear_refs_net [OF ok(1,2), of "request_buffer r1" "response_buffer r1"] ok(3) by (auto simp: receive_ok_def)
  then obtain s where s: "(if l = Init_reset_message \<or> l = Free_blockwise_buffers then clear_refs (net_of r1) (request_buffer r1) (response_buffer r1)
      else Some (net_of r1)) = Some s" "works ext (net_of r1) s"
    using works_refl [OF ok(1,2)] by (cases "l = Init_reset_message \<or> l = Free_blockwise_buffers") auto
  have "to_send ext (r1\<lparr>net_of := s\<rparr>)"
    using works_receive_ok [OF s(2) ok(3)] works_invs [OF s(2)] s(2) r1(1) by (auto simp: to_send_def works_def)
  then show ?thesis
    using at_send_message_net [of ext "r1\<lparr>net_of := s\<rparr>" pkt close_notify rx] s(1) ext tok r1
    unfolding at_label_def Let_def r1_def [symmetric] by simp
qed

section \<open>The whole of \<open>coap_receive\<close>\<close>

lemma parse_incoming_total:
  assumes len: "length (mdata m) = OC_PDU_SIZE" and n: "mlength m + 4 \<le> OC_PDU_SIZE"
  shows "\<exists>st pkt rx. parse_incoming m = Some (st, pkt, rx) \<and> length rx = OC_PDU_SIZE"
proof -
  have pdu: "OC_PDU_SIZE < 65536" "14 \<le> OC_PDU_SIZE" by (simp_all add: OC_PDU_SIZE_def COAP_MAX_HEADER_SIZE_val OC_MAX_APP_DATA_SIZE_def)
  have w: "unat (of_nat (mlength m) :: u16) = mlength m" "unat (of_nat (mlength m) :: u32) = mlength m"
    using n pdu(1) by (simp_all add: unat_of_nat)
  have "parse_safe (mdata m) (mlength m) (parse_incoming m)"
    using coap_tcp_parse_message_safe [of "of_nat (mlength m)" "mdata m"] coap_udp_parse_message_safe [of "of_nat (mlength m)" "mdata m"]
      w len n pdu(2) by (simp add: parse_incoming_def)
  then show ?thesis using len by (auto simp: parse_safe_def split: option.splits)
qed

lemma parse_incoming_ok:
  assumes len: "length (mdata m) = OC_PDU_SIZE" and n: "mlength m + 4 \<le> OC_PDU_SIZE"
    and p: "parse_incoming m = Some (COAP_NO_ERROR, pkt, rx)"
  shows "parsed_ok OC_PDU_SIZE pkt" and "type pkt = COAP_TYPE_CON \<Longrightarrow> flags (mendpoint m) AND TCP = 0"
proof -
  have pdu: "OC_PDU_SIZE < 65536" "14 \<le> OC_PDU_SIZE" by (simp_all add: OC_PDU_SIZE_def COAP_MAX_HEADER_SIZE_val OC_MAX_APP_DATA_SIZE_def)
  have w: "unat (of_nat (mlength m) :: u16) = mlength m" "unat (of_nat (mlength m) :: u32) = mlength m"
    using n pdu(1) by (simp_all add: unat_of_nat)
  note tcp = tcp_parse_result [of "of_nat (mlength m)" "mdata m" pkt rx] and udp = udp_parse_result [of "of_nat (mlength m)" "mdata m" pkt rx]
  show "parsed_ok OC_PDU_SIZE pkt" using tcp udp p w len n pdu(2) by (auto simp: parse_incoming_def split: if_splits)
  show "type pkt = COAP_TYPE_CON \<Longrightarrow> flags (mendpoint m) AND TCP = 0"
    using tcp p w len n pdu(2) by (auto simp: parse_incoming_def split: if_splits)
qed

text \<open>What the stages before the handler leave in place: the message being received and the tree.\<close>

definition before_handler :: "(addr \<Rightarrow> nat) \<Rightarrow> oc_endpoint \<Rightarrow> addr \<Rightarrow> net \<Rightarrow> net \<Rightarrow> bool" where
  "before_handler ext endpoint d s s' \<longleftrightarrow> net_inv s' ext \<and> sep_inv s' \<and> \<not> ring_full s' \<and> same_tree s s' \<and>
     (\<exists>m. msgs s' d = Some m \<and> mendpoint m = endpoint)"

lemma message_kept:
  assumes "net_inv s' ext" and "0 < ext d" and "sub_msgs (msgs s') (msgs s)" and "msgs s d = Some m"
  shows "\<exists>m'. msgs s' d = Some m' \<and> mendpoint m' = mendpoint m"
proof -
  have "0 < all_refs s' ext d" using assms(2) by (simp add: all_refs_def)
  with net_inv_refs [OF assms(1)] obtain m' where "msgs s' d = Some m'" using refs_ok_live by blast
  then show ?thesis using assms(3,4) by (fastforce simp: sub_msgs_def)
qed

lemma clear_answered_net:
  assumes b: "before_handler ext endpoint d s0 s" and ext: "0 < ext d"
  shows "\<exists>s'. clear_answered s pkt endpoint = Some s' \<and> before_handler ext endpoint d s0 s'"
proof (cases "flags endpoint AND TCP = 0")
  case False
  then show ?thesis using b by (simp add: clear_answered_def)
next
  case True
  have inv: "net_inv s ext" and sep: "sep_inv s" using b by (simp_all add: before_handler_def)
  then have "registry transactions_memb (trans s) (transactions_list s)" by (simp add: net_inv_def state_inv_def)
  then have live: "\<forall>a \<in> set (transactions_list s). trans s a \<noteq> None" by (auto simp: registry_def)
  obtain f where f: "coap_get_transaction_by_mid s (mid pkt) = Some f" "\<And>t. f = Some t \<Longrightarrow> trans s t \<noteq> None"
    unfolding coap_get_transaction_by_mid_def using live by (auto simp: find_on_live dest: find_SomeD)
  show ?thesis
  proof (cases f)
    case None
    then show ?thesis using True f(1) b by (simp add: clear_answered_def)
  next
    case (Some t)
    then obtain x where x: "trans s t = Some x" using f(2) by auto
    obtain s' where s': "coap_clear_transaction s t = Some s'" "net_inv s' ext" "sep_inv s'" "same_tree s s'" "ring_full s' = ring_full s"
      "sub_msgs (msgs s') (msgs s)" using clear_transaction_net [OF inv sep x] by blast
    then have "before_handler ext endpoint d s0 s'"
      using b message_kept [OF s'(2) ext s'(6)] same_tree_trans by (auto simp: before_handler_def)
    then show ?thesis using True f(1) Some s'(1) by (simp add: clear_answered_def)
  qed
qed

lemma history_before_handler:
  "before_handler ext endpoint d s0 (s\<lparr>current_mid := m, history := a, history_dev := b, history_idx := c\<rparr>) =
   before_handler ext endpoint d s0 s"
proof -
  let ?s = "s\<lparr>current_mid := m, history := a, history_dev := b, history_idx := c\<rparr>"
  have "sep_inv ?s = sep_inv s" by (rule sep_inv_cong) simp_all
  then show ?thesis by (simp add: before_handler_def net_inv_history ring_full_def same_tree_def)
qed

lemma begin_response_net:
  assumes b: "before_handler ext endpoint d s0 s" and r: "begin_response s pkt ep = Some (s', res)"
  shows "before_handler ext endpoint d s0 s'" and "reply res"
proof -
  have upd: "s\<lparr>history := a, history_dev := b, history_idx := c, current_mid := m\<rparr> =
      s\<lparr>current_mid := m, history := a, history_dev := b, history_idx := c\<rparr>" for a b c m by simp
  have "(s' = s \<or> (\<exists>m a b c. s' = s\<lparr>current_mid := m, history := a, history_dev := b, history_idx := c\<rparr>)) \<and> reply res"
    using r reply_init by (auto simp: begin_response_def net_mid_def record_request_def upd split: if_splits prod.splits) blast
  then show "before_handler ext endpoint d s0 s'" and "reply res" using b history_before_handler by auto
qed

lemma request_no_signal: "is_request pkt \<Longrightarrow> \<not> coap_check_signal_message pkt"
  by (auto simp: is_request_def coap_check_signal_message_def word_le_nat_alt)

text \<open>A datagram that is a request or that the parser rejects.\<close>

definition requesting :: "net \<Rightarrow> oc_message \<Rightarrow> bool" where
  "requesting s m \<longleftrightarrow> mlength m + 4 \<le> OC_PDU_SIZE \<and>
     (\<forall>pkt rx. parse_incoming m = Some (COAP_NO_ERROR, pkt, rx) \<longrightarrow> is_request pkt \<and> path_ok s rx pkt (edevice (mendpoint m)))"

lemma coap_receive_net:
  assumes sv: "services_ok sv" and inv: "net_inv s ext" and sep: "sep_inv s" and room: "\<not> ring_full s"
    and ext: "\<forall>a. ext a < 50" "0 < ext d" and m: "msgs s d = Some m" and req: "requesting s m"
  shows "\<exists>s' st. coap_receive sv close_notify s d = Some (s', st) \<and> net_inv s' ext \<and> sep_inv s'"
proof -
  have "msg_counts s (all_refs s ext) d" using net_inv_refs [OF inv] by (simp add: refs_ok_def)
  then have len: "length (mdata m) = OC_PDU_SIZE" using m by (simp add: msg_counts_def)
  have n: "mlength m + 4 \<le> OC_PDU_SIZE" using req by (simp add: requesting_def)
  obtain st pkt rx where p: "parse_incoming m = Some (st, pkt, rx)" "length rx = OC_PDU_SIZE" using parse_incoming_total [OF len n] by blast
  let ?ep = "mendpoint m" and ?s = "set_msg s d (m\<lparr>mdata := rx\<rparr>)"
  let ?r = "\<lparr>net_of = ?s, response = zero_packet, transaction = None, request_buffer = None, response_buffer = None, coap_status_code = st\<rparr>"
  have "net_inv ?s ext" by (rule net_inv_set_msg [OF inv m]) (simp_all add: p(2) len)
  then have b0: "before_handler ext ?ep d s ?s" using sep room set_msg_sep
    by (simp add: before_handler_def ring_full_def same_tree_def) (simp add: set_msg_def)
  show ?thesis
  proof (cases "st = COAP_NO_ERROR")
    case False
    let ?q = "at_init_reset_message ?r pkt ?ep"
    have "to_send ext ?q" using b0 reply_init by (simp add: at_init_reset_message_def to_send_def receive_ok_def before_handler_def)
    then have "\<exists>s'. at_label close_notify ?q Init_reset_message rx pkt ?ep = Some (s', st) \<and> net_inv s' ext \<and> sep_inv s'"
      using at_label_net [OF _ ext(1), of ?q pkt close_notify Init_reset_message rx ?ep] by (simp add: at_init_reset_message_def)
    moreover have "at_label close_notify ?q Init_reset_message rx pkt ?ep = at_label close_notify ?r Init_reset_message rx pkt ?ep"
      by (simp add: at_label_def at_init_reset_message_def Let_def)
    moreover have "coap_receive sv close_notify s d = at_label close_notify ?r Init_reset_message rx pkt ?ep"
      using m p(1) False by (simp add: coap_receive_def Let_def)
    ultimately show ?thesis by (metis (no_types))
  next
    case True
    then have rq: "is_request pkt" "path_ok s rx pkt (edevice ?ep)" using req p(1) by (auto simp: requesting_def)
    have po: "parsed_ok OC_PDU_SIZE pkt" and con: "type pkt = COAP_TYPE_CON \<Longrightarrow> flags ?ep AND TCP = 0"
      using parse_incoming_ok [OF len n] p(1) True by auto
    obtain s1 where s1: "clear_answered ?s pkt ?ep = Some s1" "before_handler ext ?ep d s s1" using clear_answered_net [OF b0 ext(2)] by blast
    show ?thesis
    proof (cases "begin_response s1 pkt ?ep")
      case None
      then show ?thesis using m p(1) True rq(1) request_no_signal s1 by (auto simp: coap_receive_def Let_def before_handler_def)
    next
      case (Some q)
      obtain s2 res where q: "q = (s2, res)" by fastforce
      note s2 = begin_response_net [OF s1(2) Some [unfolded q]]
      obtain m2 where m2: "msgs s2 d = Some m2" "mendpoint m2 = ?ep" using s2(1) by (auto simp: before_handler_def)
      let ?r2 = "?r\<lparr>net_of := s2, response := res\<rparr>"
      have "path_ok s2 rx pkt (edevice ?ep)" using rq(2) path_ok_tree [of s s2] s2(1) by (simp add: before_handler_def)
      then have rok: "request_ok s2 rx pkt (mendpoint m2)" using po con m2(2) by (simp add: request_ok_def parsed_ok_def)
      have "\<exists>r3 l. handle_request sv ?r2 rx pkt d ?ep = Some (r3, l) \<and> to_send ext r3 \<and>
          (coap_status_code r3 = coap_status_code ?r2 \<or> coap_status_code r3 = CLEAR_TRANSACTION)"
        using s2 m2(1) rok po p(2)
        by (intro handle_request_net [OF sv, where m = m2]) (simp_all add: before_handler_def receive_ok_def parsed_ok_def)
      then obtain r3 l where r3: "handle_request sv ?r2 rx pkt d ?ep = Some (r3, l)" "to_send ext r3" by blast
      have "\<exists>s'. at_label close_notify r3 l rx pkt ?ep = Some (s', coap_status_code r3) \<and> net_inv s' ext \<and> sep_inv s'"
        using at_label_net [OF r3(2) ext(1)] rq(1) po by (simp add: parsed_ok_def)
      then show ?thesis using m p(1) True rq(1) request_no_signal s1(1) Some q r3(1) by (auto simp: coap_receive_def Let_def)
    qed
  qed
qed

section \<open>Requests served\<close>

definition demo_services :: services where
  "demo_services = (let f = (\<lambda>s rq i. Some (s, \<lparr>rs_code = 69, rs_length = 0, rs_buffer = replicate OC_MAX_APP_DATA_SIZE 0, rs_separate = NULL_PTR\<rparr>))
     in \<lparr>oc_parse_rep = (\<lambda>_. Malformed), invoke = (\<lambda>_. f), oc_handle_collection_request = (\<lambda>_. f), cred_valid = (\<lambda>_. False),
         response_handler = (\<lambda>_ s _. Some s), oc_ri_process_discovery_payload = (\<lambda>_ s _ _ _. Some (s, True)),
         endpoint_at = (\<lambda>_. zero_endpoint)\<rparr>)"

lemma demo_services_ok: "services_ok demo_services"
  using goes_refl by (simp add: services_ok_def handler_ok_def demo_services_def Let_def)

text \<open>\<open>GET /a\<close>, confirmable, with message id 7.\<close>

definition get_a :: "bytes \<Rightarrow> bytes" where
  "get_a rest = [0x40, 1, 0, 7, 0xB1, 0x61] @ rest"

lemma get_a_step:
  assumes "code p = 1" and "uri_path_len p = 0"
  shows "parse_option p (get_a rest) 6 0 4 = Some (Continue (SET_OPTION p 11\<lparr>uri_path := Buf 5, uri_path_len := 1\<rparr>) (get_a rest) 11 6)"
  using assms by (simp add: get_a_def parse_option_def rd_def wr_mem_def Let_def read_ext_def parse_option_value_def
      coap_merge_multi_option_def coap_check_signal_message_def SET_OPTION_def)

lemma get_a_parsed:
  shows "\<exists>pkt. coap_udp_parse_message (get_a rest) 6 = Some (COAP_NO_ERROR, pkt, get_a rest) \<and> code pkt = 1 \<and>
     request_path (get_a rest) pkt = Some (0x61 # rest)"
proof -
  let ?p = "zero_packet\<lparr>transport_type := COAP_TRANSPORT_UDP, version := 1, type := type_of_code 0, token_len := 0, code := 1, mid := 7,
    options := replicate 8 0\<rparr>"
  have "parse_options ?p (get_a rest) 6 0 4 = Some (COAP_NO_ERROR, SET_OPTION ?p 11\<lparr>uri_path := Buf 5, uri_path_len := 1\<rparr>, get_a rest)"
    by (subst parse_options.simps, subst get_a_step) (simp_all add: parse_options.simps)
  then have "coap_udp_parse_message (get_a rest) 6 = Some (COAP_NO_ERROR, SET_OPTION ?p 11\<lparr>uri_path := Buf 5, uri_path_len := 1\<rparr>, get_a rest)"
    by (simp add: get_a_def coap_udp_parse_message_def coap_parse_token_option_def rd_def rd_slice_def Let_def)
  then show ?thesis by (simp add: request_path_def coap_get_header_uri_path_def IS_OPTION_def SET_OPTION_def is_option_set_option_bit get_a_def)
qed

definition got_message :: oc_message where
  "got_message = zero_message\<lparr>mpool := Incoming, mref := 1, mendpoint := zero_endpoint, mdata := get_a (replicate (OC_PDU_SIZE - 6) 0), mlength := 6\<rparr>"

lemma got_message_inv:
  obtains s a where "net_inv s ((\<lambda>_. 0)(a := 1))" and "sep_inv s" and "\<not> ring_full s" and "msgs s a = Some got_message" and "collections s = []"
proof -
  have room: "obj_room oc_incoming_buffers (msgs init_net) \<noteq> 0" by (simp add: obj_room_def pool_defs init_net_def)
  obtain s1 r where al: "allocate_message init_net Incoming = (s1, r)" by fastforce
  then obtain a where a: "r = Some a" using room allocate_message_None [of init_net Incoming s1] by (cases r) auto
  note n = net_inv_allocate [OF init_net_inv al [unfolded a]]
  obtain m where m: "msgs s1 = (msgs init_net)(a \<mapsto> m)" "mref m = 1" "length (mdata m) = OC_PDU_SIZE" "mpool m = Incoming" using n(5) by blast
  let ?s = "set_msg s1 a got_message"
  have len: "length (mdata got_message) = OC_PDU_SIZE"
    by (simp add: got_message_def get_a_def OC_PDU_SIZE_def COAP_MAX_HEADER_SIZE_val OC_MAX_APP_DATA_SIZE_def)
  have "net_inv ?s ((\<lambda>_. 0)(a := 1))" by (rule net_inv_set_msg [OF n(1), of a m]) (simp_all add: m len, simp_all add: got_message_def)
  moreover have "sep_inv s1" by (rule sep_inv_frame [OF n(4)]) (simp add: sep_inv_def waits_ok_def init_net_def)
  moreover have "collections s1 = []" using n(4) by (auto simp: send_frame_def init_net_def)
  moreover have "\<not> ring_full s1" using allocate_ring [OF al] by (simp add: ring_full_def init_net_def init_etimers_def init_ring_def)
  ultimately show thesis using that [of ?s a] set_msg_sep by (simp add: set_msg_def ring_full_def)
qed



end
