(* ===== verification/Spec2Isabelle.thy ===== *)
theory Spec2Isabelle
  imports Coap_Roundtrip OC_Memb OC_Mmem OC_Etimer OC_Base64 Sec_Pstat Net_Receive OC_Query
begin

text \<open>
  Verification of IoTivity-Constrained, an implementation of the OCF framework for constrained
  devices.

  \<^bold>\<open>The program.\<close> Datagrams and TCP segments enter through a port (\<open>src/port\<close>) as reference-counted
  messages and travel as events through a cooperative scheduler (\<open>src/util\<close>): from the network
  process to TLS or to the CoAP engine (\<open>src/messaging/coap\<close>), which parses them, matches
  them with transactions, observers, client callbacks and block-wise buffers, and calls the
  resource layer (\<open>src/api\<close>). Responses and retransmissions go the opposite way. Who may do what
  is decided by the security resources (\<open>src/security\<close>), themselves provisioned by requests.

  \<^bold>\<open>Configuration.\<close> The build without \<open>OC_DYNAMIC_ALLOCATION\<close> and with \<open>OC_CLIENT\<close>, \<open>OC_SERVER\<close>,
  \<open>OC_SECURITY\<close>, \<open>OC_PKI\<close>, \<open>OC_TCP\<close>, \<open>OC_BLOCK_WISE\<close> and \<open>OC_COLLECTIONS\<close>; sizes are those
  of \<open>src/port/linux/oc_config.h\<close>. Where both builds differ and both are interesting (the event
  ring) both are modelled.

  \<^bold>\<open>Conventions.\<close> C integers are words of their width, \<open>size_t\<close> and lengths are natural numbers where
  they cannot overflow. A result \<open>None\<close> is undefined behaviour: an access outside an object, to a
  freed object, or a loop that does not end. Theorems of the form \<open>\<exists>s'. f s = Some s' \<and> ...\<close> thus
  include memory safety and termination. Errors the code reports are values of its return type.
  Recursion needs no fuel: loops are structural on the list they walk or have a measure, and
  walks along \<open>next\<close> pointers are partial functions whose termination is proved from the shape
  of the list.

  \<^bold>\<open>Theories and sources.\<close>

  \<^item> \<open>OC_Prelude\<close>: C types, memory regions, shared lemmas.
  \<^item> \<open>OC_List\<close> (\<open>src/util/oc_list.c\<close>): linked lists over a heap of pointers; the locale \<open>linked_list\<close> is
    the interface, interpreted on the pointer operations; they refine operations on sequences.
  \<^item> \<open>OC_Memb\<close>, \<open>OC_Mmem\<close> (\<open>src/util/oc_memb.c\<close>, \<open>src/util/oc_mmem.c\<close>): the block allocator with the
    interface \<open>block_pool\<close>, and the compacting string and array memory over \<open>OC_List\<close>.
  \<^item> \<open>OC_Event_Queue\<close>, \<open>OC_Process\<close> (\<open>src/util/oc_process.c\<close>): the event ring as a FIFO queue (locale
    \<open>fifo\<close>), starting, polling, calling and exiting processes. Protothreads are a parameter.
  \<^item> \<open>OC_Etimer\<close> (\<open>src/util/oc_timer.c\<close>, \<open>src/util/oc_etimer.c\<close>): event timers and their process.
  \<^item> \<open>OC_Base64\<close>, \<open>OC_Uuid\<close> (\<open>src/api\<close>): text encodings.
  \<^item> \<open>Coap_Packet\<close>, \<open>Coap_Serialize\<close>, \<open>Coap_Parse\<close>, \<open>Coap_Signal\<close> (\<open>src/messaging/coap/coap.c\<close>,
    \<open>coap_signal.c\<close>): the packet and its accessors, serialiser and parser over UDP and TCP.
    \<open>Coap_Message\<close>, \<open>Coap_Codec\<close> and \<open>Coap_View\<close> relate both to byte strings and options;
    \<open>Coap_Parse_Safe\<close> shows that the parser stays in its buffer, \<open>Coap_Refine\<close> that it refines an
    abstract reading of the options, \<open>Coap_Roundtrip\<close> that parsing inverts serialising.
  \<^item> \<open>Net_Types\<close>: the state of the messaging layer, one record \<open>net\<close>: typed pools (an
    interpretation of \<open>block_pool\<close>), lists, timers, scheduler, outputs.
  \<^item> \<open>Net_Buffer\<close> (\<open>src/api/oc_buffer.c\<close>): reference-counted messages; the invariant \<open>refs_ok\<close> counts
    every reference.
  \<^item> \<open>Net_Timed\<close>, \<open>Net_Client\<close> (\<open>src/api/oc_ri.c\<close>): timed callbacks and client callbacks.
  \<^item> \<open>Net_Blockwise\<close> (\<open>src/api/oc_blockwise.c\<close>): buffers of block-wise transfers; a transfer
    reassembles the payload whatever order and repetition of blocks.
  \<^item> \<open>Net_Observe\<close> (\<open>src/messaging/coap/observe.c\<close>): registration and removal of observers.
  \<^item> \<open>Net_Session\<close> (\<open>src/security/oc_tls.c\<close>, \<open>src/api/oc_session_events.c\<close>, \<open>coap.c\<close>): the end of a
    session, sending, and \<open>net_inv\<close>, the invariant of the whole layer.
  \<^item> \<open>Net_Transactions\<close> (\<open>src/messaging/coap/transactions.c\<close>): transactions, their schedule of
    retransmissions as an inductive relation.
  \<^item> \<open>Net_Separate\<close> (\<open>src/messaging/coap/separate.c\<close>): requests accepted for a later answer, the empty
    acknowledgement; \<open>sep_inv\<close> is the invariant of the waiting requests.
  \<^item> \<open>Net_Signal\<close> (\<open>src/messaging/coap/coap_signal.c\<close>): signals over TCP.
  \<^item> \<open>OC_Query\<close> (\<open>src/api/oc_ri.c\<close>, \<open>oc_server_api.c\<close>): keys and values of a query. \<open>Coap_Parsed\<close>: what
    holds of every packet the parsers accept.
  \<^item> \<open>Net_Request\<close> (\<open>src/api/oc_ri.c\<close>, \<open>oc_collection.c\<close>): a request on its way to the handler of a resource
    and its answer back, \<open>oc_ri_invoke_coap_entity_handler\<close>, cut into the stages of the source; the
    record \<open>services\<close> holds the parameters: handlers, the CBOR parser, the check of certificates.
    \<open>Net_Request_Inv\<close>: every stage keeps \<open>net_inv\<close> when the handlers do (\<open>services_ok\<close>), and a handler
    matters only for a request that its interface and the access control list admit.
  \<^item> \<open>Net_Response\<close> (\<open>src/api/oc_ri.c\<close>): \<open>oc_ri_invoke_client_cb\<close>, a response handed to its callback.
  \<^item> \<open>Net_Engine\<close> (\<open>src/messaging/coap/engine.c\<close>): \<open>coap_receive\<close> and its process; the record \<open>receive\<close> has
    the variables of the function, the datatype \<open>label\<close> the targets of its jumps. \<open>Net_Engine_Inv\<close>: the
    history of requests and the stages before the handler; \<open>Net_Receive\<close>: the whole of
    \<open>coap_receive\<close> for requests and rejected datagrams.
  \<^item> \<open>Sec_Types\<close>, \<open>Sec_Acl\<close>, \<open>Sec_Acl_Update\<close>, \<open>Sec_Acl_Inv\<close> (\<open>src/security/oc_acl.c\<close>): the access
    decision against a declarative policy, provisioning of access control lists.
  \<^item> \<open>Sec_Ownership\<close>, \<open>Sec_Pstat\<close> (\<open>oc_doxm.c\<close>, \<open>oc_pstat.c\<close>, \<open>oc_sp.c\<close>): ownership transfer and the
    device states as a step relation with reachable states.

  \<^bold>\<open>What is shown.\<close> The codec: round trips, memory safety, refinement. The utilities: refinement of
  sequences and queues, allocators that keep every other object, timers that fire exactly when
  due. The messaging layer: exact reference counts, exact sets of observers, block-wise reassembly,
  the retransmission schedule, and one invariant kept by all operations, up to the engine: every datagram that is a request or
  that the parser rejects is brought to its end. Security: the access
  decision equals the policy, the reachable device states satisfy their invariant, ownership is
  lost only by a reset. Several theorems state where the code fails (a read past the message, an
  overrun of a UUID, a corrupted integer pool, prefix matching of paths).

  \<^bold>\<open>Bounds.\<close> \<open>net_inv\<close> bounds the event ring by 100 entries and the references from outside by 50 per
  message, so that the 8-bit counters cannot wrap; the build has 10 entries and three messages
  per direction.

  \<^bold>\<open>Not modelled.\<close> CBOR (tinycbor) and TLS (mbedTLS) are git submodules without sources; code that
  only calls them or builds payloads with their macros is left out: \<open>oc_rep.c\<close>, the payloads of the
  core resources, discovery, requests to collections, notification of observers, the handshake in \<open>oc_tls.c\<close>,
  certificates, storage, the onboarding tool. Ports are input and output and threads of the
  operating systems; of them only the state of TCP connections is modelled. Applications, tests and
  the vendored time stamp library are outside the scope. Of responses the engine is modelled, but
  its guarantee is stated for requests only: a response that finds no free buffer is undefined
  behaviour in \<open>oc_ri_invoke_client_cb\<close>.
\<close>

end
